(* ===== verification/Misaka_Prelude.thy ===== *)
theory Misaka_Prelude
  imports Main "HOL-Library.Word" "HOL-Library.AList" "HOL-Library.List_Lexorder"
    "HOL-Library.Product_Lexorder" "HOL-Library.Multiset"
begin

text \<open>
  The vocabulary shared by the component theories.

  \<^item> Machine integers. Rust's unsigned integers are natural numbers here. Every place where
    the source saturates, checks or truncates is written out with the operations of the first
    section, so a model value can exceed its width only where the source would panic or wrap on
    plain arithmetic; the theorems then carry the bound as a hypothesis.
  \<^item> Hash maps. A \<open>HashMap\<close> is an association list with distinct keys; the list order stands for
    the (unspecified) iteration order of the map. The locale \<open>hash_map\<close> is the interface the
    components rely on, interpreted on \<open>map_of\<close>, \<open>AList.update\<close> and \<open>AList.delete\<close>.
  \<^item> Lists. Facts on folds, prefixes and sums that several components use.
\<close>

section \<open>Machine integers\<close>

type_synonym u8 = "8 word"
type_synonym bytes = "u8 list"
type_synonym u16 = nat
type_synonym u32 = nat
type_synonym u64 = nat
type_synonym u128 = nat
type_synonym usize = nat

named_theorems arith_defs "the machine-integer operations, unfolded"

definition u64_max :: nat where
  "u64_max = 2 ^ 64 - 1"

definition u128_max :: nat where
  "u128_max = 2 ^ 128 - 1"

definition sat_add :: "nat \<Rightarrow> nat \<Rightarrow> nat \<Rightarrow> nat" where
  "sat_add mx a b = min mx (a + b)"

definition sat_mul :: "nat \<Rightarrow> nat \<Rightarrow> nat \<Rightarrow> nat" where
  "sat_mul mx a b = min mx (a * b)"

abbreviation sat_add64 :: "u64 \<Rightarrow> u64 \<Rightarrow> u64" where
  "sat_add64 \<equiv> sat_add u64_max"

abbreviation sat_mul64 :: "u64 \<Rightarrow> u64 \<Rightarrow> u64" where
  "sat_mul64 \<equiv> sat_mul u64_max"

abbreviation sat_add128 :: "u128 \<Rightarrow> u128 \<Rightarrow> u128" where
  "sat_add128 \<equiv> sat_add u128_max"

abbreviation sat_mul128 :: "u128 \<Rightarrow> u128 \<Rightarrow> u128" where
  "sat_mul128 \<equiv> sat_mul u128_max"

definition checked_sub :: "nat \<Rightarrow> nat \<Rightarrow> nat option" where
  "checked_sub a b = (if b \<le> a then Some (a - b) else None)"

definition checked_add :: "nat \<Rightarrow> nat \<Rightarrow> nat \<Rightarrow> nat option" where
  "checked_add mx a b = (if a + b \<le> mx then Some (a + b) else None)"

definition checked_mul :: "nat \<Rightarrow> nat \<Rightarrow> nat \<Rightarrow> nat option" where
  "checked_mul mx a b = (if a * b \<le> mx then Some (a * b) else None)"

definition cast_u64 :: "nat \<Rightarrow> u64" where
  "cast_u64 n = n mod (u64_max + 1)"

definition u32_max :: nat where
  "u32_max = 2 ^ 32 - 1"

definition cast_u32 :: "nat \<Rightarrow> u32" where
  "cast_u32 n = n mod (u32_max + 1)"

lemmas [arith_defs] = u64_max_def u128_max_def sat_add_def sat_mul_def checked_sub_def
  checked_add_def checked_mul_def cast_u64_def u32_max_def cast_u32_def

lemma u64_max_pos [simp]: "0 < u64_max"
  by (simp add: u64_max_def)

lemma u128_max_pos [simp]: "0 < u128_max"
  by (simp add: u128_max_def)

lemma u64_sq_le_u128: "u64_max * u64_max \<le> u128_max"
  by (simp add: u64_max_def u128_max_def)

lemma sat_add_le [simp]: "sat_add mx a b \<le> mx"
  by (simp add: sat_add_def)

lemma sat_mul_le [simp]: "sat_mul mx a b \<le> mx"
  by (simp add: sat_mul_def)

lemma sat_add_exact: "a + b \<le> mx \<Longrightarrow> sat_add mx a b = a + b"
  by (simp add: sat_add_def)

lemma sat_mul_exact: "a * b \<le> mx \<Longrightarrow> sat_mul mx a b = a * b"
  by (simp add: sat_mul_def)

lemma sat_add_le_sum: "sat_add mx a b \<le> a + b"
  by (simp add: sat_add_def)

lemma sat_mul_le_prod: "sat_mul mx a b \<le> a * b"
  by (simp add: sat_mul_def)

lemma sat_add_mono: "a \<le> a' \<Longrightarrow> b \<le> b' \<Longrightarrow> sat_add mx a b \<le> sat_add mx a' b'"
  unfolding sat_add_def by (rule min.mono) auto

lemma sat_mul_mono: "a \<le> a' \<Longrightarrow> b \<le> b' \<Longrightarrow> sat_mul mx a b \<le> sat_mul mx a' b'"
  unfolding sat_mul_def by (rule min.mono) (auto intro: mult_le_mono)

lemma sat_add_ge_left: "a \<le> mx \<Longrightarrow> a \<le> sat_add mx a b"
  by (simp add: sat_add_def)

lemma sat_add_0 [simp]: "a \<le> mx \<Longrightarrow> sat_add mx a 0 = a"
  by (simp add: sat_add_def)

lemma sat_add_commute: "sat_add mx a b = sat_add mx b a"
  by (simp add: sat_add_def add.commute)

lemma sat_add_left_commute: "sat_add mx (sat_add mx a b) c = sat_add mx (sat_add mx a c) b"
  by (simp add: sat_add_def)

lemma cast_u64_exact: "n \<le> u64_max \<Longrightarrow> cast_u64 n = n"
  by (simp add: cast_u64_def)

lemma cast_u64_le [simp]: "cast_u64 n \<le> u64_max"
proof -
  have "n mod (u64_max + 1) < u64_max + 1"
    by (rule mod_less_divisor) simp
  then show ?thesis
    by (simp add: cast_u64_def)
qed

lemma cast_u32_exact: "n \<le> u32_max \<Longrightarrow> cast_u32 n = n"
  by (simp add: cast_u32_def)

lemma checked_add_Some [simp]: "checked_add mx a b = Some c \<longleftrightarrow> a + b \<le> mx \<and> c = a + b"
  by (auto simp: checked_add_def)

lemma checked_add_None [simp]: "checked_add mx a b = None \<longleftrightarrow> mx < a + b"
  by (auto simp: checked_add_def)

lemma checked_mul_Some [simp]: "checked_mul mx a b = Some c \<longleftrightarrow> a * b \<le> mx \<and> c = a * b"
  by (auto simp: checked_mul_def)

lemma checked_sub_Some [simp]: "checked_sub a b = Some c \<longleftrightarrow> b \<le> a \<and> c = a - b"
  by (auto simp: checked_sub_def)

lemma checked_sub_None [simp]: "checked_sub a b = None \<longleftrightarrow> a < b"
  by (auto simp: checked_sub_def)

text \<open>A saturating sum over a list is the exact sum, clamped once.\<close>

lemma fold_sat_add:
  "a \<le> mx \<Longrightarrow> fold (\<lambda>x acc. sat_add mx acc (f x)) xs a = min mx (a + sum_list (map f xs))"
proof (induction xs arbitrary: a)
  case Nil
  then show ?case by simp
next
  case (Cons x xs)
  then show ?case by (simp add: sat_add_def min_def)
qed

text \<open>Floor division never gives more than the exact share.\<close>

lemma floor_share_le: "a * b div c \<le> a" if "b \<le> c" for a b c :: nat
proof (cases "c = 0")
  case False
  have "a * b div c \<le> a * c div c"
    by (intro div_le_mono mult_le_mono) (use that in auto)
  also have "\<dots> = a"
    using False by simp
  finally show ?thesis .
qed simp

lemma sum_list_div_le: "(\<Sum>x\<leftarrow>xs. f x div c) \<le> (\<Sum>x\<leftarrow>xs. f x) div c" for c :: nat
proof (induction xs)
  case (Cons x xs)
  have "f x div c + (\<Sum>x\<leftarrow>xs. f x) div c \<le> (f x + (\<Sum>x\<leftarrow>xs. f x)) div c"
  proof (cases "c = 0")
    case False
    have "c * (f x div c + (\<Sum>x\<leftarrow>xs. f x) div c) \<le> f x + (\<Sum>x\<leftarrow>xs. f x)"
      unfolding distrib_left by (rule add_mono) simp_all
    then show ?thesis
      using False by (simp add: less_eq_div_iff_mult_less_eq mult.commute)
  qed simp
  then show ?case
    using Cons by simp
qed simp

section \<open>Hash maps\<close>

text \<open>The interface of \<open>std::collections::HashMap\<close> the components rely on.\<close>

locale hash_map =
  fixes empty :: 'm
    and get :: "'m \<Rightarrow> 'k \<Rightarrow> 'v option"
    and put :: "'k \<Rightarrow> 'v \<Rightarrow> 'm \<Rightarrow> 'm"
    and del :: "'k \<Rightarrow> 'm \<Rightarrow> 'm"
    and wf :: "'m \<Rightarrow> bool"
  assumes get_empty: "get empty k = None"
    and get_put: "get (put k v m) = (get m)(k \<mapsto> v)"
    and get_del: "get (del k m) = (get m)(k := None)"
    and wf_empty: "wf empty"
    and wf_put: "wf m \<Longrightarrow> wf (put k v m)"
    and wf_del: "wf m \<Longrightarrow> wf (del k m)"
begin

lemma get_put_all: "get (fold (\<lambda>(k, v). put k v) kvs m) = get m ++ map_of (rev kvs)"
proof (induction kvs arbitrary: m)
  case (Cons kv kvs)
  then show ?case
    by (cases kv) (auto simp: get_put map_add_def fun_eq_iff split: option.splits)
qed simp

lemma get_del_all: "get (fold del ks m) = (\<lambda>k. if k \<in> set ks then None else get m k)"
  by (induction ks arbitrary: m) (auto simp: get_del fun_eq_iff)

lemma wf_put_all: "wf m \<Longrightarrow> wf (fold (\<lambda>(k, v). put k v) kvs m)"
  by (induction kvs arbitrary: m) (auto simp: wf_put)

lemma wf_del_all: "wf m \<Longrightarrow> wf (fold del ks m)"
  by (induction ks arbitrary: m) (auto simp: wf_del)

lemma del_put_get: "get m k = None \<Longrightarrow> get (del k (put k v m)) = get m"
  by (auto simp: get_del get_put)

end

type_synonym ('k, 'v) hashmap = "('k \<times> 'v) list"

definition hm_get :: "('k, 'v) hashmap \<Rightarrow> 'k \<Rightarrow> 'v option" where
  "hm_get m = map_of m"

definition hm_insert :: "'k \<Rightarrow> 'v \<Rightarrow> ('k, 'v) hashmap \<Rightarrow> ('k, 'v) hashmap" where
  "hm_insert k v m = AList.update k v m"

definition hm_remove :: "'k \<Rightarrow> ('k, 'v) hashmap \<Rightarrow> ('k, 'v) hashmap" where
  "hm_remove k m = AList.delete k m"

definition hm_contains :: "('k, 'v) hashmap \<Rightarrow> 'k \<Rightarrow> bool" where
  "hm_contains m k = (hm_get m k \<noteq> None)"

definition hm_wf :: "('k, 'v) hashmap \<Rightarrow> bool" where
  "hm_wf m = distinct (map fst m)"

named_theorems hm_defs "the hash-map operations as association-list functions"

lemmas [hm_defs] = hm_get_def hm_insert_def hm_remove_def hm_contains_def hm_wf_def

interpretation hm: hash_map "[]" hm_get hm_insert hm_remove hm_wf
  by unfold_locales
    (auto simp: hm_defs update_conv' delete_conv' distinct_update distinct_delete)

lemmas hm_laws [simp] = hm.get_empty hm.get_put hm.get_del hm.wf_empty hm.wf_put hm.wf_del

lemma hm_get_in_set: "hm_wf m \<Longrightarrow> hm_get m k = Some v \<longleftrightarrow> (k, v) \<in> set m"
  by (simp add: hm_defs)

lemma hm_contains_keys: "hm_contains m k \<longleftrightarrow> k \<in> fst ` set m"
  unfolding hm_contains_def hm_get_def by (metis map_of_eq_None_iff)

text \<open>Updating the value of a key in place (\<open>get_mut\<close>).\<close>

definition hm_modify :: "'k \<Rightarrow> ('v \<Rightarrow> 'v) \<Rightarrow> ('k, 'v) hashmap \<Rightarrow> ('k, 'v) hashmap" where
  "hm_modify k f m = (case hm_get m k of Some v \<Rightarrow> hm_insert k (f v) m | None \<Rightarrow> m)"

lemma hm_get_modify [simp]: "hm_get (hm_modify k f m) = (hm_get m)(k := map_option f (hm_get m k))"
  by (auto simp: hm_modify_def split: option.splits)

lemma hm_wf_modify [simp]: "hm_wf m \<Longrightarrow> hm_wf (hm_modify k f m)"
  by (auto simp: hm_modify_def split: option.splits)

text \<open>Two maps with the same lookups have the same entries, in some order.\<close>

lemma hm_get_eq_mset:
  assumes "hm_wf m" "hm_wf m'" "hm_get m = hm_get m'"
  shows "mset m = mset m'"
proof -
  have "set m = set m'"
    using assms by (metis hm_get_def hm_wf_def map_of_inject_set)
  moreover have "distinct m" "distinct m'"
    using assms(1,2) by (auto simp: hm_wf_def distinct_map)
  ultimately show ?thesis
    by (simp add: set_eq_iff_mset_eq_distinct)
qed

text \<open>Inserting the entries of one map that satisfy a predicate into another.\<close>

definition hm_insert_if :: "('k \<Rightarrow> 'v \<Rightarrow> bool) \<Rightarrow> ('k, 'v) hashmap \<Rightarrow> ('k, 'v) hashmap \<Rightarrow> ('k, 'v) hashmap" where
  "hm_insert_if P xs m = fold (\<lambda>(k, v) m. if P k v then hm_insert k v m else m) xs m"

lemma hm_get_insert_if:
  "hm_wf xs \<Longrightarrow> hm_get (hm_insert_if P xs m) k =
     (case hm_get xs k of Some v \<Rightarrow> if P k v then Some v else hm_get m k | None \<Rightarrow> hm_get m k)"
proof (induction xs arbitrary: m)
  case Nil
  then show ?case by (simp add: hm_insert_if_def hm_get_def)
next
  case (Cons x xs)
  obtain k' v' where x: "x = (k', v')" by (cases x)
  have "hm_wf xs" and "hm_get xs k' = None"
    using Cons.prems by (auto simp: hm_wf_def hm_get_def x map_of_eq_None_iff)
  moreover have "hm_insert_if P (x # xs) m = hm_insert_if P xs (if P k' v' then hm_insert k' v' m else m)"
    by (simp add: hm_insert_if_def x)
  moreover have "hm_get (x # xs) = (hm_get xs)(k' \<mapsto> v')"
    by (simp add: hm_get_def x)
  ultimately show ?case
    by (auto simp: Cons.IH split: option.splits)
qed

lemma hm_wf_insert_if: "hm_wf m \<Longrightarrow> hm_wf (hm_insert_if P xs m)"
  unfolding hm_insert_if_def by (induction xs arbitrary: m) auto

lemma fold_partition_insert:
  "fold (\<lambda>(k, v) (a, b). if P k v then (hm_insert k v a, b) else (a, hm_insert k v b)) xs (a, b)
   = (hm_insert_if P xs a, hm_insert_if (\<lambda>k v. \<not> P k v) xs b)"
  unfolding hm_insert_if_def by (induction xs arbitrary: a b) auto

section \<open>Results\<close>

text \<open>A \<open>Result\<close> is a sum with the error on the left. \<open>fold_res\<close> is a loop whose body may return
  early with an error (the \<open>?\<close> operator).\<close>

fun fold_res :: "('a \<Rightarrow> 's \<Rightarrow> 'e + 's) \<Rightarrow> 'a list \<Rightarrow> 's \<Rightarrow> 'e + 's" where
  "fold_res f [] s = Inr s"
| "fold_res f (x # xs) s = (case f x s of Inl e \<Rightarrow> Inl e | Inr s' \<Rightarrow> fold_res f xs s')"

lemma fold_res_append:
  "fold_res f (xs @ ys) s = (case fold_res f xs s of Inl e \<Rightarrow> Inl e | Inr s' \<Rightarrow> fold_res f ys s')"
  by (induction xs arbitrary: s) (auto split: sum.splits)

lemma fold_res_pure: "fold_res (\<lambda>x s. Inr (g x s)) xs s = Inr (fold g xs s)"
  by (induction xs arbitrary: s) auto

text \<open>The \<open>?\<close> operator where the body can also abort: an abort is \<open>None\<close>.\<close>

definition bind_res :: "('e + 'a) option \<Rightarrow> ('a \<Rightarrow> ('e + 'b) option) \<Rightarrow> ('e + 'b) option" where
  "bind_res m f = (case m of None \<Rightarrow> None | Some (Inl e) \<Rightarrow> Some (Inl e) | Some (Inr x) \<Rightarrow> f x)"

lemma bind_res_ok: "bind_res m f = Some (Inr y) \<longleftrightarrow> (\<exists>x. m = Some (Inr x) \<and> f x = Some (Inr y))"
  by (auto simp: bind_res_def split: option.splits sum.splits)

lemma bind_res_runs: "m \<noteq> None \<Longrightarrow> (\<And>x. m = Some (Inr x) \<Longrightarrow> f x \<noteq> None) \<Longrightarrow> bind_res m f \<noteq> None"
  by (auto simp: bind_res_def split: option.splits sum.splits)

text \<open>
  A log of state changes that can be taken back, as a reorg does: the interface of a store whose
  steps may fail, with an abstraction of its state. A step that succeeded can be reverted, up to the
  abstraction, and reverting depends on the abstraction only.
\<close>

locale reversible_log =
  fixes ap rv :: "'m \<Rightarrow> 's \<Rightarrow> 'e + 's"
    and abs :: "'s \<Rightarrow> 'a"
  assumes undo: "ap m s = Inr s' \<Longrightarrow> \<exists>s''. rv m s' = Inr s'' \<and> abs s'' = abs s"
    and rv_cong: "abs s = abs t \<Longrightarrow> rv m s = Inr s' \<Longrightarrow> \<exists>t'. rv m t = Inr t' \<and> abs t' = abs s'"
begin

lemma rv_all_cong:
  "abs s = abs t \<Longrightarrow> fold_res rv ms s = Inr s' \<Longrightarrow> \<exists>t'. fold_res rv ms t = Inr t' \<and> abs t' = abs s'"
proof (induction ms arbitrary: s t)
  case (Cons m ms)
  obtain s1 where s1: "rv m s = Inr s1" "fold_res rv ms s1 = Inr s'"
    using Cons.prems(2) by (auto split: sum.splits)
  obtain t1 where t1: "rv m t = Inr t1" "abs t1 = abs s1"
    using rv_cong [OF Cons.prems(1) s1(1)] by blast
  show ?case
    using Cons.IH [OF t1(2) [symmetric] s1(2)] t1(1) by simp
qed simp

lemma undo_all:
  "fold_res ap ms s = Inr s' \<Longrightarrow> \<exists>s''. fold_res rv (rev ms) s' = Inr s'' \<and> abs s'' = abs s"
proof (induction ms arbitrary: s)
  case (Cons m ms)
  obtain s1 where s1: "ap m s = Inr s1" "fold_res ap ms s1 = Inr s'"
    using Cons.prems by (auto split: sum.splits)
  obtain s2 where s2: "fold_res rv (rev ms) s' = Inr s2" "abs s2 = abs s1"
    using Cons.IH [OF s1(2)] by blast
  obtain s3 where s3: "rv m s1 = Inr s3" "abs s3 = abs s"
    using undo [OF s1(1)] by blast
  obtain s4 where "rv m s2 = Inr s4" "abs s4 = abs s3"
    using rv_cong [OF s2(2) [symmetric] s3(1)] by blast
  then show ?case
    using s2(1) s3(2) by (simp add: fold_res_append)
qed simp

end

section \<open>Lists\<close>

lemma sum_list_filter_le: "sum_list (map f (filter P xs)) \<le> sum_list (map f xs)"
  for f :: "'a \<Rightarrow> nat"
  by (induction xs) auto

lemma sum_list_perm: "mset xs = mset ys \<Longrightarrow> sum_list (map f xs) = sum_list (map f ys)"
  for f :: "'a \<Rightarrow> nat"
  by (metis mset_map sum_mset_sum_list)

lemma sum_list_sort_key [simp]: "sum_list (map f (sort_key k xs)) = sum_list (map f xs)"
  for f :: "'a \<Rightarrow> nat"
  by (rule sum_list_perm) simp

text \<open>Filtering a list by a ``not seen before'' predicate keeps distinct keys.\<close>

lemma distinct_map_filter_set: "distinct (map f xs) \<Longrightarrow> distinct (map f (filter P xs))"
  by (induction xs) auto

text \<open>The largest elements of a list give the largest sums.\<close>

lemma top_sum_le:
  fixes xs :: "nat list"
  shows "sorted (rev xs) \<Longrightarrow> mset ys \<subseteq># mset xs \<Longrightarrow> sum_list ys \<le> sum_list (take (length ys) xs)"
proof (induction xs arbitrary: ys)
  case (Cons x xs)
  have srt: "sorted (rev xs)" and ge: "\<forall>y\<in>set xs. y \<le> x"
    using Cons.prems(1) by (auto simp: sorted_append)
  show ?case
  proof (cases ys)
    case (Cons y ys')
    show ?thesis
    proof (cases "x \<in> set ys")
      case True
      have "mset (remove1 x ys) \<subseteq># mset xs"
        using Cons.prems(2) by (simp add: subset_eq_diff_conv)
      then have "sum_list (remove1 x ys) \<le> sum_list (take (length (remove1 x ys)) xs)"
        by (rule Cons.IH [OF srt])
      moreover have perm: "mset ys = mset (x # remove1 x ys)"
        using True by simp
      have "sum_list ys = x + sum_list (remove1 x ys)"
        using sum_list_perm [OF perm, of id] by simp
      moreover have "length ys = Suc (length (remove1 x ys))"
        using mset_eq_length [OF perm] by simp
      ultimately show ?thesis
        by simp
    next
      case False
      have "count (mset ys) a \<le> count (mset xs) a" for a
        using False mset_subset_eq_count [OF Cons.prems(2), of a] by (cases "a = x") (auto simp: count_mset_0_iff [THEN iffD2])
      then have sub: "mset ys \<subseteq># mset xs"
        by (simp add: subseteq_mset_def)
      then have "mset ys' \<subseteq># mset xs"
        using mset_subset_eq_insertD [of y "mset ys'" "mset xs"]
        by (simp add: \<open>ys = y # ys'\<close> subset_mset.less_imp_le)
      then have "sum_list ys' \<le> sum_list (take (length ys') xs)"
        by (rule Cons.IH [OF srt])
      moreover have "y \<le> x"
        using sub ge by (auto simp: \<open>ys = y # ys'\<close> dest: mset_subset_eqD)
      ultimately show ?thesis
        by (simp add: \<open>ys = y # ys'\<close>)
    qed
  qed simp
qed simp

end
