(* ===== verification/Tx_Types.thy ===== *)
theory Tx_Types
  imports Misaka_Prelude
begin

text \<open>
  The transaction data model of \<open>consensus/core/src/tx.rs\<close>, with the 64-byte identity hash of
  \<open>crypto/hashes/src/hash64.rs\<close> and the subnetwork identifiers of
  \<open>consensus/core/src/subnets.rs\<close>. Field names carry a prefix of their record, since record
  selectors share one name space. A transaction id is the cached field of the transaction, as in
  the source; how it is hashed is not part of the model.
\<close>

section \<open>Identity hashes\<close>

datatype hash64 = Hash64 (as_bytes: bytes)

text \<open>\<open>Ord for Hash64\<close> compares the byte arrays lexicographically.\<close>

instantiation hash64 :: linorder
begin

definition less_eq_hash64 :: "hash64 \<Rightarrow> hash64 \<Rightarrow> bool" where
  "less_eq_hash64 a b = (as_bytes a \<le> as_bytes b)"

definition less_hash64 :: "hash64 \<Rightarrow> hash64 \<Rightarrow> bool" where
  "less_hash64 a b = (as_bytes a < as_bytes b)"

instance
  by standard (auto simp: less_eq_hash64_def less_hash64_def hash64.expand)

end

definition HASH64_SIZE :: nat where
  "HASH64_SIZE = 64"

definition hash64_default :: hash64 where
  "hash64_default = Hash64 (replicate HASH64_SIZE 0)"

section \<open>Subnetworks\<close>

datatype subnetwork_id = SubnetworkId (subnetwork_bytes: bytes)

definition SUBNETWORK_ID_SIZE :: nat where
  "SUBNETWORK_ID_SIZE = 20"

definition subnetwork_from_byte :: "u8 \<Rightarrow> subnetwork_id" where
  "subnetwork_from_byte b = SubnetworkId (b # replicate (SUBNETWORK_ID_SIZE - 1) 0)"

definition SUBNETWORK_ID_NATIVE :: subnetwork_id where
  "SUBNETWORK_ID_NATIVE = subnetwork_from_byte 0"

definition SUBNETWORK_ID_COINBASE :: subnetwork_id where
  "SUBNETWORK_ID_COINBASE = subnetwork_from_byte 1"

definition SUBNETWORK_ID_REGISTRY :: subnetwork_id where
  "SUBNETWORK_ID_REGISTRY = subnetwork_from_byte 2"

definition SUBNETWORK_ID_STAKE_BOND :: subnetwork_id where
  "SUBNETWORK_ID_STAKE_BOND = subnetwork_from_byte 0x10"

definition SUBNETWORK_ID_STAKE_ATTESTATION_SHARD :: subnetwork_id where
  "SUBNETWORK_ID_STAKE_ATTESTATION_SHARD = subnetwork_from_byte 0x11"

definition SUBNETWORK_ID_SLASHING_EVIDENCE :: subnetwork_id where
  "SUBNETWORK_ID_SLASHING_EVIDENCE = subnetwork_from_byte 0x12"

definition SUBNETWORK_ID_STAKE_UNBOND :: subnetwork_id where
  "SUBNETWORK_ID_STAKE_UNBOND = subnetwork_from_byte 0x13"

lemmas subnetwork_id_defs = SUBNETWORK_ID_NATIVE_def SUBNETWORK_ID_COINBASE_def
  SUBNETWORK_ID_REGISTRY_def SUBNETWORK_ID_STAKE_BOND_def
  SUBNETWORK_ID_STAKE_ATTESTATION_SHARD_def SUBNETWORK_ID_SLASHING_EVIDENCE_def
  SUBNETWORK_ID_STAKE_UNBOND_def

definition is_builtin :: "subnetwork_id \<Rightarrow> bool" where
  "is_builtin s = (s = SUBNETWORK_ID_COINBASE \<or> s = SUBNETWORK_ID_REGISTRY)"

definition is_native :: "subnetwork_id \<Rightarrow> bool" where
  "is_native s = (s = SUBNETWORK_ID_NATIVE)"

definition is_dns_overlay :: "subnetwork_id \<Rightarrow> bool" where
  "is_dns_overlay s =
     (s = SUBNETWORK_ID_STAKE_BOND \<or> s = SUBNETWORK_ID_STAKE_ATTESTATION_SHARD \<or>
      s = SUBNETWORK_ID_SLASHING_EVIDENCE \<or> s = SUBNETWORK_ID_STAKE_UNBOND)"

definition is_palw_overlay :: "subnetwork_id \<Rightarrow> bool" where
  "is_palw_overlay s =
     (0x30 \<le> hd (subnetwork_bytes s) \<and> hd (subnetwork_bytes s) \<le> 0x3c \<and>
      list_all (\<lambda>b. b = 0) (tl (subnetwork_bytes s)))"

definition palw_tx_kind :: "subnetwork_id \<Rightarrow> u8 option" where
  "palw_tx_kind s = (if is_palw_overlay s then Some (hd (subnetwork_bytes s)) else None)"

lemma subnetwork_from_byte_inject [simp]:
  "subnetwork_from_byte a = subnetwork_from_byte b \<longleftrightarrow> a = b"
  by (simp add: subnetwork_from_byte_def)

section \<open>Transactions\<close>

record script_public_key =
  spk_version :: u16
  spk_script :: bytes

record utxo_entry =
  ue_amount :: u64
  ue_script_public_key :: script_public_key
  ue_block_daa_score :: u64
  ue_is_coinbase :: bool

record transaction_outpoint =
  op_transaction_id :: hash64
  op_index :: u32

record transaction_input =
  in_previous_outpoint :: transaction_outpoint
  in_signature_script :: bytes
  in_sequence :: u64
  in_sig_op_count :: nat

record transaction_output =
  out_value :: u64
  out_script_public_key :: script_public_key

record transaction =
  tx_version :: u16
  tx_inputs :: "transaction_input list"
  tx_outputs :: "transaction_output list"
  tx_lock_time :: u64
  tx_subnetwork_id :: subnetwork_id
  tx_gas :: u64
  tx_payload :: bytes
  tx_mass :: u64
  tx_id :: hash64

definition outpoint :: "hash64 \<Rightarrow> u32 \<Rightarrow> transaction_outpoint" where
  "outpoint t i = \<lparr>op_transaction_id = t, op_index = i\<rparr>"

lemma outpoint_inject [simp]: "outpoint t i = outpoint t' i' \<longleftrightarrow> t = t' \<and> i = i'"
  by (simp add: outpoint_def)

lemma outpoint_sel [simp]:
  "op_transaction_id (outpoint t i) = t" "op_index (outpoint t i) = i"
  by (simp_all add: outpoint_def)

text \<open>The canonical sort key of an outpoint: \<open>(transaction_id, index)\<close>, lexicographic.\<close>

definition outpoint_key :: "transaction_outpoint \<Rightarrow> hash64 \<times> u32" where
  "outpoint_key p = (op_transaction_id p, op_index p)"

lemma outpoint_key_inject [simp]: "outpoint_key p = outpoint_key q \<longleftrightarrow> p = q"
  by (cases p; cases q) (simp add: outpoint_key_def)

lemma inj_outpoint_key: "inj_on outpoint_key A"
  by (simp add: inj_on_def)

definition tx_is_coinbase :: "transaction \<Rightarrow> bool" where
  "tx_is_coinbase tx = (tx_subnetwork_id tx = SUBNETWORK_ID_COINBASE)"

text \<open>A transaction with its UTXO entries (\<open>PopulatedTransaction\<close>, \<open>ValidatedTransaction\<close>);
  the constructor asserts one entry per input.\<close>

record validated_transaction =
  vt_tx :: transaction
  vt_entries :: "utxo_entry list"
  vt_calculated_fee :: u64

definition populated_inputs :: "validated_transaction \<Rightarrow> (transaction_input \<times> utxo_entry) list" where
  "populated_inputs v = zip (tx_inputs (vt_tx v)) (vt_entries v)"

section \<open>Sample data for witnesses\<close>

definition sample_hash :: "u8 \<Rightarrow> hash64" where
  "sample_hash b = Hash64 (replicate HASH64_SIZE b)"

definition sample_outpoint :: "u32 \<Rightarrow> transaction_outpoint" where
  "sample_outpoint i = outpoint (sample_hash 0) i"

lemma sample_hash_inject [simp]: "sample_hash a = sample_hash b \<longleftrightarrow> a = b"
  by (simp add: sample_hash_def HASH64_SIZE_def replicate_eq_replicate)

lemma sample_outpoint_inject [simp]:
  "sample_outpoint i = sample_outpoint j \<longleftrightarrow> i = j"
  "outpoint (sample_hash b) i = sample_outpoint j \<longleftrightarrow> b = 0 \<and> i = j"
  "sample_outpoint j = outpoint (sample_hash b) i \<longleftrightarrow> b = 0 \<and> i = j"
  by (auto simp: sample_outpoint_def)

end
