(* ===== verification/Utxo_Algebra.thy ===== *)
theory Utxo_Algebra
  imports Tx_Types
begin

text \<open>
  The UTXO set algebra of \<open>consensus/core/src/utxo/\<close>: collections, diffs with the DAA-score
  dimension, composed views. The abstract meaning of a diff is its effect on a view
  (\<open>composed_get\<close>); \<open>diff_valid V d\<close> says that \<open>d\<close> is a diff of the view \<open>V\<close>. The lemmas show
  that \<open>with_diff\<close> is sequential application, that \<open>diff_from\<close> goes from one view to the other,
  that a reversed diff undoes a diff, and that \<open>add_transaction\<close> spends the inputs and creates
  the outputs, and that none of them fails on valid diffs.
\<close>

section \<open>Collections\<close>

type_synonym utxo_collection = "(transaction_outpoint, utxo_entry) hashmap"
type_synonym utxo_view = "transaction_outpoint \<Rightarrow> utxo_entry option"

definition contains_with_daa_score :: "utxo_collection \<Rightarrow> transaction_outpoint \<Rightarrow> u64 \<Rightarrow> bool" where
  "contains_with_daa_score c p daa_score =
     (case hm_get c p of Some entry \<Rightarrow> ue_block_daa_score entry = daa_score | None \<Rightarrow> False)"

definition add_collection :: "utxo_collection \<Rightarrow> utxo_collection \<Rightarrow> utxo_collection" where
  "add_collection self other = fold (\<lambda>(k, v). hm_insert k v) other self"

definition remove_collection :: "utxo_collection \<Rightarrow> utxo_collection \<Rightarrow> utxo_collection" where
  "remove_collection self other = fold hm_remove (map fst other) self"

definition intersects :: "utxo_collection \<Rightarrow> utxo_collection \<Rightarrow> bool" where
  "intersects self other =
     (if length self \<le> length other then list_ex (hm_contains other) (map fst self)
      else list_ex (hm_contains self) (map fst other))"

definition intersects_with_rule ::
  "utxo_collection \<Rightarrow> utxo_collection \<Rightarrow>
   (transaction_outpoint \<Rightarrow> utxo_entry \<Rightarrow> utxo_entry \<Rightarrow> bool) \<Rightarrow> transaction_outpoint option" where
  "intersects_with_rule self other rule =
     (if length self \<le> length other
      then map_option fst
             (find (\<lambda>(k, v1). case hm_get other k of Some v2 \<Rightarrow> rule k v1 v2 | None \<Rightarrow> False) self)
      else map_option fst
             (find (\<lambda>(k, v2). case hm_get self k of Some v1 \<Rightarrow> rule k v1 v2 | None \<Rightarrow> False) other))"

definition intersection_with_remainder_having_daa_score_in_place ::
  "utxo_collection \<Rightarrow> utxo_collection \<Rightarrow> utxo_collection \<Rightarrow> utxo_collection \<Rightarrow>
   utxo_collection \<times> utxo_collection" where
  "intersection_with_remainder_having_daa_score_in_place this other result remainder =
     fold (\<lambda>(p, entry) (res, rem).
             if contains_with_daa_score other p (ue_block_daa_score entry)
             then (hm_insert p entry res, rem) else (res, hm_insert p entry rem))
       this (result, remainder)"

definition subtraction_having_daa_score_in_place ::
  "utxo_collection \<Rightarrow> utxo_collection \<Rightarrow> utxo_collection \<Rightarrow> utxo_collection" where
  "subtraction_having_daa_score_in_place this other result =
     fold (\<lambda>(p, entry) res.
             if \<not> contains_with_daa_score other p (ue_block_daa_score entry)
             then hm_insert p entry res else res)
       this result"

definition subtraction_with_remainder_having_daa_score_in_place ::
  "utxo_collection \<Rightarrow> utxo_collection \<Rightarrow> utxo_collection \<Rightarrow> utxo_collection \<Rightarrow>
   utxo_collection \<times> utxo_collection" where
  "subtraction_with_remainder_having_daa_score_in_place this other result remainder =
     fold (\<lambda>(p, entry) (res, rem).
             if \<not> contains_with_daa_score other p (ue_block_daa_score entry)
             then (hm_insert p entry res, rem) else (res, hm_insert p entry rem))
       this (result, remainder)"

section \<open>Diffs\<close>

record utxo_diff =
  ud_add :: utxo_collection
  ud_remove :: utxo_collection

datatype utxo_algebra_error =
    DuplicateRemovePoint transaction_outpoint
  | DuplicateAddPoint transaction_outpoint
  | DoubleRemoveCall transaction_outpoint
  | DoubleAddCall transaction_outpoint
  | DiffIntersectionPoint transaction_outpoint string
  | General string

type_synonym 'a utxo_result = "utxo_algebra_error + 'a"

definition utxo_diff_new :: "utxo_collection \<Rightarrow> utxo_collection \<Rightarrow> utxo_diff" where
  "utxo_diff_new a r = \<lparr>ud_add = a, ud_remove = r\<rparr>"

definition utxo_diff_default :: utxo_diff where
  "utxo_diff_default = utxo_diff_new [] []"

definition to_reversed :: "utxo_diff \<Rightarrow> utxo_diff" where
  "to_reversed d = utxo_diff_new (ud_remove d) (ud_add d)"

definition with_diff_in_place :: "utxo_diff \<Rightarrow> utxo_diff \<Rightarrow> utxo_diff utxo_result" where
  "with_diff_in_place self other =
     (case intersects_with_rule (ud_remove other) (ud_remove self)
             (\<lambda>p entry_to_add _. \<not> contains_with_daa_score (ud_add self) p (ue_block_daa_score entry_to_add)) of
        Some p \<Rightarrow> Inl (DuplicateRemovePoint p)
      | None \<Rightarrow>
     (case intersects_with_rule (ud_add other) (ud_add self)
             (\<lambda>p _ existing_entry. \<not> contains_with_daa_score (ud_remove other) p (ue_block_daa_score existing_entry)) of
        Some p \<Rightarrow> Inl (DuplicateAddPoint p)
      | None \<Rightarrow>
        (let (intersection, remove1) =
               intersection_with_remainder_having_daa_score_in_place (ud_remove other) (ud_add self) [] (ud_remove self);
             add1 = remove_collection (ud_add self) intersection;
             (intersection', add2) =
               intersection_with_remainder_having_daa_score_in_place (ud_add other) remove1 [] add1;
             remove2 = remove_collection remove1 intersection'
         in Inr \<lparr>ud_add = add2, ud_remove = remove2\<rparr>)))"

definition diff_from :: "utxo_diff \<Rightarrow> utxo_diff \<Rightarrow> utxo_diff utxo_result" where
  "diff_from self other =
     (case intersects_with_rule (ud_remove self) (ud_add other)
             (\<lambda>p this_entry other_entry.
                \<not> (ue_block_daa_score other_entry \<noteq> ue_block_daa_score this_entry \<and>
                   (contains_with_daa_score (ud_add self) p (ue_block_daa_score other_entry) \<or>
                    contains_with_daa_score (ud_remove other) p (ue_block_daa_score this_entry)))) of
        Some p \<Rightarrow> Inl (DiffIntersectionPoint p ''both in self.add and in other.remove'')
      | None \<Rightarrow>
     (case intersects_with_rule (ud_add self) (ud_remove other)
             (\<lambda>p this_entry other_entry.
                \<not> (ue_block_daa_score other_entry \<noteq> ue_block_daa_score this_entry \<and>
                   (contains_with_daa_score (ud_remove self) p (ue_block_daa_score other_entry) \<or>
                    contains_with_daa_score (ud_add other) p (ue_block_daa_score this_entry)))) of
        Some p \<Rightarrow> Inl (DiffIntersectionPoint p ''both in self.remove and in other.add'')
      | None \<Rightarrow>
     (case intersects_with_rule (ud_remove self) (ud_remove other)
             (\<lambda>_ this_entry other_entry. ue_block_daa_score other_entry \<noteq> ue_block_daa_score this_entry) of
        Some p \<Rightarrow> Inl (DiffIntersectionPoint p
          ''both in self.remove and other.remove with different DAA scores, with no corresponding entry in self.add'')
      | None \<Rightarrow>
        (let (result_remove, in_both_to_add) =
               subtraction_with_remainder_having_daa_score_in_place (ud_add self) (ud_add other) [] []
         in if intersects in_both_to_add (ud_remove self) \<noteq> intersects in_both_to_add (ud_remove other)
            then Inl (General ''diff_from: outpoint both in self.add, other.add, and only one of self.remove and other.remove'')
            else
              (let result_remove = subtraction_having_daa_score_in_place (ud_remove other) (ud_remove self) result_remove;
                   result_add = subtraction_having_daa_score_in_place (ud_remove self) (ud_remove other) [];
                   result_add = subtraction_having_daa_score_in_place (ud_add other) (ud_add self) result_add
               in Inr \<lparr>ud_add = result_add, ud_remove = result_remove\<rparr>)))))"

definition remove_entry :: "transaction_outpoint \<Rightarrow> utxo_entry \<Rightarrow> utxo_diff \<Rightarrow> utxo_diff utxo_result" where
  "remove_entry p entry d =
     (if contains_with_daa_score (ud_add d) p (ue_block_daa_score entry)
      then Inr (d\<lparr>ud_add := hm_remove p (ud_add d)\<rparr>)
      else if hm_get (ud_remove d) p = None
      then Inr (d\<lparr>ud_remove := hm_insert p entry (ud_remove d)\<rparr>)
      else Inl (DoubleRemoveCall p))"

definition add_entry :: "transaction_outpoint \<Rightarrow> utxo_entry \<Rightarrow> utxo_diff \<Rightarrow> utxo_diff utxo_result" where
  "add_entry p entry d =
     (if contains_with_daa_score (ud_remove d) p (ue_block_daa_score entry)
      then Inr (d\<lparr>ud_remove := hm_remove p (ud_remove d)\<rparr>)
      else if hm_get (ud_add d) p = None
      then Inr (d\<lparr>ud_add := hm_insert p entry (ud_add d)\<rparr>)
      else Inl (DoubleAddCall p))"

definition utxo_entry_of_output :: "u64 \<Rightarrow> bool \<Rightarrow> transaction_output \<Rightarrow> utxo_entry" where
  "utxo_entry_of_output daa_score is_cb out =
     \<lparr>ue_amount = out_value out, ue_script_public_key = out_script_public_key out,
      ue_block_daa_score = daa_score, ue_is_coinbase = is_cb\<rparr>"

text \<open>The entries a transaction creates: \<open>(id, i)\<close> for each output. The index is cast to
  \<open>u32\<close>.\<close>

definition created_utxos :: "transaction \<Rightarrow> u64 \<Rightarrow> (transaction_outpoint \<times> utxo_entry) list" where
  "created_utxos tx daa_score =
     map (\<lambda>(i, out). (outpoint (tx_id tx) (i mod 2 ^ 32),
                      utxo_entry_of_output daa_score (tx_is_coinbase tx) out))
       (enumerate 0 (tx_outputs tx))"

definition add_transaction :: "validated_transaction \<Rightarrow> u64 \<Rightarrow> utxo_diff \<Rightarrow> utxo_diff utxo_result" where
  "add_transaction v block_daa_score d =
     (case fold_res (\<lambda>(input, entry). remove_entry (in_previous_outpoint input) entry)
             (populated_inputs v) d of
        Inl e \<Rightarrow> Inl e
      | Inr d' \<Rightarrow> fold_res (\<lambda>(p, entry). add_entry p entry) (created_utxos (vt_tx v) block_daa_score) d')"

text \<open>\<open>ComposedUtxoView::get\<close>.\<close>

definition composed_get :: "utxo_view \<Rightarrow> utxo_diff \<Rightarrow> utxo_view" where
  "composed_get base diff p =
     (case hm_get (ud_add diff) p of
        Some entry \<Rightarrow> Some entry
      | None \<Rightarrow> if hm_contains (ud_remove diff) p then None else base p)"

section \<open>What the collection operations compute\<close>

named_theorems collection_simps "lookup characterisation of the collection operations"

lemma contains_with_daa_score_iff [collection_simps]:
  "contains_with_daa_score c p s \<longleftrightarrow> (\<exists>e. hm_get c p = Some e \<and> ue_block_daa_score e = s)"
  by (auto simp: contains_with_daa_score_def split: option.splits)

lemma get_remove_collection [collection_simps]:
  "hm_get (remove_collection c d) p = (if hm_get d p = None then hm_get c p else None)"
  unfolding remove_collection_def hm.get_del_all by (simp add: hm_get_def map_of_eq_None_iff)

lemma get_add_collection:
  "hm_wf d \<Longrightarrow> hm_get (add_collection c d) p = (case hm_get d p of Some e \<Rightarrow> Some e | None \<Rightarrow> hm_get c p)"
proof -
  assume "hm_wf d"
  then have "map_of (rev d) = map_of d"
    by (simp add: hm_wf_def map_of_inject_set rev_map [symmetric])
  then show ?thesis
    unfolding add_collection_def hm.get_put_all by (simp add: map_add_def hm_get_def split: option.split)
qed

lemma wf_collections [simp]:
  "hm_wf c \<Longrightarrow> hm_wf (remove_collection c d)"
  "hm_wf c \<Longrightarrow> hm_wf (add_collection c d)"
  by (simp_all add: remove_collection_def add_collection_def hm.wf_del_all hm.wf_put_all)

lemma intersection_with_remainder_eq:
  "intersection_with_remainder_having_daa_score_in_place this other result remainder =
     (hm_insert_if (\<lambda>p e. contains_with_daa_score other p (ue_block_daa_score e)) this result,
      hm_insert_if (\<lambda>p e. \<not> contains_with_daa_score other p (ue_block_daa_score e)) this remainder)"
  by (simp add: intersection_with_remainder_having_daa_score_in_place_def fold_partition_insert)

lemma subtraction_with_remainder_eq:
  "subtraction_with_remainder_having_daa_score_in_place this other result remainder =
     (hm_insert_if (\<lambda>p e. \<not> contains_with_daa_score other p (ue_block_daa_score e)) this result,
      hm_insert_if (\<lambda>p e. contains_with_daa_score other p (ue_block_daa_score e)) this remainder)"
  by (simp add: subtraction_with_remainder_having_daa_score_in_place_def
      fold_partition_insert [where P = "\<lambda>p e. \<not> contains_with_daa_score other p (ue_block_daa_score e)"])

lemma subtraction_eq:
  "subtraction_having_daa_score_in_place this other result =
     hm_insert_if (\<lambda>p e. \<not> contains_with_daa_score other p (ue_block_daa_score e)) this result"
  by (simp add: subtraction_having_daa_score_in_place_def hm_insert_if_def)

lemma find_map_fst_None:
  assumes "hm_wf c"
  shows "map_option fst (find (\<lambda>(k, v). P k v) c) = None \<longleftrightarrow> (\<forall>k v. hm_get c k = Some v \<longrightarrow> \<not> P k v)"
  using assms by (auto simp: find_None_iff hm_get_in_set)

text \<open>Both branches of \<open>intersects_with_rule\<close> and of \<open>intersects\<close> decide the same question: the
  choice of the smaller map is an optimisation.\<close>

lemma intersects_with_rule_None [collection_simps]:
  assumes "hm_wf c" "hm_wf d"
  shows "intersects_with_rule c d rule = None \<longleftrightarrow>
    (\<forall>p e1 e2. hm_get c p = Some e1 \<longrightarrow> hm_get d p = Some e2 \<longrightarrow> \<not> rule p e1 e2)"
proof (cases "length c \<le> length d")
  case True
  then show ?thesis
    unfolding intersects_with_rule_def if_P [OF True] find_map_fst_None [OF assms(1)]
    by (auto split: option.splits)
next
  case False
  then show ?thesis
    unfolding intersects_with_rule_def if_not_P [OF False] find_map_fst_None [OF assms(2)]
    by (auto split: option.splits)
qed

lemma intersects_iff [collection_simps]:
  "intersects c d \<longleftrightarrow> (\<exists>p. hm_get c p \<noteq> None \<and> hm_get d p \<noteq> None)"
  by (auto simp: intersects_def list_ex_iff hm_contains_def hm_get_def map_of_eq_None_iff image_iff)
     (metis fst_conv image_eqI)+

section \<open>Valid diffs\<close>

text \<open>\<open>d\<close> is a diff of the view \<open>V\<close>: it removes entries \<open>V\<close> has, adds only at outpoints that are free
  or that it frees, and never removes and adds the same \<open>(outpoint, DAA score)\<close>.\<close>

definition diff_valid :: "utxo_view \<Rightarrow> utxo_diff \<Rightarrow> bool" where
  "diff_valid V d \<longleftrightarrow> hm_wf (ud_add d) \<and> hm_wf (ud_remove d) \<and>
     (\<forall>p e. hm_get (ud_remove d) p = Some e \<longrightarrow> V p = Some e) \<and>
     (\<forall>p e. hm_get (ud_add d) p = Some e \<longrightarrow> V p = None \<or> hm_get (ud_remove d) p \<noteq> None) \<and>
     (\<forall>p e e'. hm_get (ud_add d) p = Some e \<longrightarrow> hm_get (ud_remove d) p = Some e' \<longrightarrow>
        ue_block_daa_score e \<noteq> ue_block_daa_score e')"

text \<open>The source's standing assumption: an outpoint with a given DAA score has one entry.\<close>

definition entries_agree :: "utxo_view \<Rightarrow> utxo_collection \<Rightarrow> bool" where
  "entries_agree V c \<longleftrightarrow>
     (\<forall>p e e'. V p = Some e \<longrightarrow> hm_get c p = Some e' \<longrightarrow>
        ue_block_daa_score e = ue_block_daa_score e' \<longrightarrow> e = e')"

lemma composed_get_alt:
  "composed_get V d p =
     (if hm_get (ud_add d) p \<noteq> None then hm_get (ud_add d) p
      else if hm_get (ud_remove d) p \<noteq> None then None else V p)"
  by (auto simp: composed_get_def hm_contains_def split: option.splits)

lemma diff_validD:
  assumes "diff_valid V d"
  shows "hm_wf (ud_add d)" "hm_wf (ud_remove d)"
    and "hm_get (ud_remove d) p = Some e \<Longrightarrow> V p = Some e"
    and "hm_get (ud_add d) p = Some e \<Longrightarrow> V p = None \<or> hm_get (ud_remove d) p = V p"
    and "hm_get (ud_add d) p = Some e \<Longrightarrow> hm_get (ud_remove d) p = Some e' \<Longrightarrow>
           ue_block_daa_score e \<noteq> ue_block_daa_score e'"
  using assms unfolding diff_valid_def by (auto; metis option.exhaust_sel option.sel)+

lemma default_valid: "diff_valid V utxo_diff_default"
  by (simp add: diff_valid_def utxo_diff_default_def utxo_diff_new_def)

lemma default_composed: "composed_get V utxo_diff_default = V"
  by (simp add: fun_eq_iff composed_get_alt utxo_diff_default_def utxo_diff_new_def)

text \<open>The four possible ways a valid diff can stand at an outpoint.\<close>

lemma diff_valid_cases:
  assumes "diff_valid V d"
  obtains (untouched) "hm_get (ud_add d) p = None" "hm_get (ud_remove d) p = None" "composed_get V d p = V p"
  | (added) e where "hm_get (ud_add d) p = Some e" "hm_get (ud_remove d) p = None" "V p = None"
      "composed_get V d p = Some e"
  | (removed) e where "hm_get (ud_add d) p = None" "hm_get (ud_remove d) p = Some e" "V p = Some e"
      "composed_get V d p = None"
  | (replaced) e e' where "hm_get (ud_add d) p = Some e" "hm_get (ud_remove d) p = Some e'" "V p = Some e'"
      "ue_block_daa_score e \<noteq> ue_block_daa_score e'" "composed_get V d p = Some e"
  using diff_validD(3-5) [OF assms, where p = p]
  by (cases "hm_get (ud_add d) p"; cases "hm_get (ud_remove d) p") (auto simp: composed_get_alt)

lemma to_reversed_valid:
  assumes "diff_valid V d"
  shows "diff_valid (composed_get V d) (to_reversed d)"
proof -
  note v = diff_validD [OF assms]
  show ?thesis
    unfolding diff_valid_def to_reversed_def utxo_diff_new_def utxo_diff.simps
    by (intro conjI v(1,2) allI impI; auto simp: composed_get_alt dest: v(5))
qed

lemma to_reversed_undoes:
  assumes "diff_valid V d"
  shows "composed_get (composed_get V d) (to_reversed d) = V"
proof
  fix p
  show "composed_get (composed_get V d) (to_reversed d) p = V p"
    using assms
    by (cases rule: diff_valid_cases [where p = p]) (auto simp: composed_get_alt to_reversed_def utxo_diff_new_def)
qed

section \<open>Sequential application\<close>

lemma with_diff_checks_pass:
  assumes "diff_valid V d1" and "diff_valid (composed_get V d1) d2"
  shows "intersects_with_rule (ud_remove d2) (ud_remove d1)
           (\<lambda>p e _. \<not> contains_with_daa_score (ud_add d1) p (ue_block_daa_score e)) = None"
    and "intersects_with_rule (ud_add d2) (ud_add d1)
           (\<lambda>p _ e. \<not> contains_with_daa_score (ud_remove d2) p (ue_block_daa_score e)) = None"
proof -
  note v1 = diff_validD [OF assms(1)] and v2 = diff_validD [OF assms(2)]
  have "contains_with_daa_score (ud_add d1) p (ue_block_daa_score e)"
    if "hm_get (ud_remove d2) p = Some e" "hm_get (ud_remove d1) p = Some e'" for p e e'
    using v2(3) [OF that(1)] that(2) by (auto simp: collection_simps composed_get_alt split: if_splits)
  then show "intersects_with_rule (ud_remove d2) (ud_remove d1)
      (\<lambda>p e _. \<not> contains_with_daa_score (ud_add d1) p (ue_block_daa_score e)) = None"
    by (auto simp: intersects_with_rule_None v1 v2)
  have "contains_with_daa_score (ud_remove d2) p (ue_block_daa_score e')"
    if "hm_get (ud_add d2) p = Some e" "hm_get (ud_add d1) p = Some e'" for p e e'
    using v2(4) [OF that(1)] that(2) by (auto simp: collection_simps composed_get_alt split: if_splits)
  then show "intersects_with_rule (ud_add d2) (ud_add d1)
      (\<lambda>p _ e. \<not> contains_with_daa_score (ud_remove d2) p (ue_block_daa_score e)) = None"
    by (auto simp: intersects_with_rule_None v1 v2)
qed

text \<open>The two maps of the composed diff, as the collection operations leave them.\<close>

definition seq_remove :: "utxo_diff \<Rightarrow> utxo_diff \<Rightarrow> utxo_collection" where
  "seq_remove d1 d2 =
     hm_insert_if (\<lambda>p e. \<not> contains_with_daa_score (ud_add d1) p (ue_block_daa_score e))
       (ud_remove d2) (ud_remove d1)"

definition seq_diff :: "utxo_diff \<Rightarrow> utxo_diff \<Rightarrow> utxo_diff" where
  "seq_diff d1 d2 =
     \<lparr>ud_add =
        hm_insert_if (\<lambda>p e. \<not> contains_with_daa_score (seq_remove d1 d2) p (ue_block_daa_score e)) (ud_add d2)
          (remove_collection (ud_add d1)
            (hm_insert_if (\<lambda>p e. contains_with_daa_score (ud_add d1) p (ue_block_daa_score e)) (ud_remove d2) [])),
      ud_remove =
        remove_collection (seq_remove d1 d2)
          (hm_insert_if (\<lambda>p e. contains_with_daa_score (seq_remove d1 d2) p (ue_block_daa_score e)) (ud_add d2) [])\<rparr>"

lemma with_diff_in_place_eq:
  assumes "diff_valid V d1" and "diff_valid (composed_get V d1) d2"
  shows "with_diff_in_place d1 d2 = Inr (seq_diff d1 d2)"
  using with_diff_checks_pass [OF assms]
  by (simp add: with_diff_in_place_def intersection_with_remainder_eq seq_diff_def seq_remove_def)

lemma seq_diff_get:
  assumes "diff_valid V d1" and "diff_valid (composed_get V d1) d2"
  shows "hm_get (seq_remove d1 d2) p =
      (case hm_get (ud_remove d2) p of
         Some e \<Rightarrow> if contains_with_daa_score (ud_add d1) p (ue_block_daa_score e)
                   then hm_get (ud_remove d1) p else Some e
       | None \<Rightarrow> hm_get (ud_remove d1) p)"
    and "hm_get (ud_remove (seq_diff d1 d2)) p =
      (case hm_get (ud_add d2) p of
         Some e \<Rightarrow> if contains_with_daa_score (seq_remove d1 d2) p (ue_block_daa_score e)
                   then None else hm_get (seq_remove d1 d2) p
       | None \<Rightarrow> hm_get (seq_remove d1 d2) p)"
    and "hm_get (ud_add (seq_diff d1 d2)) p =
      (let a = case hm_get (ud_remove d2) p of
                 Some e \<Rightarrow> if contains_with_daa_score (ud_add d1) p (ue_block_daa_score e)
                           then None else hm_get (ud_add d1) p
               | None \<Rightarrow> hm_get (ud_add d1) p
       in case hm_get (ud_add d2) p of
         Some e \<Rightarrow> if contains_with_daa_score (seq_remove d1 d2) p (ue_block_daa_score e) then a else Some e
       | None \<Rightarrow> a)"
  using diff_validD(1,2) [OF assms(1)] diff_validD(1,2) [OF assms(2)]
  by (simp_all add: seq_remove_def seq_diff_def hm_get_insert_if get_remove_collection Let_def
      split: option.split)

lemma seq_diff_at:
  assumes v1: "diff_valid V d1" and v2: "diff_valid (composed_get V d1) d2"
    and agree: "entries_agree V (ud_add d2)"
  shows "composed_get V (seq_diff d1 d2) p = composed_get (composed_get V d1) d2 p \<and>
    (\<forall>e. hm_get (ud_remove (seq_diff d1 d2)) p = Some e \<longrightarrow> V p = Some e) \<and>
    (\<forall>e. hm_get (ud_add (seq_diff d1 d2)) p = Some e \<longrightarrow>
       V p = None \<or> hm_get (ud_remove (seq_diff d1 d2)) p \<noteq> None) \<and>
    (\<forall>e e'. hm_get (ud_add (seq_diff d1 d2)) p = Some e \<longrightarrow> hm_get (ud_remove (seq_diff d1 d2)) p = Some e' \<longrightarrow>
       ue_block_daa_score e \<noteq> ue_block_daa_score e')"
proof -
  have ag: "V p = Some e \<Longrightarrow> hm_get (ud_add d2) p = Some e' \<Longrightarrow>
      ue_block_daa_score e = ue_block_daa_score e' \<Longrightarrow> e = e'" for e e'
    using agree by (auto simp: entries_agree_def)
  note simps = composed_get_alt [of V "seq_diff d1 d2"] seq_diff_get [OF v1 v2] contains_with_daa_score_def
  show ?thesis
    using v2
  proof (cases rule: diff_valid_cases [where p = p])
    case untouched
    show ?thesis using v1 untouched
      by (cases rule: diff_valid_cases [where p = p]) (simp_all add: simps Let_def)
  next
    case (added e)
    show ?thesis using v1 added
      by (cases rule: diff_valid_cases [where p = p]) (auto simp: simps Let_def dest: ag)
  next
    case (removed e)
    show ?thesis using v1 removed
      by (cases rule: diff_valid_cases [where p = p]) (auto simp: simps Let_def dest: ag)
  next
    case (replaced e e')
    show ?thesis using v1 replaced
      by (cases rule: diff_valid_cases [where p = p]) (auto simp: simps Let_def dest: ag)
  qed
qed

lemma with_diff_in_place_refines:
  assumes "diff_valid V d1" and "diff_valid (composed_get V d1) d2" and "entries_agree V (ud_add d2)"
  shows "with_diff_in_place d1 d2 = Inr (seq_diff d1 d2)"
    and "diff_valid V (seq_diff d1 d2)"
    and "composed_get V (seq_diff d1 d2) = composed_get (composed_get V d1) d2"
proof -
  note at = seq_diff_at [OF assms]
  show "with_diff_in_place d1 d2 = Inr (seq_diff d1 d2)"
    using assms(1,2) by (rule with_diff_in_place_eq)
  show "composed_get V (seq_diff d1 d2) = composed_get (composed_get V d1) d2"
    using at by blast
  have "hm_wf (ud_add (seq_diff d1 d2)) \<and> hm_wf (ud_remove (seq_diff d1 d2))"
    using diff_validD(1,2) [OF assms(1)] by (simp add: seq_diff_def seq_remove_def hm_wf_insert_if)
  then show "diff_valid V (seq_diff d1 d2)"
    unfolding diff_valid_def using at by blast
qed

section \<open>The difference of two diffs\<close>

lemma diff_from_checks_pass:
  assumes "diff_valid V d1" and "diff_valid V d2"
  shows "intersects_with_rule (ud_remove d1) (ud_add d2)
      (\<lambda>p e e'. \<not> (ue_block_daa_score e' \<noteq> ue_block_daa_score e \<and>
         (contains_with_daa_score (ud_add d1) p (ue_block_daa_score e') \<or>
          contains_with_daa_score (ud_remove d2) p (ue_block_daa_score e)))) = None"
    and "intersects_with_rule (ud_add d1) (ud_remove d2)
      (\<lambda>p e e'. \<not> (ue_block_daa_score e' \<noteq> ue_block_daa_score e \<and>
         (contains_with_daa_score (ud_remove d1) p (ue_block_daa_score e') \<or>
          contains_with_daa_score (ud_add d2) p (ue_block_daa_score e)))) = None"
    and "intersects_with_rule (ud_remove d1) (ud_remove d2)
      (\<lambda>_ e e'. ue_block_daa_score e' \<noteq> ue_block_daa_score e) = None"
proof -
  note v1 = diff_validD [OF assms(1)] and v2 = diff_validD [OF assms(2)]
  note wf = v1(1,2) v2(1,2)
  have a: "hm_get (ud_remove d2) p = Some e" "ue_block_daa_score e' \<noteq> ue_block_daa_score e"
    if "hm_get (ud_remove d1) p = Some e" "hm_get (ud_add d2) p = Some e'" for p e e'
    using v1(3) [OF that(1)] v2(4,5) [OF that(2)] by auto
  then show "intersects_with_rule (ud_remove d1) (ud_add d2)
      (\<lambda>p e e'. \<not> (ue_block_daa_score e' \<noteq> ue_block_daa_score e \<and>
         (contains_with_daa_score (ud_add d1) p (ue_block_daa_score e') \<or>
          contains_with_daa_score (ud_remove d2) p (ue_block_daa_score e)))) = None"
    unfolding intersects_with_rule_None [OF wf(2,3)] contains_with_daa_score_iff by blast
  have b: "hm_get (ud_remove d1) p = Some e'" "ue_block_daa_score e' \<noteq> ue_block_daa_score e"
    if "hm_get (ud_add d1) p = Some e" "hm_get (ud_remove d2) p = Some e'" for p e e'
    using v2(3) [OF that(2)] v1(4,5) [OF that(1)] by (auto; metis)+
  then show "intersects_with_rule (ud_add d1) (ud_remove d2)
      (\<lambda>p e e'. \<not> (ue_block_daa_score e' \<noteq> ue_block_daa_score e \<and>
         (contains_with_daa_score (ud_remove d1) p (ue_block_daa_score e') \<or>
          contains_with_daa_score (ud_add d2) p (ue_block_daa_score e)))) = None"
    unfolding intersects_with_rule_None [OF wf(1,4)] contains_with_daa_score_iff by blast
  show "intersects_with_rule (ud_remove d1) (ud_remove d2)
      (\<lambda>_ e e'. ue_block_daa_score e' \<noteq> ue_block_daa_score e) = None"
    unfolding intersects_with_rule_None [OF wf(2,4)] using v1(3) v2(3) by fastforce
qed

definition from_diff :: "utxo_diff \<Rightarrow> utxo_diff \<Rightarrow> utxo_diff" where
  "from_diff d1 d2 =
     \<lparr>ud_add =
        hm_insert_if (\<lambda>p e. \<not> contains_with_daa_score (ud_add d1) p (ue_block_daa_score e)) (ud_add d2)
          (hm_insert_if (\<lambda>p e. \<not> contains_with_daa_score (ud_remove d2) p (ue_block_daa_score e)) (ud_remove d1) []),
      ud_remove =
        hm_insert_if (\<lambda>p e. \<not> contains_with_daa_score (ud_remove d1) p (ue_block_daa_score e)) (ud_remove d2)
          (hm_insert_if (\<lambda>p e. \<not> contains_with_daa_score (ud_add d2) p (ue_block_daa_score e)) (ud_add d1) [])\<rparr>"

lemma diff_from_eq:
  assumes "diff_valid V d1" and "diff_valid V d2"
  shows "diff_from d1 d2 = Inr (from_diff d1 d2)"
proof -
  let ?both = "hm_insert_if (\<lambda>p e. contains_with_daa_score (ud_add d2) p (ue_block_daa_score e)) (ud_add d1) []"
  have "hm_get (ud_remove d1) p \<noteq> None \<longleftrightarrow> hm_get (ud_remove d2) p \<noteq> None"
    if both: "hm_get ?both p \<noteq> None" for p
  proof -
    obtain e1 e2 where "hm_get (ud_add d1) p = Some e1" "hm_get (ud_add d2) p = Some e2"
      using both unfolding hm_get_insert_if [OF diff_validD(1) [OF assms(1)]] contains_with_daa_score_iff
      by (auto split: option.splits if_splits)
    then have "hm_get (ud_remove d1) p = V p" "hm_get (ud_remove d2) p = V p"
      using assms by (auto elim: diff_valid_cases [where p = p])
    then show ?thesis by simp
  qed
  then have "intersects ?both (ud_remove d1) = intersects ?both (ud_remove d2)"
    unfolding intersects_iff by blast
  then show ?thesis
    using diff_from_checks_pass [OF assms]
    by (simp add: diff_from_def subtraction_with_remainder_eq subtraction_eq from_diff_def)
qed

lemma from_diff_get:
  assumes "diff_valid V d1" and "diff_valid V d2"
  shows "hm_get (ud_add (from_diff d1 d2)) p =
      (let a = case hm_get (ud_remove d1) p of
                 Some e \<Rightarrow> if contains_with_daa_score (ud_remove d2) p (ue_block_daa_score e) then None else Some e
               | None \<Rightarrow> None
       in case hm_get (ud_add d2) p of
            Some e \<Rightarrow> if contains_with_daa_score (ud_add d1) p (ue_block_daa_score e) then a else Some e
          | None \<Rightarrow> a)"
    and "hm_get (ud_remove (from_diff d1 d2)) p =
      (let r = case hm_get (ud_add d1) p of
                 Some e \<Rightarrow> if contains_with_daa_score (ud_add d2) p (ue_block_daa_score e) then None else Some e
               | None \<Rightarrow> None
       in case hm_get (ud_remove d2) p of
            Some e \<Rightarrow> if contains_with_daa_score (ud_remove d1) p (ue_block_daa_score e) then r else Some e
          | None \<Rightarrow> r)"
  using diff_validD(1,2) [OF assms(1)] diff_validD(1,2) [OF assms(2)]
  by (simp_all add: from_diff_def hm_get_insert_if Let_def split: option.split)

lemma from_diff_at:
  assumes v1: "diff_valid V d1" and v2: "diff_valid V d2"
    and agree: "entries_agree (hm_get (ud_add d1)) (ud_add d2)"
  shows "composed_get (composed_get V d1) (from_diff d1 d2) p = composed_get V d2 p \<and>
    (\<forall>e. hm_get (ud_remove (from_diff d1 d2)) p = Some e \<longrightarrow> composed_get V d1 p = Some e) \<and>
    (\<forall>e. hm_get (ud_add (from_diff d1 d2)) p = Some e \<longrightarrow>
       composed_get V d1 p = None \<or> hm_get (ud_remove (from_diff d1 d2)) p \<noteq> None) \<and>
    (\<forall>e e'. hm_get (ud_add (from_diff d1 d2)) p = Some e \<longrightarrow> hm_get (ud_remove (from_diff d1 d2)) p = Some e' \<longrightarrow>
       ue_block_daa_score e \<noteq> ue_block_daa_score e')"
proof -
  have ag: "hm_get (ud_add d1) p = Some e \<Longrightarrow> hm_get (ud_add d2) p = Some e' \<Longrightarrow>
      ue_block_daa_score e = ue_block_daa_score e' \<Longrightarrow> e = e'" for e e'
    using agree by (auto simp: entries_agree_def)
  note simps = composed_get_alt [of "composed_get V d1" "from_diff d1 d2"] from_diff_get [OF v1 v2]
    contains_with_daa_score_def Let_def
  show ?thesis
    using v2
  proof (cases rule: diff_valid_cases [where p = p])
    case untouched
    show ?thesis using v1 untouched
      by (cases rule: diff_valid_cases [where p = p]) (simp_all add: simps)
  next
    case (added e)
    show ?thesis using v1 added
      by (cases rule: diff_valid_cases [where p = p]) (auto simp: simps dest: ag)
  next
    case (removed e)
    show ?thesis using v1 removed
      by (cases rule: diff_valid_cases [where p = p]) (auto simp: simps)
  next
    case (replaced e e')
    show ?thesis using v1 replaced
      by (cases rule: diff_valid_cases [where p = p]) (auto simp: simps dest: ag)
  qed
qed

lemma diff_from_refines:
  assumes "diff_valid V d1" and "diff_valid V d2" and "entries_agree (hm_get (ud_add d1)) (ud_add d2)"
  shows "diff_valid (composed_get V d1) (from_diff d1 d2)"
    and "composed_get (composed_get V d1) (from_diff d1 d2) = composed_get V d2"
proof -
  note at = from_diff_at [OF assms]
  show "composed_get (composed_get V d1) (from_diff d1 d2) = composed_get V d2"
    using at by blast
  have "hm_wf (ud_add (from_diff d1 d2)) \<and> hm_wf (ud_remove (from_diff d1 d2))"
    by (simp add: from_diff_def hm_wf_insert_if)
  then show "diff_valid (composed_get V d1) (from_diff d1 d2)"
    unfolding diff_valid_def using at by blast
qed

section \<open>Accepting transactions\<close>

lemma diff_valid_override:
  assumes "diff_valid V d" "hm_wf (ud_add d')" "hm_wf (ud_remove d')"
    and "\<And>q. q \<noteq> p \<Longrightarrow> hm_get (ud_add d') q = hm_get (ud_add d) q"
    and "\<And>q. q \<noteq> p \<Longrightarrow> hm_get (ud_remove d') q = hm_get (ud_remove d) q"
    and "\<And>e. hm_get (ud_remove d') p = Some e \<Longrightarrow> V p = Some e"
    and "\<And>e. hm_get (ud_add d') p = Some e \<Longrightarrow> V p = None \<or> hm_get (ud_remove d') p \<noteq> None"
    and "\<And>e e'. hm_get (ud_add d') p = Some e \<Longrightarrow> hm_get (ud_remove d') p = Some e' \<Longrightarrow>
           ue_block_daa_score e \<noteq> ue_block_daa_score e'"
  shows "diff_valid V d'"
  unfolding diff_valid_def
proof (intro conjI allI impI)
  fix q e assume "hm_get (ud_remove d') q = Some e"
  then show "V q = Some e"
    using assms(5,6) diff_validD(3) [OF assms(1)] by (cases "q = p") auto
next
  fix q e assume "hm_get (ud_add d') q = Some e"
  then show "V q = None \<or> hm_get (ud_remove d') q \<noteq> None"
    using assms(4,5,7) diff_validD(4) [OF assms(1), of q] by (cases "q = p") auto
next
  fix q e e' assume "hm_get (ud_add d') q = Some e" "hm_get (ud_remove d') q = Some e'"
  then show "ue_block_daa_score e \<noteq> ue_block_daa_score e'"
    using assms(4,5,8) diff_validD(5) [OF assms(1), of q] by (cases "q = p") auto
qed (use assms(2,3) in auto)

lemma remove_entry_refines:
  assumes v: "diff_valid V d" and e: "composed_get V d p = Some e"
  obtains d' where "remove_entry p e d = Inr d'" "diff_valid V d'"
    "composed_get V d' = (composed_get V d)(p := None)"
proof (cases "contains_with_daa_score (ud_add d) p (ue_block_daa_score e)")
  case True
  let ?d' = "d\<lparr>ud_add := hm_remove p (ud_add d)\<rparr>"
  have "diff_valid V ?d'"
    by (rule diff_valid_override [OF v, where p = p]) (use diff_validD [OF v] in auto)
  moreover have "composed_get V ?d' = (composed_get V d)(p := None)"
    using v True by (cases rule: diff_valid_cases [where p = p])
      (auto simp: fun_eq_iff composed_get_alt contains_with_daa_score_iff)
  ultimately show thesis
    using that True by (simp add: remove_entry_def)
next
  case False
  let ?d' = "d\<lparr>ud_remove := hm_insert p e (ud_remove d)\<rparr>"
  have get: "hm_get (ud_add d) p = None" "hm_get (ud_remove d) p = None" "V p = Some e"
    using v False e by (cases rule: diff_valid_cases [where p = p];
        auto simp: contains_with_daa_score_iff)+
  have "diff_valid V ?d'"
    by (rule diff_valid_override [OF v, where p = p]) (use diff_validD [OF v] get in auto)
  moreover have "composed_get V ?d' = (composed_get V d)(p := None)"
    using get by (auto simp: fun_eq_iff composed_get_alt)
  ultimately show thesis
    using that False get by (simp add: remove_entry_def)
qed

lemma add_entry_refines:
  assumes v: "diff_valid V d" and fresh: "composed_get V d p = None"
    and agree: "\<And>e0. V p = Some e0 \<Longrightarrow> ue_block_daa_score e0 = ue_block_daa_score e \<Longrightarrow> e0 = e"
  obtains d' where "add_entry p e d = Inr d'" "diff_valid V d'"
    "composed_get V d' = (composed_get V d)(p \<mapsto> e)"
proof (cases "contains_with_daa_score (ud_remove d) p (ue_block_daa_score e)")
  case True
  let ?d' = "d\<lparr>ud_remove := hm_remove p (ud_remove d)\<rparr>"
  have get: "hm_get (ud_add d) p = None" "V p = Some e"
    using v True fresh by (cases rule: diff_valid_cases [where p = p];
        auto simp: contains_with_daa_score_iff dest: agree)+
  have "diff_valid V ?d'"
    by (rule diff_valid_override [OF v, where p = p]) (use diff_validD [OF v] get in auto)
  moreover have "composed_get V ?d' = (composed_get V d)(p \<mapsto> e)"
    using get by (auto simp: fun_eq_iff composed_get_alt)
  ultimately show thesis
    using that True by (simp add: add_entry_def)
next
  case False
  let ?d' = "d\<lparr>ud_add := hm_insert p e (ud_add d)\<rparr>"
  have get: "hm_get (ud_add d) p = None" "V p = None \<or> hm_get (ud_remove d) p \<noteq> None"
    using v fresh by (cases rule: diff_valid_cases [where p = p]; auto)+
  have "diff_valid V ?d'"
    by (rule diff_valid_override [OF v, where p = p])
       (use diff_validD(1-3) [OF v] get False in \<open>auto simp: contains_with_daa_score_iff\<close>)
  moreover have "composed_get V ?d' = (composed_get V d)(p \<mapsto> e)"
    by (auto simp: fun_eq_iff composed_get_alt)
  ultimately show thesis
    using that False get by (simp add: add_entry_def)
qed

lemma remove_entries_refine:
  assumes "diff_valid V d" and "distinct (map fst xs)"
    and "\<And>p e. (p, e) \<in> set xs \<Longrightarrow> composed_get V d p = Some e"
  obtains d' where "fold_res (\<lambda>(p, e). remove_entry p e) xs d = Inr d'" "diff_valid V d'"
    "composed_get V d' = (\<lambda>p. if p \<in> fst ` set xs then None else composed_get V d p)"
  using assms
proof (induction xs arbitrary: d thesis)
  case Nil
  then show ?case by simp
next
  case (Cons x xs)
  obtain p e where x: "x = (p, e)" by (cases x)
  obtain d1 where d1: "remove_entry p e d = Inr d1" "diff_valid V d1"
      "composed_get V d1 = (composed_get V d)(p := None)"
    using remove_entry_refines [OF Cons.prems(2), of p e] Cons.prems(4) [of p e] by (auto simp: x)
  obtain d' where d': "fold_res (\<lambda>(p, e). remove_entry p e) xs d1 = Inr d'" "diff_valid V d'"
      "composed_get V d' = (\<lambda>p. if p \<in> fst ` set xs then None else composed_get V d1 p)"
  proof (rule Cons.IH [OF _ d1(2)])
    show "distinct (map fst xs)"
      using Cons.prems(3) by simp
    show "composed_get V d1 q = Some e'" if "(q, e') \<in> set xs" for q e'
      using that Cons.prems(3) Cons.prems(4) [of q e'] by (force simp: x d1(3))
  qed
  show ?case
  proof (rule Cons.prems(1) [OF _ d'(2)])
    show "composed_get V d' = (\<lambda>q. if q \<in> fst ` set (x # xs) then None else composed_get V d q)"
      unfolding d'(3) d1(3) by (auto simp: x fun_eq_iff)
  qed (simp add: x d1(1) d'(1))
qed

lemma add_entries_refine:
  assumes "diff_valid V d" and "distinct (map fst xs)"
    and "\<And>p e. (p, e) \<in> set xs \<Longrightarrow> composed_get V d p = None"
    and "entries_agree V xs"
  obtains d' where "fold_res (\<lambda>(p, e). add_entry p e) xs d = Inr d'" "diff_valid V d'"
    "composed_get V d' = composed_get V d ++ map_of xs"
  using assms
proof (induction xs arbitrary: d thesis)
  case Nil
  then show ?case by simp
next
  case (Cons x xs)
  obtain p e where x: "x = (p, e)" by (cases x)
  have agree: "\<And>e0. V p = Some e0 \<Longrightarrow> ue_block_daa_score e0 = ue_block_daa_score e \<Longrightarrow> e0 = e"
    using Cons.prems(5) by (simp add: entries_agree_def hm_get_def x)
  obtain d1 where d1: "add_entry p e d = Inr d1" "diff_valid V d1"
      "composed_get V d1 = (composed_get V d)(p \<mapsto> e)"
    using add_entry_refines [OF Cons.prems(2) _ agree] Cons.prems(4) [of p e] by (auto simp: x)
  have np: "p \<notin> fst ` set xs" "distinct (map fst xs)"
    using Cons.prems(3) by (simp_all add: x)
  then have mp: "map_of xs p = None"
    by (simp add: map_of_eq_None_iff)
  have ag: "entries_agree V xs"
    unfolding entries_agree_def
  proof (intro allI impI)
    fix q a b
    assume "V q = Some a" "hm_get xs q = Some b" "ue_block_daa_score a = ue_block_daa_score b"
    moreover from this have "hm_get (x # xs) q = Some b"
      using mp by (auto simp: hm_get_def x)
    ultimately show "a = b"
      using Cons.prems(5) unfolding entries_agree_def by blast
  qed
  obtain d' where d': "fold_res (\<lambda>(p, e). add_entry p e) xs d1 = Inr d'" "diff_valid V d'"
      "composed_get V d' = composed_get V d1 ++ map_of xs"
  proof (rule Cons.IH [OF _ d1(2) np(2) _ ag])
    show "composed_get V d1 q = None" if "(q, e') \<in> set xs" for q e'
      using that np(1) Cons.prems(4) [of q e'] by (force simp: d1(3))
  qed
  show ?case
  proof (rule Cons.prems(1) [OF _ d'(2)])
    show "composed_get V d' = composed_get V d ++ map_of (x # xs)"
      unfolding d'(3) d1(3) using mp by (auto simp: x map_add_def fun_eq_iff split: option.split)
  qed (simp add: x d1(1) d'(1))
qed

lemma fst_created_utxos:
  "map fst (created_utxos tx s) = map (\<lambda>i. outpoint (tx_id tx) (i mod 2 ^ 32)) [0..<length (tx_outputs tx)]"
  by (auto simp: created_utxos_def enumerate_eq_zip intro!: nth_equalityI)

lemma distinct_created_utxos:
  assumes "length (tx_outputs tx) \<le> 2 ^ 32"
  shows "distinct (map fst (created_utxos tx s))"
proof -
  have "i mod 2 ^ 32 = i" if "i < length (tx_outputs tx)" for i
    using that assms by simp
  then have "map (\<lambda>i. outpoint (tx_id tx) (i mod 2 ^ 32)) [0..<length (tx_outputs tx)]
      = map (outpoint (tx_id tx)) [0..<length (tx_outputs tx)]"
    by (intro map_cong) auto
  then show ?thesis
    by (simp add: fst_created_utxos distinct_map inj_on_def)
qed

lemma add_transaction_refines:
  assumes valid: "diff_valid V d"
    and inputs: "distinct (map in_previous_outpoint (tx_inputs (vt_tx v)))"
    and entries: "length (vt_entries v) = length (tx_inputs (vt_tx v))"
    and populated: "\<And>i e. (i, e) \<in> set (populated_inputs v) \<Longrightarrow>
      composed_get V d (in_previous_outpoint i) = Some e"
    and outputs: "length (tx_outputs (vt_tx v)) \<le> 2 ^ 32"
    and fresh: "\<And>i. composed_get V d (outpoint (tx_id (vt_tx v)) i) = None"
    and agree: "entries_agree V (created_utxos (vt_tx v) s)"
  obtains d' where "add_transaction v s d = Inr d'" "diff_valid V d'"
    "composed_get V d' =
       (\<lambda>p. if p \<in> in_previous_outpoint ` set (tx_inputs (vt_tx v)) then None else composed_get V d p)
       ++ map_of (created_utxos (vt_tx v) s)"
proof -
  let ?xs = "map (\<lambda>(i, e). (in_previous_outpoint i, e)) (populated_inputs v)"
  have "map fst ?xs = map in_previous_outpoint (map fst (populated_inputs v))"
    by (simp add: case_prod_beta comp_def)
  then have keys: "map fst ?xs = map in_previous_outpoint (tx_inputs (vt_tx v))"
    using entries by (simp add: populated_inputs_def)
  have fold_eq: "fold_res (\<lambda>(i, e). remove_entry (in_previous_outpoint i) e) ys d =
      fold_res (\<lambda>(p, e). remove_entry p e) (map (\<lambda>(i, e). (in_previous_outpoint i, e)) ys) d" for ys
    by (induction ys arbitrary: d) (auto split: sum.splits)
  obtain d1 where d1: "fold_res (\<lambda>(p, e). remove_entry p e) ?xs d = Inr d1" "diff_valid V d1"
      "composed_get V d1 = (\<lambda>p. if p \<in> fst ` set ?xs then None else composed_get V d p)"
    by (rule remove_entries_refine [OF valid, of ?xs]) (use keys inputs populated in auto)
  obtain d2 where d2: "fold_res (\<lambda>(p, e). add_entry p e) (created_utxos (vt_tx v) s) d1 = Inr d2"
      "diff_valid V d2" "composed_get V d2 = composed_get V d1 ++ map_of (created_utxos (vt_tx v) s)"
  proof (rule add_entries_refine [OF d1(2) distinct_created_utxos [OF outputs] _ agree])
    fix p e assume "(p, e) \<in> set (created_utxos (vt_tx v) s)"
    then obtain i where "p = outpoint (tx_id (vt_tx v)) i"
      by (auto simp: created_utxos_def)
    then show "composed_get V d1 p = None"
      using fresh by (simp add: d1(3))
  qed
  have "fst ` set ?xs = in_previous_outpoint ` set (tx_inputs (vt_tx v))"
    using arg_cong [OF keys, of set] by (simp only: set_map)
  then show thesis
    using that d1 d2 by (simp add: add_transaction_def fold_eq)
qed

section \<open>Properties\<close>

text \<open>Sample data for the witnesses.\<close>

definition sample_entry :: "u64 \<Rightarrow> u64 \<Rightarrow> utxo_entry" where
  "sample_entry a daa =
     \<lparr>ue_amount = a, ue_script_public_key = \<lparr>spk_version = 0, spk_script = []\<rparr>,
      ue_block_daa_score = daa, ue_is_coinbase = False\<rparr>"

lemma sample_entry_simps [simp]:
  "ue_block_daa_score (sample_entry a daa) = daa"
  "ue_amount (sample_entry a daa) = a"
  by (simp_all add: sample_entry_def)

text \<open>C1. \<open>UtxoDiff::with_diff_in_place\<close> is sequential application: for a diff \<open>d1\<close> of a view and a
  diff \<open>d2\<close> of the resulting view, the composition succeeds (no sanity check fires), is again a
  valid diff of the base view, and reading through it gives what reading through the two layers
  gives.\<close>

theorem with_diff_is_sequential_application:
  assumes "diff_valid V d1" and "diff_valid (composed_get V d1) d2" and "entries_agree V (ud_add d2)"
  shows "\<exists>d. with_diff_in_place d1 d2 = Inr d \<and> diff_valid V d \<and>
    composed_get V d = composed_get (composed_get V d1) d2"
  using with_diff_in_place_refines [OF assms] by blast

theorem with_diff_is_sequential_application_witness:
  "\<exists>d. with_diff_in_place
         \<lparr>ud_add = [(sample_outpoint 1, sample_entry 7 5)], ud_remove = [(sample_outpoint 0, sample_entry 3 2)]\<rparr>
         \<lparr>ud_add = [(sample_outpoint 0, sample_entry 9 8)], ud_remove = [(sample_outpoint 1, sample_entry 7 5)]\<rparr>
       = Inr d \<and>
     diff_valid [sample_outpoint 0 \<mapsto> sample_entry 3 2] d \<and>
     composed_get [sample_outpoint 0 \<mapsto> sample_entry 3 2] d =
     composed_get (composed_get [sample_outpoint 0 \<mapsto> sample_entry 3 2]
         \<lparr>ud_add = [(sample_outpoint 1, sample_entry 7 5)], ud_remove = [(sample_outpoint 0, sample_entry 3 2)]\<rparr>)
       \<lparr>ud_add = [(sample_outpoint 0, sample_entry 9 8)], ud_remove = [(sample_outpoint 1, sample_entry 7 5)]\<rparr>"
  by (rule with_diff_is_sequential_application)
     (auto simp: diff_valid_def entries_agree_def composed_get_alt hm_defs split: if_splits)

text \<open>C18. \<open>UtxoDiff::diff_from\<close>: for two diffs of the same base view (that agree on what they
  both add), the call succeeds and its result, applied on top of the first diff, gives the view of
  the second.\<close>

theorem diff_from_goes_between_views:
  assumes "diff_valid V d1" and "diff_valid V d2" and "entries_agree (hm_get (ud_add d1)) (ud_add d2)"
  shows "\<exists>d. diff_from d1 d2 = Inr d \<and> diff_valid (composed_get V d1) d \<and>
    composed_get (composed_get V d1) d = composed_get V d2"
  using diff_from_eq [OF assms(1,2)] diff_from_refines [OF assms] by blast

theorem diff_from_goes_between_views_witness:
  "\<exists>d. diff_from
         \<lparr>ud_add = [(sample_outpoint 1, sample_entry 7 5)], ud_remove = [(sample_outpoint 0, sample_entry 3 2)]\<rparr>
         \<lparr>ud_add = [(sample_outpoint 2, sample_entry 4 6)], ud_remove = []\<rparr> = Inr d \<and>
     diff_valid (composed_get [sample_outpoint 0 \<mapsto> sample_entry 3 2]
       \<lparr>ud_add = [(sample_outpoint 1, sample_entry 7 5)], ud_remove = [(sample_outpoint 0, sample_entry 3 2)]\<rparr>) d \<and>
     composed_get (composed_get [sample_outpoint 0 \<mapsto> sample_entry 3 2]
       \<lparr>ud_add = [(sample_outpoint 1, sample_entry 7 5)], ud_remove = [(sample_outpoint 0, sample_entry 3 2)]\<rparr>) d =
     composed_get [sample_outpoint 0 \<mapsto> sample_entry 3 2]
       \<lparr>ud_add = [(sample_outpoint 2, sample_entry 4 6)], ud_remove = []\<rparr>"
  by (rule diff_from_goes_between_views)
     (auto simp: diff_valid_def entries_agree_def hm_defs split: if_splits)

text \<open>A reversed diff is a diff of the composed view and undoes the original one (the step a
  reorg takes back).\<close>

theorem reversed_diff_undoes:
  assumes "diff_valid V d"
  shows "diff_valid (composed_get V d) (to_reversed d) \<and>
    composed_get (composed_get V d) (to_reversed d) = V"
  using to_reversed_valid [OF assms] to_reversed_undoes [OF assms] by blast

text \<open>C21. \<open>UtxoDiff::add_transaction\<close>: accepting a transaction whose inputs are distinct and
  populated from the composed view, and whose id is fresh in it, succeeds; the view then lacks
  exactly the spent outpoints and gains exactly the transaction's outputs, stamped with the
  accepting DAA score.\<close>

theorem add_transaction_spends_and_creates:
  assumes "diff_valid V d"
    and "distinct (map in_previous_outpoint (tx_inputs (vt_tx v)))"
    and "length (vt_entries v) = length (tx_inputs (vt_tx v))"
    and "\<And>i e. (i, e) \<in> set (populated_inputs v) \<Longrightarrow> composed_get V d (in_previous_outpoint i) = Some e"
    and "length (tx_outputs (vt_tx v)) \<le> 2 ^ 32"
    and "\<And>i. composed_get V d (outpoint (tx_id (vt_tx v)) i) = None"
    and "entries_agree V (created_utxos (vt_tx v) s)"
  shows "\<exists>d'. add_transaction v s d = Inr d' \<and> diff_valid V d' \<and>
    composed_get V d' =
      (\<lambda>p. if p \<in> in_previous_outpoint ` set (tx_inputs (vt_tx v)) then None else composed_get V d p)
      ++ map_of (created_utxos (vt_tx v) s)"
  by (rule add_transaction_refines [OF assms]) auto

definition sample_tx :: validated_transaction where
  "sample_tx =
     \<lparr>vt_tx = \<lparr>tx_version = 0,
        tx_inputs = [\<lparr>in_previous_outpoint = sample_outpoint 0, in_signature_script = [], in_sequence = 0,
          in_sig_op_count = 1\<rparr>],
        tx_outputs = [\<lparr>out_value = 2, out_script_public_key = \<lparr>spk_version = 0, spk_script = []\<rparr>\<rparr>],
        tx_lock_time = 0, tx_subnetwork_id = SUBNETWORK_ID_NATIVE, tx_gas = 0, tx_payload = [], tx_mass = 0,
        tx_id = sample_hash 1\<rparr>,
      vt_entries = [sample_entry 3 2], vt_calculated_fee = 1\<rparr>"

theorem add_transaction_spends_and_creates_witness:
  "\<exists>d'. add_transaction sample_tx 4 utxo_diff_default = Inr d' \<and>
     diff_valid [sample_outpoint 0 \<mapsto> sample_entry 3 2] d' \<and>
     composed_get [sample_outpoint 0 \<mapsto> sample_entry 3 2] d' =
      (\<lambda>p. if p \<in> in_previous_outpoint ` set (tx_inputs (vt_tx sample_tx)) then None
           else composed_get [sample_outpoint 0 \<mapsto> sample_entry 3 2] utxo_diff_default p)
      ++ map_of (created_utxos (vt_tx sample_tx) 4)"
  by (rule add_transaction_spends_and_creates [OF default_valid])
     (auto simp: default_composed sample_tx_def populated_inputs_def entries_agree_def
       created_utxos_def hm_get_def split: if_splits)

end
