(* ===== verification/Dns_Types.thy ===== *)
theory Dns_Types
  imports Tx_Types
begin

text \<open>
  The data of the DNS finality overlay (\<open>consensus/core/src/dns_finality.rs\<close>): bond status,
  wire payloads, consensus records and parameters. Borsh decoding is a third-party codec: it is the
  record \<open>dns_codec\<close> of four partial functions that the operations take as an argument.
  A \<open>[u8; 64]\<close> payload is a byte list; \<open>StakeScore\<close> and \<open>BlueWorkType\<close> are natural numbers.
\<close>

section \<open>Constants\<close>

definition STAKE_VALIDATOR_PUBKEY_LEN :: usize where
  "STAKE_VALIDATOR_PUBKEY_LEN = 2592"

definition STAKE_ATTESTATION_SIG_LEN :: usize where
  "STAKE_ATTESTATION_SIG_LEN = 4627"

definition MAX_ATTESTATIONS_PER_SHARD :: usize where
  "MAX_ATTESTATIONS_PER_SHARD = 16"

definition STAKE_SCORE_SCALE :: u128 where
  "STAKE_SCORE_SCALE = 1000000000"

definition DNS_PAYLOAD_VERSION_V1 :: u16 where
  "DNS_PAYLOAD_VERSION_V1 = 1"

section \<open>Statuses\<close>

datatype dns_rollout_stage = Launch | Bootstrap | StageActive

datatype dns_health =
    DisabledBeforeActivation
  | HealthActive
  | DegradedStakeQualityLow
  | DegradedCertificateCensored

datatype bond_status = Pending | Active | Unbonding | Slashed | Dormant

datatype dns_reorg_mode = HardCheckpoint | TwoDimensionalDominance

section \<open>Wire payloads\<close>

record stake_bond_payload =
  bp_version :: u16
  bp_owner_pubkey_hash :: hash64
  bp_validator_pubkey_hash :: hash64
  bp_validator_pubkey :: bytes
  bp_amount :: u64
  bp_activation_daa_score :: u64
  bp_unbonding_period_blocks :: u64
  bp_owner_reward_spk_payload :: bytes

record stake_attestation =
  at_version :: u16
  at_validator_id :: hash64
  at_bond_outpoint :: transaction_outpoint
  at_epoch :: u64
  at_target_hash :: hash64
  at_target_daa_score :: u64
  at_validator_set_commitment :: hash64
  at_signature :: bytes

record stake_attestation_shard_payload =
  sh_version :: u16
  sh_epoch :: u64
  sh_target_hash :: hash64
  sh_target_daa_score :: u64
  sh_validator_set_commitment :: hash64
  sh_attestations :: "stake_attestation list"

definition single_attestation_shard :: "stake_attestation \<Rightarrow> stake_attestation_shard_payload" where
  "single_attestation_shard a =
     \<lparr>sh_version = DNS_PAYLOAD_VERSION_V1, sh_epoch = at_epoch a, sh_target_hash = at_target_hash a,
      sh_target_daa_score = at_target_daa_score a,
      sh_validator_set_commitment = at_validator_set_commitment a, sh_attestations = [a]\<rparr>"

record slashing_evidence_payload =
  ev_version :: u16
  ev_bond_outpoint :: transaction_outpoint
  ev_attestation_a :: stake_attestation
  ev_attestation_b :: stake_attestation
  ev_reporter_reward_spk_payload :: bytes

record stake_unbond_request_payload =
  ub_version :: u16
  ub_bond_outpoint :: transaction_outpoint
  ub_owner_pubkey :: bytes
  ub_signature :: bytes

section \<open>Consensus records\<close>

record stake_bond_record =
  br_version :: u16
  br_bond_outpoint :: transaction_outpoint
  br_owner_pubkey_hash :: hash64
  br_validator_pubkey_hash :: hash64
  br_validator_pubkey :: bytes
  br_amount :: u64
  br_activation_daa_score :: u64
  br_created_daa_score :: u64
  br_unbonding_period_blocks :: u64
  br_owner_reward_spk_payload :: bytes
  br_unbond_request_daa_score :: "u64 option"
  br_slashed_at_daa_score :: "u64 option"
  br_status :: bond_status
  br_last_attested_epoch :: "u64 option"
  br_dormant_at_daa_score :: "u64 option"
  br_dormant_at_epoch :: "u64 option"

record dns_state =
  ds_selected_chain_anchor :: hash64
  ds_anchor_daa_score :: u64
  ds_work_depth :: nat
  ds_stake_depth :: u128
  ds_last_dns_confirmed_anchor :: hash64
  ds_last_dns_confirmed_anchor_daa_score :: u64
  ds_rollout_stage :: dns_rollout_stage
  ds_validator_set_commitment :: hash64
  ds_health :: dns_health
  ds_last_evicted_round_epoch :: u64

section \<open>Parameters\<close>

record fee_split_params =
  fs_subsidy_worker_base_bps :: u16
  fs_subsidy_worker_inclusion_bps :: u16
  fs_subsidy_validator_bps :: u16
  fs_subsidy_service_bps :: u16
  fs_normal_fee_worker_bps :: u16
  fs_normal_fee_validator_bps :: u16
  fs_normal_fee_service_bps :: u16
  fs_finality_fee_validator_bps :: u16
  fs_finality_fee_worker_bps :: u16
  fs_finality_fee_service_bps :: u16

record reward_params =
  rp_per_attestation_reward_sompi :: u64
  rp_slashing_reporter_reward_bps :: u16
  rp_max_validator_inflation_per_block_sompi :: u64
  rp_validator_participation_bps :: u16
  rp_validator_quality_bonus_bps :: u16
  rp_quality_gate_bonus_sompi :: u64
  rp_worker_urgency_multiplier_scaled :: u64
  rp_fee_split :: fee_split_params
  rp_fee_split_bootstrap :: fee_split_params
  rp_security_reserve_bps :: u16
  rp_victim_epoch_pool_bps :: u16
  rp_reserve_drip_per_epoch_cap_sompi :: u64

record dns_params =
  dp_dns_activation_daa_score :: u64
  dp_min_active_stake_sompi :: u64
  dp_min_active_validators :: u32
  dp_min_bond_amount_sompi :: u64
  dp_epoch_length_blocks :: u64
  dp_required_work_depth :: nat
  dp_required_stake_depth :: u128
  dp_emergency_work_margin :: nat
  dp_emergency_stake_margin :: u128
  dp_max_reorg_horizon_blocks :: u64
  dp_evidence_window_blocks :: u64
  dp_unbonding_period_blocks :: u64
  dp_max_attestations_per_block :: u16
  dp_max_attestation_shard_mass :: u64
  dp_reward_uniqueness_window_blocks :: u64
  dp_stake_event_quality_floor_bps :: u16
  dp_degraded_stake_quality_epochs :: u32
  dp_stake_censorship_floor_bps :: u16
  dp_reward_params :: reward_params
  dp_reorg_mode :: dns_reorg_mode
  dp_full_reward_split_daa_score :: u64
  dp_pos_v2_activation_daa_score :: u64
  dp_attestation_epoch_length_blue_score :: u64
  dp_attestation_lag_blue_score :: u64
  dp_attestation_anchor_backoff_blue_score :: u64
  dp_stake_score_window_blue_score :: u64
  dp_finality_fee_activation_daa_score :: u64
  dp_bond_spend_gate_mergeset_activation_daa_score :: u64
  dp_mandatory_attestation_inclusion_daa_score :: u64
  dp_bridge_finality_max_staleness_daa_score :: u64
  dp_dormancy_activation_daa_score :: u64
  dp_dormancy_window_epochs :: u64
  dp_dormancy_evict_period_epochs :: u64
  dp_dormancy_evict_limit_bps :: u16
  dp_dormancy_revival_delay_epochs :: u16

section \<open>Routing and decoding\<close>

datatype dns_tx_class = StakeBond | StakeAttestationShard | SlashingEvidence | StakeUnbond

definition dns_tx_kind :: "subnetwork_id \<Rightarrow> dns_tx_class option" where
  "dns_tx_kind s =
     (if s = SUBNETWORK_ID_STAKE_BOND then Some StakeBond
      else if s = SUBNETWORK_ID_STAKE_ATTESTATION_SHARD then Some StakeAttestationShard
      else if s = SUBNETWORK_ID_SLASHING_EVIDENCE then Some SlashingEvidence
      else if s = SUBNETWORK_ID_STAKE_UNBOND then Some StakeUnbond
      else None)"

lemma dns_tx_kind_is_dns_overlay: "is_dns_overlay s \<longleftrightarrow> dns_tx_kind s \<noteq> None"
  by (simp add: is_dns_overlay_def dns_tx_kind_def)

lemma dns_tx_kind_simps [simp]:
  "dns_tx_kind SUBNETWORK_ID_STAKE_BOND = Some StakeBond"
  "dns_tx_kind SUBNETWORK_ID_STAKE_ATTESTATION_SHARD = Some StakeAttestationShard"
  "dns_tx_kind SUBNETWORK_ID_SLASHING_EVIDENCE = Some SlashingEvidence"
  "dns_tx_kind SUBNETWORK_ID_STAKE_UNBOND = Some StakeUnbond"
  by (simp_all add: dns_tx_kind_def subnetwork_id_defs)

text \<open>The borsh decoders the overlay relies on: \<open>borsh::from_slice\<close> at the four payload types.\<close>

record dns_codec =
  dec_bond :: "bytes \<Rightarrow> stake_bond_payload option"
  dec_shard :: "bytes \<Rightarrow> stake_attestation_shard_payload option"
  dec_evidence :: "bytes \<Rightarrow> slashing_evidence_payload option"
  dec_unbond :: "bytes \<Rightarrow> stake_unbond_request_payload option"

end
