(* ===== verification/Dns_Bonds.thy ===== *)
theory Dns_Bonds
  imports Dns_Types
begin

text \<open>
  The stake-bond registry (\<open>dns_finality.rs\<close>, ``Stake bonds'' and the active-bond view, and the
  registry functions of \<open>pipeline/virtual_processor/processor.rs\<close>): deriving the effective status
  of a bond from its DAA stamps, deriving the mutations of a block from its accepted transactions,
  applying and reverting them in the in-memory view and in the persisted registry, and normalising
  the cached status.

  The cached \<open>status\<close> field is not authoritative: \<open>stamps\<close> abstracts a registry to its records
  without it, and the lemmas show that apply and revert are inverse on that abstraction and that
  normalising at the sink makes the registry a function of it.
\<close>

section \<open>Bond status\<close>

definition stake_bond_record_from_payload ::
  "stake_bond_payload \<Rightarrow> transaction_outpoint \<Rightarrow> stake_bond_record" where
  "stake_bond_record_from_payload p op =
     \<lparr>br_version = bp_version p, br_bond_outpoint = op,
      br_owner_pubkey_hash = bp_owner_pubkey_hash p,
      br_validator_pubkey_hash = bp_validator_pubkey_hash p,
      br_validator_pubkey = bp_validator_pubkey p, br_amount = bp_amount p,
      br_activation_daa_score = bp_activation_daa_score p, br_created_daa_score = 0,
      br_unbonding_period_blocks = bp_unbonding_period_blocks p,
      br_owner_reward_spk_payload = bp_owner_reward_spk_payload p,
      br_unbond_request_daa_score = None, br_slashed_at_daa_score = None, br_status = Pending,
      br_last_attested_epoch = None, br_dormant_at_daa_score = None, br_dormant_at_epoch = None\<rparr>"

definition bond_release_daa_score :: "stake_bond_record \<Rightarrow> u64 option" where
  "bond_release_daa_score r =
     map_option (\<lambda>u. sat_add64 u (br_unbonding_period_blocks r)) (br_unbond_request_daa_score r)"

text \<open>\<open>opt.is_some_and(|s| pov >= s)\<close>.\<close>

definition reached :: "u64 option \<Rightarrow> u64 \<Rightarrow> bool" where
  "reached stamp pov = (case stamp of Some s \<Rightarrow> s \<le> pov | None \<Rightarrow> False)"

definition effective_bond_status :: "stake_bond_record \<Rightarrow> u64 \<Rightarrow> bond_status" where
  "effective_bond_status r pov =
     (if reached (br_slashed_at_daa_score r) pov then Slashed
      else if reached (br_unbond_request_daa_score r) pov then Unbonding
      else if reached (br_dormant_at_daa_score r) pov then Dormant
      else if br_activation_daa_score r \<le> pov then Active else Pending)"

definition is_bond_active_at :: "stake_bond_record \<Rightarrow> u64 \<Rightarrow> bool" where
  "is_bond_active_at r pov = (effective_bond_status r pov = Active)"

section \<open>Mutations of a block\<close>

datatype bond_mutation =
    Insert transaction_outpoint stake_bond_record
  | Slash transaction_outpoint u64
  | Unbond transaction_outpoint u64

fun bond_mutations_loop ::
  "dns_codec \<Rightarrow> u64 \<Rightarrow> u64 \<Rightarrow> u64 \<Rightarrow> transaction list \<Rightarrow>
   transaction_outpoint set \<Rightarrow> transaction_outpoint set \<Rightarrow> bond_mutation list" where
  "bond_mutations_loop codec accepted_daa min_bond floor_blocks [] seen_slashes seen_unbonds = []"
| "bond_mutations_loop codec accepted_daa min_bond floor_blocks (tx # txs) seen_slashes seen_unbonds =
     (case dns_tx_kind (tx_subnetwork_id tx) of
        Some StakeBond \<Rightarrow>
          (case dec_bond codec (tx_payload tx) of
             Some payload \<Rightarrow>
               if bp_amount payload < min_bond
               then bond_mutations_loop codec accepted_daa min_bond floor_blocks txs seen_slashes seen_unbonds
               else
                 (let op = outpoint (tx_id tx) 0;
                      r = stake_bond_record_from_payload payload op;
                      r = r\<lparr>br_activation_daa_score := max (br_activation_daa_score r) accepted_daa\<rparr>;
                      r = r\<lparr>br_created_daa_score := accepted_daa\<rparr>;
                      r = r\<lparr>br_unbonding_period_blocks := max (br_unbonding_period_blocks r) floor_blocks\<rparr>
                  in Insert op r #
                     bond_mutations_loop codec accepted_daa min_bond floor_blocks txs seen_slashes seen_unbonds)
           | None \<Rightarrow> bond_mutations_loop codec accepted_daa min_bond floor_blocks txs seen_slashes seen_unbonds)
      | Some SlashingEvidence \<Rightarrow>
          (case dec_evidence codec (tx_payload tx) of
             Some payload \<Rightarrow>
               if ev_bond_outpoint payload \<in> seen_slashes
               then bond_mutations_loop codec accepted_daa min_bond floor_blocks txs seen_slashes seen_unbonds
               else Slash (ev_bond_outpoint payload) accepted_daa #
                    bond_mutations_loop codec accepted_daa min_bond floor_blocks txs
                      (insert (ev_bond_outpoint payload) seen_slashes) seen_unbonds
           | None \<Rightarrow> bond_mutations_loop codec accepted_daa min_bond floor_blocks txs seen_slashes seen_unbonds)
      | Some StakeUnbond \<Rightarrow>
          (case dec_unbond codec (tx_payload tx) of
             Some req \<Rightarrow>
               if ub_bond_outpoint req \<in> seen_unbonds
               then bond_mutations_loop codec accepted_daa min_bond floor_blocks txs seen_slashes seen_unbonds
               else Unbond (ub_bond_outpoint req) accepted_daa #
                    bond_mutations_loop codec accepted_daa min_bond floor_blocks txs
                      seen_slashes (insert (ub_bond_outpoint req) seen_unbonds)
           | None \<Rightarrow> bond_mutations_loop codec accepted_daa min_bond floor_blocks txs seen_slashes seen_unbonds)
      | Some StakeAttestationShard \<Rightarrow>
          bond_mutations_loop codec accepted_daa min_bond floor_blocks txs seen_slashes seen_unbonds
      | None \<Rightarrow>
          bond_mutations_loop codec accepted_daa min_bond floor_blocks txs seen_slashes seen_unbonds)"

definition bond_mutations_from_accepted_txs ::
  "dns_codec \<Rightarrow> transaction list \<Rightarrow> u64 \<Rightarrow> u64 \<Rightarrow> u64 \<Rightarrow> bond_mutation list" where
  "bond_mutations_from_accepted_txs codec txs accepted_daa min_bond floor_blocks =
     bond_mutations_loop codec accepted_daa min_bond floor_blocks txs {} {}"

section \<open>The active-bond view\<close>

text \<open>\<open>ActiveBondView\<close> wraps one map.\<close>

type_synonym active_bond_view = "(transaction_outpoint, stake_bond_record) hashmap"

definition refresh_status :: "u64 \<Rightarrow> stake_bond_record \<Rightarrow> stake_bond_record" where
  "refresh_status daa r = r\<lparr>br_status := effective_bond_status r daa\<rparr>"

definition view_from_records :: "(transaction_outpoint \<times> stake_bond_record) list \<Rightarrow> active_bond_view" where
  "view_from_records records = fold (\<lambda>(k, v). hm_insert k v) records []"

fun view_apply_mutation :: "bond_mutation \<Rightarrow> active_bond_view \<Rightarrow> active_bond_view" where
  "view_apply_mutation (Insert op r) v = hm_insert op r v"
| "view_apply_mutation (Slash op daa) v =
     hm_modify op (\<lambda>r. refresh_status daa (r\<lparr>br_slashed_at_daa_score := Some daa\<rparr>)) v"
| "view_apply_mutation (Unbond op daa) v =
     hm_modify op (\<lambda>r. refresh_status daa (r\<lparr>br_unbond_request_daa_score := Some daa\<rparr>)) v"

definition view_apply :: "bond_mutation list \<Rightarrow> active_bond_view \<Rightarrow> active_bond_view" where
  "view_apply mutations v = fold view_apply_mutation mutations v"

fun view_revert_mutation :: "bond_mutation \<Rightarrow> active_bond_view \<Rightarrow> active_bond_view" where
  "view_revert_mutation (Insert op r) v = hm_remove op v"
| "view_revert_mutation (Slash op daa) v =
     hm_modify op (\<lambda>r. refresh_status daa (r\<lparr>br_slashed_at_daa_score := None\<rparr>)) v"
| "view_revert_mutation (Unbond op daa) v =
     hm_modify op (\<lambda>r. refresh_status daa (r\<lparr>br_unbond_request_daa_score := None\<rparr>)) v"

definition view_revert :: "bond_mutation list \<Rightarrow> active_bond_view \<Rightarrow> active_bond_view" where
  "view_revert mutations v = fold view_revert_mutation (rev mutations) v"

definition active_bond_at :: "active_bond_view \<Rightarrow> transaction_outpoint \<Rightarrow> u64 \<Rightarrow> stake_bond_record option" where
  "active_bond_at v op pov =
     (case hm_get v op of
        Some r \<Rightarrow> if is_bond_active_at r pov then Some r else None
      | None \<Rightarrow> None)"

definition active_or_dormant_bond_at ::
  "active_bond_view \<Rightarrow> transaction_outpoint \<Rightarrow> u64 \<Rightarrow> stake_bond_record option" where
  "active_or_dormant_bond_at v op pov =
     (case hm_get v op of
        Some r \<Rightarrow> if effective_bond_status r pov \<in> {Active, Dormant} then Some r else None
      | None \<Rightarrow> None)"

definition view_records :: "active_bond_view \<Rightarrow> stake_bond_record list" where
  "view_records v = map snd v"

definition total_active_stake_at :: "active_bond_view \<Rightarrow> u64 \<Rightarrow> u64" where
  "total_active_stake_at v pov =
     fold (\<lambda>b acc. sat_add64 acc (br_amount b)) (filter (\<lambda>b. is_bond_active_at b pov) (map snd v)) 0"

section \<open>Rewarded epochs\<close>

text \<open>\<open>RewardedEpochSet\<close>: \<open>insert\<close> and \<open>remove\<close> also report whether the set changed.\<close>

type_synonym rewarded_epoch_set = "(transaction_outpoint \<times> u64) set"

definition rewarded_contains :: "rewarded_epoch_set \<Rightarrow> transaction_outpoint \<Rightarrow> u64 \<Rightarrow> bool" where
  "rewarded_contains s op epoch = ((op, epoch) \<in> s)"

definition rewarded_insert :: "transaction_outpoint \<Rightarrow> u64 \<Rightarrow> rewarded_epoch_set \<Rightarrow> bool \<times> rewarded_epoch_set" where
  "rewarded_insert op epoch s = ((op, epoch) \<notin> s, insert (op, epoch) s)"

definition rewarded_remove :: "transaction_outpoint \<Rightarrow> u64 \<Rightarrow> rewarded_epoch_set \<Rightarrow> bool \<times> rewarded_epoch_set" where
  "rewarded_remove op epoch s = ((op, epoch) \<in> s, s - {(op, epoch)})"

section \<open>Facts on statuses\<close>

lemma reached_mono: "reached s pov \<Longrightarrow> pov \<le> pov' \<Longrightarrow> reached s pov'"
  by (auto simp: reached_def split: option.splits)

lemma reached_simps [simp]: "reached (Some s) pov \<longleftrightarrow> s \<le> pov" "\<not> reached None pov"
  by (simp_all add: reached_def)

lemma effective_bond_status_cached [simp]:
  "effective_bond_status (r\<lparr>br_status := s\<rparr>) pov = effective_bond_status r pov"
  by (simp add: effective_bond_status_def)

lemma is_bond_active_at_iff:
  "is_bond_active_at r pov \<longleftrightarrow>
     \<not> reached (br_slashed_at_daa_score r) pov \<and> \<not> reached (br_unbond_request_daa_score r) pov \<and>
     \<not> reached (br_dormant_at_daa_score r) pov \<and> br_activation_daa_score r \<le> pov"
  by (simp add: is_bond_active_at_def effective_bond_status_def)

text \<open>The precedence of the states, as a rank.\<close>

fun status_rank :: "bond_status \<Rightarrow> nat" where
  "status_rank Pending = 0"
| "status_rank Active = 1"
| "status_rank Dormant = 2"
| "status_rank Unbonding = 3"
| "status_rank Slashed = 4"

lemma status_rank_mono:
  assumes "pov \<le> pov'"
  shows "status_rank (effective_bond_status r pov) \<le> status_rank (effective_bond_status r pov')"
  using assms reached_mono [OF _ assms]
  by (auto simp: effective_bond_status_def)

section \<open>The authoritative content of a registry\<close>

definition erase_status :: "stake_bond_record \<Rightarrow> stake_bond_record" where
  "erase_status r = r\<lparr>br_status := Pending\<rparr>"

definition stamps :: "active_bond_view \<Rightarrow> transaction_outpoint \<Rightarrow> stake_bond_record option" where
  "stamps v op = map_option erase_status (hm_get v op)"

lemma erase_refresh [simp]: "erase_status (refresh_status daa r) = erase_status r"
  by (simp add: erase_status_def refresh_status_def)

lemma refresh_erase: "refresh_status daa r = refresh_status daa r' \<longleftrightarrow> erase_status r = erase_status r'"
proof
  assume "refresh_status daa r = refresh_status daa r'"
  then show "erase_status r = erase_status r'"
    by (metis erase_refresh)
next
  assume e: "erase_status r = erase_status r'"
  have "refresh_status daa (erase_status r) = refresh_status daa r" for r
    by (simp add: erase_status_def refresh_status_def)
  then show "refresh_status daa r = refresh_status daa r'"
    using e by metis
qed

lemma erase_status_eqD:
  assumes "erase_status r = erase_status r'"
  shows "effective_bond_status r pov = effective_bond_status r' pov"
    "br_slashed_at_daa_score r = br_slashed_at_daa_score r'"
    "br_unbond_request_daa_score r = br_unbond_request_daa_score r'"
    "br_amount r = br_amount r'"
proof -
  have "effective_bond_status (erase_status r) pov = effective_bond_status r pov" for r
    by (simp add: erase_status_def)
  then show "effective_bond_status r pov = effective_bond_status r' pov"
    using assms by metis
qed (use assms in \<open>cases r; cases r'; simp add: erase_status_def\<close>)+

lemma erase_status_update [simp]:
  "erase_status (r\<lparr>br_slashed_at_daa_score := a\<rparr>) = (erase_status r)\<lparr>br_slashed_at_daa_score := a\<rparr>"
  "erase_status (r\<lparr>br_unbond_request_daa_score := a\<rparr>) = (erase_status r)\<lparr>br_unbond_request_daa_score := a\<rparr>"
  by (simp_all add: erase_status_def)

text \<open>What the view answers depends on the stamps only.\<close>

lemma total_active_stake_at_eq:
  "total_active_stake_at v pov =
     min u64_max (\<Sum>b\<leftarrow>filter (\<lambda>b. is_bond_active_at b pov) (map snd v). br_amount b)"
  by (simp add: total_active_stake_at_def fold_sat_add)

lemma total_active_stake_at_cong:
  assumes "hm_wf v" "hm_wf v'" "stamps v = stamps v'"
  shows "total_active_stake_at v pov = total_active_stake_at v' pov"
proof -
  let ?e = "map (\<lambda>(op, r). (op, erase_status r))"
  have get: "hm_get (?e w) op = stamps w op" for w :: active_bond_view and op
    by (induction w) (auto simp: stamps_def hm_get_def)
  have wf: "hm_wf (?e w)" if "hm_wf w" for w :: active_bond_view
    using that by (simp add: hm_wf_def case_prod_beta comp_def)
  have "mset (?e v) = mset (?e v')"
    using assms(3) by (intro hm_get_eq_mset wf assms(1,2)) (simp add: fun_eq_iff get)
  then have "mset (filter (\<lambda>b. is_bond_active_at b pov) (map snd (?e v)))
      = mset (filter (\<lambda>b. is_bond_active_at b pov) (map snd (?e v')))"
    by (simp only: mset_filter mset_map)
  then have sums: "(\<Sum>b\<leftarrow>filter (\<lambda>b. is_bond_active_at b pov) (map snd (?e v)). br_amount b)
      = (\<Sum>b\<leftarrow>filter (\<lambda>b. is_bond_active_at b pov) (map snd (?e v')). br_amount b)"
    by (rule sum_list_perm)
  have "(\<Sum>b\<leftarrow>filter (\<lambda>b. is_bond_active_at b pov) (map snd (?e w)). br_amount b)
      = (\<Sum>b\<leftarrow>filter (\<lambda>b. is_bond_active_at b pov) (map snd w). br_amount b)" for w :: active_bond_view
    by (induction w) (auto simp: erase_status_def is_bond_active_at_def)
  then show ?thesis
    using sums by (simp add: total_active_stake_at_eq)
qed

lemma stamps_mutations:
  "stamps (view_apply_mutation (Insert op r) v) = (stamps v)(op \<mapsto> erase_status r)"
  "stamps (view_apply_mutation (Slash op daa) v) =
     (stamps v)(op := map_option (\<lambda>r. r\<lparr>br_slashed_at_daa_score := Some daa\<rparr>) (stamps v op))"
  "stamps (view_apply_mutation (Unbond op daa) v) =
     (stamps v)(op := map_option (\<lambda>r. r\<lparr>br_unbond_request_daa_score := Some daa\<rparr>) (stamps v op))"
  "stamps (view_revert_mutation (Insert op r) v) = (stamps v)(op := None)"
  "stamps (view_revert_mutation (Slash op daa) v) =
     (stamps v)(op := map_option (\<lambda>r. r\<lparr>br_slashed_at_daa_score := None\<rparr>) (stamps v op))"
  "stamps (view_revert_mutation (Unbond op daa) v) =
     (stamps v)(op := map_option (\<lambda>r. r\<lparr>br_unbond_request_daa_score := None\<rparr>) (stamps v op))"
  by (auto simp: stamps_def fun_eq_iff option.map_comp comp_def)

section \<open>Facts on the mutations of a block\<close>

definition inserted_bonds :: "bond_mutation list \<Rightarrow> transaction_outpoint list" where
  "inserted_bonds ms = List.map_filter (\<lambda>m. case m of Insert op r \<Rightarrow> Some op | _ \<Rightarrow> None) ms"

definition slashed_bonds :: "bond_mutation list \<Rightarrow> transaction_outpoint list" where
  "slashed_bonds ms = List.map_filter (\<lambda>m. case m of Slash op daa \<Rightarrow> Some op | _ \<Rightarrow> None) ms"

definition unbonded_bonds :: "bond_mutation list \<Rightarrow> transaction_outpoint list" where
  "unbonded_bonds ms = List.map_filter (\<lambda>m. case m of Unbond op daa \<Rightarrow> Some op | _ \<Rightarrow> None) ms"

lemmas mutated_bonds_defs = inserted_bonds_def slashed_bonds_def unbonded_bonds_def

lemma mutated_bonds_simps [simp]:
  "inserted_bonds [] = []" "slashed_bonds [] = []" "unbonded_bonds [] = []"
  "inserted_bonds (Insert op r # ms) = op # inserted_bonds ms"
  "inserted_bonds (Slash op daa # ms) = inserted_bonds ms"
  "inserted_bonds (Unbond op daa # ms) = inserted_bonds ms"
  "slashed_bonds (Insert op r # ms) = slashed_bonds ms"
  "slashed_bonds (Slash op daa # ms) = op # slashed_bonds ms"
  "slashed_bonds (Unbond op daa # ms) = slashed_bonds ms"
  "unbonded_bonds (Insert op r # ms) = unbonded_bonds ms"
  "unbonded_bonds (Slash op daa # ms) = unbonded_bonds ms"
  "unbonded_bonds (Unbond op daa # ms) = op # unbonded_bonds ms"
  by (simp_all add: mutated_bonds_defs map_filter_simps)

lemmas mutations_splits = option.splits dns_tx_class.splits if_splits

lemma bond_mutations_loop_once:
  "distinct (slashed_bonds (bond_mutations_loop codec daa mb fb txs S U)) \<and>
   set (slashed_bonds (bond_mutations_loop codec daa mb fb txs S U)) \<inter> S = {} \<and>
   distinct (unbonded_bonds (bond_mutations_loop codec daa mb fb txs S U)) \<and>
   set (unbonded_bonds (bond_mutations_loop codec daa mb fb txs S U)) \<inter> U = {}"
proof (induction txs arbitrary: S U)
  case (Cons tx txs)
  have "distinct (slashed_bonds (bond_mutations_loop codec daa mb fb txs S U))"
    "set (slashed_bonds (bond_mutations_loop codec daa mb fb txs S U)) \<inter> S = {}"
    "distinct (unbonded_bonds (bond_mutations_loop codec daa mb fb txs S U))"
    "set (unbonded_bonds (bond_mutations_loop codec daa mb fb txs S U)) \<inter> U = {}" for S U
    using Cons.IH [of S U] by auto
  note IH = this this [of "insert a S" U for a S U] this [of S "insert a U" for a S U]
  show ?case
    by (simp add: IH Let_def split: option.split dns_tx_class.split) (use IH in blast)
qed simp

lemma bond_mutations_loop_insert:
  "Insert op r \<in> set (bond_mutations_loop codec daa mb fb txs S U) \<Longrightarrow>
   \<exists>tx\<in>set txs. \<exists>p. dns_tx_kind (tx_subnetwork_id tx) = Some StakeBond \<and>
     dec_bond codec (tx_payload tx) = Some p \<and> mb \<le> bp_amount p \<and> op = outpoint (tx_id tx) 0 \<and>
     r = (stake_bond_record_from_payload p op)
         \<lparr>br_activation_daa_score := max (bp_activation_daa_score p) daa, br_created_daa_score := daa,
          br_unbonding_period_blocks := max (bp_unbonding_period_blocks p) fb\<rparr>"
proof (induction txs arbitrary: S U)
  case (Cons tx txs)
  then show ?case
    by (fastforce simp: Let_def stake_bond_record_from_payload_def split: mutations_splits)
qed simp

lemma bond_mutations_loop_stamp:
  "Slash op d \<in> set (bond_mutations_loop codec daa mb fb txs S U) \<Longrightarrow> d = daa"
  "Unbond op d \<in> set (bond_mutations_loop codec daa mb fb txs S U) \<Longrightarrow> d = daa"
  by (induction txs arbitrary: S U) (auto simp: Let_def split: mutations_splits)

lemma inserted_bonds_subset:
  "set (inserted_bonds (bond_mutations_loop codec daa mb fb txs S U)) \<subseteq> (\<lambda>tx. outpoint (tx_id tx) 0) ` set txs"
proof (induction txs arbitrary: S U)
  case (Cons tx txs)
  have "set (inserted_bonds (bond_mutations_loop codec daa mb fb txs S U))
      \<subseteq> insert (outpoint (tx_id tx) 0) ((\<lambda>tx. outpoint (tx_id tx) 0) ` set txs)" for S U
    using Cons.IH by blast
  then show ?case
    by (simp add: Let_def split: option.split dns_tx_class.split)
qed simp

lemma bond_mutations_loop_inserts_distinct:
  "distinct (map tx_id txs) \<Longrightarrow> distinct (inserted_bonds (bond_mutations_loop codec daa mb fb txs S U))"
proof (induction txs arbitrary: S U)
  case (Cons tx txs)
  have "outpoint (tx_id tx) 0 \<notin> set (inserted_bonds (bond_mutations_loop codec daa mb fb txs S U))" for S U
    using Cons.prems inserted_bonds_subset [of codec daa mb fb txs S U] by auto
  moreover have "distinct (inserted_bonds (bond_mutations_loop codec daa mb fb txs S U))" for S U
    using Cons by simp
  ultimately show ?case
    by (simp add: Let_def split: option.split dns_tx_class.split)
qed simp

section \<open>Properties\<close>

text \<open>As the point of view advances, a bond's effective status only moves up the precedence
  Pending, Active, Dormant, Unbonding, Slashed: with its stamps fixed, a bond never becomes
  attestation-eligible again after leaving Active, and Slashed is terminal.\<close>

theorem effective_status_never_moves_back:
  assumes "pov \<le> pov'"
  shows "status_rank (effective_bond_status r pov) \<le> status_rank (effective_bond_status r pov')"
  using assms by (rule status_rank_mono)

definition sample_bond :: stake_bond_record where
  "sample_bond =
     \<lparr>br_version = 1, br_bond_outpoint = sample_outpoint 0, br_owner_pubkey_hash = sample_hash 1,
      br_validator_pubkey_hash = sample_hash 2, br_validator_pubkey = [], br_amount = 50,
      br_activation_daa_score = 10, br_created_daa_score = 5, br_unbonding_period_blocks = 100,
      br_owner_reward_spk_payload = replicate 64 7, br_unbond_request_daa_score = None,
      br_slashed_at_daa_score = None, br_status = Pending, br_last_attested_epoch = None,
      br_dormant_at_daa_score = Some 40, br_dormant_at_epoch = Some 4\<rparr>"

text \<open>Bond admission: every bond a block inserts comes from an accepted stake-bond transaction,
  is keyed by that transaction's output 0, carries at least the network minimum, has an exit lock of
  at least the network floor, and cannot have been active at any score before the block that
  accepted it (activation is not retroactive).\<close>

theorem inserted_bond_is_admissible:
  assumes "Insert op r \<in> set (bond_mutations_from_accepted_txs codec txs daa min_bond floor_blocks)"
  shows "op \<in> (\<lambda>tx. outpoint (tx_id tx) 0) ` set txs \<and> br_bond_outpoint r = op \<and>
    min_bond \<le> br_amount r \<and> floor_blocks \<le> br_unbonding_period_blocks r \<and>
    br_created_daa_score r = daa \<and> (\<forall>pov < daa. effective_bond_status r pov = Pending)"
proof -
  obtain tx p where tx: "tx \<in> set txs" "op = outpoint (tx_id tx) 0" "min_bond \<le> bp_amount p"
    and r: "r = (stake_bond_record_from_payload p op)
         \<lparr>br_activation_daa_score := max (bp_activation_daa_score p) daa, br_created_daa_score := daa,
          br_unbonding_period_blocks := max (bp_unbonding_period_blocks p) floor_blocks\<rparr>"
    using bond_mutations_loop_insert [OF assms [unfolded bond_mutations_from_accepted_txs_def]] by blast
  then show ?thesis
    by (auto simp: r stake_bond_record_from_payload_def effective_bond_status_def)
qed

definition sample_codec :: dns_codec where
  "sample_codec =
     \<lparr>dec_bond = (\<lambda>_. Some \<lparr>bp_version = 1, bp_owner_pubkey_hash = sample_hash 1,
        bp_validator_pubkey_hash = sample_hash 2, bp_validator_pubkey = [], bp_amount = 50,
        bp_activation_daa_score = 3, bp_unbonding_period_blocks = 1,
        bp_owner_reward_spk_payload = replicate 64 7\<rparr>),
      dec_shard = (\<lambda>_. None), dec_evidence = (\<lambda>_. None),
      dec_unbond = (\<lambda>_. Some \<lparr>ub_version = 1, ub_bond_outpoint = sample_outpoint 0, ub_owner_pubkey = [],
        ub_signature = []\<rparr>)\<rparr>"

definition sample_dns_tx :: "subnetwork_id \<Rightarrow> u8 \<Rightarrow> transaction" where
  "sample_dns_tx s b =
     \<lparr>tx_version = 0, tx_inputs = [], tx_outputs = [], tx_lock_time = 0, tx_subnetwork_id = s,
      tx_gas = 0, tx_payload = [], tx_mass = 0, tx_id = sample_hash b\<rparr>"

text \<open>A block slashes a bond at most once and starts unbonding it at most once, whatever evidence
  and requests its mergeset repeats; every stamp is the accepting DAA score; and blocks with distinct
  transaction ids insert distinct bonds.\<close>

theorem block_mutates_each_bond_once:
  fixes codec txs daa mb fb
  defines "ms \<equiv> bond_mutations_from_accepted_txs codec txs daa mb fb"
  shows "distinct (slashed_bonds ms) \<and> distinct (unbonded_bonds ms) \<and>
    (\<forall>op d. Slash op d \<in> set ms \<or> Unbond op d \<in> set ms \<longrightarrow> d = daa) \<and>
    (distinct (map tx_id txs) \<longrightarrow> distinct (inserted_bonds ms))"
  unfolding ms_def bond_mutations_from_accepted_txs_def
  using bond_mutations_loop_once [of codec daa mb fb txs "{}" "{}"]
    bond_mutations_loop_inserts_distinct [of txs codec daa mb fb "{}" "{}"]
  by (auto dest: bond_mutations_loop_stamp)

text \<open>The expected-stake denominator is the exact sum of the active bonds' amounts, clamped once to
  \<open>u64\<close>, and does not depend on the iteration order of the map nor on the cached status field: two
  nodes whose registries agree on the stamps compute the same value.\<close>

theorem total_active_stake_is_deterministic:
  assumes "hm_wf v" and "hm_wf v'" and "stamps v = stamps v'"
  shows "total_active_stake_at v pov = total_active_stake_at v' pov \<and>
    total_active_stake_at v pov =
      min u64_max (\<Sum>b\<leftarrow>filter (\<lambda>b. is_bond_active_at b pov) (map snd v). br_amount b)"
  using total_active_stake_at_cong [OF assms] total_active_stake_at_eq by simp

theorem total_active_stake_is_deterministic_witness:
  "total_active_stake_at
     [(sample_outpoint 0, sample_bond), (sample_outpoint 1, sample_bond\<lparr>br_amount := 8\<rparr>)] 20 =
   total_active_stake_at
     [(sample_outpoint 1, sample_bond\<lparr>br_amount := 8, br_status := Active\<rparr>), (sample_outpoint 0, sample_bond)] 20 \<and>
   total_active_stake_at
     [(sample_outpoint 0, sample_bond), (sample_outpoint 1, sample_bond\<lparr>br_amount := 8\<rparr>)] 20 = 58"
proof -
  let ?v = "[(sample_outpoint 0, sample_bond), (sample_outpoint 1, sample_bond\<lparr>br_amount := 8\<rparr>)]"
  let ?v' = "[(sample_outpoint 1, sample_bond\<lparr>br_amount := 8, br_status := Active\<rparr>), (sample_outpoint 0, sample_bond)]"
  have "stamps ?v = stamps ?v'"
    by (simp add: stamps_def hm_get_def fun_eq_iff erase_status_def)
  moreover have "hm_wf ?v" "hm_wf ?v'"
    by (simp_all add: hm_wf_def)
  ultimately show ?thesis
    using total_active_stake_is_deterministic [of ?v ?v' 20]
    by (simp add: is_bond_active_at_iff sample_bond_def u64_max_def)
qed

end
