(* ===== verification/Bond_Registry.thy ===== *)
theory Bond_Registry
  imports Dns_Bonds
begin

text \<open>
  The persisted bond registry of the virtual processor
  (\<open>pipeline/virtual_processor/processor.rs\<close>): \<open>reconcile_dns_bond_registry\<close> moves the registry
  along a selected-chain change (detached blocks are reverted tip first, attached blocks applied
  ancestor first) and fails on any inconsistency; \<open>canonicalize_dns_bond_statuses\<close> then normalises
  the cached statuses at the new sink. The \<open>String\<close> errors of the source are a datatype with one
  constructor per message.

  The lemmas show that a successful reconciliation is the composition of the in-memory view's
  \<open>revert\<close> and \<open>apply\<close>, and, through the interface \<open>reversible_log\<close>, that detaching the blocks
  that were attached always succeeds and gives back the same registry after normalisation.
\<close>

section \<open>Reconciliation\<close>

datatype dns_registry_error =
    RevertInsertMissing transaction_outpoint hash64
  | RevertSlashMissing transaction_outpoint hash64
  | RevertSlashStamp transaction_outpoint hash64 u64 "u64 option"
  | RevertUnbondMissing transaction_outpoint hash64
  | RevertUnbondStamp transaction_outpoint hash64 u64 "u64 option"
  | ApplyInsertExists transaction_outpoint hash64
  | ApplySlashMissing transaction_outpoint hash64
  | ApplySlashTwice transaction_outpoint hash64 "u64 option"
  | ApplyUnbondMissing transaction_outpoint hash64
  | ApplyUnbondTwice transaction_outpoint hash64 "u64 option"

type_synonym registry_state = "active_bond_view \<times> transaction_outpoint set"
type_synonym block_mutations = "hash64 \<times> bond_mutation list"

fun registry_revert :: "hash64 \<times> bond_mutation \<Rightarrow> registry_state \<Rightarrow> dns_registry_error + registry_state" where
  "registry_revert (block, Insert op r) (working, touched) =
     (if hm_get working op = None then Inl (RevertInsertMissing op block)
      else Inr (hm_remove op working, insert op touched))"
| "registry_revert (block, Slash op daa) (working, touched) =
     (case hm_get working op of
        None \<Rightarrow> Inl (RevertSlashMissing op block)
      | Some r \<Rightarrow>
          if br_slashed_at_daa_score r \<noteq> Some daa
          then Inl (RevertSlashStamp op block daa (br_slashed_at_daa_score r))
          else Inr (hm_modify op (\<lambda>r. refresh_status daa (r\<lparr>br_slashed_at_daa_score := None\<rparr>)) working,
                    insert op touched))"
| "registry_revert (block, Unbond op daa) (working, touched) =
     (case hm_get working op of
        None \<Rightarrow> Inl (RevertUnbondMissing op block)
      | Some r \<Rightarrow>
          if br_unbond_request_daa_score r \<noteq> Some daa
          then Inl (RevertUnbondStamp op block daa (br_unbond_request_daa_score r))
          else Inr (hm_modify op (\<lambda>r. refresh_status daa (r\<lparr>br_unbond_request_daa_score := None\<rparr>)) working,
                    insert op touched))"

fun registry_apply :: "hash64 \<times> bond_mutation \<Rightarrow> registry_state \<Rightarrow> dns_registry_error + registry_state" where
  "registry_apply (block, Insert op r) (working, touched) =
     (if hm_get working op \<noteq> None then Inl (ApplyInsertExists op block)
      else Inr (hm_insert op r working, insert op touched))"
| "registry_apply (block, Slash op daa) (working, touched) =
     (case hm_get working op of
        None \<Rightarrow> Inl (ApplySlashMissing op block)
      | Some r \<Rightarrow>
          if br_slashed_at_daa_score r \<noteq> None
          then Inl (ApplySlashTwice op block (br_slashed_at_daa_score r))
          else Inr (hm_modify op (\<lambda>r. refresh_status daa (r\<lparr>br_slashed_at_daa_score := Some daa\<rparr>)) working,
                    insert op touched))"
| "registry_apply (block, Unbond op daa) (working, touched) =
     (case hm_get working op of
        None \<Rightarrow> Inl (ApplyUnbondMissing op block)
      | Some r \<Rightarrow>
          if br_unbond_request_daa_score r \<noteq> None
          then Inl (ApplyUnbondTwice op block (br_unbond_request_daa_score r))
          else Inr (hm_modify op (\<lambda>r. refresh_status daa (r\<lparr>br_unbond_request_daa_score := Some daa\<rparr>)) working,
                    insert op touched))"

definition registry_revert_block ::
  "block_mutations \<Rightarrow> registry_state \<Rightarrow> dns_registry_error + registry_state" where
  "registry_revert_block = (\<lambda>(block, mutations). fold_res registry_revert (map (Pair block) (rev mutations)))"

definition registry_apply_block ::
  "block_mutations \<Rightarrow> registry_state \<Rightarrow> dns_registry_error + registry_state" where
  "registry_apply_block = (\<lambda>(block, mutations). fold_res registry_apply (map (Pair block) mutations))"

definition reconcile_dns_bond_registry ::
  "active_bond_view \<Rightarrow> block_mutations list \<Rightarrow> block_mutations list \<Rightarrow> dns_registry_error + registry_state" where
  "reconcile_dns_bond_registry working removed added =
     (case fold_res registry_revert_block removed (working, {}) of
        Inl e \<Rightarrow> Inl e
      | Inr st \<Rightarrow> fold_res registry_apply_block added st)"

definition canonicalize_dns_bond_statuses ::
  "active_bond_view \<Rightarrow> u64 \<Rightarrow> active_bond_view \<times> transaction_outpoint set" where
  "canonicalize_dns_bond_statuses working sink_daa_score =
     (map (\<lambda>(op, r). (op, if br_status r \<noteq> effective_bond_status r sink_daa_score
                          then r\<lparr>br_status := effective_bond_status r sink_daa_score\<rparr> else r)) working,
      set (map fst (filter (\<lambda>(op, r). br_status r \<noteq> effective_bond_status r sink_daa_score) working)))"

section \<open>The registry and the in-memory view\<close>

lemma registry_revert_mirrors_view:
  "registry_revert (block, m) (w, t) = Inr st \<Longrightarrow> fst st = view_revert_mutation m w"
  by (cases m) (auto split: option.splits if_splits)

lemma registry_apply_mirrors_view:
  "registry_apply (block, m) (w, t) = Inr st \<Longrightarrow> fst st = view_apply_mutation m w"
  by (cases m) (auto split: option.splits if_splits)

lemma registry_revert_block_mirrors_view:
  "registry_revert_block (block, ms) (w, t) = Inr st \<Longrightarrow> fst st = view_revert ms w"
proof -
  have "fold_res registry_revert (map (Pair block) xs) (w, t) = Inr st \<Longrightarrow> fst st = fold view_revert_mutation xs w"
    for xs w t
    by (induction xs arbitrary: w t)
       (auto split: sum.splits dest!: registry_revert_mirrors_view)
  then show "registry_revert_block (block, ms) (w, t) = Inr st \<Longrightarrow> fst st = view_revert ms w"
    unfolding registry_revert_block_def view_revert_def by simp
qed

lemma registry_apply_block_mirrors_view:
  "registry_apply_block (block, ms) (w, t) = Inr st \<Longrightarrow> fst st = view_apply ms w"
proof -
  have "fold_res registry_apply (map (Pair block) xs) (w, t) = Inr st \<Longrightarrow> fst st = fold view_apply_mutation xs w"
    for xs w t
    by (induction xs arbitrary: w t)
       (auto split: sum.splits dest!: registry_apply_mirrors_view)
  then show "registry_apply_block (block, ms) (w, t) = Inr st \<Longrightarrow> fst st = view_apply ms w"
    unfolding registry_apply_block_def view_apply_def by simp
qed

lemma fold_res_mirrors:
  assumes "\<And>x w t st. f x (w, t) = Inr st \<Longrightarrow> fst st = g x w"
  shows "fold_res f xs (w, t) = Inr st \<Longrightarrow> fst st = fold g xs w"
  by (induction xs arbitrary: w t) (auto split: sum.splits dest!: assms)

section \<open>Undoing a reconciliation\<close>

text \<open>Per mutation, the registry is a reversible log over its stamps.\<close>

definition registry_stamps :: "registry_state \<Rightarrow> transaction_outpoint \<Rightarrow> stake_bond_record option" where
  "registry_stamps st = stamps (fst st)"

lemma registry_undo:
  assumes "registry_apply bm st = Inr st'"
  shows "\<exists>st''. registry_revert bm st' = Inr st'' \<and> registry_stamps st'' = registry_stamps st"
proof -
  obtain block m w t where [simp]: "bm = (block, m)" "st = (w, t)"
    by (cases bm; cases st)
  show ?thesis
    using assms
    by (cases m) (auto simp: registry_stamps_def stamps_def fun_eq_iff erase_status_def refresh_status_def
        split: option.splits if_splits)
qed

lemma registry_revert_cong:
  assumes "registry_stamps st = registry_stamps tt" and "registry_revert bm st = Inr st'"
  shows "\<exists>tt'. registry_revert bm tt = Inr tt' \<and> registry_stamps tt' = registry_stamps st'"
proof -
  obtain block m w t where [simp]: "bm = (block, m)" "st = (w, t)"
    by (cases bm; cases st)
  obtain w' t' where [simp]: "tt = (w', t')"
    by (cases tt)
  have st: "map_option erase_status (hm_get w op) = map_option erase_status (hm_get w' op)" for op
    using assms(1) by (simp add: registry_stamps_def stamps_def fun_eq_iff)
  obtain tt' where tt': "registry_revert bm tt = Inr tt'"
  proof (cases m)
    case (Insert op r)
    then show thesis
      using assms(2) st [of op] that by (cases "hm_get w' op") (auto split: if_splits)
  next
    case (Slash op daa)
    then show thesis
      using assms(2) st [of op] that
      by (cases "hm_get w' op") (auto split: option.splits if_splits dest: erase_status_eqD(2))
  next
    case (Unbond op daa)
    then show thesis
      using assms(2) st [of op] that
      by (cases "hm_get w' op") (auto split: option.splits if_splits dest: erase_status_eqD(3))
  qed
  have "fst st' = view_revert_mutation m w" "fst tt' = view_revert_mutation m w'"
    using assms(2) tt' by (auto dest: registry_revert_mirrors_view)
  then have "registry_stamps tt' = registry_stamps st'"
    using assms(1) unfolding registry_stamps_def
    by (cases m) (simp_all only: stamps_mutations fst_conv \<open>st = (w, t)\<close> \<open>tt = (w', t')\<close>)
  then show ?thesis
    using tt' by blast
qed

interpretation registry_log: reversible_log registry_apply registry_revert registry_stamps
  by unfold_locales (rule registry_undo registry_revert_cong; assumption)+

text \<open>A block is again such a log, and so is a chain of blocks.\<close>

lemma registry_block_undo:
  "registry_apply_block b st = Inr st' \<Longrightarrow>
   \<exists>st''. registry_revert_block b st' = Inr st'' \<and> registry_stamps st'' = registry_stamps st"
  using registry_log.undo_all [of "map (Pair (fst b)) (snd b)" st st']
  by (simp add: registry_apply_block_def registry_revert_block_def case_prod_beta rev_map)

lemma registry_block_cong:
  "registry_stamps st = registry_stamps tt \<Longrightarrow> registry_revert_block b st = Inr st' \<Longrightarrow>
   \<exists>tt'. registry_revert_block b tt = Inr tt' \<and> registry_stamps tt' = registry_stamps st'"
  using registry_log.rv_all_cong [of st tt "map (Pair (fst b)) (rev (snd b))" st']
  by (simp add: registry_revert_block_def case_prod_beta)

interpretation block_log: reversible_log registry_apply_block registry_revert_block registry_stamps
  by unfold_locales (rule registry_block_undo registry_block_cong; assumption)+

lemma reconcile_there_and_back:
  assumes "reconcile_dns_bond_registry w [] added = Inr (w', t)"
  obtains w'' t'' where "reconcile_dns_bond_registry w' (rev added) [] = Inr (w'', t'')" "stamps w'' = stamps w"
proof -
  have "fold_res registry_apply_block added (w, {}) = Inr (w', t)"
    using assms by (simp add: reconcile_dns_bond_registry_def)
  then obtain st'' where st'': "fold_res registry_revert_block (rev added) (w', t) = Inr st''"
      "registry_stamps st'' = registry_stamps (w, {})"
    using block_log.undo_all by blast
  have "registry_stamps (w', t) = registry_stamps (w', {})"
    by (simp add: registry_stamps_def)
  then obtain tt where tt: "fold_res registry_revert_block (rev added) (w', {}) = Inr tt"
      "registry_stamps tt = registry_stamps st''"
    using block_log.rv_all_cong [OF _ st''(1)] by blast
  show thesis
    using tt st''(2) that [of "fst tt" "snd tt"]
    by (simp add: reconcile_dns_bond_registry_def registry_stamps_def)
qed

section \<open>Normalised statuses\<close>

lemma canonicalize_statuses_get:
  "hm_get (fst (canonicalize_dns_bond_statuses w sink)) op = map_option (refresh_status sink) (stamps w op)"
  by (induction w)
     (auto simp: canonicalize_dns_bond_statuses_def hm_get_def stamps_def refresh_status_def erase_status_def)

lemma canonicalize_statuses_stamps [simp]:
  "stamps (fst (canonicalize_dns_bond_statuses w sink)) = stamps w"
proof
  fix op
  have "(\<lambda>r. erase_status (refresh_status sink (erase_status r))) = erase_status"
    by (simp add: fun_eq_iff) (simp add: erase_status_def)
  then show "stamps (fst (canonicalize_dns_bond_statuses w sink)) op = stamps w op"
    by (simp add: stamps_def canonicalize_statuses_get option.map_comp comp_def)
qed

section \<open>Properties\<close>

text \<open>C15. Reorg safety of the bond registry: if attaching a chain of blocks succeeded, then detaching
  the same blocks (tip first) succeeds too, and after the statuses are normalised at any sink every
  lookup gives byte for byte the record it gave before the blocks were attached.\<close>

theorem registry_reorg_round_trip:
  assumes "reconcile_dns_bond_registry w [] added = Inr (w', t)"
  shows "\<exists>w'' t''. reconcile_dns_bond_registry w' (rev added) [] = Inr (w'', t'') \<and>
    hm_get (fst (canonicalize_dns_bond_statuses w'' sink)) = hm_get (fst (canonicalize_dns_bond_statuses w sink))"
proof -
  obtain w'' t'' where "reconcile_dns_bond_registry w' (rev added) [] = Inr (w'', t'')" "stamps w'' = stamps w"
    using reconcile_there_and_back [OF assms] by blast
  then show ?thesis
    by (auto simp: canonicalize_statuses_get)
qed

theorem registry_reorg_round_trip_witness:
  "\<exists>w' t w'' t''.
     reconcile_dns_bond_registry [(sample_outpoint 0, sample_bond)] []
       [(sample_hash 1, [Unbond (sample_outpoint 0) 20, Insert (sample_outpoint 1) sample_bond]),
        (sample_hash 2, [Slash (sample_outpoint 0) 30])] = Inr (w', t) \<and>
     reconcile_dns_bond_registry w'
       (rev [(sample_hash 1, [Unbond (sample_outpoint 0) 20, Insert (sample_outpoint 1) sample_bond]),
             (sample_hash 2, [Slash (sample_outpoint 0) 30])]) [] = Inr (w'', t'') \<and>
     hm_get (fst (canonicalize_dns_bond_statuses w'' 15)) =
       hm_get (fst (canonicalize_dns_bond_statuses [(sample_outpoint 0, sample_bond)] 15))"
proof -
  let ?added = "[(sample_hash 1, [Unbond (sample_outpoint 0) 20, Insert (sample_outpoint 1) sample_bond]),
        (sample_hash 2, [Slash (sample_outpoint 0) 30])]"
  obtain w' t where "reconcile_dns_bond_registry [(sample_outpoint 0, sample_bond)] [] ?added = Inr (w', t)"
    by (simp add: reconcile_dns_bond_registry_def registry_apply_block_def hm_defs hm_modify_def
        refresh_status_def sample_bond_def)
  then show ?thesis
    using registry_reorg_round_trip [of "[(sample_outpoint 0, sample_bond)]" ?added w' t 15] by blast
qed

text \<open>C27. The persisted registry and the in-memory view never diverge: whenever reconciliation
  succeeds, its result is exactly what \<open>ActiveBondView::revert\<close> over the detached blocks followed by
  \<open>ActiveBondView::apply\<close> over the attached ones computes.\<close>

theorem registry_mirrors_active_bond_view:
  assumes "reconcile_dns_bond_registry w removed added = Inr (w', t)"
  shows "w' = fold (\<lambda>(_, ms). view_apply ms) added (fold (\<lambda>(_, ms). view_revert ms) removed w)"
proof -
  obtain w1 t1 where r: "fold_res registry_revert_block removed (w, {}) = Inr (w1, t1)"
    and a: "fold_res registry_apply_block added (w1, t1) = Inr (w', t)"
    using assms by (auto simp: reconcile_dns_bond_registry_def split: sum.splits)
  have "w1 = fold (\<lambda>(_, ms). view_revert ms) removed w"
    using fold_res_mirrors [OF _ r] registry_revert_block_mirrors_view by fastforce
  moreover have "w' = fold (\<lambda>(_, ms). view_apply ms) added w1"
    using fold_res_mirrors [OF _ a] registry_apply_block_mirrors_view by fastforce
  ultimately show ?thesis by simp
qed

theorem registry_mirrors_active_bond_view_witness:
  "\<exists>w' t. reconcile_dns_bond_registry [(sample_outpoint 0, sample_bond)]
        [(sample_hash 1, [Insert (sample_outpoint 0) sample_bond])]
        [(sample_hash 2, [Insert (sample_outpoint 1) sample_bond, Slash (sample_outpoint 1) 12])] = Inr (w', t) \<and>
     w' = view_apply [Insert (sample_outpoint 1) sample_bond, Slash (sample_outpoint 1) 12]
            (view_revert [Insert (sample_outpoint 0) sample_bond] [(sample_outpoint 0, sample_bond)])"
proof -
  let ?r = "[(sample_hash 1, [Insert (sample_outpoint 0) sample_bond])]"
    and ?a = "[(sample_hash 2, [Insert (sample_outpoint 1) sample_bond, Slash (sample_outpoint 1) 12])]"
  obtain w' t where "reconcile_dns_bond_registry [(sample_outpoint 0, sample_bond)] ?r ?a = Inr (w', t)"
    by (simp add: reconcile_dns_bond_registry_def registry_apply_block_def registry_revert_block_def hm_defs
        hm_modify_def refresh_status_def sample_bond_def)
  then show ?thesis
    using registry_mirrors_active_bond_view [of "[(sample_outpoint 0, sample_bond)]" ?r ?a w' t] by auto
qed

end
