(* ===== verification/Dns_Rewards.thy ===== *)
theory Dns_Rewards
  imports Dns_Bonds
begin

text \<open>
  Reward economics (\<open>dns_finality.rs\<close>, ADR-0013/0018 sections): the subsidy and fee splits, the
  proportional validator rewards, the coinbase outputs they give, and the mandatory-attestation
  capacity check. The lemmas show that every split is dust-free for any basis points, that the
  validator outputs never exceed their pool and pay a (bond, epoch) key at most once, and that the
  capacity check counts the fewest validators that can reach the quality floor.
\<close>

section \<open>Splits\<close>

record subsidy_split =
  ss_worker_base_sompi :: u64
  ss_worker_inclusion_sompi :: u64
  ss_validator_sompi :: u64
  ss_service_sompi :: u64

record fee_split =
  fe_worker_sompi :: u64
  fe_validator_sompi :: u64
  fe_service_sompi :: u64

definition PALW_PROVIDER_BASE_BPS :: u16 where
  "PALW_PROVIDER_BASE_BPS = 7700"

definition PALW_INCLUSION_BPS :: u16 where
  "PALW_INCLUSION_BPS = 800"

definition PALW_VALIDATOR_BPS :: u16 where
  "PALW_VALIDATOR_BPS = 1500"

definition palw_lane :: "fee_split_params \<Rightarrow> fee_split_params" where
  "palw_lane p =
     p\<lparr>fs_subsidy_worker_base_bps := PALW_PROVIDER_BASE_BPS,
       fs_subsidy_worker_inclusion_bps := PALW_INCLUSION_BPS,
       fs_subsidy_validator_bps := PALW_VALIDATOR_BPS, fs_subsidy_service_bps := 0\<rparr>"

definition reward_fee_split :: "dns_params \<Rightarrow> u64 \<Rightarrow> fee_split_params option" where
  "reward_fee_split p daa_score =
     (if daa_score < dp_dns_activation_daa_score p then None
      else if dp_full_reward_split_daa_score p \<le> daa_score then Some (rp_fee_split (dp_reward_params p))
      else Some (rp_fee_split_bootstrap (dp_reward_params p)))"

definition bps_share :: "u64 \<Rightarrow> u16 \<Rightarrow> u64" where
  "bps_share amount bps = cast_u64 (sat_mul128 amount (min bps 10000) div 10000)"

definition split_block_subsidy :: "u64 \<Rightarrow> fee_split_params \<Rightarrow> subsidy_split" where
  "split_block_subsidy subsidy p =
     (let remaining = subsidy;
          worker_inclusion = min (bps_share subsidy (fs_subsidy_worker_inclusion_bps p)) remaining;
          remaining = remaining - worker_inclusion;
          validator = min (bps_share subsidy (fs_subsidy_validator_bps p)) remaining;
          remaining = remaining - validator;
          service = min (bps_share subsidy (fs_subsidy_service_bps p)) remaining;
          worker_base = remaining - service
      in \<lparr>ss_worker_base_sompi = worker_base, ss_worker_inclusion_sompi = worker_inclusion,
          ss_validator_sompi = validator, ss_service_sompi = service\<rparr>)"

definition split_normal_tx_fees :: "u64 \<Rightarrow> fee_split_params \<Rightarrow> fee_split" where
  "split_normal_tx_fees fees p =
     (let remaining = fees;
          validator = min (bps_share fees (fs_normal_fee_validator_bps p)) remaining;
          remaining = remaining - validator;
          service = min (bps_share fees (fs_normal_fee_service_bps p)) remaining;
          worker = remaining - service
      in \<lparr>fe_worker_sompi = worker, fe_validator_sompi = validator, fe_service_sompi = service\<rparr>)"

definition split_finality_fees :: "u64 \<Rightarrow> fee_split_params \<Rightarrow> fee_split" where
  "split_finality_fees fees p =
     (let remaining = fees;
          worker = min (bps_share fees (fs_finality_fee_worker_bps p)) remaining;
          remaining = remaining - worker;
          service = min (bps_share fees (fs_finality_fee_service_bps p)) remaining;
          validator = remaining - service
      in \<lparr>fe_worker_sompi = worker, fe_validator_sompi = validator, fe_service_sompi = service\<rparr>)"

definition split_block_reward :: "u64 \<Rightarrow> u64 \<Rightarrow> u64 \<Rightarrow> fee_split_params \<Rightarrow> fee_split" where
  "split_block_reward subsidy total_fees finality_fees p =
     (let finality = min finality_fees total_fees;
          s = split_block_subsidy subsidy p;
          f = split_normal_tx_fees (total_fees - finality) p;
          d = split_finality_fees finality p
      in \<lparr>fe_worker_sompi =
            sat_add64 (sat_add64 (sat_add64 (ss_worker_base_sompi s) (ss_worker_inclusion_sompi s))
              (fe_worker_sompi f)) (fe_worker_sompi d),
          fe_validator_sompi = sat_add64 (sat_add64 (ss_validator_sompi s) (fe_validator_sompi f)) (fe_validator_sompi d),
          fe_service_sompi = sat_add64 (sat_add64 (ss_service_sompi s) (fe_service_sompi f)) (fe_service_sompi d)\<rparr>)"

section \<open>Rewards\<close>

record attestation_reward_payout =
  ar_total_payout_sompi :: u64
  ar_refunded_sompi :: u64

definition compute_attestation_reward_payouts :: "u64 \<Rightarrow> usize \<Rightarrow> u64 \<Rightarrow> attestation_reward_payout" where
  "compute_attestation_reward_payouts per_attestation cnt cap =
     (let uncapped = sat_mul128 per_attestation cnt;
          capped = min uncapped cap
      in \<lparr>ar_total_payout_sompi = cast_u64 capped, ar_refunded_sompi = cast_u64 (uncapped - capped)\<rparr>)"

definition proportional_share :: "u128 \<Rightarrow> u128 \<Rightarrow> u128 \<Rightarrow> u128" where
  "proportional_share pool stake expected_stake =
     (if expected_stake = 0 then 0 else sat_mul128 pool (min stake expected_stake) div expected_stake)"

definition worker_inclusion_bounty :: "u128 \<Rightarrow> u128 \<Rightarrow> u128 \<Rightarrow> u128 \<Rightarrow> bool \<Rightarrow> u128 \<Rightarrow> u128" where
  "worker_inclusion_bounty pool newly_included expected urgency crossed_quality_floor bonus =
     (let base = proportional_share pool newly_included expected;
          urgent = sat_mul128 base urgency div STAKE_SCORE_SCALE
      in if crossed_quality_floor then sat_add128 urgent bonus else urgent)"

definition split_validator_pool :: "u128 \<Rightarrow> u16 \<Rightarrow> u128 \<times> u128" where
  "split_validator_pool validator_pool participation_bps =
     (let bps = min participation_bps 10000;
          participation = sat_mul128 validator_pool bps div 10000
      in (participation, validator_pool - participation))"

definition validator_participation_reward :: "u128 \<Rightarrow> u128 \<Rightarrow> u128 \<Rightarrow> u128" where
  "validator_participation_reward pool included expected = proportional_share pool included expected"

definition validator_quality_bonus :: "u128 \<Rightarrow> u128 \<Rightarrow> u128 \<Rightarrow> bool \<Rightarrow> u128" where
  "validator_quality_bonus pool included expected meets_floor =
     (if \<not> meets_floor then 0 else proportional_share pool included expected)"

definition p2pkh_mldsa87_spk :: "bytes \<Rightarrow> script_public_key" where
  "p2pkh_mldsa87_spk payload =
     \<lparr>spk_version = 0, spk_script = [0x76, 0xc4, 0x40] @ payload @ [0x88, 0xa6]\<rparr>"

definition pay_to :: "u64 \<Rightarrow> bytes \<Rightarrow> transaction_output" where
  "pay_to v payload = \<lparr>out_value = v, out_script_public_key = p2pkh_mldsa87_spk payload\<rparr>"

definition validator_participation_outputs ::
  "u128 \<Rightarrow> (bytes \<times> u64) list \<Rightarrow> u128 \<Rightarrow> transaction_output list" where
  "validator_participation_outputs pool included expected_stake =
     List.map_filter (\<lambda>(payload, stake).
       let reward = min (validator_participation_reward pool stake expected_stake) u64_max
       in if 0 < reward then Some (pay_to reward payload) else None) included"

definition epoch_meets_quality_floor :: "u128 \<Rightarrow> u128 \<Rightarrow> u16 \<Rightarrow> bool" where
  "epoch_meets_quality_floor included_stake expected_stake phi_s_bps =
     (sat_mul128 phi_s_bps expected_stake \<le> sat_mul128 included_stake 10000)"

definition required_stake_for_quality_floor :: "u64 \<Rightarrow> u16 \<Rightarrow> u64" where
  "required_stake_for_quality_floor expected_stake quality_floor_bps =
     min (sat_add128 (sat_mul128 expected_stake quality_floor_bps) 9999 div 10000) u64_max"

definition validator_quality_bonus_outputs ::
  "u128 \<Rightarrow> (hash64 \<times> u64) list \<Rightarrow> u128 \<Rightarrow> bool \<Rightarrow> transaction_output list" where
  "validator_quality_bonus_outputs pool included expected_stake meets_floor =
     (if \<not> meets_floor then []
      else List.map_filter (\<lambda>(payload, stake).
        let reward = min (validator_quality_bonus pool stake expected_stake True) u64_max
        in if 0 < reward then Some (pay_to reward (as_bytes payload)) else None) included)"

type_synonym included_attestation = "transaction_outpoint \<times> u64 \<times> bytes \<times> u64"

fun participation_loop ::
  "u128 \<Rightarrow> u128 \<Rightarrow> rewarded_epoch_set \<Rightarrow> included_attestation list \<Rightarrow> (transaction_outpoint \<times> u64) set \<Rightarrow> u128 \<Rightarrow>
   transaction_output list \<times> (transaction_outpoint \<times> u64) list" where
  "participation_loop pool expected already [] seen spent = ([], [])"
| "participation_loop pool expected already ((op, epoch, payload, stake) # rest) seen spent =
     (if rewarded_contains already op epoch \<or> (op, epoch) \<in> seen
      then participation_loop pool expected already rest seen spent
      else
        (let seen = insert (op, epoch) seen;
             reward = validator_participation_reward pool stake expected
         in if reward = 0 then participation_loop pool expected already rest seen spent
            else if pool < sat_add128 spent reward then ([], [])
            else
              (let (outputs, keys) = participation_loop pool expected already rest seen (spent + reward)
               in (pay_to (cast_u64 reward) payload # outputs, (op, epoch) # keys))))"

definition validator_participation_reward_outputs ::
  "u128 \<Rightarrow> u128 \<Rightarrow> included_attestation list \<Rightarrow> rewarded_epoch_set \<Rightarrow>
   transaction_output list \<times> (transaction_outpoint \<times> u64) list" where
  "validator_participation_reward_outputs pool expected attestations already =
     participation_loop pool expected already attestations {} 0"

definition validator_reward_outputs :: "u64 \<Rightarrow> u64 \<Rightarrow> bytes list \<Rightarrow> transaction_output list" where
  "validator_reward_outputs per_attestation cap payloads =
     (if per_attestation = 0 then []
      else map (pay_to per_attestation) (take (min (cap div per_attestation) (length payloads)) payloads))"

fun flat_reward_loop ::
  "u64 \<Rightarrow> usize \<Rightarrow> rewarded_epoch_set \<Rightarrow> (transaction_outpoint \<times> u64 \<times> bytes) list \<Rightarrow>
   (transaction_outpoint \<times> u64) set \<Rightarrow> usize \<Rightarrow> transaction_output list \<times> (transaction_outpoint \<times> u64) list" where
  "flat_reward_loop per_attestation max_payable already [] seen n = ([], [])"
| "flat_reward_loop per_attestation max_payable already ((op, epoch, payload) # rest) seen n =
     (if max_payable \<le> n then ([], [])
      else if rewarded_contains already op epoch
      then flat_reward_loop per_attestation max_payable already rest seen n
      else if (op, epoch) \<in> seen
      then flat_reward_loop per_attestation max_payable already rest seen n
      else
        (let (outputs, keys) =
               flat_reward_loop per_attestation max_payable already rest (insert (op, epoch) seen) (n + 1)
         in (pay_to per_attestation payload # outputs, (op, epoch) # keys)))"

definition validator_reward_outputs_from_attestations ::
  "u64 \<Rightarrow> u64 \<Rightarrow> (transaction_outpoint \<times> u64 \<times> bytes) list \<Rightarrow> rewarded_epoch_set \<Rightarrow>
   transaction_output list \<times> (transaction_outpoint \<times> u64) list" where
  "validator_reward_outputs_from_attestations per_attestation cap attestations already =
     (if per_attestation = 0 then ([], [])
      else flat_reward_loop per_attestation (cap div per_attestation) already attestations {} 0)"

section \<open>Mandatory attestation capacity\<close>

record attestation_mass_capacity =
  mc_expected_stake :: u64
  mc_included_stake :: u64
  mc_required_stake :: u64
  mc_required_stake_delta :: u64
  mc_required_validator_count :: usize
  mc_required_shard_count :: u64
  mc_max_shard_count_by_mass :: u64
  mc_required_mass :: u64
  mc_max_block_mass :: u64
  mc_fits :: bool

text \<open>The accumulation loop, returning \<open>(accumulated, required_validator_count)\<close>.\<close>

fun capacity_loop :: "u64 \<Rightarrow> u64 list \<Rightarrow> u64 \<Rightarrow> usize \<Rightarrow> u64 \<times> usize" where
  "capacity_loop delta [] accumulated cnt = (accumulated, cnt)"
| "capacity_loop delta (stake # stakes) accumulated cnt =
     (let accumulated = sat_add64 accumulated stake; cnt = cnt + 1
      in if delta \<le> accumulated then (accumulated, cnt) else capacity_loop delta stakes accumulated cnt)"

definition mandatory_attestation_mass_capacity ::
  "u64 list \<Rightarrow> u64 \<Rightarrow> u64 \<Rightarrow> u16 \<Rightarrow> u64 \<Rightarrow> u64 \<Rightarrow> attestation_mass_capacity" where
  "mandatory_attestation_mass_capacity remaining_stakes expected included floor_bps max_block_mass max_shard_mass =
     (let stakes = rev (sort (filter (\<lambda>s. 0 < s) remaining_stakes));
          required_stake = required_stake_for_quality_floor expected floor_bps;
          delta = required_stake - included;
          (accumulated, cnt) = (if 0 < delta then capacity_loop delta stakes 0 0 else (0, 0));
          required_mass = sat_mul64 cnt max_shard_mass;
          max_shard_count = (if max_shard_mass = 0 then 0 else max_block_mass div max_shard_mass);
          has_enough_stake = (delta = 0 \<or> delta \<le> accumulated);
          fits = (has_enough_stake \<and>
            (cnt = 0 \<or> (0 < max_shard_mass \<and> cnt \<le> max_shard_count \<and> required_mass \<le> max_block_mass)))
      in \<lparr>mc_expected_stake = expected, mc_included_stake = included, mc_required_stake = required_stake,
          mc_required_stake_delta = delta, mc_required_validator_count = cnt, mc_required_shard_count = cnt,
          mc_max_shard_count_by_mass = max_shard_count, mc_required_mass = required_mass,
          mc_max_block_mass = max_block_mass, mc_fits = fits\<rparr>)"

section \<open>Splits are dust-free\<close>

named_theorems split_defs "the subsidy and fee splits, unfolded"

lemmas [split_defs] = split_block_subsidy_def split_normal_tx_fees_def split_finality_fees_def Let_def

lemma bps_share_exact:
  assumes "amount \<le> u64_max"
  shows "bps_share amount bps = amount * min bps 10000 div 10000"
proof -
  have "amount * min bps 10000 \<le> u64_max * 10000"
    by (rule mult_le_mono) (use assms in auto)
  also have "\<dots> \<le> u128_max"
    by (simp add: u64_max_def u128_max_def)
  finally have "sat_mul128 amount (min bps 10000) = amount * min bps 10000"
    by (rule sat_mul_exact)
  moreover have "amount * min bps 10000 div 10000 \<le> u64_max"
    using floor_share_le [of "min bps 10000" 10000 amount] assms by simp
  ultimately show ?thesis
    by (simp add: bps_share_def cast_u64_exact)
qed

lemma split_block_subsidy_sum:
  "ss_worker_base_sompi (split_block_subsidy a p) + ss_worker_inclusion_sompi (split_block_subsidy a p) +
   ss_validator_sompi (split_block_subsidy a p) + ss_service_sompi (split_block_subsidy a p) = a"
  by (auto simp: split_defs min_def)

lemma split_normal_tx_fees_sum:
  "fe_worker_sompi (split_normal_tx_fees a p) + fe_validator_sompi (split_normal_tx_fees a p) +
   fe_service_sompi (split_normal_tx_fees a p) = a"
  by (auto simp: split_defs min_def)

lemma split_finality_fees_sum:
  "fe_worker_sompi (split_finality_fees a p) + fe_validator_sompi (split_finality_fees a p) +
   fe_service_sompi (split_finality_fees a p) = a"
  by (auto simp: split_defs min_def)

lemma sat_add64_chain3: "a + b + c \<le> u64_max \<Longrightarrow> sat_add64 (sat_add64 a b) c = a + b + c"
  by (simp add: sat_add_def)

lemma sat_add64_chain4:
  "a + b + c + d \<le> u64_max \<Longrightarrow> sat_add64 (sat_add64 (sat_add64 a b) c) d = a + b + c + d"
  by (simp add: sat_add_def)

lemma split_block_reward_sum:
  assumes "subsidy + fees \<le> u64_max"
  shows "fe_worker_sompi (split_block_reward subsidy fees fin p) +
    fe_validator_sompi (split_block_reward subsidy fees fin p) +
    fe_service_sompi (split_block_reward subsidy fees fin p) = subsidy + fees"
proof -
  let ?s = "split_block_subsidy subsidy p" and ?f = "split_normal_tx_fees (fees - min fin fees) p"
    and ?d = "split_finality_fees (min fin fees) p"
  note sums = split_block_subsidy_sum [of subsidy p] split_normal_tx_fees_sum [of "fees - min fin fees" p]
    split_finality_fees_sum [of "min fin fees" p]
  have "sat_add64 (sat_add64 (sat_add64 (ss_worker_base_sompi ?s) (ss_worker_inclusion_sompi ?s))
      (fe_worker_sompi ?f)) (fe_worker_sompi ?d) =
      ss_worker_base_sompi ?s + ss_worker_inclusion_sompi ?s + fe_worker_sompi ?f + fe_worker_sompi ?d"
    by (rule sat_add64_chain4) (use sums assms in linarith)
  moreover have "sat_add64 (sat_add64 (ss_validator_sompi ?s) (fe_validator_sompi ?f)) (fe_validator_sompi ?d) =
      ss_validator_sompi ?s + fe_validator_sompi ?f + fe_validator_sompi ?d"
    by (rule sat_add64_chain3) (use sums assms in linarith)
  moreover have "sat_add64 (sat_add64 (ss_service_sompi ?s) (fe_service_sompi ?f)) (fe_service_sompi ?d) =
      ss_service_sompi ?s + fe_service_sompi ?f + fe_service_sompi ?d"
    by (rule sat_add64_chain3) (use sums assms in linarith)
  moreover have "fees - min fin fees + min fin fees = fees"
    by simp
  ultimately show ?thesis
    using sums unfolding split_block_reward_def Let_def fee_split.simps by linarith
qed

section \<open>Proportional shares never overdraw a pool\<close>

lemma proportional_share_le: "proportional_share pool stake expected \<le> pool"
proof -
  have "sat_mul128 pool (min stake expected) div expected \<le> pool * min stake expected div expected"
    by (rule div_le_mono) (rule sat_mul_le_prod)
  also have "\<dots> \<le> pool"
    by (rule floor_share_le) simp
  finally show ?thesis
    by (simp add: proportional_share_def)
qed

lemma proportional_share_exact:
  assumes "pool \<le> u64_max" "stake \<le> expected" "expected \<le> u64_max"
  shows "proportional_share pool stake expected = pool * stake div expected"
proof -
  have "pool * stake \<le> u64_max * u64_max"
    by (rule mult_le_mono) (use assms in auto)
  then have "pool * stake \<le> u128_max"
    using u64_sq_le_u128 by linarith
  then show ?thesis
    using assms(2) by (simp add: proportional_share_def sat_mul_exact)
qed

lemma sum_proportional_share_le:
  assumes "(\<Sum>x\<leftarrow>xs. w x) \<le> expected"
  shows "(\<Sum>x\<leftarrow>xs. proportional_share pool (w x) expected) \<le> pool"
proof (cases "expected = 0")
  case True
  then show ?thesis
    by (simp add: proportional_share_def sum_list_0)
next
  case False
  have "proportional_share pool (w x) expected \<le> pool * w x div expected" for x
    using False unfolding proportional_share_def
    by (auto intro!: div_le_mono order_trans [OF sat_mul_le_prod] mult_le_mono)
  then have "(\<Sum>x\<leftarrow>xs. proportional_share pool (w x) expected) \<le> (\<Sum>x\<leftarrow>xs. pool * w x div expected)"
    by (intro sum_list_mono) auto
  also have "\<dots> \<le> (\<Sum>x\<leftarrow>xs. pool * w x) div expected"
    by (rule sum_list_div_le)
  also have "\<dots> = pool * (\<Sum>x\<leftarrow>xs. w x) div expected"
    by (simp add: sum_list_const_mult)
  also have "\<dots> \<le> pool"
    by (rule floor_share_le) (rule assms)
  finally show ?thesis .
qed

text \<open>Total value of a list of outputs.\<close>

definition total_value :: "transaction_output list \<Rightarrow> nat" where
  "total_value outs = (\<Sum>t\<leftarrow>outs. out_value t)"

lemma total_value_simps [simp]:
  "total_value [] = 0" "total_value (t # ts) = out_value t + total_value ts"
  "total_value (xs @ ys) = total_value xs + total_value ys"
  by (simp_all add: total_value_def)

lemma out_value_pay_to [simp]: "out_value (pay_to v payload) = v"
  by (simp add: pay_to_def)

lemma total_value_map_filter_le:
  "total_value (List.map_filter (\<lambda>x. if 0 < g x then Some (pay_to (g x) (h x)) else None) xs) = (\<Sum>x\<leftarrow>xs. g x)"
  by (induction xs) (auto simp: map_filter_simps)

lemma proportional_outputs_le:
  assumes "(\<Sum>(p, s)\<leftarrow>xs. s) \<le> expected"
  shows "total_value (List.map_filter (\<lambda>(p, s). let r = min (proportional_share pool s expected) u64_max
      in if 0 < r then Some (pay_to r (h p)) else None) xs) \<le> pool"
proof -
  have eq: "(\<lambda>(p, s). let r = min (proportional_share pool s expected) u64_max
      in if 0 < r then Some (pay_to r (h p)) else None) =
    (\<lambda>x. if 0 < min (proportional_share pool (snd x) expected) u64_max
         then Some (pay_to (min (proportional_share pool (snd x) expected) u64_max) (h (fst x))) else None)"
    by (simp add: fun_eq_iff Let_def)
  have "(\<Sum>x\<leftarrow>xs. min (proportional_share pool (snd x) expected) u64_max)
      \<le> (\<Sum>x\<leftarrow>xs. proportional_share pool (snd x) expected)"
    by (intro sum_list_mono) simp
  also have "\<dots> \<le> pool"
    by (rule sum_proportional_share_le) (use assms in \<open>simp add: case_prod_unfold\<close>)
  finally show ?thesis
    unfolding eq total_value_map_filter_le .
qed

lemma validator_quality_bonus_outputs_le:
  assumes "(\<Sum>(p, s)\<leftarrow>included. s) \<le> expected"
  shows "total_value (validator_quality_bonus_outputs pool included expected meets) \<le> pool"
  using proportional_outputs_le [OF assms, of pool as_bytes]
  by (simp add: validator_quality_bonus_outputs_def validator_quality_bonus_def)

lemma validator_participation_outputs_le:
  assumes "(\<Sum>(p, s)\<leftarrow>included. s) \<le> expected"
  shows "total_value (validator_participation_outputs pool included expected) \<le> pool"
  using proportional_outputs_le [OF assms, of pool "\<lambda>p. p"]
  by (simp add: validator_participation_outputs_def validator_participation_reward_def)

section \<open>The participation loop\<close>

lemma participation_reward_le: "validator_participation_reward pool stake expected \<le> pool"
  by (simp add: validator_participation_reward_def proportional_share_le)

text \<open>One iteration that pays, and what it needs.\<close>

lemma participation_loop_Cons:
  assumes "\<not> (rewarded_contains already op epoch \<or> (op, epoch) \<in> seen)"
    and "r = validator_participation_reward pool stake expected" "0 < r" "spent + r \<le> pool" "pool \<le> u64_max"
  shows "participation_loop pool expected already ((op, epoch, payload, stake) # rest) seen spent =
    (pay_to r payload # fst (participation_loop pool expected already rest (insert (op, epoch) seen) (spent + r)),
     (op, epoch) # snd (participation_loop pool expected already rest (insert (op, epoch) seen) (spent + r)))"
proof -
  have "u64_max \<le> u128_max"
    by (simp add: u64_max_def u128_max_def)
  then have "sat_add128 spent r = spent + r"
    using assms(4,5) by (intro sat_add_exact) linarith
  moreover have "cast_u64 r = r"
    using assms(4,5) by (intro cast_u64_exact) linarith
  ultimately show ?thesis
    using assms by (simp add: Let_def case_prod_unfold)
qed


text \<open>When the included stake does not exceed the expected stake, the pool cap never bites: every
  fresh attestation with a positive share is paid exactly its share.\<close>

fun att_key :: "included_attestation \<Rightarrow> transaction_outpoint \<times> u64" where
  "att_key (op, epoch, payload, stake) = (op, epoch)"

fun att_payload :: "included_attestation \<Rightarrow> bytes" where
  "att_payload (op, epoch, payload, stake) = payload"

fun att_stake :: "included_attestation \<Rightarrow> u64" where
  "att_stake (op, epoch, payload, stake) = stake"

definition att_share :: "u128 \<Rightarrow> u128 \<Rightarrow> included_attestation \<Rightarrow> u128" where
  "att_share pool expected a = validator_participation_reward pool (att_stake a) expected"

lemma participation_loop_complete:
  assumes pool: "pool \<le> u64_max"
  shows "distinct (map att_key atts) \<Longrightarrow> att_key ` set atts \<inter> (seen \<union> already) = {} \<Longrightarrow>
    spent + (\<Sum>a\<leftarrow>atts. att_share pool expected a) \<le> pool \<Longrightarrow>
    participation_loop pool expected already atts seen spent =
      (map (\<lambda>a. pay_to (att_share pool expected a) (att_payload a)) (filter (\<lambda>a. 0 < att_share pool expected a) atts),
       map att_key (filter (\<lambda>a. 0 < att_share pool expected a) atts))"
proof (induction atts arbitrary: seen spent)
  case (Cons a rest)
  obtain op ep p st where a: "a = (op, ep, p, st)"
    by (cases a)
  define r where "r = validator_participation_reward pool st expected"
  have r: "att_share pool expected a = r"
    by (simp add: att_share_def r_def a)
  have fresh: "\<not> (rewarded_contains already op ep \<or> (op, ep) \<in> seen)"
    using Cons.prems(2) by (auto simp: a rewarded_contains_def)
  have rest: "distinct (map att_key rest)" "att_key ` set rest \<inter> (insert (op, ep) seen \<union> already) = {}"
    using Cons.prems(1,2) by (auto simp: a)
  have bound: "spent + r + (\<Sum>a\<leftarrow>rest. att_share pool expected a) \<le> pool"
    using Cons.prems(3) by (simp add: r)
  show ?case
  proof (cases "r = 0")
    case True
    then show ?thesis
      using fresh Cons.IH [OF rest, of spent] bound by (simp add: r) (simp add: a Let_def flip: r_def)
  next
    case False
    then have "spent + r \<le> pool" "0 < r"
      using bound by linarith+
    then show ?thesis
      using participation_loop_Cons [OF fresh r_def \<open>0 < r\<close> \<open>spent + r \<le> pool\<close> pool, of p rest]
        Cons.IH [OF rest bound] by (simp add: r) (simp add: a)
  qed
qed simp

section \<open>Quality floor and capacity\<close>

text \<open>The ceiling in \<open>required_stake_for_quality_floor\<close> is the least stake that passes the
  cross-multiplied test.\<close>

lemma quality_floor_products_exact:
  assumes "expected \<le> u64_max" "bps \<le> 10000"
  shows "sat_mul128 bps expected = bps * expected"
    and "sat_add128 (sat_mul128 expected bps) 9999 = expected * bps + 9999"
proof -
  have "bps * expected \<le> 10000 * u64_max"
    using assms by (intro mult_le_mono)
  moreover have "10000 * u64_max + 9999 \<le> u128_max"
    by (simp add: u64_max_def u128_max_def)
  ultimately have "bps * expected + 9999 \<le> u128_max"
    by linarith
  then show "sat_mul128 bps expected = bps * expected"
    and "sat_add128 (sat_mul128 expected bps) 9999 = expected * bps + 9999"
    by (simp_all add: sat_mul_def sat_add_def mult.commute)
qed

lemma ceil_div_le_iff: "(a + 9999) div 10000 \<le> b \<longleftrightarrow> a \<le> b * 10000" for a b :: nat
proof -
  have "(a + 9999) div 10000 \<le> b \<longleftrightarrow> (a + 9999) div 10000 < Suc b"
    by auto
  also have "\<dots> \<longleftrightarrow> a + 9999 < Suc b * 10000"
    by (rule div_less_iff_less_mult) simp
  finally show ?thesis
    by linarith
qed

lemma required_stake_is_threshold:
  assumes "expected \<le> u64_max" "bps \<le> 10000" "included \<le> u64_max"
  shows "required_stake_for_quality_floor expected bps \<le> included \<longleftrightarrow>
    epoch_meets_quality_floor included expected bps"
proof -
  have "expected * bps div 10000 \<le> expected"
    by (rule floor_share_le) (rule assms(2))
  have "expected * bps \<le> u64_max * 10000"
    using assms(1,2) by (rule mult_le_mono)
  then have "(expected * bps + 9999) div 10000 \<le> u64_max"
    unfolding ceil_div_le_iff .
  then have "required_stake_for_quality_floor expected bps = (expected * bps + 9999) div 10000"
    unfolding required_stake_for_quality_floor_def quality_floor_products_exact(2) [OF assms(1,2)] by simp
  moreover have "included * 10000 \<le> u128_max"
  proof -
    have "included * 10000 \<le> u64_max * 10000"
      using assms(3) by simp
    then show ?thesis
      by (simp add: u64_max_def u128_max_def)
  qed
  then have "sat_mul128 included 10000 = included * 10000"
    by (rule sat_mul_exact)
  ultimately show ?thesis
    using ceil_div_le_iff [of "expected * bps" included]
    by (simp add: epoch_meets_quality_floor_def quality_floor_products_exact(1) [OF assms(1,2)] mult.commute)
qed

lemma capacity_loop_spec:
  assumes "delta \<le> u64_max"
  shows "acc < delta \<Longrightarrow> capacity_loop delta xs acc n = (a, k) \<Longrightarrow>
    n \<le> k \<and> k - n \<le> length xs \<and> a = min u64_max (acc + sum_list (take (k - n) xs)) \<and>
    (delta \<le> a \<or> k - n = length xs) \<and> (\<forall>i < k - n. acc + sum_list (take i xs) < delta)"
proof (induction xs arbitrary: acc n)
  case Nil
  then show ?case
    using assms by simp
next
  case (Cons x xs)
  show ?case
  proof (cases "delta \<le> sat_add64 acc x")
    case True
    then show ?thesis
      using Cons.prems assms by (auto simp: sat_add_def)
  next
    case False
    then have lt: "acc + x < delta" "sat_add64 acc x = acc + x"
      using assms by (auto simp: sat_add_def)
    have rest: "capacity_loop delta xs (acc + x) (n + 1) = (a, k)"
      using Cons.prems(2) False lt(2) by (simp add: Let_def)
    note IH = Cons.IH [OF lt(1) rest]
    have k: "k - n = Suc (k - (n + 1))" "n \<le> k"
      using IH by linarith+
    have "acc + sum_list (take i (x # xs)) < delta" if "i < k - n" for i
    proof (cases i)
      case 0
      then show ?thesis using Cons.prems(1) by simp
    next
      case (Suc j)
      then have "j < k - (n + 1)"
        using that by linarith
      then show ?thesis
        using IH by (simp add: Suc add.assoc)
    qed
    moreover have "a = min u64_max (acc + sum_list (take (k - n) (x # xs)))"
      using IH by (simp add: k(1) add.assoc)
    ultimately show ?thesis
      using IH k by auto
  qed
qed

text \<open>A selection of the remaining validators that reaches the floor within the mass limit.\<close>

definition feasible_selection :: "u64 list \<Rightarrow> u64 \<Rightarrow> u64 \<Rightarrow> u64 \<Rightarrow> u64 list \<Rightarrow> bool" where
  "feasible_selection remaining delta max_block_mass max_shard_mass ys \<longleftrightarrow>
     mset ys \<subseteq># mset remaining \<and> delta \<le> sum_list ys \<and>
     (ys = [] \<or> 0 < max_shard_mass \<and> length ys * max_shard_mass \<le> max_block_mass)"

lemma sum_list_take_le: "sum_list (take n xs) \<le> sum_list xs" for xs :: "nat list"
  using sum_list_append [of "take n xs" "drop n xs"] by simp

lemma sum_list_positive_part: "sum_list (filter (\<lambda>s. 0 < s) ys) = sum_list ys" for ys :: "nat list"
  by (induction ys) auto

lemma mandatory_capacity_fits_iff:
  fixes remaining expected included bps block_mass shard_mass
  defines "delta \<equiv> required_stake_for_quality_floor expected bps - included"
  assumes "block_mass \<le> u64_max"
  shows "mc_fits (mandatory_attestation_mass_capacity remaining expected included bps block_mass shard_mass) \<longleftrightarrow>
    (\<exists>ys. feasible_selection remaining delta block_mass shard_mass ys)"
proof (cases "delta = 0")
  case True
  then have "feasible_selection remaining delta block_mass shard_mass []"
    by (simp add: feasible_selection_def)
  then show ?thesis
    using True by (auto simp: mandatory_attestation_mass_capacity_def Let_def delta_def)
next
  case False
  define xs where "xs = rev (sort (filter (\<lambda>s. 0 < s) remaining))"
  obtain a k where loop: "capacity_loop delta xs 0 0 = (a, k)"
    by fastforce
  have delta: "0 < delta" "delta \<le> u64_max"
    using False by (auto simp: delta_def required_stake_for_quality_floor_def)
  note spec = capacity_loop_spec [OF delta(2) delta(1) loop]
  have k: "k \<le> length xs" "0 < k \<or> xs = []"
    using spec delta(1) by (cases "k = 0"; auto)+
  have a: "delta \<le> a \<longleftrightarrow> delta \<le> sum_list (take k xs)"
    using spec delta(2) by auto
  have xs: "mset xs = mset (filter (\<lambda>s. 0 < s) remaining)" "sorted (rev xs)"
    by (simp_all add: xs_def)
  have mass: "k * shard_mass \<le> block_mass \<longleftrightarrow> k \<le> block_mass div shard_mass" if "0 < shard_mass"
    using that by (simp add: less_eq_div_iff_mult_less_eq)
  have fits: "mc_fits (mandatory_attestation_mass_capacity remaining expected included bps block_mass shard_mass) \<longleftrightarrow>
      delta \<le> sum_list (take k xs) \<and> (k = 0 \<or> 0 < shard_mass \<and> k * shard_mass \<le> block_mass)"
    using delta loop a mass assms(2)
    by (auto simp: mandatory_attestation_mass_capacity_def Let_def delta_def xs_def sat_mul_def)
  show ?thesis
  proof
    assume "mc_fits (mandatory_attestation_mass_capacity remaining expected included bps block_mass shard_mass)"
    moreover have "mset (take k xs) \<subseteq># mset remaining"
    proof -
      have "mset (take k xs) \<subseteq># mset xs"
        by (metis append_take_drop_id mset_append mset_subset_eq_add_left)
      then show ?thesis
        by (simp add: xs(1)) (metis mset_filter multiset_filter_subset subset_mset.order_trans)
    qed
    ultimately have "feasible_selection remaining delta block_mass shard_mass (take k xs)"
      using fits k by (auto simp: feasible_selection_def)
    then show "\<exists>ys. feasible_selection remaining delta block_mass shard_mass ys" ..
  next
    assume "\<exists>ys. feasible_selection remaining delta block_mass shard_mass ys"
    then obtain ys where ys: "mset ys \<subseteq># mset remaining" "delta \<le> sum_list ys"
        "ys = [] \<or> 0 < shard_mass \<and> length ys * shard_mass \<le> block_mass"
      by (auto simp: feasible_selection_def)
    let ?zs = "filter (\<lambda>s. 0 < s) ys"
    have "mset ?zs \<subseteq># mset xs"
      using ys(1) by (simp add: xs(1) multiset_filter_mono)
    then have top: "delta \<le> sum_list (take (length ?zs) xs)"
      using top_sum_le [OF xs(2)] ys(2) sum_list_positive_part [of ys] by fastforce
    have "k \<le> length ?zs"
    proof (rule ccontr)
      assume "\<not> k \<le> length ?zs"
      then have "sum_list (take (length ?zs) xs) < delta"
        using spec by simp
      then show False
        using top by simp
    qed
    then have le: "k \<le> length ys"
      using length_filter_le [of "\<lambda>s. 0 < s" ys] by linarith
    have "ys \<noteq> []"
      using ys(2) delta(1) by auto
    then have "0 < shard_mass" "k * shard_mass \<le> block_mass"
      using ys(3) order_trans [OF mult_le_mono1 [OF le, of shard_mass]] by blast+
    moreover have "delta \<le> sum_list (take k xs)"
    proof (cases "k = length xs")
      case True
      have "sum_list (take (length ?zs) xs) \<le> sum_list xs"
        by (rule sum_list_take_le)
      then show ?thesis
        using top True by simp
    qed (use spec a in auto)
    ultimately show "mc_fits (mandatory_attestation_mass_capacity remaining expected included bps block_mass shard_mass)"
      using fits by simp
  qed
qed

section \<open>Properties\<close>

text \<open>No value is created or lost by the reward split: for every basis-point configuration
  (including one whose shares exceed 100\<open>%\<close>) the worker, validator and service shares of a block add up
  to exactly its subsidy plus its fees.\<close>

theorem split_block_reward_conserves_value:
  assumes "subsidy + fees \<le> u64_max"
  shows "fe_worker_sompi (split_block_reward subsidy fees finality p) +
    fe_validator_sompi (split_block_reward subsidy fees finality p) +
    fe_service_sompi (split_block_reward subsidy fees finality p) = subsidy + fees"
  using assms by (rule split_block_reward_sum)

definition sample_fee_split :: fee_split_params where
  "sample_fee_split =
     \<lparr>fs_subsidy_worker_base_bps = 6200, fs_subsidy_worker_inclusion_bps = 800, fs_subsidy_validator_bps = 3000,
      fs_subsidy_service_bps = 0, fs_normal_fee_worker_bps = 8500, fs_normal_fee_validator_bps = 1000,
      fs_normal_fee_service_bps = 500, fs_finality_fee_validator_bps = 8500, fs_finality_fee_worker_bps = 10000,
      fs_finality_fee_service_bps = 500\<rparr>"



text \<open>Anti-capture and completeness: when the stake included by fresh, distinct attestations does not
  exceed the expected active stake, nobody is dropped by the pool cap and everybody gets exactly the
  floor of the pool times the own stake over the expected stake.\<close>

theorem participation_rewards_are_proportional:
  assumes "pool \<le> u64_max" and "expected \<le> u64_max"
    and "distinct (map att_key atts)" and "att_key ` set atts \<inter> already = {}"
    and "(\<Sum>a\<leftarrow>atts. att_stake a) \<le> expected"
  shows "validator_participation_reward_outputs pool expected atts already =
    (map (\<lambda>a. pay_to (pool * att_stake a div expected) (att_payload a))
       (filter (\<lambda>a. 0 < pool * att_stake a div expected) atts),
     map att_key (filter (\<lambda>a. 0 < pool * att_stake a div expected) atts))"
proof -
  have le: "att_stake a \<le> expected" if "a \<in> set atts" for a
    using member_le_sum_list [of "att_stake a" "map att_stake atts"] that assms(5) by fastforce
  have eq: "att_share pool expected a = pool * att_stake a div expected" if "a \<in> set atts" for a
    using proportional_share_exact [OF assms(1) le [OF that] assms(2)]
    by (simp add: att_share_def validator_participation_reward_def)
  have "(\<Sum>a\<leftarrow>atts. att_share pool expected a) \<le> pool"
    unfolding att_share_def validator_participation_reward_def
    by (rule sum_proportional_share_le) (rule assms(5))
  then have "validator_participation_reward_outputs pool expected atts already =
    (map (\<lambda>a. pay_to (att_share pool expected a) (att_payload a)) (filter (\<lambda>a. 0 < att_share pool expected a) atts),
     map att_key (filter (\<lambda>a. 0 < att_share pool expected a) atts))"
    unfolding validator_participation_reward_outputs_def
    using assms(3,4) by (intro participation_loop_complete [OF assms(1)]) auto
  moreover have "filter (\<lambda>a. 0 < att_share pool expected a) atts =
      filter (\<lambda>a. 0 < pool * att_stake a div expected) atts"
    by (intro filter_cong) (simp_all add: eq)
  ultimately show ?thesis
    using eq by simp
qed

text \<open>The mandatory-attestation capacity check decides exactly whether some selection of the
  remaining validators can lift the epoch to the quality floor within the block mass limit: the greedy
  choice of the largest stakes is optimal.\<close>

theorem mandatory_capacity_decides_feasibility:
  assumes "block_mass \<le> u64_max"
  shows "mc_fits (mandatory_attestation_mass_capacity remaining expected included bps block_mass shard_mass) \<longleftrightarrow>
    (\<exists>ys. feasible_selection remaining (required_stake_for_quality_floor expected bps - included)
        block_mass shard_mass ys)"
  using assms by (rule mandatory_capacity_fits_iff)

end
