(* ===== verification/Dns_Epochs.thy ===== *)
theory Dns_Epochs
  imports Dns_Rewards
begin

text \<open>
  Attestation epochs (\<open>dns_finality.rs\<close>): the canonical lagged anchor of a blue-score epoch, the
  epoch that is ready at a tip, the accumulator of an epoch recomputed from the selected-chain window,
  the epochs a block newly finalises, and the consistency checks of the parameters. A \<open>BTreeMap\<close> is
  an association list iterated in key order. The lemmas characterise each of them: the anchor is the
  newest ancestor below the cutoff whatever the length of the ancestor list, and along a chain every
  epoch is finalised by exactly one block.
\<close>

section \<open>Blue-score epochs and anchors\<close>

definition epoch_start_blue_score :: "u64 \<Rightarrow> u64 \<Rightarrow> u64" where
  "epoch_start_blue_score epoch epoch_len = sat_mul64 epoch (max epoch_len 1)"

definition epoch_end_blue_score :: "u64 \<Rightarrow> u64 \<Rightarrow> u64" where
  "epoch_end_blue_score epoch epoch_len = epoch_start_blue_score (sat_add64 epoch 1) epoch_len - 1"

definition anchor_cutoff_blue_score :: "u64 \<Rightarrow> u64 \<Rightarrow> u64 \<Rightarrow> u64" where
  "anchor_cutoff_blue_score epoch epoch_len backoff = epoch_end_blue_score epoch epoch_len - backoff"

definition ready_epoch_from_tip_blue_score :: "u64 \<Rightarrow> u64 \<Rightarrow> u64 \<Rightarrow> u64 option" where
  "ready_epoch_from_tip_blue_score tip epoch_len lag =
     (let epoch_len = max epoch_len 1
      in case checked_sub tip lag of
           None \<Rightarrow> None
         | Some safe \<Rightarrow>
             (case checked_add u64_max safe 1 of
                None \<Rightarrow> None
              | Some s \<Rightarrow>
                  (let completed = s div epoch_len
                   in if completed = 0 then None else Some (completed - 1))))"

record lagged_epoch_anchor =
  ca_epoch :: u64
  ca_epoch_start_blue_score :: u64
  ca_epoch_end_blue_score :: u64
  ca_cutoff_blue_score :: u64
  ca_anchor_hash :: hash64
  ca_anchor_blue_score :: u64
  ca_anchor_daa_score :: u64
  ca_duplicate_of_previous_anchor :: bool

type_synonym ancestor = "hash64 \<times> u64 \<times> u64"

definition first_at_or_below :: "u64 \<Rightarrow> ancestor list \<Rightarrow> ancestor option" where
  "first_at_or_below cutoff ancestors = find (\<lambda>(_, bs, _). bs \<le> cutoff) ancestors"

definition canonical_lagged_epoch_anchor ::
  "u64 \<Rightarrow> u64 \<Rightarrow> u64 \<Rightarrow> ancestor list \<Rightarrow> lagged_epoch_anchor option" where
  "canonical_lagged_epoch_anchor epoch epoch_len backoff ancestors =
     (let epoch_len = max epoch_len 1;
          cutoff = anchor_cutoff_blue_score epoch epoch_len backoff
      in case first_at_or_below cutoff ancestors of
           None \<Rightarrow> None
         | Some (anchor_hash, anchor_blue_score, anchor_daa_score) \<Rightarrow>
             (let duplicate =
                (if epoch = 0 then False
                 else
                   (let prev_cutoff = anchor_cutoff_blue_score (epoch - 1) epoch_len backoff
                    in map_option fst (first_at_or_below prev_cutoff ancestors) = Some anchor_hash))
              in Some \<lparr>ca_epoch = epoch, ca_epoch_start_blue_score = epoch_start_blue_score epoch epoch_len,
                       ca_epoch_end_blue_score = epoch_end_blue_score epoch epoch_len,
                       ca_cutoff_blue_score = cutoff, ca_anchor_hash = anchor_hash,
                       ca_anchor_blue_score = anchor_blue_score, ca_anchor_daa_score = anchor_daa_score,
                       ca_duplicate_of_previous_anchor = duplicate\<rparr>))"

section \<open>Parameter consistency\<close>

definition dns_v3_params_consistent :: "dns_params \<Rightarrow> bool" where
  "dns_v3_params_consistent p =
     (let l = dp_attestation_epoch_length_blue_score p;
          lag = dp_attestation_lag_blue_score p;
          backoff = dp_attestation_anchor_backoff_blue_score p;
          window = dp_stake_score_window_blue_score p;
          depth_epochs = max (cast_u64 (dp_required_stake_depth p div STAKE_SCORE_SCALE)) 2;
          needed = sat_add64 (sat_add64 (sat_mul64 depth_epochs l) lag) backoff
      in 1 \<le> l \<and> 1 \<le> lag \<and> backoff < l \<and> needed \<le> window)"

definition dns_v4_params_consistent :: "dns_params \<Rightarrow> bool" where
  "dns_v4_params_consistent p =
     (let l = dp_attestation_epoch_length_blue_score p;
          window_blue_score = sat_mul64 (dp_dormancy_window_epochs p) l;
          unbond_horizon = sat_add64 (dp_unbonding_period_blocks p) (dp_max_reorg_horizon_blocks p);
          i1 = (unbond_horizon \<le> window_blue_score);
          i2 = (0 < dp_dormancy_evict_limit_bps p \<and> dp_dormancy_evict_limit_bps p \<le> 10000 \<and>
                1 \<le> dp_dormancy_evict_period_epochs p);
          i4 = (1 \<le> dp_dormancy_revival_delay_epochs p);
          i5 = (dp_degraded_stake_quality_epochs p < dp_dormancy_window_epochs p);
          bury_blue = max (dp_attestation_lag_blue_score p) (dp_max_reorg_horizon_blocks p);
          i6 = (sat_add64 bury_blue l \<le> dp_stake_score_window_blue_score p)
      in dns_v3_params_consistent p \<and> i1 \<and> i2 \<and> i4 \<and> i5 \<and> i6)"

section \<open>The epoch accumulator\<close>

record epoch_tally =
  et_expected_stake :: u128
  et_included :: "(hash64 \<times> u64) list"
  et_quality_pool_accrued :: u128
  et_finalized :: bool

record block_epoch_contribution =
  bc_block_daa_score :: u64
  bc_rewarded_keys :: "(transaction_outpoint \<times> u64) list"
  bc_quality_subpool :: u64

definition hm_get_or :: "'v \<Rightarrow> ('k, 'v) hashmap \<Rightarrow> 'k \<Rightarrow> 'v" where
  "hm_get_or d m k = (case hm_get m k of Some v \<Rightarrow> v | None \<Rightarrow> d)"

definition accrue_quality ::
  "u64 \<Rightarrow> block_epoch_contribution \<Rightarrow> (u64, u128) hashmap \<Rightarrow> (u64, u128) hashmap" where
  "accrue_quality epoch_len c m =
     (let block_epoch = bc_block_daa_score c div epoch_len
      in hm_insert block_epoch (sat_add128 (hm_get_or 0 m block_epoch) (bc_quality_subpool c)) m)"

definition accrue_included ::
  "(transaction_outpoint, stake_bond_record) hashmap \<Rightarrow> transaction_outpoint \<times> u64 \<Rightarrow>
   (u64, (hash64 \<times> u64) list) hashmap \<Rightarrow> (u64, (hash64 \<times> u64) list) hashmap" where
  "accrue_included bond_by_outpoint = (\<lambda>(op, epoch) m.
     (case hm_get bond_by_outpoint op of
        Some bond \<Rightarrow>
          hm_insert epoch (hm_get_or [] m epoch @ [(Hash64 (br_owner_reward_spk_payload bond), br_amount bond)]) m
      | None \<Rightarrow> m))"

definition recompute_epoch_tallies ::
  "u64 \<Rightarrow> u64 \<Rightarrow> u64 \<Rightarrow> block_epoch_contribution list \<Rightarrow> stake_bond_record list \<Rightarrow> (u64 \<times> epoch_tally) list" where
  "recompute_epoch_tallies sink_daa_score epoch_length_blocks finalization_depth contributions bonds =
     (let epoch_len = max epoch_length_blocks 1;
          bond_by_outpoint = fold (\<lambda>b. hm_insert (br_bond_outpoint b) b) bonds [];
          (quality_by_epoch, included_by_epoch) =
            fold (\<lambda>c (q, inc). (accrue_quality epoch_len c q,
                                fold (accrue_included bond_by_outpoint) (bc_rewarded_keys c) inc))
              contributions ([], []);
          epochs = sort (remdups (map fst quality_by_epoch @ map fst included_by_epoch))
      in map (\<lambda>epoch.
           (let anchor_daa = sat_mul64 epoch epoch_len;
                expected_stake = fold (\<lambda>b acc. sat_add128 acc (br_amount b))
                  (filter (\<lambda>b. is_bond_active_at b anchor_daa) bonds) 0;
                finalized = (sat_add64 (sat_mul64 (sat_add64 epoch 1) epoch_len) finalization_depth \<le> sink_daa_score)
            in (epoch, \<lparr>et_expected_stake = expected_stake, et_included = hm_get_or [] included_by_epoch epoch,
                        et_quality_pool_accrued = hm_get_or 0 quality_by_epoch epoch, et_finalized = finalized\<rparr>)))
         epochs)"

definition epochs_finalized_at :: "u64 \<Rightarrow> u64 \<Rightarrow> u64 \<Rightarrow> u64 \<Rightarrow> (u64 \<times> u64) option" where
  "epochs_finalized_at parent_daa daa_score epoch_length_blocks finalization_depth =
     (let epoch_len = max epoch_length_blocks 1
      in case checked_sub daa_score finalization_depth of
           None \<Rightarrow> None
         | Some hi \<Rightarrow>
             (let m_max = hi div epoch_len
              in if m_max = 0 then None
                 else
                   (let m_min = max (case checked_sub parent_daa finalization_depth of
                                       None \<Rightarrow> 1
                                     | Some lo \<Rightarrow> sat_add64 (lo div epoch_len) 1) 1
                    in if m_max < m_min then None else Some (m_min - 1, m_max - 1))))"

section \<open>Facts on anchors\<close>

lemma first_at_or_below_Some:
  assumes "first_at_or_below c as = Some a"
  shows "a \<in> set as" "fst (snd a) \<le> c"
  using assms unfolding first_at_or_below_def
  by (induction as) (auto simp: case_prod_unfold split: if_splits)

lemma first_at_or_below_append:
  "first_at_or_below c (xs @ ys) =
     (case first_at_or_below c xs of Some a \<Rightarrow> Some a | None \<Rightarrow> first_at_or_below c ys)"
  unfolding first_at_or_below_def by (induction xs) auto

lemma first_at_or_below_newest:
  assumes "sorted_wrt (\<lambda>a b. fst (snd b) < fst (snd a)) as" "first_at_or_below c as = Some a"
    and "b \<in> set as" "fst (snd b) \<le> c"
  shows "fst (snd b) \<le> fst (snd a)"
  using assms
proof (induction as)
  case (Cons x xs)
  then show ?case
    by (cases "fst (snd x) \<le> c") (auto simp: first_at_or_below_def case_prod_unfold)
qed simp

lemma cutoff_mono: "e \<le> e' \<Longrightarrow> anchor_cutoff_blue_score e l b \<le> anchor_cutoff_blue_score e' l b"
  unfolding anchor_cutoff_blue_score_def epoch_end_blue_score_def epoch_start_blue_score_def
  by (intro diff_le_mono sat_mul_mono sat_add_mono) auto

text \<open>Older ancestors never change the answer: two nodes that keep different amounts of history
  agree on the anchor as soon as both have one.\<close>

lemma canonical_anchor_prefix:
  assumes hashes: "distinct (map fst (xs @ ys))"
    and some: "canonical_lagged_epoch_anchor e l b xs = Some a"
  shows "canonical_lagged_epoch_anchor e l b (xs @ ys) = Some a"
proof -
  define cut where "cut = anchor_cutoff_blue_score e (max l 1) b"
  define prev where "prev = anchor_cutoff_blue_score (e - 1) (max l 1) b"
  obtain h bs d where f: "first_at_or_below cut xs = Some (h, bs, d)"
    using some by (auto simp: canonical_lagged_epoch_anchor_def Let_def cut_def split: option.splits)
  have f': "first_at_or_below cut (xs @ ys) = Some (h, bs, d)"
    by (simp add: first_at_or_below_append f)
  have mem: "(h, bs, d) \<in> set xs"
    using first_at_or_below_Some(1) [OF f] .
  have dup: "map_option fst (first_at_or_below prev (xs @ ys)) = Some h \<longleftrightarrow>
      map_option fst (first_at_or_below prev xs) = Some h"
  proof (cases "first_at_or_below prev xs")
    case None
    have "fst a' \<noteq> h" if "first_at_or_below prev ys = Some a'" for a'
    proof -
      have "a' \<in> set ys"
        using first_at_or_below_Some(1) [OF that] .
      then show ?thesis
        using mem hashes by (force simp: image_iff)
    qed
    then show ?thesis
      using None by (auto simp: first_at_or_below_append)
  qed (simp add: first_at_or_below_append)
  show ?thesis
    using some
    unfolding canonical_lagged_epoch_anchor_def Let_def cut_def [symmetric] prev_def [symmetric] f f' option.case
      prod.case dup .
qed

lemma canonical_anchor_newest:
  assumes "sorted_wrt (\<lambda>a b. fst (snd b) < fst (snd a)) as"
    and "canonical_lagged_epoch_anchor e l b as = Some a"
  shows "(ca_anchor_hash a, ca_anchor_blue_score a, ca_anchor_daa_score a) \<in> set as"
    and "ca_anchor_blue_score a \<le> anchor_cutoff_blue_score e (max l 1) b"
    and "\<forall>(h, bs, d)\<in>set as. bs \<le> anchor_cutoff_blue_score e (max l 1) b \<longrightarrow> bs \<le> ca_anchor_blue_score a"
proof -
  obtain h bs d where f: "first_at_or_below (anchor_cutoff_blue_score e (max l 1) b) as = Some (h, bs, d)"
    and a: "ca_anchor_hash a = h" "ca_anchor_blue_score a = bs" "ca_anchor_daa_score a = d"
    using assms(2) by (auto simp: canonical_lagged_epoch_anchor_def Let_def split: option.splits)
  show "(ca_anchor_hash a, ca_anchor_blue_score a, ca_anchor_daa_score a) \<in> set as"
    "ca_anchor_blue_score a \<le> anchor_cutoff_blue_score e (max l 1) b"
    using first_at_or_below_Some [OF f] by (auto simp: a)
  show "\<forall>(h, bs, d)\<in>set as. bs \<le> anchor_cutoff_blue_score e (max l 1) b \<longrightarrow> bs \<le> ca_anchor_blue_score a"
    using first_at_or_below_newest [OF assms(1) f] by (auto simp: a)
qed

lemma ready_epoch_iff:
  assumes "tip < u64_max" "0 < l"
  shows "ready_epoch_from_tip_blue_score tip l lag = Some e \<longleftrightarrow>
    (e + 1) * l + lag \<le> tip + 1 \<and> tip + 1 < (e + 2) * l + lag"
proof -
  have div: "n div l = Suc e \<longleftrightarrow> Suc e * l \<le> n \<and> n < Suc (Suc e) * l" for n
    using assms(2) by (metis div_nat_eqI dividend_less_times_div less_eq_div_iff_mult_less_eq mult.commute
        mult_Suc_right order_refl)
  show ?thesis
  proof (cases "lag \<le> tip")
    case False
    then have "tip + 1 \<le> lag"
      by simp
    moreover have "0 < (e + 1) * l"
      using assms(2) by simp
    ultimately have "\<not> (e + 1) * l + lag \<le> tip + 1"
      by linarith
    then show ?thesis
      using False by (simp add: ready_epoch_from_tip_blue_score_def checked_sub_def)
  next
    case True
    have "ready_epoch_from_tip_blue_score tip l lag = Some e \<longleftrightarrow> (tip - lag + 1) div l = Suc e"
      using True assms
      by (auto simp: ready_epoch_from_tip_blue_score_def checked_sub_def checked_add_def Let_def)
    also have "\<dots> \<longleftrightarrow> Suc e * l \<le> tip - lag + 1 \<and> tip - lag + 1 < Suc (Suc e) * l"
      by (rule div)
    finally show ?thesis
      using True by (auto simp: algebra_simps)
  qed
qed

section \<open>Facts on finalised epochs\<close>

lemma epochs_finalized_at_iff:
  assumes "0 < l" "d < u64_max" "p \<le> d"
  shows "(\<exists>a b. epochs_finalized_at p d l fd = Some (a, b) \<and> a \<le> e \<and> e \<le> b) \<longleftrightarrow>
    p < (e + 1) * l + fd \<and> (e + 1) * l + fd \<le> d"
proof (cases "fd \<le> d")
  case False
  then show ?thesis
    by (auto simp: epochs_finalized_at_def checked_sub_def)
next
  case True
  have upper: "(e + 1) * l + fd \<le> d \<longleftrightarrow> Suc e \<le> (d - fd) div l"
    using True assms(1) by (auto simp: less_eq_div_iff_mult_less_eq)
  define m_min where "m_min = max (case checked_sub p fd of None \<Rightarrow> 1 | Some lo \<Rightarrow> sat_add64 (lo div l) 1) 1"
  have lower: "p < (e + 1) * l + fd \<longleftrightarrow> m_min \<le> Suc e" if "Suc e \<le> (d - fd) div l"
  proof (cases "fd \<le> p")
    case False
    then show ?thesis
      by (auto simp: m_min_def checked_sub_def)
  next
    case pfd: True
    have "(p - fd) div l \<le> p"
      by (meson diff_le_self div_le_dividend order_trans)
    then have "sat_add64 ((p - fd) div l) 1 = Suc ((p - fd) div l)"
      using assms(2,3) by (simp add: sat_add_def)
    then have "m_min \<le> Suc e \<longleftrightarrow> (p - fd) div l < Suc e"
      using pfd by (auto simp: m_min_def checked_sub_def)
    also have "\<dots> \<longleftrightarrow> p - fd < Suc e * l"
      by (rule div_less_iff_less_mult) (rule assms(1))
    finally show ?thesis
      using pfd by auto
  qed
  have "(\<exists>a b. epochs_finalized_at p d l fd = Some (a, b) \<and> a \<le> e \<and> e \<le> b) \<longleftrightarrow>
      m_min \<le> Suc e \<and> Suc e \<le> (d - fd) div l"
  proof -
    have "1 \<le> m_min"
      by (simp add: m_min_def)
    moreover have "epochs_finalized_at p d l fd =
        (if (d - fd) div l = 0 then None
         else if (d - fd) div l < m_min then None else Some (m_min - 1, (d - fd) div l - 1))"
    proof -
      have l: "max l 1 = l"
        using assms(1) by simp
      show ?thesis
        using True unfolding epochs_finalized_at_def checked_sub_def [of d] Let_def m_min_def l by simp
    qed
    ultimately show ?thesis
      by (cases "(d - fd) div l") auto
  qed
  then show ?thesis
    using upper lower by blast
qed

text \<open>\<open>newly_finalizes p d l fd e\<close>: the block at \<open>d\<close> with selected parent at \<open>p\<close> finalises epoch \<open>e\<close>.\<close>

definition newly_finalizes :: "u64 \<Rightarrow> u64 \<Rightarrow> u64 \<Rightarrow> u64 \<Rightarrow> u64 \<Rightarrow> bool" where
  "newly_finalizes p d l fd e =
     (case epochs_finalized_at p d l fd of Some (a, b) \<Rightarrow> a \<le> e \<and> e \<le> b | None \<Rightarrow> False)"

lemma newly_finalizes_iff:
  assumes "0 < l" "d < u64_max" "p \<le> d"
  shows "newly_finalizes p d l fd e \<longleftrightarrow> p < (e + 1) * l + fd \<and> (e + 1) * l + fd \<le> d"
  using epochs_finalized_at_iff [OF assms, of fd e]
  by (auto simp: newly_finalizes_def split: option.splits)

lemma sorted_crossing_unique:
  fixes xs :: "nat list"
  assumes "sorted xs" "xs \<noteq> []" "hd xs < t" "t \<le> last xs"
  shows "\<exists>!i. Suc i < length xs \<and> xs ! i < t \<and> t \<le> xs ! Suc i"
proof -
  define k where "k = (LEAST k. k < length xs \<and> t \<le> xs ! k)"
  have "length xs - 1 < length xs \<and> t \<le> xs ! (length xs - 1)"
    using assms(2,4) by (simp add: last_conv_nth)
  then have k: "k < length xs" "t \<le> xs ! k"
    using LeastI [of "\<lambda>k. k < length xs \<and> t \<le> xs ! k" "length xs - 1"] unfolding k_def by blast+
  have min: "xs ! j < t" if "j < k" for j
    using that not_less_Least [of j "\<lambda>k. k < length xs \<and> t \<le> xs ! k"] k(1) unfolding k_def [symmetric]
    by (auto simp: not_le)
  have "k \<noteq> 0"
    using k(2) assms(2,3) by (cases "k = 0") (auto simp: hd_conv_nth)
  then obtain i where i: "k = Suc i"
    by (cases k) auto
  show ?thesis
  proof
    show "Suc i < length xs \<and> xs ! i < t \<and> t \<le> xs ! Suc i"
      using k min [of i] by (simp add: i)
  next
    fix j assume j: "Suc j < length xs \<and> xs ! j < t \<and> t \<le> xs ! Suc j"
    show "j = i"
    proof (rule ccontr)
      assume "j \<noteq> i"
      then consider "Suc j < k" | "k \<le> j"
        using i by linarith
      then show False
      proof cases
        case 1
        then show False using min [of "Suc j"] j by simp
      next
        case 2
        then have "xs ! k \<le> xs ! j"
          using assms(1) j by (intro sorted_nth_mono) auto
        then show False using k(2) j by simp
      qed
    qed
  qed
qed

section \<open>Properties\<close>

text \<open>Once per epoch: on a chain of blocks with non-decreasing DAA scores, every epoch whose
  finalisation threshold is crossed between the first and the last block is newly finalised by exactly
  one block, so its deferred quality bonus and reserve drip are paid exactly once.\<close>

theorem each_epoch_is_finalised_by_one_block:
  assumes "0 < l" and "sorted scores" and "scores \<noteq> []" and "last scores < u64_max"
    and "hd scores < (e + 1) * l + fd" and "(e + 1) * l + fd \<le> last scores"
  shows "\<exists>!i. Suc i < length scores \<and> newly_finalizes (scores ! i) (scores ! Suc i) l fd e"
proof -
  have "newly_finalizes (scores ! i) (scores ! Suc i) l fd e \<longleftrightarrow>
      scores ! i < (e + 1) * l + fd \<and> (e + 1) * l + fd \<le> scores ! Suc i" if "Suc i < length scores" for i
  proof (rule newly_finalizes_iff [OF assms(1)])
    have "scores ! Suc i \<le> last scores"
      using assms(2,3) that by (simp add: last_conv_nth sorted_nth_mono)
    then show "scores ! Suc i < u64_max"
      using assms(4) by simp
    show "scores ! i \<le> scores ! Suc i"
      using assms(2) that by (simp add: sorted_nth_mono)
  qed
  then show ?thesis
    using sorted_crossing_unique [OF assms(2,3,5,6)] by blast
qed

text \<open>C40. The canonical anchor of an epoch is the newest ancestor at or below the epoch's cutoff, and
  it (with its duplicate flag) does not depend on how much older history a node stores: archival and
  pruned nodes agree on it.\<close>

theorem canonical_anchor_is_newest_and_history_independent:
  assumes "canonical_lagged_epoch_anchor e l backoff ancestors = Some a"
    and "sorted_wrt (\<lambda>x y. fst (snd y) < fst (snd x)) ancestors"
    and "distinct (map fst (ancestors @ older))"
  shows "(ca_anchor_hash a, ca_anchor_blue_score a, ca_anchor_daa_score a) \<in> set ancestors \<and>
    ca_anchor_blue_score a \<le> anchor_cutoff_blue_score e (max l 1) backoff \<and>
    (\<forall>(h, bs, d)\<in>set ancestors.
       bs \<le> anchor_cutoff_blue_score e (max l 1) backoff \<longrightarrow> bs \<le> ca_anchor_blue_score a) \<and>
    canonical_lagged_epoch_anchor e l backoff (ancestors @ older) = Some a"
  using canonical_anchor_newest [OF assms(2,1)] canonical_anchor_prefix [OF assms(3,1)] by blast

theorem canonical_anchor_is_newest_and_history_independent_witness:
  "\<exists>a. canonical_lagged_epoch_anchor 1 10 2 [(sample_hash 3, 25, 40), (sample_hash 2, 16, 30), (sample_hash 1, 9, 12)] = Some a \<and>
     ca_anchor_blue_score a = 16 \<and>
     canonical_lagged_epoch_anchor 1 10 2
       ([(sample_hash 3, 25, 40), (sample_hash 2, 16, 30), (sample_hash 1, 9, 12)] @ [(sample_hash 0, 2, 2)]) = Some a"
proof -
  let ?as = "[(sample_hash 3, 25, 40), (sample_hash 2, 16, 30), (sample_hash 1, 9, 12)]"
  obtain a where a: "canonical_lagged_epoch_anchor 1 10 2 ?as = Some a" and "ca_anchor_blue_score a = 16"
    by (simp add: canonical_lagged_epoch_anchor_def first_at_or_below_def anchor_cutoff_blue_score_def
        epoch_end_blue_score_def epoch_start_blue_score_def arith_defs)
  then show ?thesis
    using canonical_anchor_is_newest_and_history_independent [OF a, of "[(sample_hash 0, 2, 2)]"] by simp
qed

end
