(* ===== verification/Dns_Slashing.thy ===== *)
theory Dns_Slashing
  imports Dns_Rewards
begin

text \<open>
  Slashing economics (\<open>dns_finality.rs\<close>): the four-way distribution of a slashed stake, the outputs
  it mints, and the resolution of a block's slashing side-effects from its accepted evidence.
  The lemmas show that the shares always add up to the slashed amount, that what is minted never
  exceeds it, and that a bond is slashed at most once per block and only while it holds slashable
  stake.
\<close>

record slashing_distribution =
  sd_reporter_reward_sompi :: u64
  sd_security_reserve_sompi :: u64
  sd_victim_epoch_pool_sompi :: u64
  sd_burned_sompi :: u64

definition slashing_bps_of :: "u64 \<Rightarrow> u16 \<Rightarrow> u128" where
  "slashing_bps_of slashed_amount bps = sat_mul128 slashed_amount bps div 10000"

definition compute_slashing_distribution :: "u64 \<Rightarrow> u16 \<Rightarrow> u16 \<Rightarrow> u16 \<Rightarrow> slashing_distribution" where
  "compute_slashing_distribution S reporter_bps reserve_bps victim_bps =
     (let reporter = min (cast_u64 (slashing_bps_of S reporter_bps)) S;
          reserve = min (cast_u64 (slashing_bps_of S reserve_bps)) (S - reporter);
          victim = min (cast_u64 (slashing_bps_of S victim_bps)) (S - reporter - reserve);
          burned = S - reporter - reserve - victim
      in \<lparr>sd_reporter_reward_sompi = reporter, sd_security_reserve_sompi = reserve,
          sd_victim_epoch_pool_sompi = victim, sd_burned_sompi = burned\<rparr>)"

definition apply_unreveal_reporter_min_cap :: "slashing_distribution \<Rightarrow> u64 \<Rightarrow> slashing_distribution" where
  "apply_unreveal_reporter_min_cap d floor_sompi =
     (let capped = min (sd_reporter_reward_sompi d) floor_sompi;
          extra_burn = sd_reporter_reward_sompi d - capped
      in \<lparr>sd_reporter_reward_sompi = capped, sd_security_reserve_sompi = sd_security_reserve_sompi d,
          sd_victim_epoch_pool_sompi = sd_victim_epoch_pool_sompi d,
          sd_burned_sompi = sd_burned_sompi d + extra_burn\<rparr>)"

definition slashing_distribution_output ::
  "u64 \<Rightarrow> u16 \<Rightarrow> u16 \<Rightarrow> u16 \<Rightarrow> bytes \<Rightarrow> u64 option \<Rightarrow> transaction_output option \<times> slashing_distribution" where
  "slashing_distribution_output S reporter_bps reserve_bps victim_bps payload unreveal_floor =
     (let dist = compute_slashing_distribution S reporter_bps reserve_bps victim_bps;
          dist = (case unreveal_floor of Some f \<Rightarrow> apply_unreveal_reporter_min_cap dist f | None \<Rightarrow> dist);
          out = (if 0 < sd_reporter_reward_sompi dist then Some (pay_to (sd_reporter_reward_sompi dist) payload)
                 else None)
      in (out, dist))"

definition victim_compensation_outputs :: "u64 \<Rightarrow> (hash64 \<times> u64) list \<Rightarrow> u128 \<Rightarrow> transaction_output list" where
  "victim_compensation_outputs victim_pool honest_included total_honest_stake =
     List.map_filter (\<lambda>(payload, stake).
       let comp = min (proportional_share victim_pool stake total_honest_stake) u64_max
       in if 0 < comp then Some (pay_to comp (as_bytes payload)) else None) honest_included"

record slashing_side_effect =
  se_bond_outpoint :: transaction_outpoint
  se_slashed_amount_sompi :: u64
  se_reporter_output :: "transaction_output option"
  se_burned_sompi :: u64
  se_slashing_tx_id :: hash64
  se_security_reserve_sompi :: u64
  se_victim_epoch_pool_sompi :: u64
  se_slashed_epoch :: u64
  se_victim_outputs :: "transaction_output list"

type_synonym resolved_evidence = "transaction_outpoint \<times> u64 \<times> bytes \<times> hash64 \<times> u64"

fun side_effects_loop ::
  "u16 \<Rightarrow> u16 \<Rightarrow> u16 \<Rightarrow> u64 option \<Rightarrow> resolved_evidence list \<Rightarrow> transaction_outpoint set \<Rightarrow> slashing_side_effect list" where
  "side_effects_loop reporter_bps reserve_bps victim_bps unreveal_floor [] seen = []"
| "side_effects_loop reporter_bps reserve_bps victim_bps unreveal_floor ((op, S, payload, stx, epoch) # rest) seen =
     (if op \<in> seen then side_effects_loop reporter_bps reserve_bps victim_bps unreveal_floor rest seen
      else
        (let (out, dist) = slashing_distribution_output S reporter_bps reserve_bps victim_bps payload unreveal_floor
         in \<lparr>se_bond_outpoint = op, se_slashed_amount_sompi = S, se_reporter_output = out,
             se_burned_sompi = sd_burned_sompi dist, se_slashing_tx_id = stx,
             se_security_reserve_sompi = sd_security_reserve_sompi dist,
             se_victim_epoch_pool_sompi = sd_victim_epoch_pool_sompi dist, se_slashed_epoch = epoch,
             se_victim_outputs = []\<rparr> #
            side_effects_loop reporter_bps reserve_bps victim_bps unreveal_floor rest (insert op seen)))"

definition slashing_side_effects_from_evidence ::
  "resolved_evidence list \<Rightarrow> u16 \<Rightarrow> u16 \<Rightarrow> u16 \<Rightarrow> u64 option \<Rightarrow> slashing_side_effect list" where
  "slashing_side_effects_from_evidence evidence reporter_bps reserve_bps victim_bps unreveal_floor =
     side_effects_loop reporter_bps reserve_bps victim_bps unreveal_floor evidence {}"

definition resolve_evidence_tx :: "dns_codec \<Rightarrow> active_bond_view \<Rightarrow> u64 \<Rightarrow> transaction \<Rightarrow> resolved_evidence option" where
  "resolve_evidence_tx codec bond_view daa_score tx =
     (if dns_tx_kind (tx_subnetwork_id tx) \<noteq> Some SlashingEvidence then None
      else case dec_evidence codec (tx_payload tx) of
        None \<Rightarrow> None
      | Some ev \<Rightarrow>
          (case hm_get bond_view (ev_bond_outpoint ev) of
             None \<Rightarrow> None
           | Some bond \<Rightarrow>
               if effective_bond_status bond daa_score \<in> {Active, Unbonding}
               then Some (ev_bond_outpoint ev, br_amount bond, ev_reporter_reward_spk_payload ev, tx_id tx,
                          at_epoch (ev_attestation_a ev))
               else None))"

definition resolve_slashing_side_effects ::
  "dns_codec \<Rightarrow> transaction list \<Rightarrow> active_bond_view \<Rightarrow> u64 \<Rightarrow> u16 \<Rightarrow> u16 \<Rightarrow> u16 \<Rightarrow> slashing_side_effect list" where
  "resolve_slashing_side_effects codec txs bond_view daa_score reporter_bps reserve_bps victim_bps =
     slashing_side_effects_from_evidence (List.map_filter (resolve_evidence_tx codec bond_view daa_score) txs)
       reporter_bps reserve_bps victim_bps None"

section \<open>The distribution is exact\<close>

lemma compute_slashing_distribution_sum:
  fixes S a b c
  defines "d \<equiv> compute_slashing_distribution S a b c"
  shows "sd_reporter_reward_sompi d + sd_security_reserve_sompi d + sd_victim_epoch_pool_sompi d +
    sd_burned_sompi d = S"
proof -
  have "min x S + min y (S - min x S) + min z (S - min x S - min y (S - min x S)) +
      (S - min x S - min y (S - min x S) - min z (S - min x S - min y (S - min x S))) = S" for x y z :: nat
    by (rule order_antisym) (simp_all add: min_def)
  then show ?thesis
    unfolding d_def compute_slashing_distribution_def Let_def slashing_distribution.simps .
qed

lemma min_cap_keeps_sum:
  fixes d f
  defines "d' \<equiv> apply_unreveal_reporter_min_cap d f"
  shows "sd_reporter_reward_sompi d' + sd_security_reserve_sompi d' + sd_victim_epoch_pool_sompi d' +
    sd_burned_sompi d' =
    sd_reporter_reward_sompi d + sd_security_reserve_sompi d + sd_victim_epoch_pool_sompi d + sd_burned_sompi d"
  by (simp add: d'_def apply_unreveal_reporter_min_cap_def Let_def)

lemma slashing_shares_exact:
  assumes "S \<le> u64_max" "a + b + c \<le> 10000"
  shows "sd_reporter_reward_sompi (compute_slashing_distribution S a b c) = S * a div 10000"
    "sd_security_reserve_sompi (compute_slashing_distribution S a b c) = S * b div 10000"
    "sd_victim_epoch_pool_sompi (compute_slashing_distribution S a b c) = S * c div 10000"
proof -
  have bps: "cast_u64 (slashing_bps_of S x) = S * x div 10000" if "x \<le> 10000" for x
  proof -
    have "S * x \<le> u64_max * 10000"
      by (rule mult_le_mono) (use assms(1) that in auto)
    also have "\<dots> \<le> u128_max"
      by (simp add: u64_max_def u128_max_def)
    finally have "sat_mul128 S x = S * x"
      by (rule sat_mul_exact)
    moreover have "S * x div 10000 \<le> u64_max"
      using floor_share_le [OF that, of S] assms(1) by linarith
    ultimately show ?thesis
      by (simp add: slashing_bps_of_def cast_u64_exact)
  qed
  have "S * a div 10000 + S * b div 10000 + S * c div 10000 \<le> (S * a + S * b + S * c) div 10000"
    using sum_list_div_le [of "\<lambda>x. x" 10000 "[S * a, S * b, S * c]"] by (simp add: add.assoc)
  also have "\<dots> \<le> S"
    using floor_share_le [OF assms(2), of S] by (simp add: distrib_left)
  finally have sum: "S * a div 10000 + S * b div 10000 + S * c div 10000 \<le> S" .
  have "cast_u64 (slashing_bps_of S a) = S * a div 10000" "cast_u64 (slashing_bps_of S b) = S * b div 10000"
    "cast_u64 (slashing_bps_of S c) = S * c div 10000"
    using assms(2) by (simp_all add: bps)
  note simps = compute_slashing_distribution_def Let_def slashing_distribution.simps this
  show "sd_reporter_reward_sompi (compute_slashing_distribution S a b c) = S * a div 10000"
    unfolding simps using sum by (simp add: min_absorb1)
  show "sd_security_reserve_sompi (compute_slashing_distribution S a b c) = S * b div 10000"
    unfolding simps using sum by (simp add: min_absorb1)
  show "sd_victim_epoch_pool_sompi (compute_slashing_distribution S a b c) = S * c div 10000"
    unfolding simps using sum by (simp add: min_absorb1)
qed

section \<open>Side-effects\<close>

definition reporter_value :: "slashing_side_effect \<Rightarrow> nat" where
  "reporter_value e = (case se_reporter_output e of Some t \<Rightarrow> out_value t | None \<Rightarrow> 0)"

lemma side_effects_loop_sum:
  "e \<in> set (side_effects_loop a b c f evs seen) \<Longrightarrow>
   reporter_value e + se_security_reserve_sompi e + se_victim_epoch_pool_sompi e + se_burned_sompi e
     = se_slashed_amount_sompi e \<and> se_victim_outputs e = [] \<and>
   (\<exists>payload. (se_bond_outpoint e, se_slashed_amount_sompi e, payload, se_slashing_tx_id e, se_slashed_epoch e) \<in> set evs)"
proof (induction evs arbitrary: seen)
  case (Cons ev evs)
  obtain op S payload stx epoch where ev: "ev = (op, S, payload, stx, epoch)"
    by (cases ev)
  obtain out dist where od: "slashing_distribution_output S a b c payload f = (out, dist)"
    by fastforce
  have d: "dist = (case f of Some x \<Rightarrow> apply_unreveal_reporter_min_cap (compute_slashing_distribution S a b c) x
      | None \<Rightarrow> compute_slashing_distribution S a b c)"
    and o: "out = (if 0 < sd_reporter_reward_sompi dist then Some (pay_to (sd_reporter_reward_sompi dist) payload) else None)"
    using od unfolding slashing_distribution_output_def Let_def by auto
  have dist: "sd_reporter_reward_sompi dist + sd_security_reserve_sompi dist + sd_victim_epoch_pool_sompi dist +
      sd_burned_sompi dist = S"
    unfolding d by (cases f) (simp_all add: compute_slashing_distribution_sum min_cap_keeps_sum)
  moreover have "(case out of Some t \<Rightarrow> out_value t | None \<Rightarrow> 0) = sd_reporter_reward_sompi dist"
    by (simp add: o)
  note dist = calculation this
  show ?case
    using Cons.prems Cons.IH dist by (auto simp: ev od reporter_value_def split: if_splits)
qed simp

lemma side_effects_loop_once:
  "distinct (map se_bond_outpoint (side_effects_loop a b c f evs seen)) \<and>
   se_bond_outpoint ` set (side_effects_loop a b c f evs seen) \<inter> seen = {}"
proof (induction evs arbitrary: seen)
  case (Cons ev evs)
  obtain op S payload stx epoch where ev: "ev = (op, S, payload, stx, epoch)"
    by (cases ev)
  show ?case
    using Cons.IH [of seen] Cons.IH [of "insert op seen"] by (auto simp: ev Let_def split: prod.splits)
qed simp

lemma map_filter_in_set: "y \<in> set (List.map_filter f xs) \<longleftrightarrow> (\<exists>x\<in>set xs. f x = Some y)"
  by (induction xs) (auto simp: map_filter_simps split: option.splits)

lemma resolve_evidence_tx_Some:
  "resolve_evidence_tx codec v daa tx = Some (op, S, payload, stx, epoch) \<Longrightarrow>
   \<exists>bond. hm_get v op = Some bond \<and> S = br_amount bond \<and> stx = tx_id tx \<and>
     effective_bond_status bond daa \<in> {Active, Unbonding}"
  by (auto simp: resolve_evidence_tx_def split: if_splits option.splits)

lemma resolved_effects:
  assumes "e \<in> set (resolve_slashing_side_effects codec txs v daa a b c)"
  shows "reporter_value e + se_security_reserve_sompi e + se_victim_epoch_pool_sompi e + se_burned_sompi e
      = se_slashed_amount_sompi e"
    and "se_victim_outputs e = []"
    and "\<exists>bond. hm_get v (se_bond_outpoint e) = Some bond \<and> br_amount bond = se_slashed_amount_sompi e \<and>
      effective_bond_status bond daa \<in> {Active, Unbonding}"
    and "\<exists>tx\<in>set txs. tx_id tx = se_slashing_tx_id e"
proof -
  note e = assms [unfolded resolve_slashing_side_effects_def slashing_side_effects_from_evidence_def]
  show "reporter_value e + se_security_reserve_sompi e + se_victim_epoch_pool_sompi e + se_burned_sompi e
      = se_slashed_amount_sompi e" "se_victim_outputs e = []"
    using side_effects_loop_sum [OF e] by auto
  obtain payload tx where "tx \<in> set txs" "resolve_evidence_tx codec v daa tx =
      Some (se_bond_outpoint e, se_slashed_amount_sompi e, payload, se_slashing_tx_id e, se_slashed_epoch e)"
    using side_effects_loop_sum [OF e] by (auto simp: map_filter_in_set)
  then show "\<exists>bond. hm_get v (se_bond_outpoint e) = Some bond \<and> br_amount bond = se_slashed_amount_sompi e \<and>
      effective_bond_status bond daa \<in> {Active, Unbonding}" "\<exists>tx\<in>set txs. tx_id tx = se_slashing_tx_id e"
    using resolve_evidence_tx_Some by (metis, metis)
qed

lemma victim_compensation_outputs_le:
  assumes "(\<Sum>(p, s)\<leftarrow>honest. s) \<le> tot"
  shows "total_value (victim_compensation_outputs pool honest tot) \<le> pool"
  using proportional_outputs_le [OF assms, of pool as_bytes] by (simp add: victim_compensation_outputs_def)

section \<open>Properties\<close>

text \<open>A slash neither creates nor loses value: reporter reward, security reserve, victim pool and
  burn always add up to the slashed stake, for every basis-point configuration, and under a correct
  configuration (shares of at most 100\<open>%\<close> together) the three paid shares are the exact floors.\<close>

theorem slashing_distribution_is_exact:
  shows "sd_reporter_reward_sompi (compute_slashing_distribution S a b c) +
     sd_security_reserve_sompi (compute_slashing_distribution S a b c) +
     sd_victim_epoch_pool_sompi (compute_slashing_distribution S a b c) +
     sd_burned_sompi (compute_slashing_distribution S a b c) = S \<and>
    (S \<le> u64_max \<and> a + b + c \<le> 10000 \<longrightarrow>
     sd_reporter_reward_sompi (compute_slashing_distribution S a b c) = S * a div 10000 \<and>
     sd_security_reserve_sompi (compute_slashing_distribution S a b c) = S * b div 10000 \<and>
     sd_victim_epoch_pool_sompi (compute_slashing_distribution S a b c) = S * c div 10000)"
  using compute_slashing_distribution_sum slashing_shares_exact by blast

text \<open>C38. Resolved slashing effects: a bond is slashed at most once per block, only if the
  selected-parent view knows it and it is Active or Unbonding at the block, for exactly its bonded
  amount; the reporter reward, reserve, victim pool and burn of the effect add up to that amount.\<close>

theorem resolved_slashes_are_sound:
  fixes codec txs v daa a b c
  defines "effects \<equiv> resolve_slashing_side_effects codec txs v daa a b c"
  shows "distinct (map se_bond_outpoint effects) \<and>
    (\<forall>e\<in>set effects.
       (\<exists>bond. hm_get v (se_bond_outpoint e) = Some bond \<and> br_amount bond = se_slashed_amount_sompi e \<and>
          effective_bond_status bond daa \<in> {Active, Unbonding}) \<and>
       reporter_value e + se_security_reserve_sompi e + se_victim_epoch_pool_sompi e + se_burned_sompi e
         = se_slashed_amount_sompi e)"
proof -
  have "distinct (map se_bond_outpoint effects)"
    unfolding effects_def resolve_slashing_side_effects_def slashing_side_effects_from_evidence_def
    using side_effects_loop_once by blast
  then show ?thesis
    unfolding effects_def by (intro conjI ballI resolved_effects(1,3))
qed

definition sample_attestation :: "u64 \<Rightarrow> stake_attestation" where
  "sample_attestation epoch =
     \<lparr>at_version = 1, at_validator_id = sample_hash 2, at_bond_outpoint = sample_outpoint 0, at_epoch = epoch,
      at_target_hash = sample_hash 3, at_target_daa_score = 15, at_validator_set_commitment = sample_hash 4,
      at_signature = []\<rparr>"

definition sample_evidence_codec :: dns_codec where
  "sample_evidence_codec = sample_codec\<lparr>dec_evidence := (\<lambda>_. Some
     \<lparr>ev_version = 1, ev_bond_outpoint = sample_outpoint 0, ev_attestation_a = sample_attestation 2,
      ev_attestation_b = sample_attestation 2, ev_reporter_reward_spk_payload = []\<rparr>)\<rparr>"

theorem resolved_slashes_are_sound_witness:
  "map se_bond_outpoint (resolve_slashing_side_effects sample_evidence_codec
     [sample_dns_tx SUBNETWORK_ID_SLASHING_EVIDENCE 8, sample_dns_tx SUBNETWORK_ID_SLASHING_EVIDENCE 9]
     [(sample_outpoint 0, sample_bond)] 20 1000 0 0) = [sample_outpoint 0] \<and>
   distinct (map se_bond_outpoint (resolve_slashing_side_effects sample_evidence_codec
     [sample_dns_tx SUBNETWORK_ID_SLASHING_EVIDENCE 8, sample_dns_tx SUBNETWORK_ID_SLASHING_EVIDENCE 9]
     [(sample_outpoint 0, sample_bond)] 20 1000 0 0))"
proof
  show "map se_bond_outpoint (resolve_slashing_side_effects sample_evidence_codec
     [sample_dns_tx SUBNETWORK_ID_SLASHING_EVIDENCE 8, sample_dns_tx SUBNETWORK_ID_SLASHING_EVIDENCE 9]
     [(sample_outpoint 0, sample_bond)] 20 1000 0 0) = [sample_outpoint 0]"
    by (simp add: resolve_slashing_side_effects_def slashing_side_effects_from_evidence_def map_filter_simps
        resolve_evidence_tx_def sample_evidence_codec_def sample_dns_tx_def hm_get_def sample_bond_def
        effective_bond_status_def case_prod_unfold Let_def)
  show "distinct (map se_bond_outpoint (resolve_slashing_side_effects sample_evidence_codec
     [sample_dns_tx SUBNETWORK_ID_SLASHING_EVIDENCE 8, sample_dns_tx SUBNETWORK_ID_SLASHING_EVIDENCE 9]
     [(sample_outpoint 0, sample_bond)] 20 1000 0 0))"
    using resolved_slashes_are_sound by blast
qed

end
