(* ===== verification/Dns_Accumulator.thy ===== *)
theory Dns_Accumulator
  imports Dns_Epochs Dns_Slashing
begin

text \<open>
  What a block pays from the epoch accumulator
  (\<open>pipeline/virtual_processor/utxo_validation.rs\<close>): the deferred quality bonus, the security-reserve
  drip and the victim compensation of a slash. The selected-chain window these functions read from
  the stores is an argument (\<open>contributions\<close>). The lemmas describe the recomputed tallies and show
  that each payment stays within its pool as long as the stake included in an epoch does not exceed the
  stake expected in it; the last section shows that the recomputation does not guarantee this.
\<close>

section \<open>Payments\<close>

definition finalization_depth_of :: "dns_params \<Rightarrow> u64" where
  "finalization_depth_of p = sat_add64 (dp_reward_uniqueness_window_blocks p) (dp_max_reorg_horizon_blocks p)"

definition deferred_quality_bonus_outputs ::
  "dns_params \<Rightarrow> u64 \<Rightarrow> u64 \<Rightarrow> block_epoch_contribution list \<Rightarrow> active_bond_view \<Rightarrow> transaction_output list" where
  "deferred_quality_bonus_outputs p daa_score parent_daa contributions bond_view =
     (if daa_score < dp_pos_v2_activation_daa_score p then []
      else
        (let epoch_len = max (dp_epoch_length_blocks p) 1; fd = finalization_depth_of p
         in case epochs_finalized_at parent_daa daa_score epoch_len fd of
              None \<Rightarrow> []
            | Some (e_min, e_max) \<Rightarrow>
                concat (map (\<lambda>(epoch, tally).
                  if epoch < e_min \<or> e_max < epoch then []
                  else
                    (let included_sum = (\<Sum>(_, s)\<leftarrow>et_included tally. s);
                         meets = epoch_meets_quality_floor included_sum (et_expected_stake tally)
                                   (dp_stake_event_quality_floor_bps p)
                     in validator_quality_bonus_outputs (et_quality_pool_accrued tally) (et_included tally)
                          (et_expected_stake tally) meets))
                  (recompute_epoch_tallies daa_score epoch_len fd contributions (view_records bond_view)))))"

fun drip_loop ::
  "u64 \<Rightarrow> u64 \<Rightarrow> u64 \<Rightarrow> (u64 \<times> epoch_tally) list \<Rightarrow> u64 \<Rightarrow> u64 \<Rightarrow> transaction_output list \<times> u64" where
  "drip_loop cap e_min e_max [] remaining total_drip = ([], total_drip)"
| "drip_loop cap e_min e_max ((epoch, tally) # tallies) remaining total_drip =
     (if epoch < e_min \<or> e_max < epoch \<or> remaining = 0
      then drip_loop cap e_min e_max tallies remaining total_drip
      else
        (let budget = min remaining cap
         in if budget = 0 then drip_loop cap e_min e_max tallies remaining total_drip
            else
              (let drip = validator_quality_bonus_outputs budget (et_included tally) (et_expected_stake tally) True;
                   minted = fold (\<lambda>t acc. sat_add64 acc (out_value t)) drip 0;
                   (outs, tot) = drip_loop cap e_min e_max tallies (remaining - minted) (sat_add64 total_drip minted)
               in (drip @ outs, tot))))"

definition reserve_drip_outputs ::
  "dns_params \<Rightarrow> u64 \<Rightarrow> u64 \<Rightarrow> block_epoch_contribution list \<Rightarrow> active_bond_view \<Rightarrow> u64 \<Rightarrow>
   transaction_output list \<times> u64" where
  "reserve_drip_outputs p daa_score parent_daa contributions bond_view parent_balance =
     (let cap = rp_reserve_drip_per_epoch_cap_sompi (dp_reward_params p)
      in if daa_score < dp_pos_v2_activation_daa_score p \<or> parent_balance = 0 \<or> cap = 0 then ([], 0)
         else
           (let epoch_len = max (dp_epoch_length_blocks p) 1; fd = finalization_depth_of p
            in case epochs_finalized_at parent_daa daa_score epoch_len fd of
                 None \<Rightarrow> ([], 0)
               | Some (e_min, e_max) \<Rightarrow>
                   drip_loop cap e_min e_max
                     (recompute_epoch_tallies daa_score epoch_len fd contributions (view_records bond_view))
                     parent_balance 0))"

definition slashed_epoch_victim_outputs ::
  "dns_params \<Rightarrow> u64 \<Rightarrow> block_epoch_contribution list \<Rightarrow> active_bond_view \<Rightarrow> u64 \<Rightarrow> bytes option \<Rightarrow> u64 \<Rightarrow>
   transaction_output list" where
  "slashed_epoch_victim_outputs p parent_daa contributions bond_view slashed_epoch slashed_payload victim_pool =
     (let epoch_len = max (dp_epoch_length_blocks p) 1; fd = finalization_depth_of p;
          tallies = recompute_epoch_tallies parent_daa epoch_len fd contributions (view_records bond_view);
          included = (case find (\<lambda>(epoch, _). epoch = slashed_epoch) tallies of
                        Some (_, tally) \<Rightarrow> et_included tally | None \<Rightarrow> []);
          honest = filter (\<lambda>(payload, _). case slashed_payload of
                             None \<Rightarrow> True | Some sp \<Rightarrow> as_bytes payload \<noteq> sp) included;
          total_honest_stake = (\<Sum>(_, s)\<leftarrow>honest. s)
      in victim_compensation_outputs victim_pool honest total_honest_stake)"

section \<open>What the recomputation gives\<close>

lemma fold_accrue_quality:
  "hm_get_or 0 m e \<le> u128_max \<Longrightarrow>
   hm_get_or 0 (fold (accrue_quality L) cs m) e =
     min u128_max (hm_get_or 0 m e + (\<Sum>c\<leftarrow>filter (\<lambda>c. bc_block_daa_score c div L = e) cs. bc_quality_subpool c))"
proof (induction cs arbitrary: m)
  case (Cons c cs)
  have step: "hm_get_or 0 (accrue_quality L c m) e =
      (if bc_block_daa_score c div L = e then sat_add128 (hm_get_or 0 m e) (bc_quality_subpool c) else hm_get_or 0 m e)"
    by (simp add: accrue_quality_def hm_get_or_def Let_def)
  show ?case
    using Cons.prems Cons.IH [of "accrue_quality L c m"] by (auto simp: step sat_add_def)
qed simp

lemma fold_accrue_included:
  "hm_get_or [] (fold (accrue_included bm) ks m) e =
     hm_get_or [] m e @
     List.map_filter (\<lambda>(op, epoch). if epoch = e
        then map_option (\<lambda>b. (Hash64 (br_owner_reward_spk_payload b), br_amount b)) (hm_get bm op) else None) ks"
proof (induction ks arbitrary: m)
  case Nil
  then show ?case by (simp add: map_filter_simps)
next
  case (Cons k ks)
  obtain op epoch where k: "k = (op, epoch)"
    by (cases k)
  have step: "hm_get_or [] (accrue_included bm (op, epoch) m) e =
      hm_get_or [] m e @ (if epoch = e then (case hm_get bm op of Some b \<Rightarrow> [(Hash64 (br_owner_reward_spk_payload b), br_amount b)] | None \<Rightarrow> []) else [])"
    by (auto simp: accrue_included_def hm_get_or_def split: option.splits)
  show ?case
    using Cons.IH [of "accrue_included bm (op, epoch) m"]
    by (auto simp: k step map_filter_simps split: option.splits)
qed

lemma fold_pair_components:
  "fold (\<lambda>c (q, i). (f c q, g c i)) cs (q0, i0) = (fold f cs q0, fold g cs i0)"
  by (induction cs arbitrary: q0 i0) auto

lemma recompute_epochs_sorted_distinct:
  "sorted (map fst (recompute_epoch_tallies s L fd cs bonds)) \<and>
   distinct (map fst (recompute_epoch_tallies s L fd cs bonds))"
  by (simp add: recompute_epoch_tallies_def Let_def case_prod_unfold comp_def)

lemma recompute_quality_pool:
  assumes "(e, t) \<in> set (recompute_epoch_tallies s L fd cs bonds)"
  shows "et_quality_pool_accrued t =
      min u128_max (\<Sum>c\<leftarrow>filter (\<lambda>c. bc_block_daa_score c div (max L 1) = e) cs. bc_quality_subpool c)"
    and "et_finalized t \<longleftrightarrow> sat_add64 (sat_mul64 (sat_add64 e 1) (max L 1)) fd \<le> s"
    and "et_expected_stake t = min u128_max (\<Sum>b\<leftarrow>filter (\<lambda>b. is_bond_active_at b (sat_mul64 e (max L 1))) bonds. br_amount b)"
proof -
  let ?q = "fold (accrue_quality (max L 1)) cs []"
  have t: "et_quality_pool_accrued t = hm_get_or 0 ?q e"
    "et_finalized t \<longleftrightarrow> sat_add64 (sat_mul64 (sat_add64 e 1) (max L 1)) fd \<le> s"
    "et_expected_stake t = fold (\<lambda>b acc. sat_add128 acc (br_amount b)) (filter (\<lambda>b. is_bond_active_at b (sat_mul64 e (max L 1))) bonds) 0"
    using assms unfolding recompute_epoch_tallies_def Let_def fold_pair_components prod.case by auto
  show "et_quality_pool_accrued t =
      min u128_max (\<Sum>c\<leftarrow>filter (\<lambda>c. bc_block_daa_score c div (max L 1) = e) cs. bc_quality_subpool c)"
    unfolding t(1) by (subst fold_accrue_quality) (simp_all add: hm_get_or_def)
  show "et_finalized t \<longleftrightarrow> sat_add64 (sat_mul64 (sat_add64 e 1) (max L 1)) fd \<le> s"
    by (rule t(2))
  show "et_expected_stake t = min u128_max (\<Sum>b\<leftarrow>filter (\<lambda>b. is_bond_active_at b (sat_mul64 e (max L 1))) bonds. br_amount b)"
    unfolding t(3) by (subst fold_sat_add) simp_all
qed

section \<open>Payments stay within their pools\<close>

lemma minted_eq:
  "total_value outs \<le> u64_max \<Longrightarrow> fold (\<lambda>t acc. sat_add64 acc (out_value t)) outs 0 = total_value outs"
  by (simp add: fold_sat_add total_value_def)

lemma drip_loop_conserves:
  assumes "\<forall>(e, t)\<in>set tallies. (\<Sum>(_, s)\<leftarrow>et_included t. s) \<le> et_expected_stake t"
  shows "remaining + total_drip \<le> u64_max \<Longrightarrow> drip_loop cap lo hi tallies remaining total_drip = (outs, tot) \<Longrightarrow>
    tot = total_drip + total_value outs \<and> total_value outs \<le> remaining"
  using assms
proof (induction tallies arbitrary: remaining total_drip outs tot)
  case (Cons et tallies)
  obtain e t where et: "et = (e, t)"
    by (cases et)
  let ?budget = "min remaining cap"
  let ?drip = "validator_quality_bonus_outputs ?budget (et_included t) (et_expected_stake t) True"
  show ?case
  proof (cases "e < lo \<or> hi < e \<or> remaining = 0 \<or> ?budget = 0")
    case True
    then have "drip_loop cap lo hi tallies remaining total_drip = (outs, tot)"
      using Cons.prems(2) by (auto simp: et Let_def split: if_splits)
    then show ?thesis
      using Cons.IH Cons.prems(1,3) by simp
  next
    case False
    have le: "total_value ?drip \<le> ?budget"
      by (rule validator_quality_bonus_outputs_le) (use Cons.prems(3) in \<open>auto simp: et\<close>)
    then have minted: "fold (\<lambda>t acc. sat_add64 acc (out_value t)) ?drip 0 = total_value ?drip"
      using Cons.prems(1) by (intro minted_eq) simp
    have sat: "sat_add64 total_drip (total_value ?drip) = total_drip + total_value ?drip"
      using le Cons.prems(1) by (intro sat_add_exact) simp
    obtain outs' tot' where rest: "drip_loop cap lo hi tallies (remaining - total_value ?drip)
        (total_drip + total_value ?drip) = (outs', tot')"
      by fastforce
    have nz: "\<not> (e < lo \<or> hi < e \<or> remaining = 0)" "?budget \<noteq> 0"
      using False by auto
    have "(?drip @ outs', tot') = (outs, tot)"
      using Cons.prems(2)
      unfolding et drip_loop.simps if_not_P [OF nz(1)] Let_def if_not_P [OF nz(2)] minted sat rest prod.case .
    then have eqs: "outs = ?drip @ outs'" "tot = tot'"
      by simp_all
    have "remaining - total_value ?drip + (total_drip + total_value ?drip) \<le> u64_max"
      using le Cons.prems(1) by simp
    then have "tot' = total_drip + total_value ?drip + total_value outs' \<and>
        total_value outs' \<le> remaining - total_value ?drip"
      using Cons.IH [OF _ rest] Cons.prems(3) by simp
    moreover have "total_value ?drip \<le> remaining"
      using le by simp
    ultimately show ?thesis
      unfolding eqs total_value_simps by linarith
  qed
qed simp

lemma sum_list_fst_snd: "(\<Sum>(_, s)\<leftarrow>xs. s) = (\<Sum>x\<leftarrow>xs. snd x)"
  by (simp add: case_prod_unfold)

section \<open>Properties\<close>

text \<open>The security reserve never pays more than it holds: if in every recomputed epoch the included
  stake is within the expected stake, the drip outputs of a block add up to exactly the reported drip,
  which is at most the parent's reserve balance.\<close>

theorem reserve_drip_within_balance:
  assumes "reserve_drip_outputs p daa parent_daa cs v balance = (outs, drip)" and "balance \<le> u64_max"
    and "\<forall>(e, t)\<in>set (recompute_epoch_tallies daa (max (dp_epoch_length_blocks p) 1) (finalization_depth_of p) cs
           (view_records v)). (\<Sum>(_, s)\<leftarrow>et_included t. s) \<le> et_expected_stake t"
  shows "drip = total_value outs \<and> drip \<le> balance"
proof -
  note c = drip_loop_conserves [OF assms(3), of balance 0]
  show ?thesis
    using assms(1,2) c by (fastforce simp: reserve_drip_outputs_def Let_def split: if_splits option.splits)
qed

definition sample_dns_params :: dns_params where
  "sample_dns_params =
     \<lparr>dp_dns_activation_daa_score = 0, dp_min_active_stake_sompi = 0, dp_min_active_validators = 1,
      dp_min_bond_amount_sompi = 1, dp_epoch_length_blocks = 10, dp_required_work_depth = 5,
      dp_required_stake_depth = 2000000000, dp_emergency_work_margin = 1, dp_emergency_stake_margin = 1,
      dp_max_reorg_horizon_blocks = 10, dp_evidence_window_blocks = 20, dp_unbonding_period_blocks = 30,
      dp_max_attestations_per_block = 4, dp_max_attestation_shard_mass = 100,
      dp_reward_uniqueness_window_blocks = 20, dp_stake_event_quality_floor_bps = 6700,
      dp_degraded_stake_quality_epochs = 2, dp_stake_censorship_floor_bps = 1000,
      dp_reward_params =
        \<lparr>rp_per_attestation_reward_sompi = 1, rp_slashing_reporter_reward_bps = 1000,
         rp_max_validator_inflation_per_block_sompi = 100, rp_validator_participation_bps = 8000,
         rp_validator_quality_bonus_bps = 2000, rp_quality_gate_bonus_sompi = 0,
         rp_worker_urgency_multiplier_scaled = 1000000000, rp_fee_split = sample_fee_split,
         rp_fee_split_bootstrap = sample_fee_split, rp_security_reserve_bps = 2000,
         rp_victim_epoch_pool_bps = 3000, rp_reserve_drip_per_epoch_cap_sompi = 100\<rparr>,
      dp_reorg_mode = TwoDimensionalDominance, dp_full_reward_split_daa_score = 0,
      dp_pos_v2_activation_daa_score = 0, dp_attestation_epoch_length_blue_score = 10,
      dp_attestation_lag_blue_score = 5, dp_attestation_anchor_backoff_blue_score = 2,
      dp_stake_score_window_blue_score = 100, dp_finality_fee_activation_daa_score = 0,
      dp_bond_spend_gate_mergeset_activation_daa_score = 0, dp_mandatory_attestation_inclusion_daa_score = 0,
      dp_bridge_finality_max_staleness_daa_score = 1500, dp_dormancy_activation_daa_score = 0,
      dp_dormancy_window_epochs = 8, dp_dormancy_evict_period_epochs = 4, dp_dormancy_evict_limit_bps = 1000,
      dp_dormancy_revival_delay_epochs = 1\<rparr>"

definition sample_bond_at :: "u32 \<Rightarrow> u64 \<Rightarrow> u64 \<Rightarrow> stake_bond_record" where
  "sample_bond_at i activation amount =
     sample_bond\<lparr>br_bond_outpoint := sample_outpoint i, br_activation_daa_score := activation, br_amount := amount,
       br_dormant_at_daa_score := None\<rparr>"

text \<open>One block of epoch 1 that rewarded both bonds, and the block that finalises epoch 1.\<close>

definition sample_contributions :: "block_epoch_contribution list" where
  "sample_contributions =
     [\<lparr>bc_block_daa_score = 17, bc_rewarded_keys = [(sample_outpoint 0, 1), (sample_outpoint 1, 1)],
       bc_quality_subpool = 40\<rparr>]"

lemma sample_tallies:
  "recompute_epoch_tallies 50 10 30 sample_contributions [sample_bond_at 0 0 10, sample_bond_at 1 act 10] =
     [(1, \<lparr>et_expected_stake = (if act \<le> 10 then 20 else 10),
           et_included = [(Hash64 (replicate 64 7), 10), (Hash64 (replicate 64 7), 10)],
           et_quality_pool_accrued = 40, et_finalized = True\<rparr>)]"
  unfolding recompute_epoch_tallies_def sample_contributions_def sample_bond_at_def sample_bond_def
  by (simp add: accrue_quality_def accrue_included_def hm_defs hm_get_or_def Let_def is_bond_active_at_iff arith_defs)

text \<open>Victim compensation: whatever the window contains, the outputs paid to the honest validators of
  a slashed epoch never exceed the victim pool.\<close>

lemma slashed_epoch_victim_outputs_le:
  "total_value (slashed_epoch_victim_outputs p parent_daa cs v epoch payload pool) \<le> pool"
  unfolding slashed_epoch_victim_outputs_def Let_def
  by (rule victim_compensation_outputs_le) simp

section \<open>The expected stake does not bound the included stake\<close>

text \<open>
  The tally normalises by the bonds active at the \<^emph>\<open>start\<close> of the epoch, while an attestation
  is admitted against the bonds active at its anchor, near the \<^emph>\<open>end\<close> of the epoch. A bond that
  activates in between is included but not expected. The clamp of each single share to the pool does
  not bound their sum: with two bonds of equal stake, one of which activates inside epoch 1, the
  finalising block pays the accrued quality pool of 40 twice and drips 200 out of a reserve of 100.
\<close>

definition mid_epoch_view :: active_bond_view where
  "mid_epoch_view = [(sample_outpoint 0, sample_bond_at 0 0 10), (sample_outpoint 1, sample_bond_at 1 15 10)]"

lemma sample_param_values:
  "max (dp_epoch_length_blocks sample_dns_params) 1 = 10" "finalization_depth_of sample_dns_params = 30"
  "dp_pos_v2_activation_daa_score sample_dns_params = 0" "dp_stake_event_quality_floor_bps sample_dns_params = 6700"
  "rp_reserve_drip_per_epoch_cap_sompi (dp_reward_params sample_dns_params) = 100"
  by (simp_all add: finalization_depth_of_def sample_dns_params_def arith_defs)

lemma epoch_1_finalised: "epochs_finalized_at 49 50 10 30 = Some (1, 1)"
  by (simp add: epochs_finalized_at_def arith_defs)

lemma mid_epoch_records: "view_records mid_epoch_view = [sample_bond_at 0 0 10, sample_bond_at 1 15 10]"
  by (simp add: view_records_def mid_epoch_view_def)

theorem deferred_bonus_can_overdraw_its_pool:
  "total_value (deferred_quality_bonus_outputs sample_dns_params 50 49 sample_contributions mid_epoch_view) = 80 \<and>
   map (et_quality_pool_accrued \<circ> snd)
     (recompute_epoch_tallies 50 10 30 sample_contributions (view_records mid_epoch_view)) = [40]"
  unfolding deferred_quality_bonus_outputs_def Let_def sample_param_values mid_epoch_records sample_tallies
    epoch_1_finalised
  by (simp add: validator_quality_bonus_outputs_def validator_quality_bonus_def proportional_share_def
      epoch_meets_quality_floor_def map_filter_simps arith_defs)

theorem reserve_drip_can_overdraw_the_reserve:
  "snd (reserve_drip_outputs sample_dns_params 50 49 sample_contributions mid_epoch_view 100) = 200"
  unfolding reserve_drip_outputs_def Let_def sample_param_values mid_epoch_records sample_tallies epoch_1_finalised
  by (simp add: validator_quality_bonus_outputs_def validator_quality_bonus_def proportional_share_def
      map_filter_simps arith_defs)

end
