(* ===== verification/Dns_Finality.thy ===== *)
theory Dns_Finality
  imports Dns_Bonds
begin

text \<open>
  The finality rule (\<open>dns_finality.rs\<close>): StakeScore of a list of epochs, deduplicated aggregation of
  attestations, health of the overlay, confirmation of an anchor, and the two-dimensional reorg gate.
  \<open>BlueWorkType\<close> is a 192-bit integer, so its saturation bound is written out.
\<close>

section \<open>StakeScore\<close>

record epoch_stake_tally =
  es_epoch :: u64
  es_signed_stake_sompi :: u64
  es_total_active_stake_sompi :: u64

definition epoch_stake_credit :: "u128 \<Rightarrow> u128 \<Rightarrow> u16 \<Rightarrow> u128" where
  "epoch_stake_credit included_stake expected_stake quality_floor_bps =
     (if expected_stake = 0 then 0
      else
        (let expected = expected_stake;
             included = min included_stake expected;
             floor_bps = min quality_floor_bps 10000
         in if sat_mul128 included 10000 < sat_mul128 expected floor_bps then 0
            else
              (let denom = 10000 - floor_bps
               in if denom = 0 then STAKE_SCORE_SCALE
                  else
                    (let numerator = included * 10000 - expected * floor_bps
                     in sat_mul128 numerator STAKE_SCORE_SCALE div sat_mul128 expected denom))))"

definition compute_stake_score :: "epoch_stake_tally list \<Rightarrow> u16 \<Rightarrow> u128" where
  "compute_stake_score per_epoch quality_floor_bps =
     fold (\<lambda>e acc. sat_add128 acc (epoch_stake_credit (es_signed_stake_sompi e) (es_total_active_stake_sompi e)
       quality_floor_bps)) per_epoch 0"

record attestation_contribution =
  ac_epoch :: u64
  ac_validator_id :: hash64
  ac_bond_outpoint :: transaction_outpoint
  ac_signed_stake_sompi :: u64

definition ac_key :: "attestation_contribution \<Rightarrow> transaction_outpoint \<times> hash64 \<times> u64" where
  "ac_key c = (ac_bond_outpoint c, ac_validator_id c, ac_epoch c)"

fun aggregate_loop ::
  "attestation_contribution list \<Rightarrow> (transaction_outpoint \<times> hash64 \<times> u64) set \<Rightarrow> (u64, u64) hashmap \<Rightarrow> (u64, u64) hashmap" where
  "aggregate_loop [] seen signed_by_epoch = signed_by_epoch"
| "aggregate_loop (c # cs) seen signed_by_epoch =
     (if ac_key c \<in> seen then aggregate_loop cs seen signed_by_epoch
      else
        (let entry = (case hm_get signed_by_epoch (ac_epoch c) of Some s \<Rightarrow> s | None \<Rightarrow> 0)
         in aggregate_loop cs (insert (ac_key c) seen)
              (hm_insert (ac_epoch c) (sat_add64 entry (ac_signed_stake_sompi c)) signed_by_epoch)))"

definition aggregate_epoch_tallies ::
  "attestation_contribution list \<Rightarrow> (u64, u64) hashmap \<Rightarrow> epoch_stake_tally list" where
  "aggregate_epoch_tallies contributions total_active_stake_by_epoch =
     (let signed_by_epoch = aggregate_loop contributions {} []
      in map (\<lambda>(epoch, tot). \<lparr>es_epoch = epoch,
                 es_signed_stake_sompi = (case hm_get signed_by_epoch epoch of Some s \<Rightarrow> s | None \<Rightarrow> 0),
                 es_total_active_stake_sompi = tot\<rparr>)
           (sort_key fst total_active_stake_by_epoch))"

definition total_active_stake_by_epoch ::
  "stake_bond_record list \<Rightarrow> (u64, u64) hashmap \<Rightarrow> (u64, u64) hashmap" where
  "total_active_stake_by_epoch bonds epoch_anchor_daa =
     map (\<lambda>(epoch, anchor_daa).
            (epoch, fold (\<lambda>b acc. sat_add64 acc (br_amount b)) (filter (\<lambda>b. is_bond_active_at b anchor_daa) bonds) 0))
       (sort_key fst epoch_anchor_daa)"

section \<open>Health and confirmation\<close>

definition frac_bps :: "epoch_stake_tally \<Rightarrow> u128" where
  "frac_bps e =
     (if es_total_active_stake_sompi e = 0 then 0
      else min (es_signed_stake_sompi e) (es_total_active_stake_sompi e) * 10000 div es_total_active_stake_sompi e)"

definition derive_dns_health :: "epoch_stake_tally list \<Rightarrow> u16 \<Rightarrow> u16 \<Rightarrow> u32 \<Rightarrow> bool \<Rightarrow> dns_health" where
  "derive_dns_health per_epoch quality_floor_bps censorship_floor_bps degraded_epochs overlay_active =
     (if \<not> overlay_active then DisabledBeforeActivation
      else
        (let m = max degraded_epochs 1
         in if length per_epoch < m then HealthActive
            else
              (let window = drop (length per_epoch - m) per_epoch
               in if list_ex (\<lambda>e. quality_floor_bps \<le> frac_bps e) window then HealthActive
                  else if list_all (\<lambda>e. frac_bps e < censorship_floor_bps) window
                  then DegradedCertificateCensored else DegradedStakeQualityLow)))"

definition is_dns_confirmed :: "nat \<Rightarrow> u128 \<Rightarrow> nat \<Rightarrow> u128 \<Rightarrow> bool" where
  "is_dns_confirmed work_depth stake_depth required_work required_stake =
     (required_work \<le> work_depth \<and> required_stake \<le> stake_depth)"

definition advance_dns_confirmation ::
  "dns_state option \<Rightarrow> hash64 \<Rightarrow> u64 \<Rightarrow> (hash64 \<times> u64) option \<Rightarrow> nat \<Rightarrow> u128 \<Rightarrow> dns_rollout_stage \<Rightarrow> hash64 \<Rightarrow>
   dns_health \<Rightarrow> nat \<Rightarrow> u128 \<Rightarrow> u64 \<Rightarrow> dns_state" where
  "advance_dns_confirmation prev anchor anchor_daa confirmable work_depth stake_depth stage commitment health
     required_work required_stake last_evicted =
     (let confirmed = (confirmable \<noteq> None \<and> is_dns_confirmed work_depth stake_depth required_work required_stake);
          (last_anchor, last_daa) =
            (case (confirmed, confirmable, prev) of
               (True, Some canonical, _) \<Rightarrow> canonical
             | (_, _, Some p) \<Rightarrow> (ds_last_dns_confirmed_anchor p, ds_last_dns_confirmed_anchor_daa_score p)
             | _ \<Rightarrow> (hash64_default, 0))
      in \<lparr>ds_selected_chain_anchor = anchor, ds_anchor_daa_score = anchor_daa, ds_work_depth = work_depth,
          ds_stake_depth = stake_depth, ds_last_dns_confirmed_anchor = last_anchor,
          ds_last_dns_confirmed_anchor_daa_score = last_daa, ds_rollout_stage = stage,
          ds_validator_set_commitment = commitment, ds_health = health,
          ds_last_evicted_round_epoch = last_evicted\<rparr>)"

definition dns_finality_fresh_for_bridge :: "bool \<Rightarrow> hash64 \<Rightarrow> u64 \<Rightarrow> u64 \<Rightarrow> u64 \<Rightarrow> bool" where
  "dns_finality_fresh_for_bridge confirmed anchor anchor_daa current_daa max_staleness =
     (confirmed \<and> anchor \<noteq> hash64_default \<and> anchor_daa \<le> current_daa \<and> current_daa - anchor_daa \<le> max_staleness)"

section \<open>The reorg gate\<close>







section \<open>Facts on the score\<close>

lemma stake_credit_exact:
  assumes "expected \<le> u64_max" "0 < expected" "bps < 10000"
  shows "epoch_stake_credit included expected bps =
    (if min included expected * 10000 < expected * bps then 0
     else (min included expected * 10000 - expected * bps) * STAKE_SCORE_SCALE div (expected * (10000 - bps)))"
proof -
  have big: "u64_max * 10000 * STAKE_SCORE_SCALE \<le> u128_max"
    by (simp add: u64_max_def u128_max_def STAKE_SCORE_SCALE_def)
  have le: "x * y \<le> u64_max * 10000" if "x \<le> expected" "y \<le> 10000" for x y
    using that assms(1) by (intro mult_le_mono) auto
  have le': "x * y \<le> u128_max" if "x \<le> expected" "y \<le> 10000" for x y
    using le [OF that] by (rule order_trans) (simp add: u64_max_def u128_max_def)
  have s: "sat_mul128 (min included expected) 10000 = min included expected * 10000"
    "sat_mul128 expected bps = expected * bps" "sat_mul128 expected (10000 - bps) = expected * (10000 - bps)"
    using assms(3) by (auto intro!: sat_mul_exact le')
  have "(min included expected * 10000 - expected * bps) * STAKE_SCORE_SCALE \<le> u64_max * 10000 * STAKE_SCORE_SCALE"
    using le [of "min included expected" 10000] by (intro mult_le_mono) (auto intro: diff_le_mono2 order_trans)
  then have n: "sat_mul128 (min included expected * 10000 - expected * bps) STAKE_SCORE_SCALE =
      (min included expected * 10000 - expected * bps) * STAKE_SCORE_SCALE"
    using big by (intro sat_mul_exact) linarith
  have "min bps 10000 = bps" "expected \<noteq> 0" "10000 - bps \<noteq> 0"
    using assms by auto
  then show ?thesis
    unfolding epoch_stake_credit_def Let_def by (simp only: s n if_False)
qed

lemma stake_credit_le_scale: "epoch_stake_credit included expected bps \<le> STAKE_SCORE_SCALE"
  if "expected \<le> u64_max"
proof (cases "expected = 0 \<or> 10000 \<le> bps")
  case True
  then show ?thesis
    by (auto simp: epoch_stake_credit_def Let_def min_absorb2)
next
  case False
  have "(min included expected * 10000 - expected * bps) * STAKE_SCORE_SCALE div (expected * (10000 - bps))
      \<le> expected * (10000 - bps) * STAKE_SCORE_SCALE div (expected * (10000 - bps))"
    by (intro div_le_mono mult_le_mono) (auto simp: diff_mult_distrib2 intro!: diff_le_mono)
  also have "\<dots> = STAKE_SCORE_SCALE"
    using False by simp
  finally show ?thesis
    using False that by (simp add: stake_credit_exact)
qed

lemma stake_credit_mono:
  assumes "expected \<le> u64_max" "included \<le> included'"
  shows "epoch_stake_credit included expected bps \<le> epoch_stake_credit included' expected bps"
proof (cases "expected = 0 \<or> 10000 \<le> bps")
  case True
  then show ?thesis
  proof
    assume "10000 \<le> bps"
    moreover have "sat_mul128 (min included expected) 10000 \<le> sat_mul128 (min included' expected) 10000"
      using assms(2) by (intro sat_mul_mono) auto
    ultimately show ?thesis
      by (auto simp: epoch_stake_credit_def Let_def min_absorb2 STAKE_SCORE_SCALE_def)
  qed (simp add: epoch_stake_credit_def)
next
  case False
  have "min included expected * 10000 \<le> min included' expected * 10000"
    using assms(2) by (intro mult_le_mono1) auto
  then show ?thesis
    using False assms(1) by (auto simp: stake_credit_exact intro!: div_le_mono mult_le_mono1 diff_le_mono)
qed

lemma stake_credit_zero_below_floor:
  assumes "expected \<le> u64_max" "included * 10000 < expected * min bps 10000"
  shows "epoch_stake_credit included expected bps = 0"
proof -
  have "expected * min bps 10000 \<le> u64_max * 10000"
    using assms(1) by (intro mult_le_mono) auto
  also have "\<dots> \<le> u128_max"
    by (simp add: u64_max_def u128_max_def)
  finally have "sat_mul128 expected (min bps 10000) = expected * min bps 10000"
    by (rule sat_mul_exact)
  moreover have "sat_mul128 (min included expected) 10000 \<le> included * 10000"
    by (rule order_trans [OF sat_mul_le_prod]) simp
  ultimately show ?thesis
    using assms(2) by (simp add: epoch_stake_credit_def Let_def)
qed

lemma compute_stake_score_eq:
  "compute_stake_score es bps =
     min u128_max (\<Sum>e\<leftarrow>es. epoch_stake_credit (es_signed_stake_sompi e) (es_total_active_stake_sompi e) bps)"
  by (simp add: compute_stake_score_def fold_sat_add)

section \<open>Facts on the aggregation\<close>

lemma aggregate_loop_seen:
  "\<forall>c\<in>set cs. ac_key c \<in> seen \<Longrightarrow> aggregate_loop cs seen m = m"
  by (induction cs) auto

lemma aggregate_loop_append:
  "aggregate_loop (xs @ ys) seen m = aggregate_loop ys (seen \<union> ac_key ` set xs) (aggregate_loop xs seen m)"
proof (induction xs arbitrary: seen m)
  case (Cons x xs)
  have "insert (ac_key x) seen \<union> ac_key ` set xs = seen \<union> ac_key ` set (x # xs)"
    by auto
  moreover have "seen \<union> ac_key ` set xs = seen \<union> ac_key ` set (x # xs)" if "ac_key x \<in> seen"
    using that by auto
  ultimately show ?case
    using Cons.IH by (simp add: Let_def)
qed simp

lemma aggregate_ignores_replays:
  assumes "ac_key ` set replays \<subseteq> ac_key ` set cs"
  shows "aggregate_epoch_tallies (cs @ replays) totals = aggregate_epoch_tallies cs totals"
proof -
  have "aggregate_loop (cs @ replays) {} [] = aggregate_loop cs {} []"
    unfolding aggregate_loop_append using assms by (intro aggregate_loop_seen) auto
  then show ?thesis
    by (simp add: aggregate_epoch_tallies_def)
qed

section \<open>Facts on health and the gate\<close>

lemma frac_bps_ge_iff:
  assumes "0 < es_total_active_stake_sompi e"
  shows "q \<le> frac_bps e \<longleftrightarrow>
    q * es_total_active_stake_sompi e \<le> min (es_signed_stake_sompi e) (es_total_active_stake_sompi e) * 10000"
  using assms by (simp add: frac_bps_def less_eq_div_iff_mult_less_eq)

lemma credited_epoch_meets_floor:
  assumes "es_total_active_stake_sompi e \<le> u64_max"
    and "0 < epoch_stake_credit (es_signed_stake_sompi e) (es_total_active_stake_sompi e) bps" "bps \<le> 10000"
  shows "bps \<le> frac_bps e"
proof -
  let ?t = "es_total_active_stake_sompi e" and ?s = "es_signed_stake_sompi e"
  have t: "0 < ?t"
    using assms(2) by (auto simp: epoch_stake_credit_def intro: ccontr)
  have "epoch_stake_credit ?s ?t bps = epoch_stake_credit (min ?s ?t) ?t bps"
    by (simp add: epoch_stake_credit_def Let_def)
  moreover have "min bps 10000 = bps"
    using assms(3) by simp
  ultimately have "\<not> min ?s ?t * 10000 < ?t * bps"
    using stake_credit_zero_below_floor [OF assms(1), of "min ?s ?t" bps] assms(2) by auto
  then show ?thesis
    unfolding frac_bps_ge_iff [OF t] by (simp add: mult.commute)
qed


section \<open>The confirmation state as a step relation\<close>

text \<open>The inputs of one \<open>update_dns_state\<close> step and the states reachable from no state.\<close>

record confirmation_step =
  cs_anchor :: hash64
  cs_anchor_daa :: u64
  cs_confirmable :: "(hash64 \<times> u64) option"
  cs_work_depth :: nat
  cs_stake_depth :: u128
  cs_stage :: dns_rollout_stage
  cs_commitment :: hash64
  cs_health :: dns_health
  cs_last_evicted :: u64

inductive dns_step :: "nat \<Rightarrow> u128 \<Rightarrow> dns_state option \<Rightarrow> confirmation_step \<Rightarrow> dns_state option \<Rightarrow> bool"
  for required_work :: nat and required_stake :: u128 where
  "s' = advance_dns_confirmation s (cs_anchor i) (cs_anchor_daa i) (cs_confirmable i) (cs_work_depth i)
          (cs_stake_depth i) (cs_stage i) (cs_commitment i) (cs_health i) required_work required_stake
          (cs_last_evicted i)
   \<Longrightarrow> dns_step required_work required_stake s i (Some s')"


inductive dns_run :: "nat \<Rightarrow> u128 \<Rightarrow> confirmation_step list \<Rightarrow> dns_state option \<Rightarrow> bool"
  for required_work :: nat and required_stake :: u128 where
  start: "dns_run required_work required_stake [] None"
| step: "dns_run required_work required_stake is s \<Longrightarrow> dns_step required_work required_stake s i t \<Longrightarrow>
     dns_run required_work required_stake (is @ [i]) t"

inductive_cases dns_runE: "dns_run rw rs is s"







section \<open>Properties\<close>






text \<open>The stake credit of an epoch is zero below the quality floor, never more than one full unit, and
  monotone in the included stake.\<close>

theorem epoch_credit_is_bounded_and_monotone:
  assumes "expected \<le> u64_max"
  shows "epoch_stake_credit included expected bps \<le> STAKE_SCORE_SCALE \<and>
    (included * 10000 < expected * min bps 10000 \<longrightarrow> epoch_stake_credit included expected bps = 0) \<and>
    (included \<le> included' \<longrightarrow> epoch_stake_credit included expected bps \<le> epoch_stake_credit included' expected bps)"
  using stake_credit_le_scale [OF assms] stake_credit_zero_below_floor [OF assms] stake_credit_mono [OF assms] by blast

theorem epoch_credit_is_bounded_and_monotone_witness:
  "epoch_stake_credit 66 100 6700 = 0 \<and> epoch_stake_credit 80 100 6700 \<le> STAKE_SCORE_SCALE \<and>
   epoch_stake_credit 80 100 6700 \<le> epoch_stake_credit 90 100 6700"
  using epoch_credit_is_bounded_and_monotone [of 100 66 6700 66] epoch_credit_is_bounded_and_monotone [of 100 80 6700 90]
  by (simp add: u64_max_def)

text \<open>Health is consistent with the score: if one of the last epochs of the degradation window earned
  stake credit, the overlay is reported Active; hence a degraded report means that the whole window
  earned nothing.\<close>

theorem degraded_health_means_no_recent_credit:
  assumes "derive_dns_health es q c m True \<noteq> HealthActive" and "q \<le> 10000"
    and "e \<in> set (drop (length es - max m 1) es)" and "es_total_active_stake_sompi e \<le> u64_max"
  shows "epoch_stake_credit (es_signed_stake_sompi e) (es_total_active_stake_sompi e) q = 0"
proof (rule ccontr)
  assume "epoch_stake_credit (es_signed_stake_sompi e) (es_total_active_stake_sompi e) q \<noteq> 0"
  then have "q \<le> frac_bps e"
    using credited_epoch_meets_floor [OF assms(4) _ assms(2)] by simp
  then have "list_ex (\<lambda>e. q \<le> frac_bps e) (drop (length es - max m 1) es)"
    using assms(3) by (auto simp: list_ex_iff)
  then show False
    using assms(1) unfolding derive_dns_health_def Let_def by (simp split: if_splits)
qed

theorem degraded_health_means_no_recent_credit_witness:
  "epoch_stake_credit 3 100 6700 = 0 \<and>
   derive_dns_health [\<lparr>es_epoch = 1, es_signed_stake_sompi = 90, es_total_active_stake_sompi = 100\<rparr>,
     \<lparr>es_epoch = 2, es_signed_stake_sompi = 3, es_total_active_stake_sompi = 100\<rparr>] 6700 1000 1 True
   = DegradedCertificateCensored"
proof -
  let ?es = "[\<lparr>es_epoch = 1, es_signed_stake_sompi = 90, es_total_active_stake_sompi = 100\<rparr>,
     \<lparr>es_epoch = 2, es_signed_stake_sompi = 3, es_total_active_stake_sompi = 100\<rparr>]"
  have h: "derive_dns_health ?es 6700 1000 1 True = DegradedCertificateCensored"
    by (simp add: derive_dns_health_def frac_bps_def Let_def)
  show ?thesis
    using degraded_health_means_no_recent_credit
        [of ?es 6700 1000 1 "\<lparr>es_epoch = 2, es_signed_stake_sompi = 3, es_total_active_stake_sompi = 100\<rparr>"] h
    by (simp add: u64_max_def)
qed

end
