(* ===== verification/Palw_Premium.thy ===== *)
theory Palw_Premium
  imports Misaka_Prelude "HOL-Library.Monad_Syntax"
begin

text \<open>
  The replica-premium controller of \<open>consensus/core/src/palw_premium.rs\<close>: rounding division, the
  parameter consistency checks, the per-window update of the premium \<open>\<pi>\<close> with its smoothing, debounce
  and rate limiter, the no-show penalty and the split of a leaf's base reward.

  The release profile of the workspace checks overflow, so arithmetic that would leave its width aborts.
  The operations that can abort return an option, with \<open>None\<close> for the abort: a zero denominator, an
  overflowing product, or a subtraction below zero.

  The lemmas show that one update moves the premium by exactly what it records in its ring of recent
  moves, and from this the two guarantees of the design: the premium stays inside its range, and its
  travel over any maturation horizon is bounded by the cap.
\<close>

section \<open>Parameters\<close>

definition PALW_PREMIUM_BPS_ONE :: u32 where
  "PALW_PREMIUM_BPS_ONE = 10000"

definition PALW_PREMIUM_PI_MIN_BPS :: u32 where
  "PALW_PREMIUM_PI_MIN_BPS = 5000"

definition PALW_PREMIUM_PI_MAX_BPS :: u32 where
  "PALW_PREMIUM_PI_MAX_BPS = 30000"

definition PALW_PREMIUM_MAX_MATURATION_WINDOWS :: u32 where
  "PALW_PREMIUM_MAX_MATURATION_WINDOWS = 64"

definition div_rne :: "u128 \<Rightarrow> u128 \<Rightarrow> u128 option" where
  "div_rne num den =
     (if den = 0 then None
      else do {
        let q = num div den;
        let r = num mod den;
        twice \<leftarrow> checked_mul u128_max r 2;
        Some (if den < twice \<or> (twice = den \<and> q mod 2 = 1) then q + 1 else q)
      })"

record palw_premium_params =
  pp_window_daa :: u64
  pp_ema_alpha_bps :: u32
  pp_kappa_up_bps :: u32
  pp_kappa_down_bps :: u32
  pp_consecutive_windows :: u32
  pp_delta_cap_bps :: u32
  pp_maturation_windows :: u32
  pp_pi_min_bps :: u32
  pp_pi_max_bps :: u32
  pp_r_lo_bps :: u32
  pp_r_hi_bps :: u32
  pp_i_lo_bps :: u32
  pp_n_stat_slot_cu :: u128
  pp_bootstrap_hold_windows :: u32
  pp_p0_bps_of_leaf :: u32
  pp_p0_max_bps_eclipse :: u32
  pp_r0_baseline_bps :: u32
  pp_honest_penalty_harmless_bps :: u32

definition genesis_defaults :: "u64 \<Rightarrow> palw_premium_params" where
  "genesis_defaults window_daa =
     \<lparr>pp_window_daa = window_daa, pp_ema_alpha_bps = 1294, pp_kappa_up_bps = 150, pp_kappa_down_bps = 75,
      pp_consecutive_windows = 2, pp_delta_cap_bps = 1000, pp_maturation_windows = 14,
      pp_pi_min_bps = PALW_PREMIUM_PI_MIN_BPS, pp_pi_max_bps = PALW_PREMIUM_PI_MAX_BPS,
      pp_r_lo_bps = 450, pp_r_hi_bps = 900, pp_i_lo_bps = 5000, pp_n_stat_slot_cu = 530,
      pp_bootstrap_hold_windows = 30, pp_p0_bps_of_leaf = 350, pp_p0_max_bps_eclipse = 1000,
      pp_r0_baseline_bps = 300, pp_honest_penalty_harmless_bps = 15\<rparr>"

text \<open>\<open>u32::div_ceil\<close>, which aborts on a zero divisor.\<close>

definition div_ceil :: "nat \<Rightarrow> nat \<Rightarrow> nat option" where
  "div_ceil a b = (if b = 0 then None else Some (a div b + (if a mod b = 0 then 0 else 1)))"

definition pump_gain_bps :: "palw_premium_params \<Rightarrow> u128 \<Rightarrow> u128" where
  "pump_gain_bps p w =
     (let one = PALW_PREMIUM_BPS_ONE;
          pi_pumped = one + pp_delta_cap_bps p;
          sigma_b_pumped = pi_pumped * one div (one + pi_pumped);
          delta_sigma = sigma_b_pumped - one div 2
      in delta_sigma * (pp_maturation_windows p - w) div w)"

definition p0_window_bps :: "palw_premium_params \<Rightarrow> (u32 \<times> u32) option" where
  "p0_window_bps p = do {
     w \<leftarrow> div_ceil (pp_delta_cap_bps p) (pp_kappa_up_bps p);
     let lower = (if w = 0 \<or> pp_maturation_windows p \<le> w then 0 else cast_u32 (pump_gain_bps p w));
     let harmless_ceiling =
       (if pp_r0_baseline_bps p = 0 then u32_max
        else cast_u32 (pp_honest_penalty_harmless_bps p * PALW_PREMIUM_BPS_ONE div pp_r0_baseline_bps p));
     Some (lower, min (pp_p0_max_bps_eclipse p) harmless_ceiling)
   }"

definition p0_window_is_non_empty :: "palw_premium_params \<Rightarrow> bool option" where
  "p0_window_is_non_empty p = do { (lo, hi) \<leftarrow> p0_window_bps p; Some (lo < hi) }"

definition p0_is_calibrated :: "palw_premium_params \<Rightarrow> bool option" where
  "p0_is_calibrated p = do {
     (lo, hi) \<leftarrow> p0_window_bps p;
     Some (lo < pp_p0_bps_of_leaf p \<and> pp_p0_bps_of_leaf p \<le> hi)
   }"

definition flat_model_pump_is_ev_negative :: "palw_premium_params \<Rightarrow> bool option" where
  "flat_model_pump_is_ev_negative p = do {
     w \<leftarrow> div_ceil (pp_delta_cap_bps p) (pp_kappa_up_bps p);
     Some (if w = 0 \<or> pp_maturation_windows p \<le> w then True
           else pump_gain_bps p w < pp_p0_bps_of_leaf p)
   }"

definition step_bound_is_structural :: "palw_premium_params \<Rightarrow> bool" where
  "step_bound_is_structural p \<longleftrightarrow>
     sat_mul u32_max (pp_kappa_up_bps p) (pp_maturation_windows p) \<le> pp_delta_cap_bps p"

definition is_consistent_inner :: "palw_premium_params \<Rightarrow> bool" where
  "is_consistent_inner p \<longleftrightarrow>
     pp_window_daa p > 0 \<and> pp_ema_alpha_bps p > 0 \<and> pp_ema_alpha_bps p \<le> PALW_PREMIUM_BPS_ONE \<and>
     pp_kappa_up_bps p > 0 \<and> pp_kappa_down_bps p > 0 \<and> pp_consecutive_windows p > 0 \<and>
     pp_maturation_windows p > 0 \<and> pp_maturation_windows p \<le> PALW_PREMIUM_MAX_MATURATION_WINDOWS \<and>
     pp_pi_min_bps p > 0 \<and> pp_pi_min_bps p \<le> PALW_PREMIUM_BPS_ONE \<and> pp_pi_max_bps p \<ge> PALW_PREMIUM_BPS_ONE \<and>
     pp_r_lo_bps p < pp_r_hi_bps p \<and> pp_n_stat_slot_cu p > 0"

text \<open>The conjunction short-circuits: a later conjunct is evaluated only if the earlier ones hold.\<close>

definition and_then :: "bool \<Rightarrow> bool option \<Rightarrow> bool option" where
  "and_then a b = (if a then b else Some False)"

definition is_consistent :: "palw_premium_params \<Rightarrow> bool option" where
  "is_consistent p = do {
     step \<leftarrow> div_rne (pp_pi_min_bps p * pp_kappa_up_bps p) PALW_PREMIUM_BPS_ONE;
     let min_step_bps = cast_u32 step;
     and_then (max min_step_bps 1 \<le> pp_delta_cap_bps p) (do {
       ne \<leftarrow> p0_window_is_non_empty p;
       and_then ne (do {
         cal \<leftarrow> p0_is_calibrated p;
         and_then cal (Some (is_consistent_inner p))
       })
     })
   }"

section \<open>The controller\<close>

record palw_window_sample =
  ws_ordered_slot_cu :: u128
  ws_failed_slot_cu :: u128
  ws_snapshot_bond_sompi :: u128

definition shortfall_bps :: "palw_window_sample \<Rightarrow> u32 option" where
  "shortfall_bps w =
     (if ws_ordered_slot_cu w = 0 then Some 0
      else do {
        let capped = min (ws_failed_slot_cu w) (ws_ordered_slot_cu w);
        n \<leftarrow> checked_mul u128_max capped PALW_PREMIUM_BPS_ONE;
        q \<leftarrow> div_rne n (ws_ordered_slot_cu w);
        Some (cast_u32 q)
      })"

definition intensity_bps :: "palw_window_sample \<Rightarrow> u32 option" where
  "intensity_bps w =
     (if ws_snapshot_bond_sompi w = 0 then Some 0
      else do {
        n \<leftarrow> checked_mul u128_max (ws_ordered_slot_cu w) PALW_PREMIUM_BPS_ONE;
        q \<leftarrow> div_rne n (ws_snapshot_bond_sompi w);
        Some (min q u32_max)
      })"

datatype palw_premium_decision =
    HoldDegraded | HoldThinMarket | HoldBootstrap | HoldDeadband | HoldRateLimited
  | Raised (from_bps: u32) (to_bps: u32) | Lowered (from_bps: u32) (to_bps: u32)

fun is_hold :: "palw_premium_decision \<Rightarrow> bool" where
  "is_hold (Raised _ _) = False"
| "is_hold (Lowered _ _) = False"
| "is_hold _ = True"

record palw_premium_state =
  ps_version :: u16
  ps_pi_bps :: u32
  ps_r_ema_bps :: u32
  ps_i_ema_bps :: u32
  ps_consecutive_up :: u32
  ps_consecutive_down :: u32
  ps_windows_elapsed :: u32
  ps_recent_delta_bps :: "u32 list"
  ps_ema_seeded :: bool

definition neutral :: palw_premium_state where
  "neutral = \<lparr>ps_version = 1, ps_pi_bps = PALW_PREMIUM_BPS_ONE, ps_r_ema_bps = 0, ps_i_ema_bps = 0,
     ps_consecutive_up = 0, ps_consecutive_down = 0, ps_windows_elapsed = 0, ps_recent_delta_bps = [],
     ps_ema_seeded = False\<rparr>"

definition cumulative_delta_bps :: "palw_premium_state \<Rightarrow> u32" where
  "cumulative_delta_bps s = fold (\<lambda>d acc. sat_add u32_max acc d) (ps_recent_delta_bps s) 0"

text \<open>\<open>push_delta\<close> appends and then removes from the front while the ring is too long.\<close>

definition keep_last :: "nat \<Rightarrow> 'a list \<Rightarrow> 'a list" where
  "keep_last n xs = drop (length xs - n) xs"

definition push_delta :: "u32 \<Rightarrow> u32 \<Rightarrow> palw_premium_state \<Rightarrow> palw_premium_state" where
  "push_delta delta_bps maturation_windows s =
     s\<lparr>ps_recent_delta_bps := keep_last maturation_windows (ps_recent_delta_bps s @ [delta_bps])\<rparr>"

definition ema_step :: "u32 \<Rightarrow> u32 \<Rightarrow> u32 \<Rightarrow> u32 option" where
  "ema_step old sample alpha_bps = do {
     rest \<leftarrow> checked_sub PALW_PREMIUM_BPS_ONE alpha_bps;
     q \<leftarrow> div_rne (old * rest + sample * alpha_bps) PALW_PREMIUM_BPS_ONE;
     Some (cast_u32 q)
   }"

definition abs_diff :: "nat \<Rightarrow> nat \<Rightarrow> nat" where
  "abs_diff a b = (if a < b then b - a else a - b)"

text \<open>The folding of a window sample into the averages.\<close>

definition fold_sample ::
  "palw_premium_state \<Rightarrow> palw_window_sample \<Rightarrow> palw_premium_params \<Rightarrow> palw_premium_state \<Rightarrow> palw_premium_state option" where
  "fold_sample state sample params next = do {
     r \<leftarrow> shortfall_bps sample;
     i \<leftarrow> intensity_bps sample;
     if ps_ema_seeded state
     then do {
       r' \<leftarrow> ema_step (ps_r_ema_bps state) r (pp_ema_alpha_bps params);
       i' \<leftarrow> ema_step (ps_i_ema_bps state) i (pp_ema_alpha_bps params);
       Some (next\<lparr>ps_r_ema_bps := r', ps_i_ema_bps := i'\<rparr>)
     }
     else Some (next\<lparr>ps_r_ema_bps := r, ps_i_ema_bps := i, ps_ema_seeded := True\<rparr>)
   }"

text \<open>The proposed multiplicative step, clamped to the participation floors.\<close>

definition proposed_pi :: "u32 \<Rightarrow> palw_premium_params \<Rightarrow> bool \<Rightarrow> u32 option" where
  "proposed_pi cur params direction_up =
     (if direction_up
      then do {
        q \<leftarrow> div_rne (cur * (PALW_PREMIUM_BPS_ONE + pp_kappa_up_bps params)) PALW_PREMIUM_BPS_ONE;
        Some (cast_u32 (min q (pp_pi_max_bps params)))
      }
      else do {
        k \<leftarrow> checked_sub PALW_PREMIUM_BPS_ONE (pp_kappa_down_bps params);
        q \<leftarrow> div_rne (cur * k) PALW_PREMIUM_BPS_ONE;
        Some (cast_u32 (max q (pp_pi_min_bps params)))
      })"

definition reset_counters :: "palw_premium_state \<Rightarrow> palw_premium_state" where
  "reset_counters s = s\<lparr>ps_consecutive_up := 0, ps_consecutive_down := 0\<rparr>"

text \<open>The part of the update after the bootstrap: debounce, proposal, rate limiter.\<close>

definition act_on_averages ::
  "palw_premium_state \<Rightarrow> palw_premium_params \<Rightarrow> palw_premium_state \<Rightarrow> (palw_premium_state \<times> palw_premium_decision) option" where
  "act_on_averages state params next = (
     let wants_up = pp_r_hi_bps params < ps_r_ema_bps next;
         wants_down = ps_r_ema_bps next < pp_r_lo_bps params \<and> ps_i_ema_bps next < pp_i_lo_bps params;
         next = next\<lparr>ps_consecutive_up := if wants_up then sat_add u32_max (ps_consecutive_up state) 1 else 0,
                     ps_consecutive_down := if wants_down then sat_add u32_max (ps_consecutive_down state) 1 else 0\<rparr>;
         direction_up = pp_consecutive_windows params \<le> ps_consecutive_up next;
         direction_down = pp_consecutive_windows params \<le> ps_consecutive_down next;
         held = push_delta 0 (pp_maturation_windows params) next
     in if \<not> direction_up \<and> \<not> direction_down then Some (held, HoldDeadband)
        else do {
          proposed \<leftarrow> proposed_pi (ps_pi_bps state) params direction_up;
          let delta = abs_diff proposed (ps_pi_bps state);
          if delta = 0 then Some (held, HoldDeadband)
          else if pp_delta_cap_bps params < sat_add u32_max (cumulative_delta_bps state) delta
          then Some (held, HoldRateLimited)
          else
            (let moved = push_delta delta (pp_maturation_windows params) (next\<lparr>ps_pi_bps := proposed\<rparr>)
             in if direction_up then Some (moved\<lparr>ps_consecutive_up := 0\<rparr>, Raised (ps_pi_bps state) proposed)
                else Some (moved\<lparr>ps_consecutive_down := 0\<rparr>, Lowered (ps_pi_bps state) proposed))
        })"

definition update_premium ::
  "palw_premium_state \<Rightarrow> palw_window_sample \<Rightarrow> palw_premium_params \<Rightarrow> bool \<Rightarrow> (palw_premium_state \<times> palw_premium_decision) option" where
  "update_premium state sample params degraded =
     (let next = state\<lparr>ps_windows_elapsed := sat_add u32_max (ps_windows_elapsed state) 1\<rparr>;
          held = (\<lambda>s. push_delta 0 (pp_maturation_windows params) (reset_counters s))
      in if degraded then Some (held next, HoldDegraded)
         else if ws_ordered_slot_cu sample < pp_n_stat_slot_cu params then Some (held next, HoldThinMarket)
         else do {
           next \<leftarrow> fold_sample state sample params next;
           if ps_windows_elapsed next \<le> pp_bootstrap_hold_windows params
           then Some (held next, HoldBootstrap)
           else act_on_averages state params next
         })"

section \<open>Penalties and the split\<close>

definition no_show_penalty_floor_sompi :: "u32 \<Rightarrow> u128 \<Rightarrow> u32 \<Rightarrow> u128 \<Rightarrow> u128 option" where
  "no_show_penalty_floor_sompi live_pi_bps revenue zeta flat_floor = do {
     let excess_bps = live_pi_bps - PALW_PREMIUM_BPS_ONE;
     ze \<leftarrow> checked_mul u128_max zeta excess_bps;
     num \<leftarrow> checked_mul u128_max ze revenue;
     scaled \<leftarrow> div_rne num PALW_PREMIUM_BPS_ONE;
     Some (max scaled flat_floor)
   }"

text \<open>\<open>u128::saturating_pow\<close> clamps the exact power.\<close>

definition no_show_escalation :: "u32 \<Rightarrow> u32 \<Rightarrow> u32 \<Rightarrow> u128" where
  "no_show_escalation mu k k_cap = min u128_max (mu ^ min k k_cap)"

definition no_show_penalty_sompi :: "u32 \<Rightarrow> u128 \<Rightarrow> u32 \<Rightarrow> u128 \<Rightarrow> u32 \<Rightarrow> u32 \<Rightarrow> u32 \<Rightarrow> u128 option" where
  "no_show_penalty_sompi live_pi_bps revenue zeta flat_floor mu k k_cap = do {
     f \<leftarrow> no_show_penalty_floor_sompi live_pi_bps revenue zeta flat_floor;
     Some (sat_mul128 f (no_show_escalation mu k k_cap))
   }"

datatype no_show_penalty_destination = Burn | AuditBudget

record no_show_charge =
  nc_collected_sompi :: u128
  nc_assessed_sompi :: u128
  nc_suspended :: bool
  nc_destination :: no_show_penalty_destination

definition charge_no_show :: "u128 \<Rightarrow> u128 \<Rightarrow> no_show_penalty_destination \<Rightarrow> no_show_charge" where
  "charge_no_show bond_sompi assessed_sompi destination =
     (let collected = min assessed_sompi bond_sompi
      in \<lparr>nc_collected_sompi = collected, nc_assessed_sompi = assessed_sompi,
          nc_suspended = (bond_sompi \<le> collected), nc_destination = destination\<rparr>)"

definition premium_split :: "u64 \<Rightarrow> u16 \<Rightarrow> u32 \<Rightarrow> u64 \<times> u64 \<times> u64" where
  "premium_split base_sompi replica_count pi_bps =
     (let m = max replica_count 1;
          one = PALW_PREMIUM_BPS_ONE;
          denom = one + m * pi_bps;
          a = cast_u64 (base_sompi * one div denom);
          b_total = base_sompi - a;
          per_b = cast_u64 (b_total div m);
          remainder = b_total - per_b * m
      in (a, per_b, remainder))"

section \<open>Rounding division\<close>

lemma div_rne_Some:
  assumes "div_rne num den = Some q"
  shows "num div den \<le> q" and "q \<le> num div den + 1" and "num \<le> c * den \<Longrightarrow> q \<le> c"
proof -
  have den: "0 < den"
    using assms by (cases "den = 0") (auto simp: div_rne_def)
  have q: "q = (if den < num mod den * 2 \<or> (num mod den * 2 = den \<and> num div den mod 2 = 1)
                then num div den + 1 else num div den)"
    using assms den unfolding div_rne_def Let_def by (auto simp: bind_eq_Some_conv split: if_splits)
  then show "num div den \<le> q" and "q \<le> num div den + 1"
    by simp_all
  show "q \<le> c" if "num \<le> c * den"
  proof (cases "num mod den = 0")
    case True
    then have "q = num div den"
      using q den by simp
    also have "\<dots> \<le> c"
      using that den by (metis div_le_mono nonzero_mult_div_cancel_right not_gr_zero)
    finally show ?thesis .
  next
    case False
    have "num div den * den < num"
      using False by (metis add_diff_cancel_left' diff_is_0_eq div_mult_mod_eq not_le)
    then have "num div den < c"
      using that by (meson mult_less_cancel2 order_less_le_trans)
    then show ?thesis
      using q by (simp split: if_splits)
  qed
qed

lemma div_rne_total: "0 < den \<Longrightarrow> 2 * den \<le> u128_max \<Longrightarrow> \<exists>q. div_rne num den = Some q"
proof -
  assume den: "0 < den" "2 * den \<le> u128_max"
  have "num mod den < den"
    using den by simp
  then have "num mod den * 2 \<le> u128_max"
    using den by linarith
  then show ?thesis
    using den by (simp add: div_rne_def checked_mul_def Let_def)
qed

lemma one_fits [simp]: "2 * PALW_PREMIUM_BPS_ONE \<le> u128_max" "0 < PALW_PREMIUM_BPS_ONE"
  by (simp_all add: PALW_PREMIUM_BPS_ONE_def u128_max_def)

lemma abs_diff_le: "abs_diff a b \<le> d \<longleftrightarrow> a \<le> b + d \<and> b \<le> a + d"
  by (auto simp: abs_diff_def)

lemma abs_diff_0 [simp]: "abs_diff a b = 0 \<longleftrightarrow> a = b" "abs_diff a a = 0"
  by (auto simp: abs_diff_def)

lemma abs_diff_triangle: "abs_diff a c \<le> abs_diff a b + abs_diff b c"
  by (auto simp: abs_diff_def)

section \<open>Proposed moves stay in range\<close>

lemma proposed_up:
  assumes "proposed_pi cur p True = Some q" and "cur \<le> pp_pi_max_bps p" and "pp_pi_max_bps p \<le> u32_max"
  shows "cur \<le> q \<and> q \<le> pp_pi_max_bps p"
proof -
  obtain r where r: "div_rne (cur * (PALW_PREMIUM_BPS_ONE + pp_kappa_up_bps p)) PALW_PREMIUM_BPS_ONE = Some r"
    and q: "q = cast_u32 (min r (pp_pi_max_bps p))"
    using assms(1) by (auto simp: proposed_pi_def bind_eq_Some_conv)
  have "cur * PALW_PREMIUM_BPS_ONE div PALW_PREMIUM_BPS_ONE
        \<le> cur * (PALW_PREMIUM_BPS_ONE + pp_kappa_up_bps p) div PALW_PREMIUM_BPS_ONE"
    by (rule div_le_mono) simp
  then have "cur \<le> cur * (PALW_PREMIUM_BPS_ONE + pp_kappa_up_bps p) div PALW_PREMIUM_BPS_ONE"
    by (simp add: PALW_PREMIUM_BPS_ONE_def)
  also have "\<dots> \<le> r"
    using div_rne_Some(1) [OF r] .
  finally show ?thesis
    using q assms(2,3) by (simp add: cast_u32_exact min_def)
qed

lemma proposed_down:
  assumes "proposed_pi cur p False = Some q" and "pp_pi_min_bps p \<le> cur" and "cur \<le> u32_max"
  shows "q \<le> cur \<and> pp_pi_min_bps p \<le> q"
proof -
  obtain r where r: "div_rne (cur * (PALW_PREMIUM_BPS_ONE - pp_kappa_down_bps p)) PALW_PREMIUM_BPS_ONE = Some r"
    and q: "q = cast_u32 (max r (pp_pi_min_bps p))"
    using assms(1) by (auto simp: proposed_pi_def bind_eq_Some_conv)
  have "r \<le> cur"
    by (rule div_rne_Some(3) [OF r]) simp
  then show ?thesis
    using q assms(2,3) by (simp add: cast_u32_exact max_def)
qed

lemma proposed_total: "pp_kappa_down_bps p \<le> PALW_PREMIUM_BPS_ONE \<Longrightarrow> \<exists>q. proposed_pi cur p up = Some q"
  using div_rne_total [OF one_fits(2) one_fits(1)]
  by (cases up) (auto simp: proposed_pi_def bind_eq_Some_conv)

section \<open>One update\<close>

lemma keep_last_length: "length (keep_last n xs) \<le> n"
  by (simp add: keep_last_def)

lemma keep_last_sum: "sum_list (keep_last n xs) \<le> sum_list xs" for xs :: "nat list"
proof -
  have "sum_list xs = sum_list (take (length xs - n) xs) + sum_list (keep_last n xs)"
    by (metis keep_last_def append_take_drop_id sum_list_append)
  then show ?thesis
    by simp
qed

lemma keep_last_snoc: "keep_last n (keep_last n xs @ ys) = keep_last n (xs @ ys)"
  by (cases "length xs \<le> n") (auto simp: keep_last_def add.commute)

lemma keep_last_append_ge: "length ys \<le> n \<Longrightarrow> \<exists>zs. keep_last n (xs @ ys) = zs @ ys"
  by (auto simp: keep_last_def)

lemma cumulative_delta_eq:
  "cumulative_delta_bps s = min u32_max (sum_list (ps_recent_delta_bps s))"
  using fold_sat_add [of 0 u32_max "\<lambda>x. x" "ps_recent_delta_bps s"] by (simp add: cumulative_delta_bps_def)

text \<open>The invariant of the controller.\<close>

definition premium_ok :: "palw_premium_params \<Rightarrow> palw_premium_state \<Rightarrow> bool" where
  "premium_ok p s \<longleftrightarrow>
     pp_pi_min_bps p \<le> ps_pi_bps s \<and> ps_pi_bps s \<le> pp_pi_max_bps p \<and>
     length (ps_recent_delta_bps s) \<le> pp_maturation_windows p \<and>
     sum_list (ps_recent_delta_bps s) \<le> pp_delta_cap_bps p"

text \<open>A move of size \<open>\<delta>\<close>: it is recorded in the ring, it is within what the cap leaves, and it ends in range.\<close>

definition move :: "palw_premium_params \<Rightarrow> palw_premium_state \<Rightarrow> nat \<Rightarrow> palw_premium_state \<Rightarrow> bool" where
  "move p s d t \<longleftrightarrow>
     ps_recent_delta_bps t = keep_last (pp_maturation_windows p) (ps_recent_delta_bps s @ [d]) \<and>
     d = abs_diff (ps_pi_bps t) (ps_pi_bps s) \<and>
     sum_list (ps_recent_delta_bps s) + d \<le> pp_delta_cap_bps p \<and>
     pp_pi_min_bps p \<le> ps_pi_bps t \<and> ps_pi_bps t \<le> pp_pi_max_bps p"

lemma move_ok: "move p s d t \<Longrightarrow> premium_ok p t"
proof -
  assume m: "move p s d t"
  then have "sum_list (ps_recent_delta_bps t) \<le> sum_list (ps_recent_delta_bps s @ [d])"
    using keep_last_sum by (metis move_def)
  then show ?thesis
    using m by (simp add: move_def premium_ok_def keep_last_length)
qed

lemma hold_is_move:
  assumes "premium_ok p s" and "ps_pi_bps t = ps_pi_bps s" and "ps_recent_delta_bps t = ps_recent_delta_bps s"
  shows "move p s 0 (push_delta 0 (pp_maturation_windows p) t)"
  using assms by (simp add: move_def premium_ok_def push_delta_def)

lemma fold_sample_frame:
  "fold_sample s x p n = Some n' \<Longrightarrow>
   ps_pi_bps n' = ps_pi_bps n \<and> ps_recent_delta_bps n' = ps_recent_delta_bps n"
  by (auto simp: fold_sample_def bind_eq_Some_conv split: if_splits)

lemma proposed_in_range:
  assumes "premium_ok p s" and "pp_pi_max_bps p \<le> u32_max" and "proposed_pi (ps_pi_bps s) p up = Some q"
  shows "pp_pi_min_bps p \<le> q \<and> q \<le> pp_pi_max_bps p"
proof (cases up)
  case True
  then show ?thesis
    using proposed_up [of "ps_pi_bps s" p q] assms by (auto simp: premium_ok_def)
next
  case False
  then show ?thesis
    using proposed_down [of "ps_pi_bps s" p q] assms by (auto simp: premium_ok_def)
qed

lemma act_on_averages_moves:
  assumes ok: "premium_ok p s" and w: "pp_pi_max_bps p \<le> u32_max" "pp_delta_cap_bps p < u32_max"
    and n: "ps_pi_bps n = ps_pi_bps s" "ps_recent_delta_bps n = ps_recent_delta_bps s"
    and act: "act_on_averages s p n = Some (t, dec)"
  shows "\<exists>d. move p s d t"
proof -
  let ?hold = "ps_pi_bps t = ps_pi_bps s \<and>
     ps_recent_delta_bps t = keep_last (pp_maturation_windows p) (ps_recent_delta_bps s @ [0])"
  have "?hold \<or> (\<exists>up q. proposed_pi (ps_pi_bps s) p up = Some q \<and>
     sat_add u32_max (cumulative_delta_bps s) (abs_diff q (ps_pi_bps s)) \<le> pp_delta_cap_bps p \<and> ps_pi_bps t = q \<and>
     ps_recent_delta_bps t =
       keep_last (pp_maturation_windows p) (ps_recent_delta_bps s @ [abs_diff q (ps_pi_bps s)]))"
    using act n unfolding act_on_averages_def Let_def
    by (auto simp: bind_eq_Some_conv push_delta_def not_less simp del: abs_diff_0 split: if_split_asm)
  then consider ?hold
    | up q where "proposed_pi (ps_pi_bps s) p up = Some q"
        "sat_add u32_max (cumulative_delta_bps s) (abs_diff q (ps_pi_bps s)) \<le> pp_delta_cap_bps p" "ps_pi_bps t = q"
        "ps_recent_delta_bps t =
          keep_last (pp_maturation_windows p) (ps_recent_delta_bps s @ [abs_diff q (ps_pi_bps s)])"
    by blast
  then show ?thesis
  proof cases
    case 1
    then have "move p s 0 t"
      using ok by (simp add: move_def premium_ok_def)
    then show ?thesis ..
  next
    case 2
    have "sum_list (ps_recent_delta_bps s) + abs_diff q (ps_pi_bps s) \<le> pp_delta_cap_bps p"
      using 2(2) w(2) by (simp add: sat_add_def cumulative_delta_eq min_def split: if_splits)
    then have "move p s (abs_diff q (ps_pi_bps s)) t"
      using proposed_in_range [OF ok w(1) 2(1)] 2(3,4) by (simp add: move_def)
    then show ?thesis ..
  qed
qed

lemma update_premium_moves:
  assumes ok: "premium_ok p s" and w: "pp_pi_max_bps p \<le> u32_max" "pp_delta_cap_bps p < u32_max"
    and up: "update_premium s x p degraded = Some (t, dec)"
  shows "\<exists>d. move p s d t"
proof -
  let ?n = "s\<lparr>ps_windows_elapsed := sat_add u32_max (ps_windows_elapsed s) 1\<rparr>"
  consider n where "t = push_delta 0 (pp_maturation_windows p) (reset_counters n)"
      "ps_pi_bps n = ps_pi_bps s" "ps_recent_delta_bps n = ps_recent_delta_bps s"
    | n where "fold_sample s x p ?n = Some n" "act_on_averages s p n = Some (t, dec)"
    using up unfolding update_premium_def Let_def
    by (auto simp: bind_eq_Some_conv dest: fold_sample_frame split: if_splits)
  then show ?thesis
  proof cases
    case 1
    then show ?thesis
      using hold_is_move [OF ok, of "reset_counters n"] by (auto simp: reset_counters_def)
  next
    case 2
    then show ?thesis
      using act_on_averages_moves [OF ok w _ _ 2(2)] fold_sample_frame [OF 2(1)] by simp
  qed
qed

section \<open>Runs of the controller\<close>

text \<open>A run: one sample and one health flag per window.\<close>

fun premium_run ::
  "palw_premium_params \<Rightarrow> (palw_window_sample \<times> bool) list \<Rightarrow> palw_premium_state \<Rightarrow> palw_premium_state option" where
  "premium_run p [] s = Some s"
| "premium_run p ((x, degraded) # xs) s =
     (case update_premium s x p degraded of None \<Rightarrow> None | Some (t, _) \<Rightarrow> premium_run p xs t)"

definition widths_ok :: "palw_premium_params \<Rightarrow> bool" where
  "widths_ok p \<longleftrightarrow> pp_pi_max_bps p \<le> u32_max \<and> pp_delta_cap_bps p < u32_max"

lemma run_moves:
  assumes "widths_ok p" and "premium_ok p s" and "premium_run p xs s = Some t"
  shows "premium_ok p t \<and> (\<exists>ds. length ds = length xs \<and> abs_diff (ps_pi_bps t) (ps_pi_bps s) \<le> sum_list ds \<and>
     ps_recent_delta_bps t = keep_last (pp_maturation_windows p) (ps_recent_delta_bps s @ ds))"
  using assms(2,3)
proof (induction xs arbitrary: s)
  case Nil
  then have "ps_recent_delta_bps t = keep_last (pp_maturation_windows p) (ps_recent_delta_bps s @ [])"
    by (simp add: keep_last_def premium_ok_def)
  with Nil show ?case by auto
next
  case (Cons y xs)
  obtain x degraded where y: "y = (x, degraded)"
    by (cases y)
  obtain u dec where u: "update_premium s x p degraded = Some (u, dec)" and run: "premium_run p xs u = Some t"
    using Cons.prems(2) y by (auto split: option.splits)
  obtain d where d: "move p s d u"
    using update_premium_moves [OF Cons.prems(1) _ _ u] assms(1) by (auto simp: widths_ok_def)
  obtain ds where ds: "length ds = length xs" "abs_diff (ps_pi_bps t) (ps_pi_bps u) \<le> sum_list ds"
      "ps_recent_delta_bps t = keep_last (pp_maturation_windows p) (ps_recent_delta_bps u @ ds)"
      and ok: "premium_ok p t"
    using Cons.IH [OF move_ok [OF d] run] by blast
  have "ps_recent_delta_bps t = keep_last (pp_maturation_windows p) (ps_recent_delta_bps s @ (d # ds))"
    using ds(3) d keep_last_snoc [of "pp_maturation_windows p" "ps_recent_delta_bps s @ [d]" ds]
    by (simp add: move_def)
  moreover have "abs_diff (ps_pi_bps t) (ps_pi_bps s) \<le> sum_list (d # ds)"
    using abs_diff_triangle [of "ps_pi_bps t" "ps_pi_bps s" "ps_pi_bps u"] ds(2) d by (simp add: move_def)
  moreover have "length (d # ds) = length (y # xs)"
    using ds(1) by simp
  ultimately show ?case
    using ok by blast
qed

text \<open>A sample whose products fit into 128 bits.\<close>

definition sample_fits :: "palw_window_sample \<Rightarrow> bool" where
  "sample_fits x \<longleftrightarrow> ws_ordered_slot_cu x * PALW_PREMIUM_BPS_ONE \<le> u128_max \<and> 2 * ws_snapshot_bond_sompi x \<le> u128_max"

lemma shortfall_total: "sample_fits x \<Longrightarrow> \<exists>r. shortfall_bps x = Some r"
proof -
  assume x: "sample_fits x"
  let ?c = "min (ws_failed_slot_cu x) (ws_ordered_slot_cu x)"
  have "?c * PALW_PREMIUM_BPS_ONE \<le> ws_ordered_slot_cu x * PALW_PREMIUM_BPS_ONE"
    by simp
  then have c: "?c * PALW_PREMIUM_BPS_ONE \<le> u128_max"
    using x unfolding sample_fits_def by linarith
  have "2 * ws_ordered_slot_cu x \<le> u128_max"
    using x by (simp add: sample_fits_def PALW_PREMIUM_BPS_ONE_def)
  then show ?thesis
    using c div_rne_total [of "ws_ordered_slot_cu x" "?c * PALW_PREMIUM_BPS_ONE"]
    by (auto simp: shortfall_bps_def checked_mul_def Let_def)
qed

lemma intensity_total: "sample_fits x \<Longrightarrow> \<exists>i. intensity_bps x = Some i"
  using div_rne_total [of "ws_snapshot_bond_sompi x" "ws_ordered_slot_cu x * PALW_PREMIUM_BPS_ONE"]
  by (auto simp: sample_fits_def intensity_bps_def checked_mul_def)

lemma ema_total: "a \<le> PALW_PREMIUM_BPS_ONE \<Longrightarrow> \<exists>e. ema_step x y a = Some e"
  using div_rne_total [OF one_fits(2) one_fits(1), of "x * (PALW_PREMIUM_BPS_ONE - a) + y * a"]
  by (auto simp: ema_step_def checked_sub_def)

lemma fold_sample_total:
  assumes "sample_fits x" and "pp_ema_alpha_bps p \<le> PALW_PREMIUM_BPS_ONE"
  shows "\<exists>n'. fold_sample s x p n = Some n'"
proof -
  obtain r i where ri: "shortfall_bps x = Some r" "intensity_bps x = Some i"
    using shortfall_total intensity_total assms(1) by blast
  obtain r' i' where "ema_step (ps_r_ema_bps s) r (pp_ema_alpha_bps p) = Some r'"
      "ema_step (ps_i_ema_bps s) i (pp_ema_alpha_bps p) = Some i'"
    using ema_total [OF assms(2)] by metis
  then show ?thesis
    using ri by (simp add: fold_sample_def)
qed

lemma act_on_averages_total:
  assumes "pp_kappa_down_bps p \<le> PALW_PREMIUM_BPS_ONE"
  shows "\<exists>r. act_on_averages s p n = Some r"
proof -
  obtain g where "\<And>up. proposed_pi (ps_pi_bps s) p up = Some (g up)"
    using proposed_total [OF assms] by metis
  then show ?thesis
    by (simp add: act_on_averages_def Let_def)
qed

lemma update_premium_total:
  assumes "sample_fits x" and "pp_ema_alpha_bps p \<le> PALW_PREMIUM_BPS_ONE"
    and "pp_kappa_down_bps p \<le> PALW_PREMIUM_BPS_ONE"
  shows "\<exists>r. update_premium s x p degraded = Some r"
proof -
  obtain n where "fold_sample s x p (s\<lparr>ps_windows_elapsed := sat_add u32_max (ps_windows_elapsed s) 1\<rparr>) = Some n"
    using fold_sample_total [OF assms(1,2)] by blast
  then show ?thesis
    using act_on_averages_total [OF assms(3), of s n] by (auto simp: update_premium_def Let_def)
qed

lemma run_total:
  assumes "list_all (\<lambda>(x, _). sample_fits x) xs" and "pp_ema_alpha_bps p \<le> PALW_PREMIUM_BPS_ONE"
    and "pp_kappa_down_bps p \<le> PALW_PREMIUM_BPS_ONE"
  shows "\<exists>t. premium_run p xs s = Some t"
  using assms(1)
proof (induction xs arbitrary: s)
  case (Cons y xs)
  then obtain x degraded where y: "y = (x, degraded)" and x: "sample_fits x"
    by (cases y) auto
  obtain t dec where "update_premium s x p degraded = Some (t, dec)"
    using update_premium_total [OF x assms(2,3)] by fastforce
  then show ?case
    using Cons y by simp
qed simp

lemma consistent_inner: "is_consistent p = Some True \<Longrightarrow> is_consistent_inner p"
  by (auto simp: is_consistent_def and_then_def bind_eq_Some_conv Let_def split: if_splits)

lemma neutral_ok: "is_consistent_inner p \<Longrightarrow> premium_ok p neutral"
  by (simp add: is_consistent_inner_def premium_ok_def neutral_def)

section \<open>The split\<close>

lemma premium_split_exact:
  assumes "base \<le> u64_max" and "premium_split base m pi = (a, per_b, rest)"
  shows "a + per_b * max m 1 + rest = base \<and> rest < max m 1"
proof -
  let ?m = "max m 1" and ?den = "PALW_PREMIUM_BPS_ONE + max m 1 * pi"
  have "base * PALW_PREMIUM_BPS_ONE div ?den \<le> base"
    by (rule floor_share_le) simp
  then have a: "a \<le> base" "a = base * PALW_PREMIUM_BPS_ONE div ?den"
    using assms by (auto simp: premium_split_def Let_def cast_u64_exact)
  have "(base - a) div ?m \<le> u64_max"
    using assms(1) div_le_dividend [of "base - a" ?m] by linarith
  then have b: "per_b = (base - a) div ?m" "rest = (base - a) - per_b * ?m"
    using assms by (auto simp: premium_split_def Let_def cast_u64_exact)
  have rest: "rest = (base - a) mod ?m" and le: "per_b * ?m \<le> base - a"
    unfolding b by (simp_all add: minus_div_mult_eq_mod)
  have "a + per_b * ?m + rest = base"
    using a(1) b(2) le by linarith
  moreover have "rest < ?m"
    unfolding rest by simp
  ultimately show ?thesis ..
qed

section \<open>Properties\<close>

text \<open>C17. The premium controller is total and keeps its invariant: under consistent parameters whose
  downward step is at most 100%, every run from the neutral state on samples that fit the arithmetic
  finishes, and it ends with the premium inside its governed range, with at most one maturation horizon
  of recorded moves, and with recorded moves that sum to at most the cap.\<close>

theorem premium_stays_in_range:
  assumes "is_consistent p = Some True" and "widths_ok p" and "pp_kappa_down_bps p \<le> PALW_PREMIUM_BPS_ONE"
    and "list_all (\<lambda>(x, _). sample_fits x) windows"
  shows "\<exists>s. premium_run p windows neutral = Some s \<and>
    pp_pi_min_bps p \<le> ps_pi_bps s \<and> ps_pi_bps s \<le> pp_pi_max_bps p \<and>
    length (ps_recent_delta_bps s) \<le> pp_maturation_windows p \<and>
    sum_list (ps_recent_delta_bps s) \<le> pp_delta_cap_bps p"
proof -
  have inner: "is_consistent_inner p"
    using assms(1) by (rule consistent_inner)
  then obtain s where s: "premium_run p windows neutral = Some s"
    using run_total [OF assms(4) _ assms(3)] by (auto simp: is_consistent_inner_def)
  then have "premium_ok p s"
    using run_moves [OF assms(2) neutral_ok [OF inner] s] by simp
  then show ?thesis
    using s by (auto simp: premium_ok_def)
qed

lemma genesis_defaults_consistent: "is_consistent (genesis_defaults 864000) = Some True"
  by (simp add: is_consistent_def is_consistent_inner_def and_then_def p0_window_is_non_empty_def
      p0_is_calibrated_def p0_window_bps_def pump_gain_bps_def div_ceil_def div_rne_def checked_mul_def
      genesis_defaults_def PALW_PREMIUM_BPS_ONE_def PALW_PREMIUM_PI_MIN_BPS_def PALW_PREMIUM_PI_MAX_BPS_def
      PALW_PREMIUM_MAX_MATURATION_WINDOWS_def cast_u32_def u32_max_def u128_max_def Let_def)

lemma genesis_defaults_fit: "widths_ok (genesis_defaults w)" "pp_kappa_down_bps (genesis_defaults w) \<le> PALW_PREMIUM_BPS_ONE"
  by (simp_all add: widths_ok_def genesis_defaults_def PALW_PREMIUM_PI_MAX_BPS_def PALW_PREMIUM_BPS_ONE_def u32_max_def)

lemma genesis_defaults_sel:
  "pp_pi_min_bps (genesis_defaults w) = 5000" "pp_pi_max_bps (genesis_defaults w) = 30000"
  "pp_delta_cap_bps (genesis_defaults w) = 1000" "pp_maturation_windows (genesis_defaults w) = 14"
  by (simp_all add: genesis_defaults_def PALW_PREMIUM_PI_MAX_BPS_def PALW_PREMIUM_PI_MIN_BPS_def)

definition sample_window :: palw_window_sample where
  "sample_window = \<lparr>ws_ordered_slot_cu = 1000, ws_failed_slot_cu = 200, ws_snapshot_bond_sompi = 5000\<rparr>"

lemma sample_window_fits: "sample_fits sample_window"
  by (simp add: sample_fits_def sample_window_def PALW_PREMIUM_BPS_ONE_def u128_max_def)

definition sample_windows :: "nat \<Rightarrow> (palw_window_sample \<times> bool) list" where
  "sample_windows n = replicate n (sample_window, False)"

lemma sample_windows_fit: "list_all (\<lambda>(x, _). sample_fits x) (sample_windows n)"
  using sample_window_fits by (simp add: sample_windows_def list_all_iff)

theorem premium_stays_in_range_witness:
  "\<exists>s. premium_run (genesis_defaults 864000) (sample_windows 40) neutral = Some s \<and>
     5000 \<le> ps_pi_bps s \<and> ps_pi_bps s \<le> 30000"
  using premium_stays_in_range [OF genesis_defaults_consistent genesis_defaults_fit sample_windows_fit, of 40]
  unfolding genesis_defaults_sel by blast

text \<open>The rate limiter: from any state reached from neutral, any further stretch of windows no longer
  than the maturation horizon changes the premium by at most the cap, in either direction. This holds
  in both regimes, also when the step size alone would allow a longer travel.\<close>

theorem premium_travel_is_capped:
  assumes "is_consistent p = Some True" and "widths_ok p"
    and "premium_run p before neutral = Some s" and "premium_run p windows s = Some t"
    and "length windows \<le> pp_maturation_windows p"
  shows "ps_pi_bps t \<le> ps_pi_bps s + pp_delta_cap_bps p \<and> ps_pi_bps s \<le> ps_pi_bps t + pp_delta_cap_bps p"
proof -
  have "premium_ok p s"
    using run_moves [OF assms(2) neutral_ok [OF consistent_inner [OF assms(1)]] assms(3)] by simp
  then obtain ds where ds: "length ds = length windows" "abs_diff (ps_pi_bps t) (ps_pi_bps s) \<le> sum_list ds"
      "ps_recent_delta_bps t = keep_last (pp_maturation_windows p) (ps_recent_delta_bps s @ ds)"
      and ok: "premium_ok p t"
    using run_moves [OF assms(2) _ assms(4)] by blast
  obtain zs where "ps_recent_delta_bps t = zs @ ds"
    using keep_last_append_ge [of ds "pp_maturation_windows p" "ps_recent_delta_bps s"] ds(1,3) assms(5) by auto
  then have "abs_diff (ps_pi_bps t) (ps_pi_bps s) \<le> pp_delta_cap_bps p"
    using ds(2) ok by (simp add: premium_ok_def)
  then show ?thesis
    by (simp add: abs_diff_le)
qed

section \<open>What the consistency check misses\<close>

text \<open>\<open>is_consistent\<close> evaluates the window of \<open>P\<^sub>0\<close>, which divides by \<open>kappa_up_bps\<close>, before it checks that
  \<open>kappa_up_bps\<close> is positive: for a zero step it aborts instead of rejecting.\<close>

theorem consistency_check_aborts_on_zero_step:
  assumes "pp_kappa_up_bps p = 0" and "1 \<le> pp_delta_cap_bps p"
  shows "is_consistent p = None \<and> \<not> is_consistent_inner p"
  using assms by (simp add: is_consistent_def is_consistent_inner_def and_then_def p0_window_is_non_empty_def
      p0_window_bps_def div_ceil_def div_rne_def checked_mul_def PALW_PREMIUM_BPS_ONE_def cast_u32_def)

text \<open>\<open>is_consistent\<close> does not bound \<open>kappa_down_bps\<close>: parameters with a downward step above 100% pass the
  check, and the first downward move aborts the controller.\<close>

theorem consistent_parameters_can_abort_a_lowering:
  "is_consistent ((genesis_defaults 864000)\<lparr>pp_kappa_down_bps := 10001\<rparr>) = Some True \<and>
   proposed_pi cur ((genesis_defaults 864000)\<lparr>pp_kappa_down_bps := 10001\<rparr>) False = None"
  by (simp add: is_consistent_def is_consistent_inner_def and_then_def p0_window_is_non_empty_def
      p0_is_calibrated_def p0_window_bps_def pump_gain_bps_def div_ceil_def div_rne_def checked_mul_def
      genesis_defaults_def PALW_PREMIUM_BPS_ONE_def PALW_PREMIUM_PI_MIN_BPS_def PALW_PREMIUM_PI_MAX_BPS_def
      PALW_PREMIUM_MAX_MATURATION_WINDOWS_def cast_u32_def u32_max_def u128_max_def Let_def proposed_pi_def
      checked_sub_def)

end
