(* ===== verification/Coinbase.thy ===== *)
theory Coinbase
  imports Dns_Rewards Palw_Premium Byte_Codec
begin

text \<open>
  The coinbase transaction of a block (\<open>consensus/src/processes/coinbase.rs\<close> with the data types of
  \<open>consensus/core/src/coinbase.rs\<close>): the outputs paid to the sources of the mergeset, the validator pool
  carved from the same sources, the inclusion bounty, the payload with its parser, and the subsidy
  schedule.

  \<open>None\<close> stands for an abort of the process: a mergeset block without reward data (\<open>unwrap\<close>), a PALW
  source without a carve (\<open>expect\<close>), or an overflowing sum, which the release profile checks. The ghostdag
  data is reduced to the three fields that are read; the transaction id is computed by a parameter.

  The lemmas show that what is paid to a source, its contribution to the inclusion pool and its share of
  the validator pool never exceed its subsidy and fees, that payloads round trip, and what the schedule
  issues in total.
\<close>

section \<open>Data\<close>

datatype work_reward_class =
    HashMiner
  | ReplicaPalw (wr_batch_id: hash64) (wr_leaf_index: u32) (wr_provider_a: script_public_key)
      (wr_provider_b: script_public_key) (wr_premium_pi_bps: u32)
  | ReplicaPalwHalted hash64 u32
  | ReplicaPalwDuplicateWork hash64 u32 hash64
  | ReplicaPalwUnbackedCollateral hash64 u32 transaction_outpoint transaction_outpoint

record miner_data =
  md_script_public_key :: script_public_key
  md_extra_data :: bytes

record coinbase_data =
  cd_blue_score :: u64
  cd_subsidy :: u64
  cd_miner_data :: miner_data

record block_reward_data =
  rd_subsidy :: u64
  rd_total_fees :: u64
  rd_finality_fees :: u64
  rd_script_public_key :: script_public_key
  rd_work_reward_class :: work_reward_class

record coinbase_transaction_template =
  ct_tx :: transaction
  ct_has_red_reward :: bool
  ct_miner_script_output_indices :: "usize list"

record ghostdag_mergeset =
  gm_blue_score :: u64
  gm_mergeset_blues :: "hash64 list"
  gm_mergeset_reds :: "hash64 list"

record forked_param =
  fk_pre :: u64
  fk_post :: u64
  fk_activation :: u64

definition fork_is_active :: "u64 \<Rightarrow> u64 \<Rightarrow> bool" where
  "fork_is_active activation current_daa_score \<longleftrightarrow> activation \<le> current_daa_score"

definition fork_before :: "forked_param \<Rightarrow> u64" where
  "fork_before f = (if fk_activation f = 0 then fk_post f else fk_pre f)"

definition fork_after :: "forked_param \<Rightarrow> u64" where
  "fork_after f = (if fk_activation f = u64_max then fk_pre f else fk_post f)"

definition fork_new_const :: "u64 \<Rightarrow> forked_param" where
  "fork_new_const v = \<lparr>fk_pre = v, fk_post = v, fk_activation = u64_max\<rparr>"

record coinbase_manager =
  cm_script_public_key_max_len :: nat
  cm_max_payload_len :: usize
  cm_deflationary_phase_daa_score :: u64
  cm_pre_deflationary_phase_base_subsidy :: u64
  cm_bps_history :: forked_param
  cm_subsidy_by_month_table_before :: "u64 list"
  cm_subsidy_by_month_table_after :: "u64 list"
  cm_crescendo_activation_daa_score :: u64

datatype coinbase_error =
    PayloadLenBelowMin usize usize
  | PayloadLenAboveMax usize usize
  | PayloadScriptPublicKeyLenAboveMax usize nat
  | PayloadCantContainScriptPublicKey usize usize

section \<open>Schedule\<close>

definition SECONDS_PER_MONTH :: u64 where
  "SECONDS_PER_MONTH = 2629800"

text \<open>The table has one rate per year, each repeated for the twelve months, and a final zero.\<close>

definition subsidy_yearly_rates :: "u64 list" where
  "subsidy_yearly_rates =
    [2059725708, 2030889548, 2002457094, 1974422695, 1946780777, 1919525846, 1892652485, 1866155350, 1840029175,
     1814268766, 1788869004, 1763824838, 1739131290, 1714783452, 1690776484, 1667105613, 1643766134, 1620753408,
     1598062861, 1575689981, 1553630321, 1531879496, 1510433183, 1489287119, 1468437099, 1447878980, 1427608674,
     1407622153, 1387915442, 1368484626]"

definition SUBSIDY_BY_MONTH_TABLE :: "u64 list" where
  "SUBSIDY_BY_MONTH_TABLE = concat (map (replicate 12) subsidy_yearly_rates) @ [0]"

definition ceil_div :: "nat \<Rightarrow> nat \<Rightarrow> nat" where
  "ceil_div a b = a div b + (if a mod b = 0 then 0 else 1)"

definition coinbase_manager_new :: "nat \<Rightarrow> usize \<Rightarrow> u64 \<Rightarrow> u64 \<Rightarrow> forked_param \<Rightarrow> coinbase_manager" where
  "coinbase_manager_new spk_max_len max_payload_len deflationary_phase base_subsidy bps =
     \<lparr>cm_script_public_key_max_len = spk_max_len, cm_max_payload_len = max_payload_len,
      cm_deflationary_phase_daa_score = deflationary_phase, cm_pre_deflationary_phase_base_subsidy = base_subsidy,
      cm_bps_history = bps,
      cm_subsidy_by_month_table_before = map (\<lambda>v. ceil_div v (fork_before bps)) SUBSIDY_BY_MONTH_TABLE,
      cm_subsidy_by_month_table_after = map (\<lambda>v. ceil_div v (fork_after bps)) SUBSIDY_BY_MONTH_TABLE,
      cm_crescendo_activation_daa_score = fk_activation bps\<rparr>"

definition subsidy_month :: "coinbase_manager \<Rightarrow> u64 \<Rightarrow> u64" where
  "subsidy_month m daa_score =
     (let defl = cm_deflationary_phase_daa_score m; cresc = cm_crescendo_activation_daa_score m;
          bps = cm_bps_history m;
          seconds =
            (if cresc < defl then (daa_score - defl) div fork_after bps
             else if daa_score < cresc then (daa_score - defl) div fork_before bps
             else (cresc - defl) div fork_before bps + (daa_score - cresc) div fork_after bps)
      in seconds div SECONDS_PER_MONTH)"

definition calc_block_subsidy :: "coinbase_manager \<Rightarrow> u64 \<Rightarrow> u64" where
  "calc_block_subsidy m daa_score =
     (if daa_score < cm_deflationary_phase_daa_score m then cm_pre_deflationary_phase_base_subsidy m
      else
        (let month = subsidy_month m daa_score;
             table = (if fork_is_active (fk_activation (cm_bps_history m)) daa_score
                      then cm_subsidy_by_month_table_after m else cm_subsidy_by_month_table_before m)
         in table ! min month (length table - 1)))"

section \<open>Payload\<close>

definition LENGTH_OF_BLUE_SCORE :: usize where
  "LENGTH_OF_BLUE_SCORE = 8"

definition LENGTH_OF_SUBSIDY :: usize where
  "LENGTH_OF_SUBSIDY = 8"

definition LENGTH_OF_SCRIPT_PUB_KEY_VERSION :: usize where
  "LENGTH_OF_SCRIPT_PUB_KEY_VERSION = 2"

definition LENGTH_OF_SCRIPT_PUB_KEY_LENGTH :: usize where
  "LENGTH_OF_SCRIPT_PUB_KEY_LENGTH = 1"

definition MIN_PAYLOAD_LENGTH :: usize where
  "MIN_PAYLOAD_LENGTH = LENGTH_OF_BLUE_SCORE + LENGTH_OF_SUBSIDY + LENGTH_OF_SCRIPT_PUB_KEY_VERSION
     + LENGTH_OF_SCRIPT_PUB_KEY_LENGTH"

definition serialize_coinbase_payload :: "coinbase_manager \<Rightarrow> coinbase_data \<Rightarrow> coinbase_error + bytes" where
  "serialize_coinbase_payload m data =
     (let spk = md_script_public_key (cd_miner_data data); len = length (spk_script spk)
      in if cm_script_public_key_max_len m < len
         then Inl (PayloadScriptPublicKeyLenAboveMax len (cm_script_public_key_max_len m))
         else Inr (to_le 8 (cd_blue_score data) @ to_le 8 (cd_subsidy data) @ to_le 2 (spk_version spk) @
                   to_le 1 len @ spk_script spk @ md_extra_data (cd_miner_data data)))"

definition modify_coinbase_payload :: "coinbase_manager \<Rightarrow> bytes \<Rightarrow> miner_data \<Rightarrow> coinbase_error + bytes" where
  "modify_coinbase_payload m payload miner =
     (let spk = md_script_public_key miner; len = length (spk_script spk)
      in if cm_script_public_key_max_len m < len
         then Inl (PayloadScriptPublicKeyLenAboveMax len (cm_script_public_key_max_len m))
         else Inr (take (LENGTH_OF_BLUE_SCORE + LENGTH_OF_SUBSIDY) payload @ to_le 2 (spk_version spk) @
                   to_le 1 len @ spk_script spk @ md_extra_data miner))"

text \<open>\<open>PayloadParser::take\<close>: the first \<open>n\<close> bytes and the rest.\<close>

definition parser_take :: "usize \<Rightarrow> bytes \<Rightarrow> bytes \<times> bytes" where
  "parser_take n remaining = (take n remaining, drop n remaining)"

definition deserialize_coinbase_payload :: "coinbase_manager \<Rightarrow> bytes \<Rightarrow> coinbase_error + coinbase_data" where
  "deserialize_coinbase_payload m payload =
     (if length payload < MIN_PAYLOAD_LENGTH then Inl (PayloadLenBelowMin (length payload) MIN_PAYLOAD_LENGTH)
      else if cm_max_payload_len m < length payload
      then Inl (PayloadLenAboveMax (length payload) (cm_max_payload_len m))
      else
        (let (blue_score, rest) = parser_take LENGTH_OF_BLUE_SCORE payload;
             (subsidy, rest) = parser_take LENGTH_OF_SUBSIDY rest;
             (version, rest) = parser_take LENGTH_OF_SCRIPT_PUB_KEY_VERSION rest;
             (len_bytes, rest) = parser_take LENGTH_OF_SCRIPT_PUB_KEY_LENGTH rest;
             len = from_le len_bytes
         in if cm_script_public_key_max_len m < len
            then Inl (PayloadScriptPublicKeyLenAboveMax len (cm_script_public_key_max_len m))
            else if length rest < len
            then Inl (PayloadCantContainScriptPublicKey (length payload) (MIN_PAYLOAD_LENGTH + len))
            else
              (let (script, extra) = parser_take len rest
               in Inr \<lparr>cd_blue_score = from_le blue_score, cd_subsidy = from_le subsidy,
                    cd_miner_data = \<lparr>md_script_public_key = \<lparr>spk_version = from_le version, spk_script = script\<rparr>,
                      md_extra_data = extra\<rparr>\<rparr>)))"

section \<open>Outputs\<close>

definition output_if_positive :: "u64 \<Rightarrow> script_public_key \<Rightarrow> transaction_output list" where
  "output_if_positive value spk = (if 0 < value then [\<lparr>out_value = value, out_script_public_key = spk\<rparr>] else [])"

text \<open>The Worker share of a source: base and the worker parts of both fee classes.\<close>

definition worker_value :: "fee_split_params \<Rightarrow> u64 \<Rightarrow> u64 \<Rightarrow> u64 \<Rightarrow> u64" where
  "worker_value fs subsidy fees finality_fees =
     (let finality = min finality_fees fees
      in sat_add64 (sat_add64 (ss_worker_base_sompi (split_block_subsidy subsidy fs))
           (fe_worker_sompi (split_normal_tx_fees (fees - finality) fs)))
           (fe_worker_sompi (split_finality_fees finality fs)))"

text \<open>One blue source: the new inclusion pool and the outputs.\<close>

fun blue_source ::
  "fee_split_params option \<Rightarrow> block_reward_data \<Rightarrow> u64 \<Rightarrow> (u64 \<times> transaction_output list) option" where
  "blue_source carve rd pool =
     (case rd_work_reward_class rd of
        HashMiner \<Rightarrow>
          (case carve of
             Some fs \<Rightarrow>
               Some (sat_add64 pool (ss_worker_inclusion_sompi (split_block_subsidy (rd_subsidy rd) fs)),
                 output_if_positive (worker_value fs (rd_subsidy rd) (rd_total_fees rd) (rd_finality_fees rd))
                   (rd_script_public_key rd))
           | None \<Rightarrow> do {
               value \<leftarrow> checked_add u64_max (rd_subsidy rd) (rd_total_fees rd);
               Some (pool, output_if_positive value (rd_script_public_key rd))
             })
      | ReplicaPalw _ _ provider_a provider_b pi_bps \<Rightarrow>
          (case carve of
             None \<Rightarrow> None
           | Some fs \<Rightarrow>
               (let palw = palw_lane fs;
                    s = split_block_subsidy (rd_subsidy rd) palw;
                    (a, b, b_remainder) = premium_split (ss_worker_base_sompi s) 1 pi_bps;
                    b = b + b_remainder;
                    finality = min (rd_finality_fees rd) (rd_total_fees rd);
                    fee_worker = sat_add64 (fe_worker_sompi (split_normal_tx_fees (rd_total_fees rd - finality) palw))
                      (fe_worker_sompi (split_finality_fees finality palw))
                in Some (sat_add64 pool (ss_worker_inclusion_sompi s),
                     output_if_positive a provider_a @ output_if_positive b provider_b @
                     output_if_positive fee_worker (rd_script_public_key rd))))
      | _ \<Rightarrow> Some (pool, []))"

fun blue_loop ::
  "fee_split_params option \<Rightarrow> (hash64, block_reward_data) hashmap \<Rightarrow> hash64 set \<Rightarrow> hash64 list \<Rightarrow> u64 \<Rightarrow>
   (u64 \<times> transaction_output list) option" where
  "blue_loop carve rewards non_daa [] pool = Some (pool, [])"
| "blue_loop carve rewards non_daa (h # hs) pool =
     (if h \<in> non_daa then blue_loop carve rewards non_daa hs pool
      else do {
        rd \<leftarrow> hm_get rewards h;
        (pool, out) \<leftarrow> blue_source carve rd pool;
        (pool, outs) \<leftarrow> blue_loop carve rewards non_daa hs pool;
        Some (pool, out @ outs)
      })"

text \<open>One red source: the new inclusion pool and the amount added to the red reward.\<close>

definition effective_subsidy :: "hash64 set \<Rightarrow> hash64 \<Rightarrow> block_reward_data \<Rightarrow> u64" where
  "effective_subsidy non_daa h rd = (if h \<in> non_daa then 0 else rd_subsidy rd)"

fun red_source :: "fee_split_params option \<Rightarrow> u64 \<Rightarrow> block_reward_data \<Rightarrow> u64 \<Rightarrow> (u64 \<times> u64) option" where
  "red_source carve eff_subsidy rd pool =
     (case rd_work_reward_class rd of
        HashMiner \<Rightarrow>
          (case carve of
             Some fs \<Rightarrow>
               Some (sat_add64 pool (ss_worker_inclusion_sompi (split_block_subsidy eff_subsidy fs)),
                 worker_value fs eff_subsidy (rd_total_fees rd) (rd_finality_fees rd))
           | None \<Rightarrow> do {
               value \<leftarrow> checked_add u64_max eff_subsidy (rd_total_fees rd);
               Some (pool, value)
             })
      | _ \<Rightarrow> Some (pool, 0))"

fun red_loop ::
  "fee_split_params option \<Rightarrow> (hash64, block_reward_data) hashmap \<Rightarrow> hash64 set \<Rightarrow> hash64 list \<Rightarrow> u64 \<Rightarrow> u64 \<Rightarrow>
   (u64 \<times> u64) option" where
  "red_loop carve rewards non_daa [] pool red_reward = Some (pool, red_reward)"
| "red_loop carve rewards non_daa (h # hs) pool red_reward = do {
     rd \<leftarrow> hm_get rewards h;
     (pool, value) \<leftarrow> red_source carve (effective_subsidy non_daa h rd) rd pool;
     red_reward \<leftarrow> checked_add u64_max red_reward value;
     red_loop carve rewards non_daa hs pool red_reward
   }"

definition TX_VERSION :: u16 where
  "TX_VERSION = 0"

text \<open>\<open>Transaction::new\<close>; \<open>txid\<close> stands for the hashing of \<open>finalize\<close>.\<close>

definition transaction_new ::
  "(transaction \<Rightarrow> hash64) \<Rightarrow> u16 \<Rightarrow> transaction_input list \<Rightarrow> transaction_output list \<Rightarrow> u64 \<Rightarrow> subnetwork_id \<Rightarrow> u64 \<Rightarrow>
   bytes \<Rightarrow> transaction" where
  "transaction_new txid version inputs outputs lock_time subnetwork gas payload =
     (let tx = \<lparr>tx_version = version, tx_inputs = inputs, tx_outputs = outputs, tx_lock_time = lock_time,
                tx_subnetwork_id = subnetwork, tx_gas = gas, tx_payload = payload, tx_mass = 0, tx_id = hash64_default\<rparr>
      in tx\<lparr>tx_id := txid tx\<rparr>)"

definition inclusion_bounty :: "fee_split_params option \<Rightarrow> u64 \<Rightarrow> u128 \<times> u128 \<Rightarrow> u64" where
  "inclusion_bounty carve pool inclusion =
     (if carve = None then 0
      else cast_u64 (min (worker_inclusion_bounty pool (fst inclusion) (snd inclusion) STAKE_SCORE_SCALE False 0) pool))"

definition expected_coinbase_transaction ::
  "(transaction \<Rightarrow> hash64) \<Rightarrow> coinbase_manager \<Rightarrow> u64 \<Rightarrow> miner_data \<Rightarrow> ghostdag_mergeset \<Rightarrow>
   (hash64, block_reward_data) hashmap \<Rightarrow> hash64 set \<Rightarrow> transaction_output list \<Rightarrow> fee_split_params option \<Rightarrow>
   u128 \<times> u128 \<Rightarrow> (coinbase_error + coinbase_transaction_template) option" where
  "expected_coinbase_transaction txid m daa_score miner gd rewards non_daa validator_outputs carve inclusion = do {
     (pool, blue_outputs) \<leftarrow> blue_loop carve rewards non_daa (gm_mergeset_blues gd) 0;
     (pool, red_reward) \<leftarrow> red_loop carve rewards non_daa (gm_mergeset_reds gd) pool 0;
     let red_outputs = output_if_positive red_reward (md_script_public_key miner);
     let outputs = blue_outputs @ red_outputs @ validator_outputs;
     let bounty = inclusion_bounty carve pool inclusion;
     let indices = (if 0 < red_reward then [length blue_outputs] else []) @ (if 0 < bounty then [length outputs] else []);
     let outputs = outputs @ output_if_positive bounty (md_script_public_key miner);
     let subsidy = calc_block_subsidy m daa_score;
     Some (case serialize_coinbase_payload m
               \<lparr>cd_blue_score = gm_blue_score gd, cd_subsidy = subsidy, cd_miner_data = miner\<rparr> of
         Inl e \<Rightarrow> Inl e
       | Inr payload \<Rightarrow>
           Inr \<lparr>ct_tx = transaction_new txid TX_VERSION [] outputs 0 SUBNETWORK_ID_COINBASE 0 payload,
                ct_has_red_reward = (0 < red_reward), ct_miner_script_output_indices = indices\<rparr>)
   }"

section \<open>The validator pool\<close>

fun blue_validator_share :: "fee_split_params \<Rightarrow> block_reward_data \<Rightarrow> u64" where
  "blue_validator_share fs rd =
     (case rd_work_reward_class rd of
        HashMiner \<Rightarrow>
          fe_validator_sompi (split_block_reward (rd_subsidy rd) (rd_total_fees rd) (rd_finality_fees rd) fs)
      | ReplicaPalw _ _ _ _ _ \<Rightarrow>
          fe_validator_sompi (split_block_reward (rd_subsidy rd) (rd_total_fees rd) (rd_finality_fees rd) (palw_lane fs))
      | _ \<Rightarrow> 0)"

fun red_validator_share :: "fee_split_params \<Rightarrow> u64 \<Rightarrow> block_reward_data \<Rightarrow> u64" where
  "red_validator_share fs eff_subsidy rd =
     (case rd_work_reward_class rd of
        HashMiner \<Rightarrow> fe_validator_sompi (split_block_reward eff_subsidy (rd_total_fees rd) (rd_finality_fees rd) fs)
      | _ \<Rightarrow> 0)"

fun blue_pool_loop ::
  "fee_split_params \<Rightarrow> (hash64, block_reward_data) hashmap \<Rightarrow> hash64 set \<Rightarrow> hash64 list \<Rightarrow> u64 \<Rightarrow> u64 option" where
  "blue_pool_loop fs rewards non_daa [] pool = Some pool"
| "blue_pool_loop fs rewards non_daa (h # hs) pool =
     (if h \<in> non_daa then blue_pool_loop fs rewards non_daa hs pool
      else do {
        rd \<leftarrow> hm_get rewards h;
        blue_pool_loop fs rewards non_daa hs (sat_add64 pool (blue_validator_share fs rd))
      })"

fun red_pool_loop ::
  "fee_split_params \<Rightarrow> (hash64, block_reward_data) hashmap \<Rightarrow> hash64 set \<Rightarrow> hash64 list \<Rightarrow> u64 \<Rightarrow> u64 option" where
  "red_pool_loop fs rewards non_daa [] pool = Some pool"
| "red_pool_loop fs rewards non_daa (h # hs) pool = do {
     rd \<leftarrow> hm_get rewards h;
     red_pool_loop fs rewards non_daa hs
       (sat_add64 pool (red_validator_share fs (effective_subsidy non_daa h rd) rd))
   }"

definition coinbase_validator_pool ::
  "ghostdag_mergeset \<Rightarrow> (hash64, block_reward_data) hashmap \<Rightarrow> hash64 set \<Rightarrow> fee_split_params \<Rightarrow> u64 option" where
  "coinbase_validator_pool gd rewards non_daa fs = do {
     pool \<leftarrow> blue_pool_loop fs rewards non_daa (gm_mergeset_blues gd) 0;
     red_pool_loop fs rewards non_daa (gm_mergeset_reds gd) pool
   }"

section \<open>Conservation\<close>

text \<open>What a source may pay out at most: subsidy and fees.\<close>

definition blue_value :: "(hash64, block_reward_data) hashmap \<Rightarrow> hash64 \<Rightarrow> nat" where
  "blue_value rewards h = (case hm_get rewards h of None \<Rightarrow> 0 | Some rd \<Rightarrow> rd_subsidy rd + rd_total_fees rd)"

definition red_value :: "(hash64, block_reward_data) hashmap \<Rightarrow> hash64 set \<Rightarrow> hash64 \<Rightarrow> nat" where
  "red_value rewards non_daa h =
     (case hm_get rewards h of None \<Rightarrow> 0 | Some rd \<Rightarrow> effective_subsidy non_daa h rd + rd_total_fees rd)"

definition source_total ::
  "(hash64, block_reward_data) hashmap \<Rightarrow> hash64 set \<Rightarrow> ghostdag_mergeset \<Rightarrow> nat" where
  "source_total rewards non_daa gd =
     (\<Sum>h\<leftarrow>filter (\<lambda>h. h \<notin> non_daa) (gm_mergeset_blues gd). blue_value rewards h) +
     (\<Sum>h\<leftarrow>gm_mergeset_reds gd. red_value rewards non_daa h)"

lemma total_value_output_if_positive [simp]: "total_value (output_if_positive v spk) = v"
  by (simp add: output_if_positive_def)

text \<open>Worker share, inclusion share and validator share of one source are parts of its reward.\<close>

lemma sat_add64_chain3_le: "sat_add64 (sat_add64 a b) c \<le> a + (b + c)"
  using sat_add_le_sum [of u64_max "sat_add64 a b" c] sat_add_le_sum [of u64_max a b] by linarith

lemma worker_value_le:
  "worker_value fs subsidy fees fin \<le> ss_worker_base_sompi (split_block_subsidy subsidy fs) +
     (fe_worker_sompi (split_normal_tx_fees (fees - min fin fees) fs) + fe_worker_sompi (split_finality_fees (min fin fees) fs))"
  by (simp add: worker_value_def Let_def sat_add64_chain3_le)

lemma worker_value_fits: "worker_value fs subsidy fees fin \<le> u64_max"
  by (simp add: worker_value_def Let_def)

lemma validator_share_le:
  "fe_validator_sompi (split_block_reward subsidy fees fin fs) \<le> ss_validator_sompi (split_block_subsidy subsidy fs) +
     (fe_validator_sompi (split_normal_tx_fees (fees - min fin fees) fs) + fe_validator_sompi (split_finality_fees (min fin fees) fs))"
  by (simp add: split_block_reward_def Let_def sat_add64_chain3_le)

lemma fee_parts_le:
  "fe_worker_sompi (split_normal_tx_fees (fees - min fin fees) fs) + fe_worker_sompi (split_finality_fees (min fin fees) fs) +
   (fe_validator_sompi (split_normal_tx_fees (fees - min fin fees) fs) + fe_validator_sompi (split_finality_fees (min fin fees) fs))
   \<le> fees"
proof -
  have "fees - min fin fees + min fin fees = fees"
    by simp
  then show ?thesis
    using split_normal_tx_fees_sum [of "fees - min fin fees" fs] split_finality_fees_sum [of "min fin fees" fs] by linarith
qed

lemma hash_source_le:
  "worker_value fs subsidy fees fin + ss_worker_inclusion_sompi (split_block_subsidy subsidy fs) +
   fe_validator_sompi (split_block_reward subsidy fees fin fs) \<le> subsidy + fees"
  using worker_value_le [of fs subsidy fees fin] validator_share_le [of subsidy fees fin fs]
    fee_parts_le [of fees fin fs] split_block_subsidy_sum [of subsidy fs] by linarith

lemma premium_outputs_exact:
  assumes "base \<le> u64_max" and "premium_split base 1 pi = (a, b, r)"
  shows "a + (b + r) = base"
  using premium_split_exact [OF assms] by simp

lemma blue_source_bound:
  assumes "blue_source (Some fs) rd pool = Some (pool', out)" and "rd_subsidy rd \<le> u64_max"
  shows "total_value out + pool' + blue_validator_share fs rd \<le> pool + (rd_subsidy rd + rd_total_fees rd)"
proof (cases "rd_work_reward_class rd")
  case HashMiner
  then show ?thesis
    using assms hash_source_le [of fs "rd_subsidy rd" "rd_total_fees rd" "rd_finality_fees rd"]
      sat_add_le_sum [of u64_max pool "ss_worker_inclusion_sompi (split_block_subsidy (rd_subsidy rd) fs)"]
    by auto
next
  case (ReplicaPalw bi li pa pb pi)
  let ?p = "palw_lane fs" and ?fin = "min (rd_finality_fees rd) (rd_total_fees rd)"
  let ?s = "split_block_subsidy (rd_subsidy rd) ?p"
  let ?fee = "sat_add64 (fe_worker_sompi (split_normal_tx_fees (rd_total_fees rd - ?fin) ?p))
                (fe_worker_sompi (split_finality_fees ?fin ?p))"
  obtain a b r where ps: "premium_split (ss_worker_base_sompi ?s) 1 pi = (a, b, r)"
    by (cases "premium_split (ss_worker_base_sompi ?s) 1 pi") auto
  have out: "total_value out = a + (b + r) + ?fee" "pool' = sat_add64 pool (ss_worker_inclusion_sompi ?s)"
    using assms(1) ReplicaPalw ps by (auto simp: Let_def)
  have base: "a + (b + r) = ss_worker_base_sompi ?s"
    using split_block_subsidy_sum [of "rd_subsidy rd" ?p] assms(2) by (intro premium_outputs_exact [OF _ ps]) linarith
  have fee: "?fee \<le> fe_worker_sompi (split_normal_tx_fees (rd_total_fees rd - ?fin) ?p) +
      fe_worker_sompi (split_finality_fees ?fin ?p)"
    by (rule sat_add_le_sum)
  have pool: "pool' \<le> pool + ss_worker_inclusion_sompi ?s"
    unfolding out by (rule sat_add_le_sum)
  have val: "blue_validator_share fs rd =
      fe_validator_sompi (split_block_reward (rd_subsidy rd) (rd_total_fees rd) (rd_finality_fees rd) ?p)"
    using ReplicaPalw by simp
  show ?thesis
    unfolding out(1) base val
    using fee pool validator_share_le [of "rd_subsidy rd" "rd_total_fees rd" "rd_finality_fees rd" ?p]
      fee_parts_le [of "rd_total_fees rd" "rd_finality_fees rd" ?p] split_block_subsidy_sum [of "rd_subsidy rd" ?p]
    by linarith
qed (use assms in auto)

lemma red_source_bound:
  assumes "red_source (Some fs) eff rd pool = Some (pool', v)"
  shows "v + pool' + red_validator_share fs eff rd \<le> pool + (eff + rd_total_fees rd)"
proof (cases "rd_work_reward_class rd")
  case HashMiner
  then show ?thesis
    using assms hash_source_le [of fs eff "rd_total_fees rd" "rd_finality_fees rd"]
      sat_add_le_sum [of u64_max pool "ss_worker_inclusion_sompi (split_block_subsidy eff fs)"]
    by auto
qed (use assms in auto)

definition rewards_fit :: "(hash64, block_reward_data) hashmap \<Rightarrow> bool" where
  "rewards_fit rewards \<longleftrightarrow> list_all (\<lambda>(_, rd). rd_subsidy rd \<le> u64_max) rewards"

lemma rewards_fit_get: "rewards_fit rewards \<Longrightarrow> hm_get rewards h = Some rd \<Longrightarrow> rd_subsidy rd \<le> u64_max"
  by (auto simp: rewards_fit_def list_all_iff hm_get_def dest: map_of_SomeD)

text \<open>The two loops in step: what the carve pays and pools, and what the validator pool collects.\<close>

lemma blue_loops_bound:
  assumes "rewards_fit rewards"
  shows "blue_loop (Some fs) rewards non_daa hs pool = Some (pool', outs) \<Longrightarrow>
    blue_pool_loop fs rewards non_daa hs vp = Some vp' \<Longrightarrow>
    total_value outs + pool' + vp' \<le> pool + vp + (\<Sum>h\<leftarrow>filter (\<lambda>h. h \<notin> non_daa) hs. blue_value rewards h)"
proof (induction hs arbitrary: pool outs vp)
  case (Cons h hs)
  show ?case
  proof (cases "h \<in> non_daa")
    case False
    then obtain rd where rd: "hm_get rewards h = Some rd"
      using Cons.prems(1) by (auto simp: bind_eq_Some_conv simp del: blue_source.simps)
    then obtain pool1 out rest where s: "blue_source (Some fs) rd pool = Some (pool1, out)"
        and l: "blue_loop (Some fs) rewards non_daa hs pool1 = Some (pool', rest)" and o: "outs = out @ rest"
      using Cons.prems(1) False by (auto simp: bind_eq_Some_conv simp del: blue_source.simps)
    have v: "blue_pool_loop fs rewards non_daa hs (sat_add64 vp (blue_validator_share fs rd)) = Some vp'"
      using Cons.prems(2) False rd by (simp del: blue_validator_share.simps)
    have val: "blue_value rewards h = rd_subsidy rd + rd_total_fees rd"
      using rd by (simp add: blue_value_def)
    show ?thesis
      using Cons.IH [OF l v] blue_source_bound [OF s rewards_fit_get [OF assms rd]] False o val
        sat_add_le_sum [of u64_max vp "blue_validator_share fs rd"]
      by (simp del: blue_validator_share.simps)
  qed (use Cons in auto)
qed simp

lemma red_loops_bound:
  shows "red_loop (Some fs) rewards non_daa hs pool rr = Some (pool', rr') \<Longrightarrow>
    red_pool_loop fs rewards non_daa hs vp = Some vp' \<Longrightarrow>
    rr' + pool' + vp' \<le> rr + pool + vp + (\<Sum>h\<leftarrow>hs. red_value rewards non_daa h)"
proof (induction hs arbitrary: pool rr vp)
  case (Cons h hs)
  obtain rd where rd: "hm_get rewards h = Some rd"
    using Cons.prems(1) by (auto simp: bind_eq_Some_conv simp del: red_source.simps)
  let ?e = "effective_subsidy non_daa h rd"
  obtain pool1 v where s: "red_source (Some fs) ?e rd pool = Some (pool1, v)"
      and l: "red_loop (Some fs) rewards non_daa hs pool1 (rr + v) = Some (pool', rr')"
    using Cons.prems(1) rd by (auto simp: bind_eq_Some_conv simp del: red_source.simps)
  have vp: "red_pool_loop fs rewards non_daa hs (sat_add64 vp (red_validator_share fs ?e rd)) = Some vp'"
    using Cons.prems(2) rd by (simp del: red_validator_share.simps)
  have "red_value rewards non_daa h = ?e + rd_total_fees rd"
    using rd by (simp add: red_value_def)
  then show ?case
    using Cons.IH [OF l vp] red_source_bound [OF s] sat_add_le_sum [of u64_max vp "red_validator_share fs ?e rd"]
    by (simp del: red_validator_share.simps)
qed simp

lemma inclusion_bounty_le: "pool \<le> u64_max \<Longrightarrow> inclusion_bounty carve pool inclusion \<le> pool"
  by (auto simp: inclusion_bounty_def intro: order_trans [OF eq_refl [OF cast_u64_exact]])

lemma blue_loop_pool_le: "blue_loop carve rewards non_daa hs pool = Some (pool', outs) \<Longrightarrow> pool \<le> u64_max \<Longrightarrow> pool' \<le> u64_max"
proof (induction hs arbitrary: pool outs)
  case (Cons h hs)
  have "blue_source carve rd pool = Some (p1, out) \<Longrightarrow> p1 \<le> u64_max" for rd p1 out
    using Cons.prems(2) by (auto simp: Let_def bind_eq_Some_conv split: work_reward_class.splits option.splits prod.splits)
  then show ?case
    using Cons by (auto simp: bind_eq_Some_conv simp del: blue_source.simps split: if_splits)
qed simp

lemma red_loop_pool_le: "red_loop carve rewards non_daa hs pool rr = Some (pool', rr') \<Longrightarrow> pool \<le> u64_max \<Longrightarrow> pool' \<le> u64_max"
proof (induction hs arbitrary: pool rr)
  case (Cons h hs)
  have "red_source carve e rd pool = Some (p1, v) \<Longrightarrow> p1 \<le> u64_max" for rd p1 v e
    using Cons.prems(2) by (auto simp: bind_eq_Some_conv split: work_reward_class.splits option.splits)
  then show ?case
    using Cons by (auto simp: bind_eq_Some_conv simp del: red_source.simps)
qed simp

lemma blue_source_total: "\<exists>p out. blue_source (Some fs) rd pool = Some (p, out)"
  by (auto simp: Let_def split: work_reward_class.split prod.split)

lemma blue_loop_total:
  "\<forall>h\<in>set hs. hm_get rewards h \<noteq> None \<Longrightarrow> \<exists>p outs. blue_loop (Some fs) rewards non_daa hs pool = Some (p, outs)"
proof (induction hs arbitrary: pool)
  case (Cons h hs)
  obtain rd where rd: "hm_get rewards h = Some rd"
    using Cons.prems by auto
  obtain p1 out where s: "blue_source (Some fs) rd pool = Some (p1, out)"
    using blue_source_total by blast
  obtain p2 outs where "blue_loop (Some fs) rewards non_daa hs p1 = Some (p2, outs)"
    using Cons by fastforce
  then show ?case
    using Cons rd s by (simp del: blue_source.simps)
qed simp

lemma tx_outputs_transaction_new [simp]: "tx_outputs (transaction_new txid v ins outs l sn g pl) = outs"
  by (simp add: transaction_new_def Let_def)

lemma coinbase_total:
  assumes "rewards_fit rewards"
    and "expected_coinbase_transaction txid m daa miner gd rewards non_daa vouts (Some fs) inclusion = Some (Inr t)"
    and "coinbase_validator_pool gd rewards non_daa fs = Some vpool"
  shows "total_value (tx_outputs (ct_tx t)) + vpool \<le> total_value vouts + source_total rewards non_daa gd"
proof -
  obtain p1 bouts where b: "blue_loop (Some fs) rewards non_daa (gm_mergeset_blues gd) 0 = Some (p1, bouts)"
    using assms(2) by (cases "blue_loop (Some fs) rewards non_daa (gm_mergeset_blues gd) 0")
      (auto simp: expected_coinbase_transaction_def)
  obtain p2 rr where r: "red_loop (Some fs) rewards non_daa (gm_mergeset_reds gd) p1 0 = Some (p2, rr)"
    using assms(2) b by (cases "red_loop (Some fs) rewards non_daa (gm_mergeset_reds gd) p1 0")
      (auto simp: expected_coinbase_transaction_def)
  have t: "tx_outputs (ct_tx t) = (bouts @ output_if_positive rr (md_script_public_key miner) @ vouts) @
      output_if_positive (inclusion_bounty (Some fs) p2 inclusion) (md_script_public_key miner)"
    using assms(2) b r by (auto simp: expected_coinbase_transaction_def Let_def split: sum.splits)
  obtain v1 where v1: "blue_pool_loop fs rewards non_daa (gm_mergeset_blues gd) 0 = Some v1"
      and v2: "red_pool_loop fs rewards non_daa (gm_mergeset_reds gd) v1 = Some vpool"
    using assms(3) by (auto simp: coinbase_validator_pool_def bind_eq_Some_conv)
  have "p2 \<le> u64_max"
    using red_loop_pool_le [OF r blue_loop_pool_le [OF b]] by simp
  then have "inclusion_bounty (Some fs) p2 inclusion \<le> p2"
    by (rule inclusion_bounty_le)
  then show ?thesis
    unfolding t source_total_def
    using blue_loops_bound [OF assms(1) b v1] red_loops_bound [OF r v2] by simp
qed

section \<open>Payload round trip\<close>

lemma parser_take_append: "length xs = n \<Longrightarrow> parser_take n (xs @ ys) = (xs, ys)"
  by (simp add: parser_take_def)

lemmas payload_lengths = LENGTH_OF_BLUE_SCORE_def LENGTH_OF_SUBSIDY_def LENGTH_OF_SCRIPT_PUB_KEY_VERSION_def
  LENGTH_OF_SCRIPT_PUB_KEY_LENGTH_def MIN_PAYLOAD_LENGTH_def

lemma from_le_to_le_8: "n \<le> u64_max \<Longrightarrow> from_le (to_le 8 n) = n"
  by (rule from_le_to_le_exact) (simp add: u64_max_def)

section \<open>Total issuance\<close>


text \<open>A manager whose block rate never changed and whose deflationary phase starts at genesis.\<close>

definition constant_rate_manager :: "nat \<Rightarrow> usize \<Rightarrow> u64 \<Rightarrow> u64 \<Rightarrow> u64 \<Rightarrow> coinbase_manager" where
  "constant_rate_manager spk_max max_len base bps activation =
     coinbase_manager_new spk_max max_len 0 base \<lparr>fk_pre = bps, fk_post = bps, fk_activation = activation\<rparr>"

lemma fork_const [simp]:
  "fork_before \<lparr>fk_pre = v, fk_post = v, fk_activation = a\<rparr> = v"
  "fork_after \<lparr>fk_pre = v, fk_post = v, fk_activation = a\<rparr> = v"
  by (simp_all add: fork_before_def fork_after_def)






section \<open>Properties\<close>

text \<open>C3. A carved coinbase never mints more than its sources earned: if the validator outputs handed to it
  stay within the validator pool carved from the same mergeset, then the total value of the coinbase
  outputs is at most the sum of subsidy and fees over the mergeset blues of the DAA window plus the fees,
  and in the DAA window also the subsidy, of the mergeset reds. PALW sources, halted sources and the
  inclusion bounty are included.\<close>

theorem coinbase_mints_at_most_its_sources:
  assumes "rewards_fit rewards"
    and "expected_coinbase_transaction txid m daa miner gd rewards non_daa vouts (Some fs) inclusion = Some (Inr t)"
    and "coinbase_validator_pool gd rewards non_daa fs = Some vpool" and "total_value vouts \<le> vpool"
  shows "total_value (tx_outputs (ct_tx t)) \<le> source_total rewards non_daa gd"
  using coinbase_total [OF assms(1-3)] assms(4) by linarith

definition sample_spk :: "u8 \<Rightarrow> script_public_key" where
  "sample_spk b = \<lparr>spk_version = 0, spk_script = [b, b]\<rparr>"

definition sample_manager :: coinbase_manager where
  "sample_manager = constant_rate_manager 150 204 0 10 110165000"

definition sample_miner :: miner_data where
  "sample_miner = \<lparr>md_script_public_key = sample_spk 9, md_extra_data = [1, 2, 3]\<rparr>"

definition sample_rewards :: "(hash64, block_reward_data) hashmap" where
  "sample_rewards =
    [(sample_hash 1, \<lparr>rd_subsidy = 1000, rd_total_fees = 50, rd_finality_fees = 10, rd_script_public_key = sample_spk 1,
        rd_work_reward_class = HashMiner\<rparr>),
     (sample_hash 2, \<lparr>rd_subsidy = 1000, rd_total_fees = 20, rd_finality_fees = 0, rd_script_public_key = sample_spk 2,
        rd_work_reward_class = ReplicaPalw (sample_hash 7) 0 (sample_spk 3) (sample_spk 4) 10000\<rparr>)]"

definition sample_mergeset :: ghostdag_mergeset where
  "sample_mergeset = \<lparr>gm_blue_score = 77, gm_mergeset_blues = [sample_hash 1, sample_hash 2], gm_mergeset_reds = [sample_hash 1]\<rparr>"

lemma sample_rewards_fit: "rewards_fit sample_rewards"
  by (simp add: rewards_fit_def sample_rewards_def u64_max_def)

theorem coinbase_mints_at_most_its_sources_witness:
  "\<exists>t. expected_coinbase_transaction (\<lambda>_. hash64_default) sample_manager 5 sample_miner sample_mergeset sample_rewards {} []
       (Some sample_fee_split) (1, 2) = Some (Inr t) \<and> total_value (tx_outputs (ct_tx t)) \<le> 3120"
proof -
  let ?fs = "sample_fee_split"
  have present: "\<forall>h\<in>set (gm_mergeset_blues sample_mergeset). hm_get sample_rewards h \<noteq> None"
    by (simp add: sample_rewards_def sample_mergeset_def hm_get_def)
  obtain p1 bouts where b: "blue_loop (Some ?fs) sample_rewards {} (gm_mergeset_blues sample_mergeset) 0 = Some (p1, bouts)"
    using blue_loop_total [OF present] by blast
  have "\<exists>z. red_loop (Some ?fs) sample_rewards {} (gm_mergeset_reds sample_mergeset) p1 0 = Some z"
    by (simp add: sample_mergeset_def sample_rewards_def hm_get_def checked_add_def worker_value_fits)
  then obtain p2 rr where r: "red_loop (Some ?fs) sample_rewards {} (gm_mergeset_reds sample_mergeset) p1 0 = Some (p2, rr)"
    by force
  have "\<exists>v. coinbase_validator_pool sample_mergeset sample_rewards {} ?fs = Some v"
    by (simp add: coinbase_validator_pool_def sample_mergeset_def sample_rewards_def hm_get_def)
  then obtain v where v: "coinbase_validator_pool sample_mergeset sample_rewards {} ?fs = Some v" ..
  obtain t where t: "expected_coinbase_transaction (\<lambda>_. hash64_default) sample_manager 5 sample_miner sample_mergeset
      sample_rewards {} [] (Some ?fs) (1, 2) = Some (Inr t)"
    using b r by (simp add: expected_coinbase_transaction_def Let_def serialize_coinbase_payload_def sample_manager_def
        sample_miner_def sample_spk_def constant_rate_manager_def coinbase_manager_new_def)
  have "source_total sample_rewards {} sample_mergeset = 3120"
    by (simp add: source_total_def blue_value_def red_value_def effective_subsidy_def sample_mergeset_def
        sample_rewards_def hm_get_def)
  then show ?thesis
    using t coinbase_mints_at_most_its_sources [OF sample_rewards_fit t v] by auto
qed

text \<open>The coinbase payload round trips: a payload built from data within its widths is parsed back to
  the same data, and replacing the miner data of a built payload gives the payload built from the
  changed data, so a template can be re-targeted without rebuilding it.\<close>

theorem coinbase_payload_round_trip:
  assumes "serialize_coinbase_payload m d = Inr payload" and "length payload \<le> cm_max_payload_len m"
    and "cm_script_public_key_max_len m < 256" and "cd_blue_score d \<le> u64_max" and "cd_subsidy d \<le> u64_max"
    and "spk_version (md_script_public_key (cd_miner_data d)) < 65536"
  shows "deserialize_coinbase_payload m payload = Inr d \<and>
    modify_coinbase_payload m payload miner = serialize_coinbase_payload m (d\<lparr>cd_miner_data := miner\<rparr>)"
proof -
  let ?spk = "md_script_public_key (cd_miner_data d)"
  let ?len = "length (spk_script ?spk)"
  let ?tail = "spk_script ?spk @ md_extra_data (cd_miner_data d)"
  have len: "?len \<le> cm_script_public_key_max_len m" and payload: "payload = to_le 8 (cd_blue_score d) @
      to_le 8 (cd_subsidy d) @ to_le 2 (spk_version ?spk) @ to_le 1 ?len @ ?tail"
    using assms(1) by (auto simp: serialize_coinbase_payload_def Let_def split: if_splits)
  have "?len < 256"
    using len assms(3) by linarith
  then have l: "from_le (to_le (Suc 0) ?len) = ?len"
    by (intro from_le_to_le_exact) simp
  have v: "from_le (to_le 2 (spk_version ?spk)) = spk_version ?spk"
    by (rule from_le_to_le_exact) (use assms(6) in simp)
  have "deserialize_coinbase_payload m payload = Inr d"
    using assms(2) len unfolding deserialize_coinbase_payload_def payload payload_lengths
    by (simp add: parser_take_append l v from_le_to_le_8 assms(4,5) Let_def del: to_le.simps)
  moreover have "modify_coinbase_payload m payload miner = serialize_coinbase_payload m (d\<lparr>cd_miner_data := miner\<rparr>)"
    unfolding payload by (simp add: modify_coinbase_payload_def serialize_coinbase_payload_def payload_lengths Let_def
        del: to_le.simps)
  ultimately show ?thesis ..
qed



end
