(* ===== verification/Dns_Payloads.thy ===== *)
theory Dns_Payloads
  imports Dns_Rewards Byte_Codec
begin

text \<open>
  The stateless checks of the overlay transactions (\<open>consensus/core/src/dns_finality.rs\<close>): bonds,
  attestation shards, slashing evidence and unbond requests, each with the order of its errors, and the
  messages that validators and owners sign. The hash function and the signature check are the fields of
  \<open>dns_crypto\<close>; the messages are modelled up to the call of the hash function.

  The lemmas characterise what passes each check and show that the signed messages determine their
  fields.
\<close>

section \<open>Cryptography\<close>

text \<open>BLAKE2b with a key and an output length of 32 bytes, unkeyed BLAKE2b-512, and the ML-DSA-87 check
  under a context (the source accepts only \<open>Ok(true)\<close>).\<close>

record dns_crypto =
  cr_blake2b_256 :: "bytes \<Rightarrow> bytes \<Rightarrow> bytes"
  cr_blake2b_512 :: "bytes \<Rightarrow> hash64"
  cr_verify_mldsa87 :: "bytes \<Rightarrow> bytes \<Rightarrow> bytes \<Rightarrow> bytes \<Rightarrow> bool"

definition ascii :: "string \<Rightarrow> bytes" where
  "ascii s = map of_char s"

definition ATTESTATION_MLDSA87_CONTEXT :: bytes where
  "ATTESTATION_MLDSA87_CONTEXT = ascii ''kaspa-pq-v1/att/mldsa87''"

definition ATTESTATION_MESSAGE_DOMAIN :: bytes where
  "ATTESTATION_MESSAGE_DOMAIN = ascii ''kaspa-pq-v1/stake-attestation''"

definition UNBOND_REQUEST_CONTEXT :: bytes where
  "UNBOND_REQUEST_CONTEXT = ascii ''kaspa-pq-v1/unbond/mldsa87''"

definition UNBOND_REQUEST_MESSAGE_DOMAIN :: bytes where
  "UNBOND_REQUEST_MESSAGE_DOMAIN = ascii ''kaspa-pq-v1/unbond-request''"

definition validator_id_from_pubkey :: "dns_crypto \<Rightarrow> bytes \<Rightarrow> hash64" where
  "validator_id_from_pubkey cr pubkey = cr_blake2b_512 cr pubkey"

definition signature_fingerprint :: "dns_crypto \<Rightarrow> bytes \<Rightarrow> hash64" where
  "signature_fingerprint cr signature = cr_blake2b_512 cr signature"

text \<open>The bytes fed to the hasher, in order.\<close>

definition stake_attestation_preimage ::
  "bytes \<Rightarrow> u64 \<Rightarrow> hash64 \<Rightarrow> u64 \<Rightarrow> hash64 \<Rightarrow> transaction_outpoint \<Rightarrow> bytes" where
  "stake_attestation_preimage network_id epoch target_hash target_daa_score vsc op =
     network_id @ to_le 8 epoch @ as_bytes target_hash @ to_le 8 target_daa_score @ as_bytes vsc @
     as_bytes (op_transaction_id op) @ to_le 4 (op_index op)"

definition stake_attestation_message ::
  "dns_crypto \<Rightarrow> bytes \<Rightarrow> u64 \<Rightarrow> hash64 \<Rightarrow> u64 \<Rightarrow> hash64 \<Rightarrow> transaction_outpoint \<Rightarrow> bytes" where
  "stake_attestation_message cr network_id epoch target_hash target_daa_score vsc op =
     cr_blake2b_256 cr ATTESTATION_MESSAGE_DOMAIN
       (stake_attestation_preimage network_id epoch target_hash target_daa_score vsc op)"

definition unbond_request_message :: "dns_crypto \<Rightarrow> bytes \<Rightarrow> transaction_outpoint \<Rightarrow> bytes" where
  "unbond_request_message cr network_id op =
     cr_blake2b_256 cr UNBOND_REQUEST_MESSAGE_DOMAIN
       (network_id @ as_bytes (op_transaction_id op) @ to_le 4 (op_index op))"

section \<open>Stateless checks\<close>

datatype dns_tx_error =
    Decode
  | UnsupportedVersion u16
  | ZeroBondAmount
  | InvalidPubKeyLen usize
  | ValidatorPubkeyHashMismatch
  | InvalidSignatureLen usize
  | EmptyShard
  | ShardTooLarge usize
  | ShardTupleMismatch
  | NonZeroValidatorSetCommitment
  | EvidenceTripleMismatch
  | EvidenceNotIncompatible
  | MissingBondOutput
  | BondOutputValueMismatch u64 u64
  | BondOutputScriptMismatch
  | SlashingEvidenceHasOutputs usize

definition check_attestation_wellformed :: "stake_attestation \<Rightarrow> dns_tx_error + unit" where
  "check_attestation_wellformed att =
     (if at_version att \<noteq> DNS_PAYLOAD_VERSION_V1 then Inl (UnsupportedVersion (at_version att))
      else if length (at_signature att) \<noteq> STAKE_ATTESTATION_SIG_LEN
      then Inl (InvalidSignatureLen (length (at_signature att)))
      else if at_validator_set_commitment att \<noteq> hash64_default then Inl NonZeroValidatorSetCommitment
      else Inr ())"

definition decode_and_check_stake_bond_payload ::
  "dns_codec \<Rightarrow> dns_crypto \<Rightarrow> bytes \<Rightarrow> dns_tx_error + stake_bond_payload" where
  "decode_and_check_stake_bond_payload codec cr payload =
     (case dec_bond codec payload of
        None \<Rightarrow> Inl Decode
      | Some bond \<Rightarrow>
          if bp_version bond \<noteq> DNS_PAYLOAD_VERSION_V1 then Inl (UnsupportedVersion (bp_version bond))
          else if bp_amount bond = 0 then Inl ZeroBondAmount
          else if length (bp_validator_pubkey bond) \<noteq> STAKE_VALIDATOR_PUBKEY_LEN
          then Inl (InvalidPubKeyLen (length (bp_validator_pubkey bond)))
          else if bp_validator_pubkey_hash bond \<noteq> validator_id_from_pubkey cr (bp_validator_pubkey bond)
          then Inl ValidatorPubkeyHashMismatch
          else Inr bond)"

definition validate_stake_bond_tx ::
  "dns_codec \<Rightarrow> dns_crypto \<Rightarrow> bytes \<Rightarrow> transaction_output list \<Rightarrow> dns_tx_error + unit" where
  "validate_stake_bond_tx codec cr payload outputs =
     (case decode_and_check_stake_bond_payload codec cr payload of
        Inl e \<Rightarrow> Inl e
      | Inr bond \<Rightarrow>
          (case outputs of
             [] \<Rightarrow> Inl MissingBondOutput
           | output0 # _ \<Rightarrow>
               if out_value output0 \<noteq> bp_amount bond
               then Inl (BondOutputValueMismatch (bp_amount bond) (out_value output0))
               else if out_script_public_key output0 \<noteq> p2pkh_mldsa87_spk (bp_owner_reward_spk_payload bond)
               then Inl BondOutputScriptMismatch
               else Inr ()))"

fun check_shard_attestations ::
  "stake_attestation_shard_payload \<Rightarrow> stake_attestation list \<Rightarrow> dns_tx_error + unit" where
  "check_shard_attestations shard [] = Inr ()"
| "check_shard_attestations shard (att # atts) =
     (case check_attestation_wellformed att of
        Inl e \<Rightarrow> Inl e
      | Inr _ \<Rightarrow>
          if at_epoch att \<noteq> sh_epoch shard \<or> at_target_hash att \<noteq> sh_target_hash shard \<or>
             at_target_daa_score att \<noteq> sh_target_daa_score shard \<or>
             at_validator_set_commitment att \<noteq> sh_validator_set_commitment shard
          then Inl ShardTupleMismatch
          else check_shard_attestations shard atts)"

definition validate_stake_attestation_shard_payload :: "dns_codec \<Rightarrow> bytes \<Rightarrow> dns_tx_error + unit" where
  "validate_stake_attestation_shard_payload codec payload =
     (case dec_shard codec payload of
        None \<Rightarrow> Inl Decode
      | Some shard \<Rightarrow>
          if sh_version shard \<noteq> DNS_PAYLOAD_VERSION_V1 then Inl (UnsupportedVersion (sh_version shard))
          else if sh_attestations shard = [] then Inl EmptyShard
          else if MAX_ATTESTATIONS_PER_SHARD < length (sh_attestations shard)
          then Inl (ShardTooLarge (length (sh_attestations shard)))
          else check_shard_attestations shard (sh_attestations shard))"

text \<open>The part of \<open>validate_slashing_evidence_payload\<close> after decoding.\<close>

definition check_slashing_evidence :: "slashing_evidence_payload \<Rightarrow> dns_tx_error + unit" where
  "check_slashing_evidence ev =
     (let a = ev_attestation_a ev; b = ev_attestation_b ev
      in if ev_version ev \<noteq> DNS_PAYLOAD_VERSION_V1 then Inl (UnsupportedVersion (ev_version ev))
         else case check_attestation_wellformed a of
           Inl e \<Rightarrow> Inl e
         | Inr _ \<Rightarrow>
             (case check_attestation_wellformed b of
                Inl e \<Rightarrow> Inl e
              | Inr _ \<Rightarrow>
                  if at_bond_outpoint a \<noteq> ev_bond_outpoint ev \<or> at_bond_outpoint b \<noteq> ev_bond_outpoint ev \<or>
                     at_validator_id a \<noteq> at_validator_id b \<or> at_epoch a \<noteq> at_epoch b
                  then Inl EvidenceTripleMismatch
                  else if at_target_hash a = at_target_hash b then Inl EvidenceNotIncompatible
                  else Inr ()))"

definition validate_slashing_evidence_payload :: "dns_codec \<Rightarrow> bytes \<Rightarrow> dns_tx_error + unit" where
  "validate_slashing_evidence_payload codec payload =
     (case dec_evidence codec payload of None \<Rightarrow> Inl Decode | Some ev \<Rightarrow> check_slashing_evidence ev)"

definition validate_slashing_evidence_tx ::
  "dns_codec \<Rightarrow> bytes \<Rightarrow> transaction_output list \<Rightarrow> dns_tx_error + unit" where
  "validate_slashing_evidence_tx codec payload outputs =
     (case validate_slashing_evidence_payload codec payload of
        Inl e \<Rightarrow> Inl e
      | Inr _ \<Rightarrow> if outputs \<noteq> [] then Inl (SlashingEvidenceHasOutputs (length outputs)) else Inr ())"

definition validate_stake_unbond_payload :: "dns_codec \<Rightarrow> bytes \<Rightarrow> dns_tx_error + unit" where
  "validate_stake_unbond_payload codec payload =
     (case dec_unbond codec payload of
        None \<Rightarrow> Inl Decode
      | Some req \<Rightarrow>
          if ub_version req \<noteq> DNS_PAYLOAD_VERSION_V1 then Inl (UnsupportedVersion (ub_version req))
          else if length (ub_owner_pubkey req) \<noteq> STAKE_VALIDATOR_PUBKEY_LEN
          then Inl (InvalidPubKeyLen (length (ub_owner_pubkey req)))
          else if length (ub_signature req) \<noteq> STAKE_ATTESTATION_SIG_LEN
          then Inl (InvalidSignatureLen (length (ub_signature req)))
          else Inr ())"

section \<open>What passes\<close>

lemma attestation_wellformed_iff:
  "check_attestation_wellformed att = Inr u \<longleftrightarrow>
     at_version att = DNS_PAYLOAD_VERSION_V1 \<and> length (at_signature att) = STAKE_ATTESTATION_SIG_LEN \<and>
     at_validator_set_commitment att = hash64_default"
  by (simp add: check_attestation_wellformed_def)

lemma shard_attestations_iff:
  "check_shard_attestations shard atts = Inr u \<longleftrightarrow>
     (\<forall>att\<in>set atts. check_attestation_wellformed att = Inr () \<and> at_epoch att = sh_epoch shard \<and>
        at_target_hash att = sh_target_hash shard \<and> at_target_daa_score att = sh_target_daa_score shard \<and>
        at_validator_set_commitment att = sh_validator_set_commitment shard)"
  by (induction atts) (auto split: sum.splits)

lemma slashing_evidence_iff:
  "check_slashing_evidence ev = Inr u \<longleftrightarrow>
     ev_version ev = DNS_PAYLOAD_VERSION_V1 \<and>
     check_attestation_wellformed (ev_attestation_a ev) = Inr () \<and>
     check_attestation_wellformed (ev_attestation_b ev) = Inr () \<and>
     at_bond_outpoint (ev_attestation_a ev) = ev_bond_outpoint ev \<and>
     at_bond_outpoint (ev_attestation_b ev) = ev_bond_outpoint ev \<and>
     at_validator_id (ev_attestation_a ev) = at_validator_id (ev_attestation_b ev) \<and>
     at_epoch (ev_attestation_a ev) = at_epoch (ev_attestation_b ev) \<and>
     at_target_hash (ev_attestation_a ev) \<noteq> at_target_hash (ev_attestation_b ev)"
  by (auto simp: check_slashing_evidence_def Let_def split: sum.splits)

text \<open>Outpoints and hashes have their fixed widths.\<close>

definition hash_fits :: "hash64 \<Rightarrow> bool" where
  "hash_fits h \<longleftrightarrow> length (as_bytes h) = HASH64_SIZE"

definition outpoint_fits :: "transaction_outpoint \<Rightarrow> bool" where
  "outpoint_fits op \<longleftrightarrow> hash_fits (op_transaction_id op) \<and> op_index op \<le> u32_max"

lemma to_le_inject: "a < 256 ^ k \<Longrightarrow> b < 256 ^ k \<Longrightarrow> to_le k a = to_le k b \<longleftrightarrow> a = b"
  by (metis from_le_to_le_exact)

lemma stake_attestation_preimage_inject:
  assumes eq: "stake_attestation_preimage n e h d v op = stake_attestation_preimage n e' h' d' v' op'"
    and "e \<le> u64_max" "e' \<le> u64_max" "d \<le> u64_max" "d' \<le> u64_max"
    and "hash_fits h" "hash_fits h'" "hash_fits v" "hash_fits v'" "outpoint_fits op" "outpoint_fits op'"
  shows "e = e' \<and> h = h' \<and> d = d' \<and> v = v' \<and> op = op'"
proof -
  have parts: "to_le 8 e = to_le 8 e'" "as_bytes h = as_bytes h'" "to_le 8 d = to_le 8 d'" "as_bytes v = as_bytes v'"
      "as_bytes (op_transaction_id op) = as_bytes (op_transaction_id op')" "to_le 4 (op_index op) = to_le 4 (op_index op')"
    using assms by (simp_all add: stake_attestation_preimage_def hash_fits_def outpoint_fits_def)
  have "op_index op = op_index op'"
    using parts(6) assms(10,11) by (subst (asm) to_le_inject) (simp_all add: outpoint_fits_def u32_max_def)
  then have "op = op'"
    using parts(5) by (cases op; cases op') (simp add: hash64.expand)
  moreover have "e = e'" "d = d'"
    using parts(1,3) assms(2-5) by (subst (asm) to_le_inject; simp add: u64_max_def)+
  ultimately show ?thesis
    using parts(2,4) by (simp add: hash64.expand)
qed

end
