(* ===== verification/Signing_Guard.thy ===== *)
theory Signing_Guard
  imports Dns_Payloads Dns_Epochs Utxo_Algebra
begin

text \<open>
  The equivocation guard of a validator: \<open>check_signed_epoch_record\<close> of
  \<open>consensus/core/src/dns_finality.rs\<close>, the persistent \<open>SignedEpochStore\<close> of
  \<open>kaspa-pq-validator-core\<close>, the attestation target of \<open>consensus/src/consensus/mod.rs\<close> and the guarded
  signing step \<open>guarded_build_funded\<close> of \<open>kaspad/src/validator_service.rs\<close>.

  The key is a record of its identity and its signing and checking functions; building the funded
  transaction and flushing the log can fail, which are arguments of the step. A flush that fails leaves the
  file as it was (it fails before the rename) while the record is already in memory.

  The step relation \<open>validator_step\<close> adds restarts, which reload the log from the file. The lemmas show by
  rule induction that what was broadcast is always recorded in the file, and that the file never disagrees
  with memory; hence no two broadcast attestations ever form slashing evidence.
\<close>

section \<open>The guard and its log\<close>

record signed_epoch_record =
  ser_epoch :: u64
  ser_target_hash :: hash64
  ser_target_daa_score :: u64
  ser_signature_fingerprint :: hash64

datatype signed_epoch_check_outcome = Allow | AllowRebroadcast | Block

definition check_signed_epoch_record ::
  "signed_epoch_record option \<Rightarrow> signed_epoch_record \<Rightarrow> signed_epoch_check_outcome" where
  "check_signed_epoch_record prev candidate =
     (case prev of
        None \<Rightarrow> Allow
      | Some p \<Rightarrow>
          if ser_target_hash p = ser_target_hash candidate \<and> ser_target_daa_score p = ser_target_daa_score candidate
          then AllowRebroadcast else Block)"

record signed_epoch_file =
  sf_validator_id :: hash64
  sf_bond_outpoint :: transaction_outpoint
  sf_records :: "(u64, signed_epoch_record) hashmap"

record signed_epoch_store =
  ses_validator_id :: hash64
  ses_bond_outpoint :: transaction_outpoint
  ses_records :: "(u64, signed_epoch_record) hashmap"

text \<open>\<open>load_or_empty\<close> on a missing file and on a readable file; a file of another validator is refused.\<close>

definition load_or_empty ::
  "signed_epoch_file option \<Rightarrow> hash64 \<Rightarrow> transaction_outpoint \<Rightarrow> signed_epoch_store option" where
  "load_or_empty file validator_id bond_outpoint =
     (case file of
        None \<Rightarrow> Some \<lparr>ses_validator_id = validator_id, ses_bond_outpoint = bond_outpoint, ses_records = []\<rparr>
      | Some f \<Rightarrow>
          if sf_validator_id f \<noteq> validator_id \<or> sf_bond_outpoint f \<noteq> bond_outpoint then None
          else Some \<lparr>ses_validator_id = validator_id, ses_bond_outpoint = bond_outpoint, ses_records = sf_records f\<rparr>)"

definition store_check :: "signed_epoch_store \<Rightarrow> signed_epoch_record \<Rightarrow> signed_epoch_check_outcome" where
  "store_check store candidate = check_signed_epoch_record (hm_get (ses_records store) (ser_epoch candidate)) candidate"

text \<open>\<open>record_and_flush\<close>: the new store, and the new file if the write succeeds.\<close>

definition record_and_flush ::
  "signed_epoch_store \<Rightarrow> signed_epoch_record \<Rightarrow> bool \<Rightarrow> signed_epoch_store \<times> signed_epoch_file option" where
  "record_and_flush store rec flush_ok =
     (let store' = store\<lparr>ses_records := hm_insert (ser_epoch rec) rec (ses_records store)\<rparr>
      in (store', if flush_ok
                  then Some \<lparr>sf_validator_id = ses_validator_id store', sf_bond_outpoint = ses_bond_outpoint store',
                             sf_records = ses_records store'\<rparr>
                  else None))"

section \<open>The guarded step\<close>

record validator_attestation_target =
  vt_epoch :: u64
  vt_target_hash :: hash64
  vt_target_daa_score :: u64
  vt_validator_set_commitment :: hash64
  vt_message :: bytes

definition build_attestation_target ::
  "dns_crypto \<Rightarrow> bytes \<Rightarrow> lagged_epoch_anchor \<Rightarrow> transaction_outpoint \<Rightarrow> validator_attestation_target" where
  "build_attestation_target cr genesis anchor bond_outpoint =
     \<lparr>vt_epoch = ca_epoch anchor, vt_target_hash = ca_anchor_hash anchor,
      vt_target_daa_score = ca_anchor_daa_score anchor, vt_validator_set_commitment = hash64_default,
      vt_message = stake_attestation_message cr genesis (ca_epoch anchor) (ca_anchor_hash anchor)
        (ca_anchor_daa_score anchor) hash64_default bond_outpoint\<rparr>"

record validator_key =
  vk_validator_id :: hash64
  vk_sign_attestation :: "bytes \<Rightarrow> bytes"
  vk_verify_attestation :: "bytes \<Rightarrow> bytes \<Rightarrow> bool"

text \<open>The signing step: the new store, the new file if one is written, and the attestation with the
  transaction that carries it, if one is returned for submission.\<close>

definition guarded_build_funded ::
  "dns_crypto \<Rightarrow> validator_key \<Rightarrow> transaction_outpoint \<Rightarrow> (stake_attestation_shard_payload \<Rightarrow> 'f \<Rightarrow> transaction option) \<Rightarrow>
   signed_epoch_store option \<Rightarrow> validator_attestation_target \<Rightarrow> 'f option \<Rightarrow> bool \<Rightarrow>
   signed_epoch_store option \<times> signed_epoch_file option \<times> (stake_attestation \<times> transaction) option" where
  "guarded_build_funded cr key bond_outpoint build store target funding flush_ok =
     (case store of
        None \<Rightarrow> (None, None, None)
      | Some st \<Rightarrow>
          (let candidate = \<lparr>ser_epoch = vt_epoch target, ser_target_hash = vt_target_hash target,
                 ser_target_daa_score = vt_target_daa_score target, ser_signature_fingerprint = hash64_default\<rparr>
           in case store_check st candidate of
                Block \<Rightarrow> (store, None, None)
              | AllowRebroadcast \<Rightarrow> (store, None, None)
              | Allow \<Rightarrow>
                  (case funding of
                     None \<Rightarrow> (store, None, None)
                   | Some f \<Rightarrow>
                       (let signature = vk_sign_attestation key (vt_message target)
                        in if \<not> vk_verify_attestation key (vt_message target) signature then (store, None, None)
                           else
                             (let att = \<lparr>at_version = DNS_PAYLOAD_VERSION_V1, at_validator_id = vk_validator_id key,
                                    at_bond_outpoint = bond_outpoint, at_epoch = vt_epoch target,
                                    at_target_hash = vt_target_hash target, at_target_daa_score = vt_target_daa_score target,
                                    at_validator_set_commitment = vt_validator_set_commitment target,
                                    at_signature = signature\<rparr>
                              in case build (single_attestation_shard att) f of
                                   None \<Rightarrow> (store, None, None)
                                 | Some tx \<Rightarrow>
                                     (case record_and_flush st
                                        (candidate\<lparr>ser_signature_fingerprint := signature_fingerprint cr signature\<rparr>) flush_ok of
                                        (st', None) \<Rightarrow> (Some st', None, None)
                                      | (st', Some file) \<Rightarrow> (Some st', Some file, Some (att, tx))))))))"

section \<open>Runs with restarts\<close>

record validator_process =
  vp_memory :: "signed_epoch_store option"
  vp_file :: "signed_epoch_file option"
  vp_broadcast :: "stake_attestation list"

definition opt_list :: "'a option \<Rightarrow> 'a list" where
  "opt_list x = (case x of None \<Rightarrow> [] | Some a \<Rightarrow> [a])"

inductive validator_step ::
  "dns_crypto \<Rightarrow> bytes \<Rightarrow> validator_key \<Rightarrow> transaction_outpoint \<Rightarrow>
   (stake_attestation_shard_payload \<Rightarrow> 'f \<Rightarrow> transaction option) \<Rightarrow> validator_process \<Rightarrow> validator_process \<Rightarrow> bool"
  for cr genesis key bond_outpoint build where
  tick: "guarded_build_funded cr key bond_outpoint build (vp_memory s)
           (build_attestation_target cr genesis anchor bond_outpoint) funding flush_ok = (memory, file, out) \<Longrightarrow>
         validator_step cr genesis key bond_outpoint build s
           \<lparr>vp_memory = memory, vp_file = (if file = None then vp_file s else file),
            vp_broadcast = vp_broadcast s @ map fst (opt_list out)\<rparr>"
| restart: "validator_step cr genesis key bond_outpoint build s
           (s\<lparr>vp_memory := load_or_empty (vp_file s) (vk_validator_id key) bond_outpoint\<rparr>)"

definition fresh_process :: "validator_key \<Rightarrow> transaction_outpoint \<Rightarrow> validator_process" where
  "fresh_process key bond_outpoint =
     \<lparr>vp_memory = load_or_empty None (vk_validator_id key) bond_outpoint, vp_file = None, vp_broadcast = []\<rparr>"

inductive validator_reachable ::
  "dns_crypto \<Rightarrow> bytes \<Rightarrow> validator_key \<Rightarrow> transaction_outpoint \<Rightarrow>
   (stake_attestation_shard_payload \<Rightarrow> 'f \<Rightarrow> transaction option) \<Rightarrow> validator_process \<Rightarrow> bool"
  for cr genesis key bond_outpoint build where
  fresh: "validator_reachable cr genesis key bond_outpoint build (fresh_process key bond_outpoint)"
| step: "validator_reachable cr genesis key bond_outpoint build s \<Longrightarrow>
         validator_step cr genesis key bond_outpoint build s t \<Longrightarrow>
         validator_reachable cr genesis key bond_outpoint build t"

definition file_records :: "signed_epoch_file option \<Rightarrow> (u64, signed_epoch_record) hashmap" where
  "file_records f = (case f of None \<Rightarrow> [] | Some f \<Rightarrow> sf_records f)"

text \<open>A broadcast attestation is recorded, and signed over the canonical message.\<close>

definition recorded ::
  "dns_crypto \<Rightarrow> bytes \<Rightarrow> transaction_outpoint \<Rightarrow> (u64, signed_epoch_record) hashmap \<Rightarrow> stake_attestation \<Rightarrow> bool" where
  "recorded cr genesis bond_outpoint recs a \<longleftrightarrow>
     (\<exists>r. hm_get recs (at_epoch a) = Some r \<and> ser_target_hash r = at_target_hash a \<and>
          ser_target_daa_score r = at_target_daa_score a) \<and>
     at_bond_outpoint a = bond_outpoint \<and> at_validator_set_commitment a = hash64_default"

definition process_ok ::
  "dns_crypto \<Rightarrow> bytes \<Rightarrow> validator_key \<Rightarrow> transaction_outpoint \<Rightarrow> validator_process \<Rightarrow> bool" where
  "process_ok cr genesis key bond_outpoint s \<longleftrightarrow>
     (\<forall>a\<in>set (vp_broadcast s). recorded cr genesis bond_outpoint (file_records (vp_file s)) a) \<and>
     (\<forall>f. vp_file s = Some f \<longrightarrow> sf_validator_id f = vk_validator_id key \<and> sf_bond_outpoint f = bond_outpoint) \<and>
     (\<forall>m. vp_memory s = Some m \<longrightarrow>
        ses_validator_id m = vk_validator_id key \<and> ses_bond_outpoint m = bond_outpoint \<and>
        (\<forall>e r. hm_get (file_records (vp_file s)) e = Some r \<longrightarrow> hm_get (ses_records m) e = Some r))"

section \<open>The invariant\<close>

lemma store_check_Allow: "store_check st c = Allow \<longleftrightarrow> hm_get (ses_records st) (ser_epoch c) = None"
  by (auto simp: store_check_def check_signed_epoch_record_def split: option.splits)

text \<open>A step changes nothing, or it records a new epoch, and it returns an attestation only for that record.\<close>

lemma guarded_build_funded_cases:
  assumes "guarded_build_funded cr key op build store target funding flush_ok = (memory, file, out)"
  obtains (idle) "memory = store" "file = None" "out = None"
  | (signed) st r where "store = Some st" "hm_get (ses_records st) (vt_epoch target) = None"
      "ser_epoch r = vt_epoch target" "ser_target_hash r = vt_target_hash target"
      "ser_target_daa_score r = vt_target_daa_score target"
      "memory = Some (st\<lparr>ses_records := hm_insert (vt_epoch target) r (ses_records st)\<rparr>)"
      "(file = None \<and> out = None) \<or>
       (file = Some \<lparr>sf_validator_id = ses_validator_id st, sf_bond_outpoint = ses_bond_outpoint st,
                     sf_records = hm_insert (vt_epoch target) r (ses_records st)\<rparr> \<and>
        (\<exists>a tx. out = Some (a, tx) \<and> at_epoch a = vt_epoch target \<and> at_target_hash a = vt_target_hash target \<and>
           at_target_daa_score a = vt_target_daa_score target \<and> at_bond_outpoint a = op \<and>
           at_validator_set_commitment a = vt_validator_set_commitment target))"
proof -
  let ?c = "\<lparr>ser_epoch = vt_epoch target, ser_target_hash = vt_target_hash target,
     ser_target_daa_score = vt_target_daa_score target, ser_signature_fingerprint = hash64_default\<rparr>"
  let ?sig = "vk_sign_attestation key (vt_message target)"
  let ?r = "?c\<lparr>ser_signature_fingerprint := signature_fingerprint cr ?sig\<rparr>"
  let ?att = "\<lparr>at_version = DNS_PAYLOAD_VERSION_V1, at_validator_id = vk_validator_id key, at_bond_outpoint = op,
     at_epoch = vt_epoch target, at_target_hash = vt_target_hash target, at_target_daa_score = vt_target_daa_score target,
     at_validator_set_commitment = vt_validator_set_commitment target, at_signature = ?sig\<rparr>"
  note unfold = guarded_build_funded_def Let_def
  show thesis
  proof (cases store)
    case None
    then show ?thesis
      using assms by (intro idle) (simp_all add: unfold)
  next
    case (Some st)
    show ?thesis
    proof (cases "store_check st ?c = Allow \<and> funding \<noteq> None \<and> vk_verify_attestation key (vt_message target) ?sig \<and>
        build (single_attestation_shard ?att) (the funding) \<noteq> None")
      case False
      then show ?thesis
        using assms Some by (intro idle) (auto simp: unfold split: signed_epoch_check_outcome.splits option.splits if_splits)
    next
      case True
      then obtain f tx where ftx: "funding = Some f" "build (single_attestation_shard ?att) f = Some tx"
        by auto
      have res: "(memory, file, out) = (case record_and_flush st ?r flush_ok of
          (st', None) \<Rightarrow> (Some st', None, None) | (st', Some fl) \<Rightarrow> (Some st', Some fl, Some (?att, tx)))"
        using assms Some True ftx by (simp add: unfold)
      show ?thesis
      proof (rule signed [OF Some, of ?r])
        show "hm_get (ses_records st) (vt_epoch target) = None"
          using True by (simp add: store_check_Allow)
      qed (use res in \<open>auto simp: record_and_flush_def Let_def split: if_splits\<close>)
    qed
  qed
qed

lemma process_ok_fresh: "process_ok cr genesis key op (fresh_process key op)"
  by (simp add: process_ok_def fresh_process_def load_or_empty_def file_records_def hm_get_def)

lemma process_ok_restart:
  assumes "process_ok cr genesis key op s"
  shows "process_ok cr genesis key op (s\<lparr>vp_memory := load_or_empty (vp_file s) (vk_validator_id key) op\<rparr>)"
  using assms by (auto simp: process_ok_def load_or_empty_def file_records_def split: option.splits)

lemma recorded_mono:
  "recorded cr g op recs a \<Longrightarrow> (\<And>e r. hm_get recs e = Some r \<Longrightarrow> hm_get recs' e = Some r) \<Longrightarrow> recorded cr g op recs' a"
  by (auto simp: recorded_def)

lemma process_ok_tick:
  assumes ok: "process_ok cr genesis key op s"
    and g: "guarded_build_funded cr key op build (vp_memory s) (build_attestation_target cr genesis anchor op) funding flush_ok
        = (memory, file, out)"
  shows "process_ok cr genesis key op
    \<lparr>vp_memory = memory, vp_file = (if file = None then vp_file s else file),
     vp_broadcast = vp_broadcast s @ map fst (opt_list out)\<rparr>"
  using g
proof (cases rule: guarded_build_funded_cases)
  case idle
  then show ?thesis
    using ok by (simp add: process_ok_def opt_list_def)
next
  case (signed st r)
  let ?recs = "hm_insert (ca_epoch anchor) r (ses_records st)"
  have new: "hm_get (ses_records st) (ca_epoch anchor) = None"
    using signed(2) by (simp add: build_attestation_target_def)
  have mem: "hm_get (ses_records st) e = Some q" if "hm_get (file_records (vp_file s)) e = Some q" for e q
    using ok signed(1) that by (auto simp: process_ok_def)
  have ext: "hm_get ?recs e = Some q" if "hm_get (ses_records st) e = Some q" for e q
    using that new by (cases "e = ca_epoch anchor") auto
  have old: "recorded cr genesis op ?recs a" if "a \<in> set (vp_broadcast s)" for a
    using ok that ext mem by (auto simp: process_ok_def intro: recorded_mono)
  have ids: "ses_validator_id st = vk_validator_id key" "ses_bond_outpoint st = op"
    using ok signed(1) by (auto simp: process_ok_def)
  show ?thesis
    using signed ok old ids ext mem
    by (auto simp: process_ok_def opt_list_def file_records_def build_attestation_target_def recorded_def)
qed

lemma process_ok_reachable: "validator_reachable cr genesis key op build s \<Longrightarrow> process_ok cr genesis key op s"
proof (induction rule: validator_reachable.induct)
  case fresh
  then show ?case by (rule process_ok_fresh)
next
  case (step s t)
  from step.hyps(2) show ?case
  proof cases
    case (tick anchor funding flush_ok memory fl out)
    then show ?thesis
      using process_ok_tick [OF step.IH tick(2)] by simp
  next
    case restart
    then show ?thesis
      using process_ok_restart [OF step.IH] by simp
  qed
qed

text \<open>No two broadcast attestations of one epoch approve different anchors.\<close>

lemma broadcast_agree:
  assumes "validator_reachable cr genesis key op build s" and "a \<in> set (vp_broadcast s)" and "b \<in> set (vp_broadcast s)"
    and "at_epoch a = at_epoch b"
  shows "at_target_hash a = at_target_hash b \<and> at_target_daa_score a = at_target_daa_score b"
proof -
  have "recorded cr genesis op (file_records (vp_file s)) x" if "x \<in> {a, b}" for x
    using process_ok_reachable [OF assms(1)] assms(2,3) that by (auto simp: process_ok_def)
  then have "recorded cr genesis op (file_records (vp_file s)) a" "recorded cr genesis op (file_records (vp_file s)) b"
    by simp_all
  then show ?thesis
    using assms(4) by (auto simp: recorded_def)
qed

section \<open>Properties\<close>

text \<open>C22. A guarded validator never equivocates: over any run of signing steps and restarts, with failing
  builds, failing flushes and any sequence of anchors, no two attestations it has broadcast form valid
  slashing evidence, whatever else the evidence payload contains.\<close>

theorem guarded_validator_never_equivocates:
  assumes "validator_reachable cr genesis key bond_outpoint build s"
    and "ev_attestation_a ev \<in> set (vp_broadcast s)" and "ev_attestation_b ev \<in> set (vp_broadcast s)"
  shows "check_slashing_evidence ev \<noteq> Inr ()"
proof
  assume "check_slashing_evidence ev = Inr ()"
  then have "at_epoch (ev_attestation_a ev) = at_epoch (ev_attestation_b ev)"
      "at_target_hash (ev_attestation_a ev) \<noteq> at_target_hash (ev_attestation_b ev)"
    by (simp_all add: slashing_evidence_iff)
  then show False
    using broadcast_agree [OF assms] by simp
qed

definition sample_crypto :: dns_crypto where
  "sample_crypto = \<lparr>cr_blake2b_256 = (\<lambda>k m. k @ m), cr_blake2b_512 = (\<lambda>m. Hash64 (take 64 m)),
     cr_verify_mldsa87 = (\<lambda>pk d sig ctx. sig = replicate STAKE_ATTESTATION_SIG_LEN 7)\<rparr>"

definition sample_key :: validator_key where
  "sample_key = \<lparr>vk_validator_id = sample_hash 5, vk_sign_attestation = (\<lambda>_. replicate STAKE_ATTESTATION_SIG_LEN 7),
     vk_verify_attestation = (\<lambda>_ _. True)\<rparr>"

definition sample_anchor :: "u8 \<Rightarrow> lagged_epoch_anchor" where
  "sample_anchor b = \<lparr>ca_epoch = 3, ca_epoch_start_blue_score = 30, ca_epoch_end_blue_score = 39, ca_cutoff_blue_score = 37,
     ca_anchor_hash = sample_hash b, ca_anchor_blue_score = 36, ca_anchor_daa_score = 40,
     ca_duplicate_of_previous_anchor = False\<rparr>"

definition sample_build :: "stake_attestation_shard_payload \<Rightarrow> unit \<Rightarrow> transaction option" where
  "sample_build shard _ = Some (vt_tx sample_tx)"

definition sample_broadcast :: stake_attestation where
  "sample_broadcast = \<lparr>at_version = DNS_PAYLOAD_VERSION_V1, at_validator_id = sample_hash 5, at_bond_outpoint = sample_outpoint 0,
     at_epoch = 3, at_target_hash = sample_hash 1, at_target_daa_score = 40, at_validator_set_commitment = hash64_default,
     at_signature = replicate STAKE_ATTESTATION_SIG_LEN 7\<rparr>"

lemma sample_validator_run:
  "\<exists>s. validator_reachable cr genesis sample_key (sample_outpoint 0) sample_build s \<and> vp_broadcast s = [sample_broadcast]"
proof -
  obtain memory fl out where g: "guarded_build_funded cr sample_key (sample_outpoint 0) sample_build
      (vp_memory (fresh_process sample_key (sample_outpoint 0)))
      (build_attestation_target cr genesis (sample_anchor 1) (sample_outpoint 0)) (Some ()) True = (memory, fl, out)"
    by (metis prod.exhaust)
  have "map fst (opt_list out) = [sample_broadcast]"
    using g by (auto simp: guarded_build_funded_def fresh_process_def load_or_empty_def store_check_def hm_get_def
        check_signed_epoch_record_def sample_key_def sample_build_def record_and_flush_def opt_list_def Let_def
        build_attestation_target_def sample_anchor_def sample_broadcast_def)
  then show ?thesis
    using validator_reachable.step [OF validator_reachable.fresh validator_step.tick [OF g]]
    by (auto simp: fresh_process_def intro!: exI conjI)
qed

theorem guarded_validator_never_equivocates_witness:
  "\<exists>s. validator_reachable sample_crypto [] sample_key (sample_outpoint 0) sample_build s \<and>
     sample_broadcast \<in> set (vp_broadcast s) \<and>
     check_slashing_evidence \<lparr>ev_version = 1, ev_bond_outpoint = sample_outpoint 0, ev_attestation_a = sample_broadcast,
       ev_attestation_b = sample_broadcast, ev_reporter_reward_spk_payload = []\<rparr> \<noteq> Inr ()"
proof -
  obtain s where s: "validator_reachable sample_crypto [] sample_key (sample_outpoint 0) sample_build s"
      "vp_broadcast s = [sample_broadcast]"
    using sample_validator_run by blast
  then show ?thesis
    using guarded_validator_never_equivocates [OF s(1), of "\<lparr>ev_version = 1, ev_bond_outpoint = sample_outpoint 0,
        ev_attestation_a = sample_broadcast, ev_attestation_b = sample_broadcast, ev_reporter_reward_spk_payload = []\<rparr>"]
    by auto
qed

text \<open>The guard does not block honest work: with a log that has no record of the epoch, a key that verifies its
  own signature, a funding output, a buildable transaction and a successful flush, the step returns an
  attestation of exactly the target, signed by the key, and from then on no step signs that epoch again.\<close>

theorem guarded_signing_succeeds_once:
  assumes "hm_get (ses_records st) (vt_epoch target) = None"
    and "vk_verify_attestation key (vt_message target) (vk_sign_attestation key (vt_message target))"
    and "\<And>shard. build shard f \<noteq> None"
  shows "\<exists>st' file att tx. guarded_build_funded cr key op build (Some st) target (Some f) True =
      (Some st', Some file, Some (att, tx)) \<and>
    at_epoch att = vt_epoch target \<and> at_target_hash att = vt_target_hash target \<and>
    at_target_daa_score att = vt_target_daa_score target \<and> at_bond_outpoint att = op \<and>
    at_signature att = vk_sign_attestation key (vt_message target) \<and> sf_records file = ses_records st' \<and>
    (\<forall>target' funding flush_ok. vt_epoch target' = vt_epoch target \<longrightarrow>
       guarded_build_funded cr key op build (Some st') target' funding flush_ok = (Some st', None, None))"
proof -
  define r where "r = \<lparr>ser_epoch = vt_epoch target, ser_target_hash = vt_target_hash target,
     ser_target_daa_score = vt_target_daa_score target,
     ser_signature_fingerprint = signature_fingerprint cr (vk_sign_attestation key (vt_message target))\<rparr>"
  define st' where "st' = st\<lparr>ses_records := hm_insert (vt_epoch target) r (ses_records st)\<rparr>"
  define att where "att = \<lparr>at_version = DNS_PAYLOAD_VERSION_V1, at_validator_id = vk_validator_id key, at_bond_outpoint = op,
     at_epoch = vt_epoch target, at_target_hash = vt_target_hash target, at_target_daa_score = vt_target_daa_score target,
     at_validator_set_commitment = vt_validator_set_commitment target,
     at_signature = vk_sign_attestation key (vt_message target)\<rparr>"
  obtain tx where tx: "build (single_attestation_shard att) f = Some tx"
    using assms(3) by blast
  have run: "guarded_build_funded cr key op build (Some st) target (Some f) True =
      (Some st', Some \<lparr>sf_validator_id = ses_validator_id st', sf_bond_outpoint = ses_bond_outpoint st',
        sf_records = ses_records st'\<rparr>, Some (att, tx))"
    using assms(1,2) tx by (simp add: guarded_build_funded_def store_check_def check_signed_epoch_record_def Let_def
        record_and_flush_def r_def st'_def att_def)
  have once: "guarded_build_funded cr key op build (Some st') target' funding flush_ok = (Some st', None, None)"
    if "vt_epoch target' = vt_epoch target" for target' funding flush_ok
    using that by (simp add: guarded_build_funded_def store_check_def check_signed_epoch_record_def Let_def st'_def)
  show ?thesis
    by (intro exI [of _ st'] exI conjI, rule run) (simp_all add: att_def once)
qed

section \<open>A failed flush is not retried\<close>

text \<open>
  The comment in \<open>guarded_build_funded\<close> says that after a failed flush the next tick retries. The record is
  inserted in memory before the file is written, so the next tick finds it and reports a rebroadcast: until
  the process restarts, the epoch is never attested.
\<close>

theorem failed_flush_is_not_retried:
  assumes "hm_get (ses_records st) (vt_epoch target) = None"
    and "vk_verify_attestation key (vt_message target) (vk_sign_attestation key (vt_message target))"
    and "\<And>shard. build shard f \<noteq> None"
  shows "\<exists>st'. guarded_build_funded cr key op build (Some st) target (Some f) False = (Some st', None, None) \<and>
    guarded_build_funded cr key op build (Some st') target (Some f) True = (Some st', None, None)"
proof -
  obtain tx where tx: "build (single_attestation_shard \<lparr>at_version = DNS_PAYLOAD_VERSION_V1,
      at_validator_id = vk_validator_id key, at_bond_outpoint = op, at_epoch = vt_epoch target,
      at_target_hash = vt_target_hash target, at_target_daa_score = vt_target_daa_score target,
      at_validator_set_commitment = vt_validator_set_commitment target,
      at_signature = vk_sign_attestation key (vt_message target)\<rparr>) f = Some tx"
    using assms(3) by blast
  let ?r = "\<lparr>ser_epoch = vt_epoch target, ser_target_hash = vt_target_hash target,
     ser_target_daa_score = vt_target_daa_score target,
     ser_signature_fingerprint = signature_fingerprint cr (vk_sign_attestation key (vt_message target))\<rparr>"
  show ?thesis
    using assms(1,2) tx
    by (intro exI [of _ "st\<lparr>ses_records := hm_insert (vt_epoch target) ?r (ses_records st)\<rparr>"] conjI)
      (simp_all add: guarded_build_funded_def store_check_def check_signed_epoch_record_def Let_def record_and_flush_def)
qed

end
