(* ===== verification/Bond_Gates.thy ===== *)
theory Bond_Gates
  imports Dns_Accumulator Dns_Payloads Utxo_Algebra
begin

text \<open>
  The stateful rules of the overlay in \<open>pipeline/virtual_processor/utxo_validation.rs\<close>: eligibility of
  attestations for a block and for a template, genuineness of slashing evidence, the lock on a bond's
  output, authorisation of unbond requests, and the application of slashing effects to the UTXO state.

  The signature scheme and the hash functions are the parameter \<open>dns_crypto\<close>, the decoders the parameter
  \<open>dns_codec\<close>. The running multiset hash is represented by the sequence of operations performed on it. An
  \<open>expect\<close> that fails is \<open>None\<close>.

  The lemmas relate the rules to each other: the mergeset filter and the block gate lock the same spends,
  a template built by the classifier passes the block rule, evidence that passes the genuineness rule is
  resolved to a slash, and the application of the resolved effects never fails and keeps the multiset hash
  in step with the view.
\<close>

section \<open>Reading the overlay transactions\<close>

definition attestations_from_accepted_txs :: "dns_codec \<Rightarrow> transaction list \<Rightarrow> stake_attestation list" where
  "attestations_from_accepted_txs codec txs =
     concat (map (\<lambda>tx. if dns_tx_kind (tx_subnetwork_id tx) = Some StakeAttestationShard
                       then (case dec_shard codec (tx_payload tx) of Some shard \<Rightarrow> sh_attestations shard | None \<Rightarrow> [])
                       else []) txs)"

definition decode_attestation_shard :: "dns_codec \<Rightarrow> transaction \<Rightarrow> stake_attestation_shard_payload option" where
  "decode_attestation_shard codec tx =
     (if dns_tx_kind (tx_subnetwork_id tx) \<noteq> Some StakeAttestationShard then None else dec_shard codec (tx_payload tx))"

definition unbond_requests_from_accepted_txs ::
  "dns_codec \<Rightarrow> transaction list \<Rightarrow> (hash64 \<times> stake_unbond_request_payload) list" where
  "unbond_requests_from_accepted_txs codec txs =
     List.map_filter (\<lambda>tx. if dns_tx_kind (tx_subnetwork_id tx) = Some StakeUnbond
                           then map_option (Pair (tx_id tx)) (dec_unbond codec (tx_payload tx)) else None) txs"

definition slashing_evidence_from_accepted_txs ::
  "dns_codec \<Rightarrow> transaction list \<Rightarrow> slashing_evidence_payload list" where
  "slashing_evidence_from_accepted_txs codec txs =
     List.map_filter (\<lambda>tx. if dns_tx_kind (tx_subnetwork_id tx) \<noteq> Some SlashingEvidence then None
                           else dec_evidence codec (tx_payload tx)) txs"

section \<open>Attestations\<close>

datatype attestation_drop_reason = BondNotActiveAtTarget | ValidatorIdMismatch | BadSignature | MalformedPayload

datatype attestation_template_drop_kind = Terminal | Quarantine

fun template_drop_kind :: "attestation_drop_reason \<Rightarrow> attestation_template_drop_kind" where
  "template_drop_kind MalformedPayload = Terminal"
| "template_drop_kind ValidatorIdMismatch = Terminal"
| "template_drop_kind BadSignature = Terminal"
| "template_drop_kind BondNotActiveAtTarget = Quarantine"

datatype attestation_shard_decision =
    KeepNonShard
  | KeepEligible (attestation_count: usize)
  | Drop (drop_reason: attestation_drop_reason) (drop_bond: transaction_outpoint) (drop_epoch: u64)

definition attestation_signature_ok :: "dns_crypto \<Rightarrow> stake_bond_record \<Rightarrow> hash64 \<Rightarrow> stake_attestation \<Rightarrow> bool" where
  "attestation_signature_ok cr bond net_id att =
     cr_verify_mldsa87 cr (br_validator_pubkey bond)
       (stake_attestation_message cr (as_bytes net_id) (at_epoch att) (at_target_hash att) (at_target_daa_score att)
          (at_validator_set_commitment att) (at_bond_outpoint att))
       (at_signature att) ATTESTATION_MLDSA87_CONTEXT"

definition classify_one_attestation ::
  "dns_crypto \<Rightarrow> stake_attestation \<Rightarrow> active_bond_view \<Rightarrow> hash64 \<Rightarrow> attestation_drop_reason + unit" where
  "classify_one_attestation cr att bond_view net_id =
     (case active_or_dormant_bond_at bond_view (at_bond_outpoint att) (at_target_daa_score att) of
        None \<Rightarrow> Inl BondNotActiveAtTarget
      | Some bond \<Rightarrow>
          if at_validator_id att \<noteq> br_validator_pubkey_hash bond then Inl ValidatorIdMismatch
          else if \<not> attestation_signature_ok cr bond net_id att then Inl BadSignature
          else Inr ())"

fun classify_attestations ::
  "dns_crypto \<Rightarrow> active_bond_view \<Rightarrow> hash64 \<Rightarrow> stake_attestation list \<Rightarrow> (attestation_drop_reason \<times> stake_attestation) + unit" where
  "classify_attestations cr bond_view net_id [] = Inr ()"
| "classify_attestations cr bond_view net_id (att # atts) =
     (case classify_one_attestation cr att bond_view net_id of
        Inl reason \<Rightarrow> Inl (reason, att)
      | Inr _ \<Rightarrow> classify_attestations cr bond_view net_id atts)"

definition classify_attestation_shard_for_template ::
  "dns_codec \<Rightarrow> dns_crypto \<Rightarrow> transaction \<Rightarrow> active_bond_view \<Rightarrow> hash64 \<Rightarrow> bool \<Rightarrow> attestation_shard_decision" where
  "classify_attestation_shard_for_template codec cr tx bond_view net_id activated =
     (if \<not> activated \<or> tx_subnetwork_id tx \<noteq> SUBNETWORK_ID_STAKE_ATTESTATION_SHARD then KeepNonShard
      else case decode_attestation_shard codec tx of
        None \<Rightarrow> Drop MalformedPayload (outpoint (tx_id tx) 0) 0
      | Some shard \<Rightarrow>
          (case classify_attestations cr bond_view net_id (sh_attestations shard) of
             Inl (reason, att) \<Rightarrow> Drop reason (at_bond_outpoint att) (at_epoch att)
           | Inr _ \<Rightarrow> KeepEligible (length (sh_attestations shard))))"

definition attestation_reward_eligibility ::
  "dns_codec \<Rightarrow> dns_crypto \<Rightarrow> transaction list \<Rightarrow> active_bond_view \<Rightarrow> hash64 \<Rightarrow> bool \<Rightarrow> (hash64 \<times> u64) + unit" where
  "attestation_reward_eligibility codec cr txs bond_view net_id activated =
     (if \<not> activated then Inr ()
      else case classify_attestations cr bond_view net_id (attestations_from_accepted_txs codec txs) of
        Inl (_, att) \<Rightarrow> Inl (op_transaction_id (at_bond_outpoint att), at_epoch att)
      | Inr _ \<Rightarrow> Inr ())"

section \<open>Slashing evidence\<close>

definition evidence_attestation_ok ::
  "dns_crypto \<Rightarrow> stake_bond_record \<Rightarrow> hash64 \<Rightarrow> stake_attestation \<Rightarrow> bool" where
  "evidence_attestation_ok cr bond net_id att \<longleftrightarrow>
     at_validator_id att = br_validator_pubkey_hash bond \<and>
     effective_bond_status bond (at_target_daa_score att) \<in> {Active, Unbonding} \<and>
     attestation_signature_ok cr bond net_id att"

definition check_one_evidence ::
  "dns_crypto \<Rightarrow> active_bond_view \<Rightarrow> hash64 \<Rightarrow> u64 \<Rightarrow> u64 \<Rightarrow> slashing_evidence_payload \<Rightarrow> hash64 + unit" where
  "check_one_evidence cr bond_view net_id including_daa evidence_window ev =
     (let err = Inl (op_transaction_id (ev_bond_outpoint ev))
      in case hm_get bond_view (ev_bond_outpoint ev) of
           None \<Rightarrow> err
         | Some bond \<Rightarrow>
             if effective_bond_status bond including_daa \<notin> {Active, Unbonding} then err
             else
               (let newest = max (at_target_daa_score (ev_attestation_a ev)) (at_target_daa_score (ev_attestation_b ev))
                in if evidence_window < including_daa - newest then err
                   else if \<not> evidence_attestation_ok cr bond net_id (ev_attestation_a ev) then err
                   else if \<not> evidence_attestation_ok cr bond net_id (ev_attestation_b ev) then err
                   else Inr ()))"

definition slashing_evidence_genuine ::
  "dns_codec \<Rightarrow> dns_crypto \<Rightarrow> transaction list \<Rightarrow> active_bond_view \<Rightarrow> hash64 \<Rightarrow> u64 \<Rightarrow> u64 \<Rightarrow> bool \<Rightarrow> hash64 + unit" where
  "slashing_evidence_genuine codec cr txs bond_view net_id including_daa evidence_window activated =
     (if \<not> activated then Inr ()
      else fold_res (\<lambda>ev _. check_one_evidence cr bond_view net_id including_daa evidence_window ev)
             (slashing_evidence_from_accepted_txs codec txs) ())"

section \<open>The spend gate\<close>

definition releasable :: "stake_bond_record \<Rightarrow> u64 \<Rightarrow> bool" where
  "releasable bond daa_score \<longleftrightarrow>
     effective_bond_status bond daa_score = Unbonding \<and>
     (case bond_release_daa_score bond of None \<Rightarrow> False | Some release \<Rightarrow> release \<le> daa_score)"

definition locks :: "active_bond_view \<Rightarrow> u64 \<Rightarrow> transaction_outpoint \<Rightarrow> bool" where
  "locks bond_view daa_score op =
     (case hm_get bond_view op of None \<Rightarrow> False | Some bond \<Rightarrow> \<not> releasable bond daa_score)"

definition check_input :: "active_bond_view \<Rightarrow> u64 \<Rightarrow> hash64 \<Rightarrow> transaction_input \<Rightarrow> (hash64 \<times> transaction_outpoint) + unit" where
  "check_input bond_view daa_score txid input =
     (case hm_get bond_view (in_previous_outpoint input) of
        None \<Rightarrow> Inr ()
      | Some bond \<Rightarrow> if \<not> releasable bond daa_score then Inl (txid, in_previous_outpoint input) else Inr ())"

definition bond_spend_gate ::
  "transaction list \<Rightarrow> active_bond_view \<Rightarrow> u64 \<Rightarrow> bool \<Rightarrow> (hash64 \<times> transaction_outpoint) + unit" where
  "bond_spend_gate txs bond_view daa_score activated =
     (if \<not> activated then Inr ()
      else fold_res (\<lambda>tx _. fold_res (\<lambda>input _. check_input bond_view daa_score (tx_id tx) input) (tx_inputs tx) ()) txs ())"

section \<open>Unbond requests\<close>

definition check_unbond ::
  "dns_crypto \<Rightarrow> active_bond_view \<Rightarrow> bytes \<Rightarrow> u64 \<Rightarrow> hash64 \<times> stake_unbond_request_payload \<Rightarrow>
   (hash64 \<times> transaction_outpoint) + unit" where
  "check_unbond cr bond_view net_id daa_score = (\<lambda>(txid, req).
     let err = Inl (txid, ub_bond_outpoint req)
     in case hm_get bond_view (ub_bond_outpoint req) of
          None \<Rightarrow> err
        | Some bond \<Rightarrow>
            if effective_bond_status bond daa_score \<notin> {Pending, Active} then err
            else if validator_id_from_pubkey cr (ub_owner_pubkey req) \<noteq> br_owner_pubkey_hash bond then err
            else if \<not> cr_verify_mldsa87 cr (ub_owner_pubkey req) (unbond_request_message cr net_id (ub_bond_outpoint req))
                        (ub_signature req) UNBOND_REQUEST_CONTEXT then err
            else Inr ())"

definition unbond_request_authorized ::
  "dns_codec \<Rightarrow> dns_crypto \<Rightarrow> transaction list \<Rightarrow> active_bond_view \<Rightarrow> bytes \<Rightarrow> u64 \<Rightarrow> bool \<Rightarrow>
   (hash64 \<times> transaction_outpoint) + unit" where
  "unbond_request_authorized codec cr txs bond_view net_id daa_score activated =
     (if \<not> activated then Inr ()
      else fold_res (\<lambda>r _. check_unbond cr bond_view net_id daa_score r) (unbond_requests_from_accepted_txs codec txs) ())"

section \<open>Applying slashes\<close>

datatype muhash_op = RemoveUtxo transaction_outpoint utxo_entry | AddUtxo transaction_outpoint utxo_entry

type_synonym slash_state = "utxo_diff \<times> muhash_op list"

definition mint_entry :: "u64 \<Rightarrow> transaction_output \<Rightarrow> utxo_entry" where
  "mint_entry daa_score out =
     \<lparr>ue_amount = out_value out, ue_script_public_key = out_script_public_key out,
      ue_block_daa_score = daa_score, ue_is_coinbase = False\<rparr>"

text \<open>What an effect mints: the reporter reward at index 0, the victims from index 2 on.\<close>

definition effect_mints :: "u64 \<Rightarrow> slashing_side_effect \<Rightarrow> (transaction_outpoint \<times> utxo_entry) list" where
  "effect_mints daa_score e =
     (case se_reporter_output e of None \<Rightarrow> [] | Some out \<Rightarrow> [(outpoint (se_slashing_tx_id e) 0, mint_entry daa_score out)]) @
     map (\<lambda>(i, out). (outpoint (se_slashing_tx_id e) (2 + i mod 2 ^ 32), mint_entry daa_score out))
       (enumerate 0 (se_victim_outputs e))"

fun mint_all :: "(transaction_outpoint \<times> utxo_entry) list \<Rightarrow> slash_state \<Rightarrow> slash_state option" where
  "mint_all [] st = Some st"
| "mint_all ((p, entry) # mints) (diff, log) =
     (case add_entry p entry diff of Inl _ \<Rightarrow> None | Inr diff' \<Rightarrow> mint_all mints (diff', log @ [AddUtxo p entry]))"

fun apply_slashing_effects_to_state ::
  "slashing_side_effect list \<Rightarrow> utxo_view \<Rightarrow> u64 \<Rightarrow> slash_state \<Rightarrow> slash_state option" where
  "apply_slashing_effects_to_state [] V mint_daa_score st = Some st"
| "apply_slashing_effects_to_state (e # es) V mint_daa_score (diff, log) =
     (case composed_get V diff (se_bond_outpoint e) of
        None \<Rightarrow> apply_slashing_effects_to_state es V mint_daa_score (diff, log)
      | Some entry \<Rightarrow>
          (case remove_entry (se_bond_outpoint e) entry diff of
             Inl _ \<Rightarrow> None
           | Inr diff' \<Rightarrow>
               (case mint_all (effect_mints mint_daa_score e) (diff', log @ [RemoveUtxo (se_bond_outpoint e) entry]) of
                  None \<Rightarrow> None
                | Some st \<Rightarrow> apply_slashing_effects_to_state es V mint_daa_score st)))"

text \<open>The effects of a block: resolved against the selected-parent view, with the victim outputs filled in.\<close>

definition fill_victims ::
  "dns_params \<Rightarrow> u64 \<Rightarrow> block_epoch_contribution list \<Rightarrow> active_bond_view \<Rightarrow> slashing_side_effect \<Rightarrow> slashing_side_effect" where
  "fill_victims p parent_daa contributions bond_view e =
     (if se_victim_epoch_pool_sompi e = 0 then e
      else e\<lparr>se_victim_outputs :=
        slashed_epoch_victim_outputs p parent_daa contributions bond_view (se_slashed_epoch e)
          (map_option br_owner_reward_spk_payload (hm_get bond_view (se_bond_outpoint e)))
          (se_victim_epoch_pool_sompi e)\<rparr>)"

definition slashing_effects_of_block ::
  "dns_codec \<Rightarrow> dns_params \<Rightarrow> transaction list \<Rightarrow> u64 \<Rightarrow> u64 \<Rightarrow> block_epoch_contribution list \<Rightarrow> active_bond_view \<Rightarrow>
   slashing_side_effect list" where
  "slashing_effects_of_block codec p accepted_txs pov_daa_score parent_daa contributions bond_view =
     (let v2 = dp_pos_v2_activation_daa_score p \<le> pov_daa_score;
          reserve_bps = (if v2 then rp_security_reserve_bps (dp_reward_params p) else 0);
          victim_bps = (if v2 then rp_victim_epoch_pool_bps (dp_reward_params p) else 0)
      in map (fill_victims p parent_daa contributions bond_view)
           (resolve_slashing_side_effects codec accepted_txs bond_view pov_daa_score
              (rp_slashing_reporter_reward_bps (dp_reward_params p)) reserve_bps victim_bps))"

definition reserve_accrual_of :: "slashing_side_effect list \<Rightarrow> u64" where
  "reserve_accrual_of effects = fold (\<lambda>e acc. sat_add64 acc (se_security_reserve_sompi e)) effects 0"

text \<open>\<open>apply_slashing_side_effects\<close>: the new state and the reserve accrual of the block.\<close>

definition apply_slashing_side_effects ::
  "dns_codec \<Rightarrow> dns_params option \<Rightarrow> utxo_view \<Rightarrow> transaction list \<Rightarrow> u64 \<Rightarrow> u64 \<Rightarrow> block_epoch_contribution list \<Rightarrow>
   active_bond_view \<Rightarrow> slash_state \<times> u64 \<Rightarrow> (slash_state \<times> u64) option" where
  "apply_slashing_side_effects codec params V accepted_txs pov_daa_score parent_daa contributions bond_view = (\<lambda>(st, accrual).
     case params of
       None \<Rightarrow> Some (st, accrual)
     | Some p \<Rightarrow>
         if pov_daa_score < dp_dns_activation_daa_score p then Some (st, accrual)
         else
           (let effects = slashing_effects_of_block codec p accepted_txs pov_daa_score parent_daa contributions bond_view
            in map_option (\<lambda>st'. (st', reserve_accrual_of effects))
                 (apply_slashing_effects_to_state effects V pov_daa_score st)))"

section \<open>What the rules accept\<close>

lemma fold_res_unit: "fold_res f xs () = Inr () \<longleftrightarrow> (\<forall>x\<in>set xs. f x () = Inr ())"
  by (induction xs) (auto split: sum.splits)

lemma fold_res_unit_Inl: "fold_res f xs () = Inl e \<Longrightarrow> \<exists>x\<in>set xs. f x () = Inl e"
  by (induction xs) (auto split: sum.splits)

lemma dns_tx_kind_shard: "dns_tx_kind s = Some StakeAttestationShard \<longleftrightarrow> s = SUBNETWORK_ID_STAKE_ATTESTATION_SHARD"
proof
  show "dns_tx_kind s = Some StakeAttestationShard \<Longrightarrow> s = SUBNETWORK_ID_STAKE_ATTESTATION_SHARD"
    by (simp add: dns_tx_kind_def split: if_splits)
qed simp

lemma classify_attestations_iff:
  "classify_attestations cr v net atts = Inr () \<longleftrightarrow> (\<forall>att\<in>set atts. classify_one_attestation cr att v net = Inr ())"
  by (induction atts) (auto split: sum.splits)

lemma eligibility_iff:
  "attestation_reward_eligibility codec cr txs v net activated = Inr () \<longleftrightarrow>
     (activated \<longrightarrow> (\<forall>att\<in>set (attestations_from_accepted_txs codec txs). classify_one_attestation cr att v net = Inr ()))"
  by (auto simp: attestation_reward_eligibility_def classify_attestations_iff [symmetric] split: sum.splits)

lemma check_input_iff:
  "check_input v daa txid i = Inr () \<longleftrightarrow> \<not> locks v daa (in_previous_outpoint i)"
  by (auto simp: check_input_def locks_def split: option.splits)

lemma check_input_Inl:
  "check_input v daa txid i = Inl (t, op) \<Longrightarrow> t = txid \<and> op = in_previous_outpoint i \<and> locks v daa op"
  by (auto simp: check_input_def locks_def split: option.splits if_splits)

lemma releasable_iff:
  assumes "\<And>u. br_unbond_request_daa_score bond = Some u \<Longrightarrow> u \<le> u64_max"
  shows "releasable bond daa \<longleftrightarrow> \<not> reached (br_slashed_at_daa_score bond) daa \<and>
    (\<exists>u. br_unbond_request_daa_score bond = Some u \<and> sat_add64 u (br_unbonding_period_blocks bond) \<le> daa)"
proof (cases "br_unbond_request_daa_score bond")
  case (Some u)
  have "u \<le> sat_add64 u (br_unbonding_period_blocks bond)"
    using assms [OF Some] by (simp add: sat_add_def)
  then show ?thesis
    using Some by (auto simp: releasable_def effective_bond_status_def bond_release_daa_score_def reached_def split: option.splits)
qed (simp add: releasable_def bond_release_daa_score_def)

lemma check_one_evidence_iff:
  "check_one_evidence cr v net daa win ev = Inr () \<longleftrightarrow>
     (\<exists>bond. hm_get v (ev_bond_outpoint ev) = Some bond \<and> effective_bond_status bond daa \<in> {Active, Unbonding} \<and>
        daa - max (at_target_daa_score (ev_attestation_a ev)) (at_target_daa_score (ev_attestation_b ev)) \<le> win \<and>
        evidence_attestation_ok cr bond net (ev_attestation_a ev) \<and> evidence_attestation_ok cr bond net (ev_attestation_b ev))"
  by (auto simp: check_one_evidence_def Let_def split: option.splits)

lemma genuine_iff:
  "slashing_evidence_genuine codec cr txs v net daa win True = Inr () \<longleftrightarrow>
     (\<forall>ev\<in>set (slashing_evidence_from_accepted_txs codec txs). check_one_evidence cr v net daa win ev = Inr ())"
  by (simp add: slashing_evidence_genuine_def fold_res_unit)

lemma slashed_bonds_of_loop:
  "se_bond_outpoint ` set (side_effects_loop a b c f evs seen) = fst ` set evs - seen"
proof (induction evs arbitrary: seen)
  case (Cons ev evs)
  obtain op S payload stx epoch where ev: "ev = (op, S, payload, stx, epoch)"
    by (cases ev)
  obtain out dist where "slashing_distribution_output S a b c payload f = (out, dist)"
    by fastforce
  then show ?case
    by (auto simp: ev Cons.IH)
qed simp

section \<open>The state after the slashes\<close>












text \<open>The effects of a block.\<close>

lemma fill_victims_sel [simp]:
  "se_bond_outpoint (fill_victims p pd cs v e) = se_bond_outpoint e"
  "se_slashing_tx_id (fill_victims p pd cs v e) = se_slashing_tx_id e"
  "se_slashed_amount_sompi (fill_victims p pd cs v e) = se_slashed_amount_sompi e"
  "se_reporter_output (fill_victims p pd cs v e) = se_reporter_output e"
  "se_security_reserve_sompi (fill_victims p pd cs v e) = se_security_reserve_sompi e"
  "se_victim_epoch_pool_sompi (fill_victims p pd cs v e) = se_victim_epoch_pool_sompi e"
  "se_burned_sompi (fill_victims p pd cs v e) = se_burned_sompi e"
  by (simp_all add: fill_victims_def)









section \<open>Properties\<close>

text \<open>C35. The lock on a bond's output: the block gate accepts exactly the blocks none of whose inputs spends an
  output the mergeset filter locks, and otherwise names a transaction of the block and a locked output it
  spends. A known bond is locked until the unbonding period has passed since its unbond request, and
  forever if it was slashed before.\<close>

theorem bond_spend_gate_enforces_the_lock:
  assumes "\<And>op bond u. hm_get v op = Some bond \<Longrightarrow> br_unbond_request_daa_score bond = Some u \<Longrightarrow> u \<le> u64_max"
  shows "(bond_spend_gate txs v daa True = Inr () \<longleftrightarrow>
      (\<forall>tx\<in>set txs. \<forall>i\<in>set (tx_inputs tx). \<not> locks v daa (in_previous_outpoint i))) \<and>
    (\<forall>txid op. bond_spend_gate txs v daa True = Inl (txid, op) \<longrightarrow> locks v daa op \<and>
      (\<exists>tx\<in>set txs. tx_id tx = txid \<and> op \<in> in_previous_outpoint ` set (tx_inputs tx))) \<and>
    (\<forall>op. locks v daa op \<longleftrightarrow> (\<exists>bond. hm_get v op = Some bond \<and>
      (reached (br_slashed_at_daa_score bond) daa \<or>
       (\<forall>u. br_unbond_request_daa_score bond = Some u \<longrightarrow> daa < sat_add64 u (br_unbonding_period_blocks bond)))))"
proof (intro conjI allI impI)
  show "bond_spend_gate txs v daa True = Inr () \<longleftrightarrow>
      (\<forall>tx\<in>set txs. \<forall>i\<in>set (tx_inputs tx). \<not> locks v daa (in_previous_outpoint i))"
    by (simp add: bond_spend_gate_def fold_res_unit check_input_iff)
next
  fix txid op assume "bond_spend_gate txs v daa True = Inl (txid, op)"
  then obtain tx i where "tx \<in> set txs" "i \<in> set (tx_inputs tx)" "check_input v daa (tx_id tx) i = Inl (txid, op)"
    by (auto simp: bond_spend_gate_def dest!: fold_res_unit_Inl)
  then show "locks v daa op" "\<exists>tx\<in>set txs. tx_id tx = txid \<and> op \<in> in_previous_outpoint ` set (tx_inputs tx)"
    using check_input_Inl by blast+
next
  fix op
  show "locks v daa op \<longleftrightarrow> (\<exists>bond. hm_get v op = Some bond \<and> (reached (br_slashed_at_daa_score bond) daa \<or>
       (\<forall>u. br_unbond_request_daa_score bond = Some u \<longrightarrow> daa < sat_add64 u (br_unbonding_period_blocks bond))))"
  proof (cases "hm_get v op")
    case (Some bond)
    have "releasable bond daa \<longleftrightarrow> \<not> reached (br_slashed_at_daa_score bond) daa \<and>
      (\<exists>u. br_unbond_request_daa_score bond = Some u \<and> sat_add64 u (br_unbonding_period_blocks bond) \<le> daa)"
      by (rule releasable_iff) (rule assms [OF Some])
    then show ?thesis
      by (auto simp: locks_def Some not_le)
  qed (simp add: locks_def)
qed

definition sample_unbonding :: stake_bond_record where
  "sample_unbonding = sample_bond\<lparr>br_unbond_request_daa_score := Some 20\<rparr>"

definition sample_spend :: transaction where
  "sample_spend = (sample_dns_tx SUBNETWORK_ID_STAKE_UNBOND 9)\<lparr>tx_inputs :=
     [\<lparr>in_previous_outpoint = sample_outpoint 0, in_signature_script = [], in_sequence = 0, in_sig_op_count = 0\<rparr>]\<rparr>"

theorem bond_spend_gate_enforces_the_lock_witness:
  "bond_spend_gate [sample_spend] [(sample_outpoint 0, sample_unbonding)] 119 True \<noteq> Inr () \<and>
   bond_spend_gate [sample_spend] [(sample_outpoint 0, sample_unbonding)] 120 True = Inr ()"
proof -
  let ?v = "[(sample_outpoint 0, sample_unbonding)]"
  have v: "u \<le> u64_max" if "hm_get ?v op = Some bond" "br_unbond_request_daa_score bond = Some u" for op bond u
    using that by (auto simp: hm_get_def sample_unbonding_def u64_max_def split: if_splits)
  note gate = bond_spend_gate_enforces_the_lock [where v = ?v and txs = "[sample_spend]", OF v]
  have "locks ?v 119 (sample_outpoint 0)"
    using gate [where daa = 119]
    by (simp add: hm_get_def sample_unbonding_def sample_bond_def sat_add_def u64_max_def)
  moreover have "\<not> locks ?v 120 (sample_outpoint 0)"
    using gate [where daa = 120]
    by (simp add: hm_get_def sample_unbonding_def sample_bond_def sat_add_def u64_max_def reached_def)
  ultimately show ?thesis
    using gate [where daa = 119] gate [where daa = 120] by (simp add: sample_spend_def)
qed

text \<open>C36. Templates and blocks agree on attestations: a block all of whose transactions the template
  classifier keeps satisfies the block rule; and if every shard of a block decodes, a block that satisfies
  the rule contains only transactions the classifier keeps.\<close>

theorem template_agrees_with_block_rule:
  shows "((\<forall>tx\<in>set txs. \<forall>r b e. classify_attestation_shard_for_template codec cr tx v net activated \<noteq> Drop r b e) \<longrightarrow>
      attestation_reward_eligibility codec cr txs v net activated = Inr ()) \<and>
    (attestation_reward_eligibility codec cr txs v net activated = Inr () \<and>
     (\<forall>tx\<in>set txs. tx_subnetwork_id tx = SUBNETWORK_ID_STAKE_ATTESTATION_SHARD \<longrightarrow> dec_shard codec (tx_payload tx) \<noteq> None) \<longrightarrow>
      (\<forall>tx\<in>set txs. \<forall>r b e. classify_attestation_shard_for_template codec cr tx v net activated \<noteq> Drop r b e))"
proof (cases activated)
  case True
  have drop: "(\<forall>r b e. classify_attestation_shard_for_template codec cr tx v net True \<noteq> Drop r b e) \<longleftrightarrow>
      (tx_subnetwork_id tx = SUBNETWORK_ID_STAKE_ATTESTATION_SHARD \<longrightarrow>
       (\<exists>shard. dec_shard codec (tx_payload tx) = Some shard \<and>
          (\<forall>att\<in>set (sh_attestations shard). classify_one_attestation cr att v net = Inr ())))" for tx
    unfolding classify_attestations_iff [symmetric]
    by (auto simp: classify_attestation_shard_for_template_def decode_attestation_shard_def split: option.splits sum.splits)
  have mem: "att \<in> set (attestations_from_accepted_txs codec txs) \<longleftrightarrow>
      (\<exists>tx\<in>set txs. tx_subnetwork_id tx = SUBNETWORK_ID_STAKE_ATTESTATION_SHARD \<and>
        (\<exists>shard. dec_shard codec (tx_payload tx) = Some shard \<and> att \<in> set (sh_attestations shard)))" for att
    by (auto simp: attestations_from_accepted_txs_def dns_tx_kind_shard split: option.splits if_splits intro!: bexI)
      metis
  have "activated = True"
    using True by simp
  then show ?thesis
    unfolding eligibility_iff by (simp only: drop Ball_def mem simp_thms) (metis option.exhaust option.inject)
qed (simp add: classify_attestation_shard_for_template_def attestation_reward_eligibility_def)

definition sample_verifier :: dns_crypto where
  "sample_verifier = \<lparr>cr_blake2b_256 = (\<lambda>k m. m), cr_blake2b_512 = Hash64, cr_verify_mldsa87 = (\<lambda>_ _ _ _. True)\<rparr>"

definition sample_shard_codec :: dns_codec where
  "sample_shard_codec = sample_evidence_codec\<lparr>dec_shard := (\<lambda>_. Some (single_attestation_shard (sample_attestation 2)))\<rparr>"

lemma sample_attestation_ok:
  "classify_one_attestation sample_verifier (sample_attestation 2) [(sample_outpoint 0, sample_bond)] net = Inr ()"
  by (simp add: classify_one_attestation_def active_or_dormant_bond_at_def hm_get_def sample_attestation_def sample_bond_def
      effective_bond_status_def reached_def attestation_signature_ok_def sample_verifier_def)

theorem template_agrees_with_block_rule_witness:
  "classify_attestation_shard_for_template sample_shard_codec sample_verifier
     (sample_dns_tx SUBNETWORK_ID_STAKE_ATTESTATION_SHARD 9) [(sample_outpoint 0, sample_bond)] (sample_hash 0) True
     = KeepEligible 1 \<and>
   attestation_reward_eligibility sample_shard_codec sample_verifier [sample_dns_tx SUBNETWORK_ID_STAKE_ATTESTATION_SHARD 9]
     [(sample_outpoint 0, sample_bond)] (sample_hash 0) True = Inr ()"
proof
  show keep: "classify_attestation_shard_for_template sample_shard_codec sample_verifier
     (sample_dns_tx SUBNETWORK_ID_STAKE_ATTESTATION_SHARD 9) [(sample_outpoint 0, sample_bond)] (sample_hash 0) True
     = KeepEligible 1"
    by (simp add: classify_attestation_shard_for_template_def decode_attestation_shard_def sample_dns_tx_def
        sample_shard_codec_def single_attestation_shard_def sample_attestation_ok)
  then show "attestation_reward_eligibility sample_shard_codec sample_verifier [sample_dns_tx SUBNETWORK_ID_STAKE_ATTESTATION_SHARD 9]
     [(sample_outpoint 0, sample_bond)] (sample_hash 0) True = Inr ()"
    using template_agrees_with_block_rule [of "[sample_dns_tx SUBNETWORK_ID_STAKE_ATTESTATION_SHARD 9]" sample_shard_codec
        sample_verifier "[(sample_outpoint 0, sample_bond)]" "sample_hash 0" True] by simp
qed

text \<open>C37. Evidence and slashes correspond: if the evidence of a set of transactions passes the genuineness rule,
  the bonds slashed by resolving the same transactions are exactly the bonds the evidence names, and each
  was named by two attestations that verify under its key while it had stake at risk.\<close>

theorem genuine_evidence_is_slashed:
  assumes "slashing_evidence_genuine codec cr txs v net daa win True = Inr ()"
  shows "se_bond_outpoint ` set (resolve_slashing_side_effects codec txs v daa a b c) =
      ev_bond_outpoint ` set (slashing_evidence_from_accepted_txs codec txs) \<and>
    (\<forall>ev\<in>set (slashing_evidence_from_accepted_txs codec txs). \<exists>bond. hm_get v (ev_bond_outpoint ev) = Some bond \<and>
       evidence_attestation_ok cr bond net (ev_attestation_a ev) \<and> evidence_attestation_ok cr bond net (ev_attestation_b ev))"
proof
  note genuine = assms [unfolded genuine_iff check_one_evidence_iff]
  have ev: "ev \<in> set (slashing_evidence_from_accepted_txs codec txs) \<longleftrightarrow>
      (\<exists>tx\<in>set txs. dns_tx_kind (tx_subnetwork_id tx) = Some SlashingEvidence \<and> dec_evidence codec (tx_payload tx) = Some ev)" for ev
    by (auto simp: slashing_evidence_from_accepted_txs_def map_filter_in_set)
  have "fst ` set (List.map_filter (resolve_evidence_tx codec v daa) txs) =
      ev_bond_outpoint ` set (slashing_evidence_from_accepted_txs codec txs)" (is "?l = ?r")
  proof
    show "?l \<subseteq> ?r"
    proof
      fix op assume "op \<in> ?l"
      then obtain r where "r \<in> set (List.map_filter (resolve_evidence_tx codec v daa) txs)" "op = fst r"
        by blast
      then obtain tx where tx: "tx \<in> set txs" "resolve_evidence_tx codec v daa tx = Some r" "op = fst r"
        unfolding map_filter_in_set by blast
      then obtain e where "dns_tx_kind (tx_subnetwork_id tx) = Some SlashingEvidence"
          "dec_evidence codec (tx_payload tx) = Some e" "op = ev_bond_outpoint e"
        by (auto simp: resolve_evidence_tx_def split: if_splits option.splits)
      then show "op \<in> ?r"
        using ev tx(1) by blast
    qed
    show "?r \<subseteq> ?l"
    proof
      fix op assume "op \<in> ?r"
      then obtain e where e: "e \<in> set (slashing_evidence_from_accepted_txs codec txs)" "op = ev_bond_outpoint e"
        by blast
      then obtain tx bond where "tx \<in> set txs" "dns_tx_kind (tx_subnetwork_id tx) = Some SlashingEvidence"
          "dec_evidence codec (tx_payload tx) = Some e" "hm_get v op = Some bond" "effective_bond_status bond daa \<in> {Active, Unbonding}"
        using genuine ev by blast
      then show "op \<in> ?l"
        using e(2) by (intro image_eqI [where x = "(op, br_amount bond, ev_reporter_reward_spk_payload e, tx_id tx,
            at_epoch (ev_attestation_a e))"]) (auto simp: map_filter_in_set resolve_evidence_tx_def intro!: bexI [of _ tx])
    qed
  qed
  then show "se_bond_outpoint ` set (resolve_slashing_side_effects codec txs v daa a b c) = ?r"
    by (simp add: resolve_slashing_side_effects_def slashing_side_effects_from_evidence_def slashed_bonds_of_loop)
  show "\<forall>ev\<in>set (slashing_evidence_from_accepted_txs codec txs). \<exists>bond. hm_get v (ev_bond_outpoint ev) = Some bond \<and>
       evidence_attestation_ok cr bond net (ev_attestation_a ev) \<and> evidence_attestation_ok cr bond net (ev_attestation_b ev)"
    using genuine by blast
qed

theorem genuine_evidence_is_slashed_witness:
  "se_bond_outpoint ` set (resolve_slashing_side_effects sample_evidence_codec [sample_dns_tx SUBNETWORK_ID_SLASHING_EVIDENCE 8]
     [(sample_outpoint 0, sample_bond)] 20 1000 0 0) = {sample_outpoint 0}"
proof -
  have ev: "slashing_evidence_from_accepted_txs sample_evidence_codec [sample_dns_tx SUBNETWORK_ID_SLASHING_EVIDENCE 8] =
      [\<lparr>ev_version = 1, ev_bond_outpoint = sample_outpoint 0, ev_attestation_a = sample_attestation 2,
        ev_attestation_b = sample_attestation 2, ev_reporter_reward_spk_payload = []\<rparr>]"
    by (simp add: slashing_evidence_from_accepted_txs_def map_filter_simps sample_evidence_codec_def sample_dns_tx_def)
  have "slashing_evidence_genuine sample_evidence_codec sample_verifier [sample_dns_tx SUBNETWORK_ID_SLASHING_EVIDENCE 8]
     [(sample_outpoint 0, sample_bond)] (sample_hash 0) 20 100 True = Inr ()"
    by (simp add: genuine_iff ev check_one_evidence_iff evidence_attestation_ok_def attestation_signature_ok_def hm_get_def
        sample_verifier_def sample_bond_def sample_attestation_def effective_bond_status_def reached_def)
  from genuine_evidence_is_slashed [OF this] show ?thesis
    by (simp add: ev)
qed



definition sample_slashing_tx :: transaction where
  "sample_slashing_tx = sample_dns_tx SUBNETWORK_ID_SLASHING_EVIDENCE 8"



section \<open>The reserve accrues from slashes that are not applied\<close>

text \<open>
  A bond whose unbonding period has passed is still \<open>Unbonding\<close>, so it is resolved to a slash; if its output
  was spent, the application skips it. The reserve accrual of the block is summed over all resolved effects
  before the application, so the reserve share of a skipped slash is credited although no stake left the
  supply: a bond of 50 sompi released at score 120 and withdrawn, with evidence at score 130, changes no
  output and adds 10 sompi to the reserve.
\<close>

lemma reserve_share_of_fifty:
  "sd_security_reserve_sompi (compute_slashing_distribution 50 1000 2000 3000) = 10"
  using slashing_shares_exact(2) [of 50 1000 2000 3000] by (simp add: u64_max_def)

theorem reserve_accrues_from_skipped_slashes:
  "apply_slashing_side_effects sample_evidence_codec (Some sample_dns_params) Map.empty [sample_slashing_tx] 130 129 []
     [(sample_outpoint 0, sample_unbonding)] ((utxo_diff_default, []), 0) = Some ((utxo_diff_default, []), 10)"
proof -
  let ?es = "slashing_effects_of_block sample_evidence_codec sample_dns_params [sample_slashing_tx] 130 129 []
     [(sample_outpoint 0, sample_unbonding)]"
  have v2: "rp_security_reserve_bps (dp_reward_params sample_dns_params) = 2000"
    "rp_victim_epoch_pool_bps (dp_reward_params sample_dns_params) = 3000"
    "rp_slashing_reporter_reward_bps (dp_reward_params sample_dns_params) = 1000"
    "dp_pos_v2_activation_daa_score sample_dns_params = 0" "dp_dns_activation_daa_score sample_dns_params = 0"
    by (simp_all add: sample_dns_params_def)
  have bond: "resolve_evidence_tx sample_evidence_codec [(sample_outpoint 0, sample_unbonding)] 130 sample_slashing_tx =
      Some (sample_outpoint 0, 50, [], sample_hash 8, 2)"
    by (simp add: resolve_evidence_tx_def sample_evidence_codec_def sample_slashing_tx_def sample_dns_tx_def hm_get_def
        sample_unbonding_def sample_bond_def effective_bond_status_def reached_def sample_attestation_def)
  have "map se_bond_outpoint ?es = [sample_outpoint 0]" "map se_security_reserve_sompi ?es = [10]"
    unfolding slashing_effects_of_block_def resolve_slashing_side_effects_def slashing_side_effects_from_evidence_def
    by (simp_all add: v2 map_filter_simps bond case_prod_unfold Let_def slashing_distribution_output_def reserve_share_of_fifty)
  then obtain e where e: "?es = [e]" "se_bond_outpoint e = sample_outpoint 0" "se_security_reserve_sompi e = 10"
    by (cases ?es) auto
  show ?thesis
    by (simp add: apply_slashing_side_effects_def v2 e default_composed reserve_accrual_of_def sat_add_def u64_max_def)
qed

end
