(* ===== verification/Script_Class.thy ===== *)
theory Script_Class
  imports Dns_Rewards Byte_Codec
begin

text \<open>
  The script classes of \<open>crypto/txscript/src/script_class.rs\<close>: recognition of the payment templates by their
  bytes, the class that may carry value on a post-quantum network, and the deposit lock of the EVM lane with
  its builder and parser. Indexing is guarded by the length test in front of it, as in the source.

  The lemmas show that the recogniser of the standard class accepts exactly the scripts built for validator
  payouts and bonds, and that the deposit lock can be parsed back.
\<close>

definition OpData32 :: u8 where
  "OpData32 = 0x20"

definition OpData33 :: u8 where
  "OpData33 = 0x21"

definition OpData36 :: u8 where
  "OpData36 = 0x24"

definition OpData64 :: u8 where
  "OpData64 = 0x40"

definition OpNop :: u8 where
  "OpNop = 0x61"

definition OpDrop :: u8 where
  "OpDrop = 0x75"

definition OpDup :: u8 where
  "OpDup = 0x76"

definition OpEqual :: u8 where
  "OpEqual = 0x87"

definition OpEqualVerify :: u8 where
  "OpEqualVerify = 0x88"

definition OpCheckSigMlDsa87 :: u8 where
  "OpCheckSigMlDsa87 = 0xa6"

definition OpBlake2b :: u8 where
  "OpBlake2b = 0xaa"

definition OpCheckSigECDSA :: u8 where
  "OpCheckSigECDSA = 0xab"

definition OpCheckSig :: u8 where
  "OpCheckSig = 0xac"

definition OpBlake2b512 :: u8 where
  "OpBlake2b512 = 0xc4"

lemmas opcode_defs = OpData32_def OpData33_def OpData36_def OpData64_def OpNop_def OpDrop_def OpDup_def OpEqual_def
  OpEqualVerify_def OpCheckSigMlDsa87_def OpBlake2b_def OpCheckSigECDSA_def OpCheckSig_def OpBlake2b512_def

definition MAX_SCRIPT_PUBLIC_KEY_VERSION :: u16 where
  "MAX_SCRIPT_PUBLIC_KEY_VERSION = 0"

datatype script_class = NonStandard | PubKey | PubKeyECDSA | ScriptHash | PubKeyHashMlDsa87 | EvmDepositLock

definition is_pay_to_pubkey :: "bytes \<Rightarrow> bool" where
  "is_pay_to_pubkey s \<longleftrightarrow> length s = 34 \<and> s ! 0 = OpData32 \<and> s ! 33 = OpCheckSig"

definition is_pay_to_pubkey_ecdsa :: "bytes \<Rightarrow> bool" where
  "is_pay_to_pubkey_ecdsa s \<longleftrightarrow> length s = 35 \<and> s ! 0 = OpData33 \<and> s ! 34 = OpCheckSigECDSA"

definition is_pay_to_script_hash :: "bytes \<Rightarrow> bool" where
  "is_pay_to_script_hash s \<longleftrightarrow> length s = 35 \<and> s ! 0 = OpBlake2b \<and> s ! 1 = OpData32 \<and> s ! 34 = OpEqual"

definition is_pay_to_pub_key_hash_mldsa87 :: "bytes \<Rightarrow> bool" where
  "is_pay_to_pub_key_hash_mldsa87 s \<longleftrightarrow> length s = 69 \<and> s ! 0 = OpDup \<and> s ! 1 = OpBlake2b512 \<and> s ! 2 = OpData64 \<and>
     s ! 67 = OpEqualVerify \<and> s ! 68 = OpCheckSigMlDsa87"

definition is_evm_deposit_lock :: "bytes \<Rightarrow> bool" where
  "is_evm_deposit_lock s \<longleftrightarrow> length s = 108 \<and> s ! 0 = OpNop \<and> s ! 1 = OpData36 \<and> s ! 38 = OpDrop \<and>
     is_pay_to_pub_key_hash_mldsa87 (drop 39 s)"

definition from_script :: "script_public_key \<Rightarrow> script_class" where
  "from_script spk =
     (let s = spk_script spk
      in if spk_version spk = MAX_SCRIPT_PUBLIC_KEY_VERSION then
           (if is_pay_to_pub_key_hash_mldsa87 s then PubKeyHashMlDsa87
            else if is_evm_deposit_lock s then EvmDepositLock
            else if is_pay_to_pubkey s then PubKey
            else if is_pay_to_pubkey_ecdsa s then PubKeyECDSA
            else if is_pay_to_script_hash s then ScriptHash
            else NonStandard)
         else NonStandard)"

definition is_pq_standard :: "script_class \<Rightarrow> bool" where
  "is_pq_standard c = (c = PubKeyHashMlDsa87)"

record evm_deposit_lock_fields =
  dl_evm_address :: bytes
  dl_timeout_daa_score :: u64
  dl_claim_tip_sompi :: u64
  dl_refund_script_public_key :: script_public_key

definition evm_deposit_lock_script :: "bytes \<Rightarrow> u64 \<Rightarrow> u64 \<Rightarrow> bytes \<Rightarrow> script_public_key" where
  "evm_deposit_lock_script evm_address timeout_daa_score claim_tip_sompi refund_script =
     \<lparr>spk_version = MAX_SCRIPT_PUBLIC_KEY_VERSION,
      spk_script = [OpNop, OpData36] @ evm_address @ to_le 8 timeout_daa_score @ to_le 8 claim_tip_sompi @ [OpDrop] @
        refund_script\<rparr>"

definition parse_evm_deposit_lock :: "script_public_key \<Rightarrow> evm_deposit_lock_fields option" where
  "parse_evm_deposit_lock spk =
     (if from_script spk \<noteq> EvmDepositLock then None
      else let s = spk_script spk
           in Some \<lparr>dl_evm_address = take 20 (drop 2 s), dl_timeout_daa_score = from_le (take 8 (drop 22 s)),
                    dl_claim_tip_sompi = from_le (take 8 (drop 30 s)),
                    dl_refund_script_public_key =
                      \<lparr>spk_version = MAX_SCRIPT_PUBLIC_KEY_VERSION, spk_script = drop 39 s\<rparr>\<rparr>)"

section \<open>What the recognisers accept\<close>

lemma take_3: "3 \<le> length s \<Longrightarrow> take 3 s = [s ! 0, s ! 1, s ! 2]"
  by (auto simp: list_eq_iff_nth_eq less_Suc_eq numeral_3_eq_3 numeral_2_eq_2)

lemma drop_last_2: "length s = Suc (Suc n) \<Longrightarrow> drop n s = [s ! n, s ! Suc n]"
  using Cons_nth_drop_Suc [of n s] Cons_nth_drop_Suc [of "Suc n" s] by simp

lemma p2pkh_shape:
  assumes "length s = 69"
  shows "s = [s ! 0, s ! 1, s ! 2] @ take 64 (drop 3 s) @ [s ! 67, s ! 68]"
proof -
  have "s = take 3 s @ take 64 (drop 3 s) @ drop 64 (drop 3 s)"
    by (simp only: append_take_drop_id)
  moreover have "drop 64 (drop 3 s) = [s ! 67, s ! 68]"
    using drop_last_2 [of s 67] assms by simp
  ultimately show ?thesis
    using take_3 [of s] assms by simp
qed

lemma is_p2pkh_iff:
  "is_pay_to_pub_key_hash_mldsa87 s \<longleftrightarrow>
     (\<exists>payload. length payload = 64 \<and> s = [OpDup, OpBlake2b512, OpData64] @ payload @ [OpEqualVerify, OpCheckSigMlDsa87])"
proof
  assume p: "is_pay_to_pub_key_hash_mldsa87 s"
  then have "s = [OpDup, OpBlake2b512, OpData64] @ take 64 (drop 3 s) @ [OpEqualVerify, OpCheckSigMlDsa87]"
    using p2pkh_shape [of s] unfolding is_pay_to_pub_key_hash_mldsa87_def by metis
  moreover have "length (take 64 (drop 3 s)) = 64"
    using p by (simp add: is_pay_to_pub_key_hash_mldsa87_def)
  ultimately show "\<exists>payload. length payload = 64 \<and> s = [OpDup, OpBlake2b512, OpData64] @ payload @ [OpEqualVerify, OpCheckSigMlDsa87]"
    by blast
next
  assume "\<exists>payload. length payload = 64 \<and> s = [OpDup, OpBlake2b512, OpData64] @ payload @ [OpEqualVerify, OpCheckSigMlDsa87]"
  then show "is_pay_to_pub_key_hash_mldsa87 s"
    by (auto simp: is_pay_to_pub_key_hash_mldsa87_def nth_append)
qed

lemma p2pkh_spk_iff:
  "from_script spk = PubKeyHashMlDsa87 \<longleftrightarrow> (\<exists>payload. length payload = 64 \<and> spk = p2pkh_mldsa87_spk payload)"
proof -
  have "from_script spk = PubKeyHashMlDsa87 \<longleftrightarrow>
      spk_version spk = MAX_SCRIPT_PUBLIC_KEY_VERSION \<and> is_pay_to_pub_key_hash_mldsa87 (spk_script spk)"
    by (simp add: from_script_def Let_def)
  then show ?thesis
    by (cases spk) (auto simp: is_p2pkh_iff p2pkh_mldsa87_spk_def MAX_SCRIPT_PUBLIC_KEY_VERSION_def opcode_defs)
qed

lemma deposit_lock_class:
  assumes "length addr = 20" and "is_pay_to_pub_key_hash_mldsa87 refund"
  shows "from_script (evm_deposit_lock_script addr timeout tip refund) = EvmDepositLock"
proof -
  let ?s = "[OpNop, OpData36] @ addr @ to_le 8 timeout @ to_le 8 tip @ [OpDrop] @ refund"
  have len: "length ?s = 108"
    using assms by (simp add: is_pay_to_pub_key_hash_mldsa87_def)
  have "?s ! 38 = OpDrop" "drop 39 ?s = refund"
    using assms(1) by (simp_all add: nth_append)
  then have "is_evm_deposit_lock ?s"
    using len assms(2) by (simp add: is_evm_deposit_lock_def)
  moreover have "\<not> is_pay_to_pub_key_hash_mldsa87 ?s"
    using len by (simp add: is_pay_to_pub_key_hash_mldsa87_def)
  ultimately show ?thesis
    by (simp add: from_script_def evm_deposit_lock_script_def)
qed

lemma deposit_lock_parse:
  assumes "length addr = 20" and "is_pay_to_pub_key_hash_mldsa87 refund" and "timeout \<le> u64_max" and "tip \<le> u64_max"
  shows "parse_evm_deposit_lock (evm_deposit_lock_script addr timeout tip refund) =
    Some \<lparr>dl_evm_address = addr, dl_timeout_daa_score = timeout, dl_claim_tip_sompi = tip,
          dl_refund_script_public_key = \<lparr>spk_version = MAX_SCRIPT_PUBLIC_KEY_VERSION, spk_script = refund\<rparr>\<rparr>"
proof -
  have "from_le (to_le 8 timeout) = timeout" "from_le (to_le 8 tip) = tip"
    using assms(3,4) by (simp_all add: from_le_to_le_exact u64_max_def)
  then show ?thesis
    using assms(1) deposit_lock_class [OF assms(1,2)]
    by (simp add: parse_evm_deposit_lock_def Let_def) (simp add: evm_deposit_lock_script_def)
qed

lemma deposit_lock_refund_is_standard:
  assumes "parse_evm_deposit_lock spk = Some f"
  shows "from_script (dl_refund_script_public_key f) = PubKeyHashMlDsa87"
proof -
  have "from_script spk = EvmDepositLock"
    using assms by (auto simp: parse_evm_deposit_lock_def split: if_splits)
  then have "is_pay_to_pub_key_hash_mldsa87 (drop 39 (spk_script spk))"
    by (auto simp: from_script_def is_evm_deposit_lock_def Let_def split: if_splits)
  then show ?thesis
    using assms by (auto simp: parse_evm_deposit_lock_def from_script_def Let_def split: if_splits)
qed

end
