(* ===== verification/Script_Stack.thy ===== *)
theory Script_Stack
  imports Script_Class
begin

text \<open>
  The stacks of the script engine (\<open>crypto/txscript/src/data_stack.rs\<close>) and its errors
  (\<open>crypto/txscript/errors/src/lib.rs\<close>): script numbers with their minimal encoding, booleans, and the stack
  operations. A stack is a list whose last element is the top, as the vector of the source. The messages inside
  errors are left out; an opcode in an error is its number.

  The lemmas show that script numbers have exactly one accepted encoding and are read back from it.
\<close>

unbundle bit_operations_syntax

datatype tx_script_error =
    MalformedPushSize bytes
  | MalformedPush usize usize
  | InvalidInputIndex int usize
  | StackSizeExceeded usize usize
  | InvalidOpcode u8
  | OpcodeReserved u8
  | OpcodeDisabled u8
  | EmptyStack
  | CleanStack usize
  | EvalFalse
  | EarlyReturn
  | VerifyError
  | InvalidState
  | SigcacheSignatureInvalid
  | TooManyOperations nat
  | NotATransactionInput
  | ElementTooBig usize usize
  | NotMinimalData
  | InvalidSource
  | UnsatisfiedLockTime
  | NumberTooBig
  | NullFail
  | InvalidSignatureCount
  | InvalidPubKeyCount
  | InvalidSigHashType u8
  | PubKeyFormat
  | SigLength usize
  | NoScripts
  | SignatureScriptNotPushOnly
  | ErrUnbalancedConditional
  | InvalidStackOperation usize usize
  | ScriptSize usize usize
  | InvalidOutputIndex int usize
  | NumberTooLong int
  | ExceededSigOpLimit nat
  | LegacySignatureOpcodeDisabled u8
  | ScriptHashDisabledInPqMode
  | LegacyAddressDisabledInPqMode

text \<open>The \<open>?\<close> operator.\<close>

definition try_then :: "'e + 'a \<Rightarrow> ('a \<Rightarrow> 'e + 'b) \<Rightarrow> 'e + 'b" where
  "try_then r f = (case r of Inl e \<Rightarrow> Inl e | Inr x \<Rightarrow> f x)"

lemma try_then_simps [simp]: "try_then (Inl e) f = Inl e" "try_then (Inr x) f = f x"
  by (simp_all add: try_then_def)

lemma try_then_ok: "try_then r f = Inr y \<longleftrightarrow> (\<exists>x. r = Inr x \<and> f x = Inr y)"
  by (cases r) simp_all

fun map_res :: "('a \<Rightarrow> 'e + 'b) \<Rightarrow> 'a list \<Rightarrow> 'e + 'b list" where
  "map_res f [] = Inr []"
| "map_res f (x # xs) = try_then (f x) (\<lambda>y. try_then (map_res f xs) (\<lambda>ys. Inr (y # ys)))"

section \<open>Script numbers\<close>

fun number_bytes :: "nat \<Rightarrow> bool \<Rightarrow> bytes" where
  "number_bytes n last_saturated =
     (if n = 0 then (if last_saturated then [0] else [])
      else (let v = n mod 256 in word_of_nat v # number_bytes (n div 256) (v AND 0x80 \<noteq> 0)))"

declare number_bytes.simps [simp del]

definition set_sign :: "bytes \<Rightarrow> bytes" where
  "set_sign bs = butlast bs @ [last bs OR 0x80]"

definition serialize_i64 :: "int \<Rightarrow> bytes" where
  "serialize_i64 n =
     (let number_vec = number_bytes (nat \<bar>n\<bar>) False in if n < 0 then set_sign number_vec else number_vec)"

definition check_minimal_data_encoding :: "bytes \<Rightarrow> tx_script_error + unit" where
  "check_minimal_data_encoding v =
     (if v = [] then Inr ()
      else if v ! (length v - 1) AND 0x7f = 0 \<and> (length v = 1 \<or> v ! (length v - 2) AND 0x80 = 0) then Inl NotMinimalData
      else Inr ())"

definition deserialize_i64 :: "bytes \<Rightarrow> tx_script_error + int" where
  "deserialize_i64 v =
     (if 8 < length v then Inl NotMinimalData
      else if length v = 0 then Inr 0
      else try_then (check_minimal_data_encoding v) (\<lambda>_.
        let msb = v ! (length v - 1);
            sign = 1 - 2 * int (unat (drop_bit 7 msb));
            first_byte = int (unat (msb AND 0x7f))
        in Inr (fold (\<lambda>item accum. push_bit 8 accum + int (unat item)) (rev (take (length v - 1) v)) first_byte * sign)))"

text \<open>\<open>OpcodeData\<close> for integers of at most \<open>len\<close> bytes (\<open>SizedEncodeInt\<close>, with 8 for \<open>i64\<close> and 4 for \<open>i32\<close>) and for booleans.\<close>

definition deserialize_sized :: "nat \<Rightarrow> bytes \<Rightarrow> tx_script_error + int" where
  "deserialize_sized len v = (if len < length v then Inl NumberTooBig else deserialize_i64 v)"

definition serialize_sized :: "nat \<Rightarrow> int \<Rightarrow> tx_script_error + bytes" where
  "serialize_sized len n =
     (let b = serialize_i64 n in if len < length b then Inl (NumberTooLong n) else Inr b)"

definition deserialize_bool :: "bytes \<Rightarrow> bool" where
  "deserialize_bool v \<longleftrightarrow>
     v \<noteq> [] \<and> (v ! (length v - 1) AND 0x7f \<noteq> 0 \<or> (\<exists>b\<in>set (take (length v - 1) v). b \<noteq> 0))"

definition serialize_bool :: "bool \<Rightarrow> bytes" where
  "serialize_bool b = (if b then [1] else [])"

section \<open>Stack operations\<close>

type_synonym script_stack = "bytes list"

definition pop_raw :: "nat \<Rightarrow> script_stack \<Rightarrow> tx_script_error + (bytes list \<times> script_stack)" where
  "pop_raw n st =
     (if length st < n then Inl (InvalidStackOperation n (length st))
      else Inr (drop (length st - n) st, take (length st - n) st))"

definition peek_raw :: "nat \<Rightarrow> script_stack \<Rightarrow> tx_script_error + bytes list" where
  "peek_raw n st =
     (if length st < n then Inl (InvalidStackOperation n (length st)) else Inr (drop (length st - n) st))"

definition pop_ints :: "nat \<Rightarrow> nat \<Rightarrow> script_stack \<Rightarrow> tx_script_error + (int list \<times> script_stack)" where
  "pop_ints len n st =
     try_then (pop_raw n st) (\<lambda>(items, st'). try_then (map_res (deserialize_sized len) items) (\<lambda>ns. Inr (ns, st')))"

definition pop_bool :: "script_stack \<Rightarrow> tx_script_error + (bool \<times> script_stack)" where
  "pop_bool st = try_then (pop_raw 1 st) (\<lambda>(items, st'). Inr (deserialize_bool (hd items), st'))"

definition push_int :: "int \<Rightarrow> script_stack \<Rightarrow> tx_script_error + script_stack" where
  "push_int n st = try_then (serialize_sized 8 n) (\<lambda>b. Inr (st @ [b]))"

definition push_bool :: "bool \<Rightarrow> script_stack \<Rightarrow> script_stack" where
  "push_bool b st = st @ [serialize_bool b]"

definition drop_items :: "nat \<Rightarrow> script_stack \<Rightarrow> tx_script_error + script_stack" where
  "drop_items n st =
     (if n \<le> length st then Inr (take (length st - n) st) else Inl (InvalidStackOperation n (length st)))"

definition dup_items :: "nat \<Rightarrow> script_stack \<Rightarrow> tx_script_error + script_stack" where
  "dup_items n st =
     (if n \<le> length st then Inr (st @ drop (length st - n) st) else Inl (InvalidStackOperation n (length st)))"

definition over_items :: "nat \<Rightarrow> script_stack \<Rightarrow> tx_script_error + script_stack" where
  "over_items n st =
     (if 2 * n \<le> length st then Inr (st @ take n (drop (length st - 2 * n) st))
      else Inl (InvalidStackOperation (2 * n) (length st)))"

definition rot_items :: "nat \<Rightarrow> script_stack \<Rightarrow> tx_script_error + script_stack" where
  "rot_items n st =
     (if 3 * n \<le> length st
      then Inr (take (length st - 3 * n) st @ drop (length st - 2 * n) st @ take n (drop (length st - 3 * n) st))
      else Inl (InvalidStackOperation (3 * n) (length st)))"

definition swap_items :: "nat \<Rightarrow> script_stack \<Rightarrow> tx_script_error + script_stack" where
  "swap_items n st =
     (if 2 * n \<le> length st
      then Inr (take (length st - 2 * n) st @ drop (length st - n) st @ take n (drop (length st - 2 * n) st))
      else Inl (InvalidStackOperation (2 * n) (length st)))"

section \<open>The encoding of script numbers\<close>

text \<open>Bit masks of a byte as arithmetic.\<close>

lemma byte_and_7f: "unat (b AND 0x7f :: u8) = unat b mod 128"
proof -
  have "(0x7f :: u8) = mask 7"
    by (simp add: mask_eq_exp_minus_1)
  then have "b AND 0x7f = take_bit 7 b"
    by (simp only: take_bit_eq_mask)
  then show ?thesis
    by (simp add: take_bit_eq_mod unat_mod)
qed

lemma byte_and_7f_0 [simp]: "b AND 0x7f = (0 :: u8) \<longleftrightarrow> unat b mod 128 = 0"
  by (metis byte_and_7f unat_eq_zero)

lemma odd_div_128:
  assumes "n < (256 :: nat)"
  shows "odd (n div 128) \<longleftrightarrow> 128 \<le> n"
proof (cases "128 \<le> n")
  case True
  then have "n div 128 = 1"
    using assms by (intro div_nat_eqI) simp_all
  then show ?thesis
    using True by simp
qed simp

lemma byte_bit_7: "bit (b :: u8) 7 \<longleftrightarrow> 128 \<le> unat b"
proof -
  have "bit b 7 \<longleftrightarrow> bit (unat b) 7"
    by (simp add: bit_unsigned_iff)
  also have "\<dots> \<longleftrightarrow> odd (unat b div 128)"
    by (simp add: bit_iff_odd)
  also have "\<dots> \<longleftrightarrow> 128 \<le> unat b"
    by (rule odd_div_128) (rule unat_byte_lt)
  finally show ?thesis .
qed

lemma nat_and_80: "n < 256 \<Longrightarrow> n AND 0x80 \<noteq> (0 :: nat) \<longleftrightarrow> 128 \<le> n"
proof -
  assume n: "n < 256"
  have "(0x80 :: nat) = push_bit 7 1"
    by simp
  then have "n AND 0x80 \<noteq> 0 \<longleftrightarrow> bit n 7"
    by (metis and_exp_eq_0_iff_not_bit push_bit_of_1)
  also have "\<dots> \<longleftrightarrow> 128 \<le> n"
    using odd_div_128 [OF n] by (simp add: bit_iff_odd)
  finally show ?thesis .
qed

lemma byte_and_80 [simp]: "b AND 0x80 = (0 :: u8) \<longleftrightarrow> unat b < 128"
proof -
  have "(0x80 :: u8) = push_bit 7 1"
    by simp
  then have "b AND 0x80 = 0 \<longleftrightarrow> \<not> bit b 7"
    by (metis and_exp_eq_0_iff_not_bit push_bit_of_1)
  then show ?thesis
    by (simp add: byte_bit_7 not_le)
qed

lemma byte_drop_7: "unat (drop_bit 7 b :: u8) = (if 128 \<le> unat b then 1 else 0)"
proof -
  have "unat (drop_bit 7 b) = unat b div 128"
    by (simp add: drop_bit_eq_div unat_div)
  moreover have "unat b < 256"
    by (rule unat_byte_lt)
  ultimately show ?thesis
    by auto
qed

lemma byte_or_80: "unat b < 128 \<Longrightarrow> unat (b OR 0x80 :: u8) = unat b + 128"
proof -
  assume "unat b < 128"
  then have disj: "b AND 0x80 = 0"
    by simp
  have "b OR 0x80 = b + 0x80"
    using disj by (simp add: disjunctive_add_eq_or)
  moreover have "unat b + unat (0x80 :: u8) < 2 ^ LENGTH(8)"
    using \<open>unat b < 128\<close> by simp
  ultimately show ?thesis
    by (simp add: unat_plus_simple [THEN iffD1] no_olen_add_nat)
qed

lemma number_bytes_0 [simp]: "number_bytes 0 s = (if s then [0] else [])"
  by (simp add: number_bytes.simps)

lemma number_bytes_step:
  "0 < n \<Longrightarrow> number_bytes n s = word_of_nat (n mod 256) # number_bytes (n div 256) (128 \<le> n mod 256)"
  using nat_and_80 [of "n mod 256"] by (subst number_bytes.simps) (simp add: Let_def)

text \<open>The digit lists that \<open>number_bytes\<close> produces.\<close>

fun canonical :: "bool \<Rightarrow> bytes \<Rightarrow> bool" where
  "canonical s [] = (\<not> s)"
| "canonical s (b # v) = (if b = 0 \<and> v = [] then s else canonical (128 \<le> unat b) v)"

lemma canonical_zero: "canonical s v \<Longrightarrow> from_le v = 0 \<Longrightarrow> v = (if s then [0] else [])"
  by (induction s v rule: canonical.induct) (auto simp: unat_eq_zero split: if_splits)

lemma number_bytes_canonical: "canonical s (number_bytes n s)" "from_le (number_bytes n s) = n"
proof (induction n s rule: number_bytes.induct)
  case (1 n s)
  let ?v = "n mod 256"
  have step: "number_bytes n s = word_of_nat ?v # number_bytes (n div 256) (128 \<le> ?v)" if "n \<noteq> 0"
    using that by (simp add: number_bytes_step)
  have IH: "canonical (128 \<le> ?v) (number_bytes (n div 256) (128 \<le> ?v))"
      "from_le (number_bytes (n div 256) (128 \<le> ?v)) = n div 256" if "n \<noteq> 0"
    using 1 that nat_and_80 [of ?v] by simp_all
  {
    case 1
    show ?case
    proof (cases "n = 0")
      case True
      then show ?thesis by simp
    next
      case False
      have "\<not> (word_of_nat ?v = (0 :: u8) \<and> number_bytes (n div 256) (128 \<le> ?v) = [])"
      proof
        assume a: "word_of_nat ?v = (0 :: u8) \<and> number_bytes (n div 256) (128 \<le> ?v) = []"
        then have "n div 256 = 0"
          using IH(2) [OF False] by simp
        moreover have "?v = 0"
          using a by (metis unat_byte unat_0)
        ultimately show False
          using False by (metis add.right_neutral div_mult_mod_eq mult_0)
      qed
      then show ?thesis
        using IH(1) [OF False] by (auto simp: step [OF False])
    qed
  next
    case 2
    show ?case
    proof (cases "n = 0")
      case True
      then show ?thesis by simp
    next
      case False
      then show ?thesis
        using IH(2) [OF False] by (simp add: step [OF False])
    qed
  }
qed

lemma number_bytes_unique: "canonical s v \<Longrightarrow> number_bytes (from_le v) s = v"
proof (induction v arbitrary: s)
  case (Cons b v)
  show ?case
  proof (cases "from_le (b # v) = 0")
    case True
    then show ?thesis
      using canonical_zero [OF Cons.prems] by (auto split: if_splits)
  next
    case False
    then have can: "canonical (128 \<le> unat b) v"
      using Cons.prems by (auto split: if_splits)
    have "from_le (b # v) mod 256 = unat b" "from_le (b # v) div 256 = from_le v"
      using unat_byte_lt [of b] by simp_all
    then show ?thesis
      using Cons.IH [OF can] False by (simp add: number_bytes_step del: from_le.simps)
  qed
qed simp

lemma canonical_iff:
  "v \<noteq> [] \<Longrightarrow> canonical s v \<longleftrightarrow>
     unat (last v) < 128 \<and> (last v = 0 \<longrightarrow> (if length v = 1 then s else 128 \<le> unat (v ! (length v - 2))))"
proof (induction v arbitrary: s)
  case (Cons b v)
  show ?case
  proof (cases "v = []")
    case False
    then obtain c w where v: "v = c # w"
      by (cases v) auto
    show ?thesis
      using Cons.IH [OF False, of "128 \<le> unat b"] unfolding v by (cases w) auto
  qed auto
qed simp

lemma number_bytes_length:
  "n < 128 * 256 ^ k \<Longrightarrow> length (number_bytes n s) \<le> Suc k"
  "128 * 256 ^ k \<le> n \<Longrightarrow> Suc k < length (number_bytes n s)"
proof -
  show "n < 128 * 256 ^ k \<Longrightarrow> length (number_bytes n s) \<le> Suc k"
  proof (induction k arbitrary: n s)
    case 0
    then show ?case
      by (cases "n = 0") (simp_all add: number_bytes_step)
  next
    case (Suc k)
    have "n div 256 < 128 * 256 ^ k"
      using Suc.prems by (simp add: less_mult_imp_div_less mult.commute)
    then show ?case
      using Suc.IH by (cases "n = 0") (simp_all add: number_bytes_step)
  qed
  show "128 * 256 ^ k \<le> n \<Longrightarrow> Suc k < length (number_bytes n s)"
  proof (induction k arbitrary: n s)
    case 0
    then have n: "n \<noteq> 0" "n < 256 \<Longrightarrow> 128 \<le> n mod 256" by auto
    show ?case
      using n by (cases "n < 256") (simp_all add: number_bytes_step number_bytes_step [of "n div 256"])
  next
    case (Suc k)
    have "128 * 256 ^ k \<le> n div 256"
      using Suc.prems by (simp add: less_eq_div_iff_mult_less_eq mult.commute)
    then show ?case
      using Suc.IH Suc.prems by (cases "n = 0") (simp_all add: number_bytes_step)
  qed
qed

text \<open>The value \<open>deserialize_i64\<close> computes: the magnitude without the sign bit.\<close>

definition magnitude :: "bytes \<Rightarrow> nat" where
  "magnitude v = from_le (butlast v) + 256 ^ (length v - 1) * (unat (last v) mod 128)"

lemma from_le_append: "from_le (xs @ ys) = from_le xs + 256 ^ length xs * from_le ys"
  by (induction xs) (simp_all add: algebra_simps)

lemma fold_bytes:
  "fold (\<lambda>item accum. push_bit 8 accum + int (unat (item :: u8))) (rev xs) a = int (from_le xs) + 256 ^ length xs * a"
proof (induction xs arbitrary: a)
  case (Cons x xs)
  then show ?case
    by (simp add: push_bit_eq_mult algebra_simps)
qed simp

lemma butlast_take: "take (length v - 1) v = butlast v"
  by (simp add: butlast_conv_take)

lemma deserialize_i64_eq:
  assumes "v \<noteq> []" and "length v \<le> 8"
  shows "deserialize_i64 v =
    (if canonical False (butlast v @ [word_of_nat (unat (last v) mod 128)])
     then Inr ((if 128 \<le> unat (last v) then -1 else 1) * int (magnitude v)) else Inl NotMinimalData)"
proof -
  let ?t = "word_of_nat (unat (last v) mod 128) :: u8"
  have t: "unat ?t = unat (last v) mod 128"
    by (simp add: unat_of_nat)
  have t0: "?t = 0 \<longleftrightarrow> unat (last v) mod 128 = 0"
    by (metis t unat_eq_zero)
  have last: "v ! (length v - 1) = last v"
    using assms(1) by (simp add: last_conv_nth)
  have prev: "v ! (length v - 2) = (butlast v @ [?t]) ! (length v - 2)" if "length v \<noteq> 1"
    using that assms(1) by (cases v rule: rev_cases) (auto simp: nth_append)
  have min: "check_minimal_data_encoding v = (if canonical False (butlast v @ [?t]) then Inr () else Inl NotMinimalData)"
  proof -
    have and0: "v ! (length v - 1) AND 0x7f = 0 \<longleftrightarrow> ?t = 0"
      unfolding last t0 by (rule byte_and_7f_0)
    have "unat ?t < 128"
      by (simp add: t)
    then have "canonical False (butlast v @ [?t]) \<longleftrightarrow> \<not> (?t = 0 \<and> (length v = 1 \<or> v ! (length v - 2) AND 0x80 = 0))"
      using assms(1) prev by (auto simp: canonical_iff Suc_diff_Suc not_le simp del: byte_and_7f_0)
    then show ?thesis
      using assms(1) unfolding check_minimal_data_encoding_def and0 by simp
  qed
  show ?thesis
    using assms unfolding deserialize_i64_def min Let_def last butlast_take fold_bytes byte_and_7f byte_drop_7 magnitude_def
    by (simp add: algebra_simps)
qed

lemma serialize_i64_shape:
  assumes "n \<noteq> 0"
  obtains bs t where "number_bytes (nat \<bar>n\<bar>) False = bs @ [t]" "unat t < 128" "canonical False (bs @ [t])"
    "from_le (bs @ [t]) = nat \<bar>n\<bar>" "serialize_i64 n = (if n < 0 then bs @ [t OR 0x80] else bs @ [t])"
proof -
  let ?v = "number_bytes (nat \<bar>n\<bar>) False"
  have can: "canonical False ?v" "from_le ?v = nat \<bar>n\<bar>"
    by (rule number_bytes_canonical)+
  have "?v \<noteq> []"
    using can(2) assms by auto
  then obtain bs t where v: "?v = bs @ [t]"
    by (metis append_butlast_last_id)
  have "unat t < 128"
    using can(1) canonical_iff [of "bs @ [t]" False] unfolding v by simp
  then show thesis
    using that can unfolding v by (simp add: serialize_i64_def v set_sign_def)
qed

lemma length_serialize_i64: "length (serialize_i64 n) = length (number_bytes (nat \<bar>n\<bar>) False)"
  by (cases "n = 0"; cases "number_bytes (nat \<bar>n\<bar>) False = []")
     (simp_all add: serialize_i64_def set_sign_def Let_def number_bytes_step)

lemma length_serialize_i64_le: "length (serialize_i64 n) \<le> 8 \<longleftrightarrow> \<bar>n\<bar> < 2 ^ 63"
proof
  assume "length (serialize_i64 n) \<le> 8"
  then have "\<not> 128 * 256 ^ 7 \<le> nat \<bar>n\<bar>"
    using number_bytes_length(2) [of 7 "nat \<bar>n\<bar>" False] by (auto simp: length_serialize_i64)
  then show "\<bar>n\<bar> < 2 ^ 63"
    by simp
next
  assume "\<bar>n\<bar> < 2 ^ 63"
  then have "nat \<bar>n\<bar> < 128 * 256 ^ 7"
    by simp
  then show "length (serialize_i64 n) \<le> 8"
    using number_bytes_length(1) [of "nat \<bar>n\<bar>" 7 False] by (simp add: length_serialize_i64)
qed

lemma deserialize_serialize: "\<bar>n\<bar> < 2 ^ 63 \<Longrightarrow> deserialize_i64 (serialize_i64 n) = Inr n"
proof (cases "n = 0")
  case False
  assume n: "\<bar>n\<bar> < 2 ^ 63"
  obtain bs t where v: "number_bytes (nat \<bar>n\<bar>) False = bs @ [t]" "unat t < 128" "canonical False (bs @ [t])"
      "from_le (bs @ [t]) = nat \<bar>n\<bar>" and ser: "serialize_i64 n = (if n < 0 then bs @ [t OR 0x80] else bs @ [t])"
    by (rule serialize_i64_shape [OF False])
  have len: "length (serialize_i64 n) \<le> 8"
    using n by (simp only: length_serialize_i64_le)
  have mag: "from_le bs + 256 ^ length bs * unat t = nat \<bar>n\<bar>"
    using v(4) by (simp add: from_le_append)
  have t: "word_of_nat (unat t) = t" "unat (t OR 0x80) = unat t + 128"
    using byte_or_80 [OF v(2)] by simp_all
  show ?thesis
  proof (cases "n < 0")
    case True
    then have "deserialize_i64 (serialize_i64 n) = Inr (- int (nat \<bar>n\<bar>))"
      using len v(2,3) mag t by (simp add: ser deserialize_i64_eq magnitude_def)
    then show ?thesis
      using True by simp
  next
    case pos: False
    then have "deserialize_i64 (serialize_i64 n) = Inr (int (nat \<bar>n\<bar>))"
      using len v(2,3) mag t by (simp add: ser deserialize_i64_eq magnitude_def)
    then show ?thesis
      using pos by simp
  qed
qed (simp add: serialize_i64_def deserialize_i64_def)

lemma serialize_deserialize: "deserialize_i64 v = Inr n \<Longrightarrow> serialize_i64 n = v \<and> \<bar>n\<bar> < 2 ^ 63"
proof (cases "v = []")
  case True
  assume "deserialize_i64 v = Inr n"
  then show ?thesis
    using True by (simp add: deserialize_i64_def serialize_i64_def)
next
  case False
  assume d: "deserialize_i64 v = Inr n"
  then have len: "length v \<le> 8"
    by (simp add: deserialize_i64_def split: if_splits)
  obtain bs m where v: "v = bs @ [m]"
    using False by (metis append_butlast_last_id)
  let ?t = "word_of_nat (unat m mod 128) :: u8"
  have t: "unat ?t = unat m mod 128"
    by (simp add: unat_of_nat)
  have can: "canonical False (bs @ [?t])" and n: "n = (if 128 \<le> unat m then -1 else 1) * int (magnitude v)"
    using d deserialize_i64_eq [OF False len] by (simp_all add: v split: if_splits)
  have mag: "magnitude v = from_le (bs @ [?t])"
    by (simp add: magnitude_def v from_le_append t)
  then have nb: "number_bytes (magnitude v) False = bs @ [?t]"
    using number_bytes_unique [OF can] by simp
  then have pos: "0 < magnitude v"
    by (metis append_is_Nil_conv gr0I list.distinct(1) number_bytes_0)
  have "unat m < 256"
    by (rule unat_byte_lt)
  have ser: "serialize_i64 n = v"
  proof (cases "128 \<le> unat m")
    case True
    then have "unat m mod 128 = unat m - 128"
      using \<open>unat m < 256\<close> by (simp add: le_mod_geq)
    then have "?t OR 0x80 = m"
      using byte_or_80 [of ?t] t True \<open>unat m < 256\<close> by (intro word_unat_eq_iff [THEN iffD2]) simp
    then show ?thesis
      using True pos nb n by (simp add: serialize_i64_def set_sign_def v)
  next
    case False
    then show ?thesis
      using nb n by (simp add: serialize_i64_def v)
  qed
  then show ?thesis
    using len length_serialize_i64_le [of n] by simp
qed

section \<open>Properties\<close>

text \<open>C32. A script number has exactly one encoding. A stack element is read as the number \<open>n\<close> precisely when \<open>n\<close> has
  magnitude below \<open>2 ^ 63\<close> and the element is the serialization of \<open>n\<close>; every other byte string, the padded ones and the
  negative zero included, is refused.\<close>

theorem script_number_encoding_is_canonical:
  "deserialize_i64 v = Inr n \<longleftrightarrow> \<bar>n\<bar> < 2 ^ 63 \<and> v = serialize_i64 n"
  using serialize_deserialize [of v n] deserialize_serialize [of n] by blast

end
