(* ===== verification/Script_Opcodes.thy ===== *)
theory Script_Opcodes
  imports Script_Stack
begin

text \<open>
  Script parsing (\<open>crypto/txscript/src/opcodes/macros.rs\<close>, \<open>opcodes/mod.rs\<close>, \<open>lib.rs\<close>): a script is a sequence of
  opcodes, each with the data bytes its number asks for. An opcode is its number and its data. The iterator of
  the source is the list of the bytes left, so \<open>take n\<close> on it takes at most \<open>n\<close> bytes and leaves the rest.

  The theory also holds what the code reads off an opcode without running it, and the static counts of
  signature operations. The lemmas show that parsing loses no byte: the parsed opcodes of a well-formed script
  serialize back to it.
\<close>

unbundle bit_operations_syntax

record opcode =
  oc_value :: u8
  oc_data :: bytes

definition OpFalse :: u8 where
  "OpFalse = 0x00"

definition OpData75 :: u8 where
  "OpData75 = 0x4b"

definition OpPushData1 :: u8 where
  "OpPushData1 = 0x4c"

definition OpPushData2 :: u8 where
  "OpPushData2 = 0x4d"

definition OpPushData4 :: u8 where
  "OpPushData4 = 0x4e"

definition Op1Negate :: u8 where
  "Op1Negate = 0x4f"

definition OpTrue :: u8 where
  "OpTrue = 0x51"

definition Op16 :: u8 where
  "Op16 = 0x60"

definition OpReturn :: u8 where
  "OpReturn = 0x6a"

definition OpCheckMultiSigMlDsa87 :: u8 where
  "OpCheckMultiSigMlDsa87 = 0xa7"

definition OpCheckMultiSigECDSA :: u8 where
  "OpCheckMultiSigECDSA = 0xa9"

definition OpCheckSigVerify :: u8 where
  "OpCheckSigVerify = 0xad"

definition OpCheckMultiSig :: u8 where
  "OpCheckMultiSig = 0xae"

definition OpCheckMultiSigVerify :: u8 where
  "OpCheckMultiSigVerify = 0xaf"

lemmas code_defs = opcode_defs OpFalse_def OpData75_def OpPushData1_def OpPushData2_def OpPushData4_def Op1Negate_def OpTrue_def
  Op16_def OpReturn_def OpCheckMultiSigMlDsa87_def OpCheckMultiSigECDSA_def OpCheckSigVerify_def OpCheckMultiSig_def
  OpCheckMultiSigVerify_def

definition OP_SMALL_INT_MIN_VAL :: u8 where
  "OP_SMALL_INT_MIN_VAL = 1"

definition OP_SMALL_INT_MAX_VAL :: u8 where
  "OP_SMALL_INT_MAX_VAL = 16"

definition OP_1_NEGATE_VAL :: u8 where
  "OP_1_NEGATE_VAL = 0x81"

definition NO_COST_OPCODE :: u8 where
  "NO_COST_OPCODE = 0x60"

definition MAX_PUB_KEYS_PER_MUTLTISIG :: nat where
  "MAX_PUB_KEYS_PER_MUTLTISIG = 20"

section \<open>Parsing\<close>

text \<open>The length of an opcode in the opcode list, its own byte included.\<close>

definition opcode_length :: "u8 \<Rightarrow> nat" where
  "opcode_length num = (if 0x01 \<le> num \<and> num \<le> OpData75 then unat num + 1 else 1)"

text \<open>\<open>opcode_serde\<close> for a literal length, and for a length read from the script as an integer of \<open>k\<close> bytes.\<close>

definition deserialize_fixed :: "u8 \<Rightarrow> nat \<Rightarrow> bytes \<Rightarrow> (tx_script_error + opcode) \<times> bytes" where
  "deserialize_fixed num len it =
     (let data = take (len - 1) it
      in (if length data \<noteq> len - 1 then Inl (MalformedPush (len - 1) (length data))
          else Inr \<lparr>oc_value = num, oc_data = data\<rparr>,
          drop (len - 1) it))"

definition deserialize_var :: "u8 \<Rightarrow> nat \<Rightarrow> bytes \<Rightarrow> (tx_script_error + opcode) \<times> bytes" where
  "deserialize_var num k it =
     (let size = take k it; it' = drop k it
      in if length size \<noteq> k then (Inl (MalformedPushSize size), it')
         else let len = from_le size; data = take len it'
              in (if length data \<noteq> len then Inl (MalformedPush len (length data))
                  else Inr \<lparr>oc_value = num, oc_data = data\<rparr>,
                  drop len it'))"

definition deserialize_next_opcode :: "bytes \<Rightarrow> ((tx_script_error + opcode) \<times> bytes) option" where
  "deserialize_next_opcode it =
     (case it of
        [] \<Rightarrow> None
      | num # it' \<Rightarrow>
          Some (if num = OpPushData1 then deserialize_var num 1 it'
                else if num = OpPushData2 then deserialize_var num 2 it'
                else if num = OpPushData4 then deserialize_var num 4 it'
                else deserialize_fixed num (opcode_length num) it'))"

lemma deserialize_next_shorter:
  "deserialize_next_opcode it = Some (r, it') \<Longrightarrow> length it' < length it"
  by (cases it) (auto simp: deserialize_next_opcode_def deserialize_var_def deserialize_fixed_def Let_def split: if_splits)

function parse_script :: "bytes \<Rightarrow> (tx_script_error + opcode) list" where
  "parse_script script =
     (case deserialize_next_opcode script of None \<Rightarrow> [] | Some (r, rest) \<Rightarrow> r # parse_script rest)"
  by pat_completeness auto

termination parse_script
  by (relation "measure length") (use deserialize_next_shorter in auto)

declare parse_script.simps [simp del]

definition serialize_opcode :: "opcode \<Rightarrow> bytes" where
  "serialize_opcode opc =
     (if oc_value opc = OpPushData1 then oc_value opc # to_le 1 (length (oc_data opc)) @ oc_data opc
      else if oc_value opc = OpPushData2 then oc_value opc # to_le 2 (length (oc_data opc)) @ oc_data opc
      else if oc_value opc = OpPushData4 then oc_value opc # to_le 4 (length (oc_data opc)) @ oc_data opc
      else oc_value opc # oc_data opc)"

section \<open>What an opcode is\<close>

definition is_disabled :: "opcode \<Rightarrow> bool" where
  "is_disabled opc \<longleftrightarrow>
     oc_value opc \<in> set [0x7e, 0x7f, 0x80, 0x81, 0x83, 0x84, 0x85, 0x86, 0x8d, 0x8e, 0x95, 0x96, 0x97, 0x98, 0x99]"

definition always_illegal :: "opcode \<Rightarrow> bool" where
  "always_illegal opc \<longleftrightarrow> oc_value opc = 0x65 \<or> oc_value opc = 0x66"

definition is_push_opcode :: "opcode \<Rightarrow> bool" where
  "is_push_opcode opc \<longleftrightarrow> oc_value opc \<le> NO_COST_OPCODE"

definition is_conditional :: "opcode \<Rightarrow> bool" where
  "is_conditional opc \<longleftrightarrow> 0x63 \<le> oc_value opc \<and> oc_value opc \<le> 0x68"

definition check_minimal_data_push :: "opcode \<Rightarrow> tx_script_error + unit" where
  "check_minimal_data_push opc =
     (let data_len = length (oc_data opc); opc_val = oc_value opc;
          minimal =
            (if data_len = 0 then opc_val = OpFalse
             else if data_len = 1 \<and> OP_SMALL_INT_MIN_VAL \<le> oc_data opc ! 0 \<and> oc_data opc ! 0 \<le> OP_SMALL_INT_MAX_VAL
             then opc_val = OpTrue + oc_data opc ! 0 - 1
             else if data_len = 1 \<and> oc_data opc ! 0 = OP_1_NEGATE_VAL then opc_val = Op1Negate
             else if data_len \<le> unat OpData75 then unat opc_val = data_len
             else if data_len \<le> 255 then opc_val = OpPushData1
             else \<not> (data_len < 65535 \<and> opc_val \<noteq> OpPushData2))
      in if minimal then Inr () else Inl NotMinimalData)"

definition is_legacy_signature_opcode :: "u8 \<Rightarrow> bool" where
  "is_legacy_signature_opcode tag \<longleftrightarrow>
     tag \<in> set [OpCheckMultiSigECDSA, OpCheckSigECDSA, OpCheckSig, OpCheckSigVerify, OpCheckMultiSig, OpCheckMultiSigVerify]"

section \<open>Static counts\<close>

text \<open>\<open>None\<close> is the failed assertion of \<open>to_small_int\<close>, whose range leaves \<open>Op16\<close> out.\<close>

definition to_small_int :: "opcode \<Rightarrow> nat option" where
  "to_small_int opc =
     (if oc_value opc = OpFalse then Some 0
      else if OpTrue \<le> oc_value opc \<and> oc_value opc < Op16 then Some (unat (oc_value opc - (OpTrue - 1)))
      else None)"

fun count_sig_ops :: "opcode option \<Rightarrow> u64 \<Rightarrow> (tx_script_error + opcode) list \<Rightarrow> u64 option" where
  "count_sig_ops prev num_sigs [] = Some num_sigs"
| "count_sig_ops prev num_sigs (Inl e # ops) = Some num_sigs"
| "count_sig_ops prev num_sigs (Inr opc # ops) =
     (if oc_value opc \<in> set [OpCheckSig, OpCheckSigVerify, OpCheckSigECDSA]
      then count_sig_ops (Some opc) (num_sigs + 1) ops
      else if oc_value opc \<in> set [OpCheckMultiSig, OpCheckMultiSigVerify, OpCheckMultiSigECDSA, OpCheckMultiSigMlDsa87] then
        (case prev of
           None \<Rightarrow> count_sig_ops (Some opc) (num_sigs + MAX_PUB_KEYS_PER_MUTLTISIG) ops
         | Some p \<Rightarrow>
             if OpTrue \<le> oc_value p \<and> oc_value p \<le> Op16 then
               (case to_small_int p of
                  None \<Rightarrow> None
                | Some n \<Rightarrow> count_sig_ops (Some opc) (num_sigs + n) ops)
             else count_sig_ops (Some opc) (num_sigs + MAX_PUB_KEYS_PER_MUTLTISIG) ops)
      else count_sig_ops (Some opc) num_sigs ops)"

definition get_sig_op_count_by_opcodes :: "(tx_script_error + opcode) list \<Rightarrow> u64 option" where
  "get_sig_op_count_by_opcodes opcodes = count_sig_ops None 0 opcodes"

definition get_sig_op_count_upper_bound :: "bytes \<Rightarrow> script_public_key \<Rightarrow> u64 option" where
  "get_sig_op_count_upper_bound signature_script prev_script_public_key =
     (let script_pub_key_ops = parse_script (spk_script prev_script_public_key)
      in if \<not> is_pay_to_script_hash (spk_script prev_script_public_key) then get_sig_op_count_by_opcodes script_pub_key_ops
         else let signature_script_ops = parse_script signature_script
              in if signature_script_ops = [] \<or>
                    (\<exists>r\<in>set signature_script_ops. case r of Inl _ \<Rightarrow> True | Inr opc \<Rightarrow> \<not> is_push_opcode opc)
                 then Some 0
                 else case last signature_script_ops of
                        Inl _ \<Rightarrow> None
                      | Inr opc \<Rightarrow> get_sig_op_count_by_opcodes (parse_script (oc_data opc)))"

definition is_unspendable :: "bytes \<Rightarrow> bool" where
  "is_unspendable script \<longleftrightarrow>
     (\<exists>(index, r)\<in>set (enumerate 0 (parse_script script)).
        case r of Inl _ \<Rightarrow> True | Inr opc \<Rightarrow> index = 0 \<and> oc_value opc = OpReturn)"

section \<open>Parsing loses no byte\<close>

lemma push_data_distinct [simp]:
  "OpPushData1 \<noteq> OpPushData2" "OpPushData1 \<noteq> OpPushData4" "OpPushData2 \<noteq> OpPushData4"
  "OpPushData2 \<noteq> OpPushData1" "OpPushData4 \<noteq> OpPushData1" "OpPushData4 \<noteq> OpPushData2"
  by (simp_all add: code_defs)

lemma to_le_from_le_take: "length v = k \<Longrightarrow> to_le k (from_le v) = v"
  using to_le_from_le [of v] by simp

lemma deserialize_fixed_ok:
  "deserialize_fixed num len it = (Inr opc, it') \<Longrightarrow> oc_value opc = num \<and> it = oc_data opc @ it'"
  by (auto simp: deserialize_fixed_def Let_def split: if_splits)

lemma deserialize_var_ok:
  assumes "deserialize_var num k it = (Inr opc, it')"
  shows "oc_value opc = num \<and> it = to_le k (length (oc_data opc)) @ oc_data opc @ it'"
proof -
  have k: "length (take k it) = k"
    and len: "length (take (from_le (take k it)) (drop k it)) = from_le (take k it)"
    and opc: "opc = \<lparr>oc_value = num, oc_data = take (from_le (take k it)) (drop k it)\<rparr>"
    and it': "it' = drop (from_le (take k it)) (drop k it)"
    using assms by (auto simp: deserialize_var_def Let_def simp del: drop_drop split: if_splits)
  have "it = take k it @ take (from_le (take k it)) (drop k it) @ drop (from_le (take k it)) (drop k it)"
    by (simp only: append_take_drop_id)
  then show ?thesis
    using to_le_from_le_take [OF k] len opc it' by simp
qed

lemma deserialize_next_serialize:
  assumes "deserialize_next_opcode it = Some (Inr opc, it')"
  shows "it = serialize_opcode opc @ it'"
proof -
  obtain num rest where it: "it = num # rest"
    using assms by (cases it) (simp_all add: deserialize_next_opcode_def)
  consider (var) k where "deserialize_var num k rest = (Inr opc, it')" "k = (if num = OpPushData1 then 1 else if num = OpPushData2 then 2 else 4)"
      "num \<in> {OpPushData1, OpPushData2, OpPushData4}"
    | (fixed) "deserialize_fixed num (opcode_length num) rest = (Inr opc, it')" "num \<notin> {OpPushData1, OpPushData2, OpPushData4}"
    using assms by (auto simp: it deserialize_next_opcode_def split: if_splits)
  then show ?thesis
  proof cases
    case var
    then show ?thesis
      using deserialize_var_ok [OF var(1)] by (auto simp: it serialize_opcode_def code_defs)
  next
    case fixed
    then show ?thesis
      using deserialize_fixed_ok [OF fixed(1)] by (auto simp: it serialize_opcode_def)
  qed
qed

lemma deserialize_next_error: "deserialize_next_opcode it = Some (Inl e, it') \<Longrightarrow> it' = []"
  by (cases it) (auto simp: deserialize_next_opcode_def deserialize_var_def deserialize_fixed_def Let_def split: if_splits)

lemma parse_script_Nil [simp]: "parse_script [] = []"
  by (simp add: parse_script.simps deserialize_next_opcode_def)

lemma parse_script_serialize: "map Inr ops = parse_script script \<Longrightarrow> concat (map serialize_opcode ops) = script"
proof (induction script arbitrary: ops rule: parse_script.induct)
  case (1 script)
  show ?case
  proof (cases "deserialize_next_opcode script")
    case None
    then show ?thesis
      using "1.prems" by (cases script) (simp_all add: parse_script.simps deserialize_next_opcode_def)
  next
    case (Some p)
    obtain r rest where p: "p = (r, rest)"
      by (cases p)
    obtain opc ops' where ops: "ops = opc # ops'" "r = Inr opc" "map Inr ops' = parse_script rest"
      using "1.prems" Some p by (cases ops) (auto simp: parse_script.simps [of script])
    then show ?thesis
      using "1.IH" [OF Some p [symmetric]] deserialize_next_serialize [of script opc rest] Some p by simp
  qed
qed

text \<open>The data length an opcode number asks for.\<close>

definition wf_opcode :: "opcode \<Rightarrow> bool" where
  "wf_opcode opc \<longleftrightarrow>
     (if oc_value opc = OpPushData1 then length (oc_data opc) < 256 ^ 1
      else if oc_value opc = OpPushData2 then length (oc_data opc) < 256 ^ 2
      else if oc_value opc = OpPushData4 then length (oc_data opc) < 256 ^ 4
      else length (oc_data opc) = opcode_length (oc_value opc) - 1)"

lemma deserialize_var_wf:
  assumes "deserialize_var num k it = (Inr opc, it')"
  shows "length (oc_data opc) < 256 ^ k"
proof -
  have "length (take k it) = k" and "length (oc_data opc) = from_le (take k it)"
    using assms by (auto simp: deserialize_var_def Let_def split: if_splits)
  then show ?thesis
    using from_le_lt [of "take k it"] by simp
qed

lemma deserialize_next_wf:
  assumes "deserialize_next_opcode it = Some (Inr opc, it')"
  shows "wf_opcode opc"
proof -
  obtain num rest where it: "it = num # rest"
    using assms by (cases it) (simp_all add: deserialize_next_opcode_def)
  then have d: "(if num = OpPushData1 then deserialize_var num 1 rest
      else if num = OpPushData2 then deserialize_var num 2 rest
      else if num = OpPushData4 then deserialize_var num 4 rest
      else deserialize_fixed num (opcode_length num) rest) = (Inr opc, it')"
    using assms by (simp add: deserialize_next_opcode_def)
  have fixed: "length (oc_data opc) = n - 1" if "deserialize_fixed num n rest = (Inr opc, it')" for n
    using that by (auto simp: deserialize_fixed_def Let_def split: if_splits)
  have num: "oc_value opc = num"
    using d deserialize_var_ok deserialize_fixed_ok by (metis (no_types))
  show ?thesis
    unfolding wf_opcode_def num using d fixed [of "opcode_length num"]
      deserialize_var_wf [of num 1 rest opc it'] deserialize_var_wf [of num 2 rest opc it'] deserialize_var_wf [of num 4 rest opc it']
    by (simp split: if_splits)
qed

lemma deserialize_var_serialized:
  "length data < 256 ^ k \<Longrightarrow>
   deserialize_var num k (to_le k (length data) @ data @ it) = (Inr \<lparr>oc_value = num, oc_data = data\<rparr>, it)"
  by (simp add: deserialize_var_def from_le_to_le)

lemma deserialize_next_serialized:
  fixes opc :: opcode
  assumes "wf_opcode opc"
  shows "deserialize_next_opcode (serialize_opcode opc @ it) = Some (Inr opc, it)"
proof -
  obtain num data where opc: "opc = \<lparr>oc_value = num, oc_data = data\<rparr>"
    by (cases opc)
  have fixed: "deserialize_fixed num n (data @ it) = (Inr opc, it)" if "length data = n - 1" for n
    using that by (simp add: deserialize_fixed_def opc)
  note var = deserialize_var_serialized [of data _ num it]
  show ?thesis
    using assms fixed [of "opcode_length num"] var [of 1] var [of 2] var [of 4]
    unfolding opc wf_opcode_def serialize_opcode_def deserialize_next_opcode_def
    by (simp del: power_numeral to_le.simps One_nat_def split: if_splits)
qed

lemma parse_script_step:
  "wf_opcode opc \<Longrightarrow> parse_script (serialize_opcode opc @ it) = Inr opc # parse_script it"
  by (simp add: parse_script.simps [of "serialize_opcode opc @ it"] deserialize_next_serialized)

lemma parse_script_wf: "Inr opc \<in> set (parse_script script) \<Longrightarrow> wf_opcode opc"
proof (induction script rule: parse_script.induct)
  case (1 script)
  then show ?case
    by (cases "deserialize_next_opcode script")
      (auto simp: parse_script.simps [of script] dest: deserialize_next_wf)
qed

lemma parse_serialized: "list_all wf_opcode ops \<Longrightarrow> parse_script (concat (map serialize_opcode ops)) = map Inr ops"
  by (induction ops) (simp_all add: parse_script_step)

section \<open>Properties\<close>

text \<open>C31. Parsing a script and writing its opcodes back are inverse to each other: a script parses without error into a
  list of opcodes precisely when these opcodes carry the data their numbers ask for and the script is their
  serialization. So no byte of a script is skipped or read twice, and two scripts with the same opcodes are equal.\<close>

theorem parse_script_round_trip:
  "parse_script script = map Inr ops \<longleftrightarrow> list_all wf_opcode ops \<and> script = concat (map serialize_opcode ops)"
proof
  assume p: "parse_script script = map Inr ops"
  then have "Inr opc \<in> set (parse_script script)" if "opc \<in> set ops" for opc
    using that by simp
  then show "list_all wf_opcode ops \<and> script = concat (map serialize_opcode ops)"
    using parse_script_serialize [OF p [symmetric]] parse_script_wf by (auto simp: list_all_iff)
qed (use parse_serialized in auto)

end
