(* ===== verification/Tx_Encoding.thy ===== *)
theory Tx_Encoding
  imports Utxo_Algebra Byte_Codec
begin

text \<open>
  The byte strings that are hashed for a transaction: its hash and its id (\<open>consensus/core/src/hashing/tx.rs\<close>), over the
  writers of \<open>consensus/core/src/hashing/mod.rs\<close>. A hasher is a function from the bytes written to a 64-byte hash.

  An encoder that can be read back from the front of any byte string is \<open>prefix_free\<close>; the locale gives that lists of
  encoded items can be read back, and is interpreted on the writers. With it the full encoding determines the
  transaction and the encoding of the id determines all but what signatures and miners may change.
\<close>

locale prefix_free =
  fixes enc :: "'a \<Rightarrow> bytes" and valid :: "'a \<Rightarrow> bool"
  assumes cancel: "valid x \<Longrightarrow> valid y \<Longrightarrow> enc x @ r = enc y @ s \<Longrightarrow> x = y \<and> r = s"
begin

lemma enc_inj: "valid x \<Longrightarrow> valid y \<Longrightarrow> enc x = enc y \<Longrightarrow> x = y"
  using cancel [of x y "[]" "[]"] by simp

lemma counted_cancel:
  "length xs = length ys \<Longrightarrow> list_all valid xs \<Longrightarrow> list_all valid ys \<Longrightarrow>
   concat (map enc xs) @ r = concat (map enc ys) @ s \<Longrightarrow> xs = ys \<and> r = s"
proof (induction xs ys rule: list_induct2)
  case (Cons x xs y ys)
  have eq: "enc x @ (concat (map enc xs) @ r) = enc y @ (concat (map enc ys) @ s)"
    using Cons.prems(3) by simp
  have "x = y \<and> concat (map enc xs) @ r = concat (map enc ys) @ s"
    by (rule cancel [OF _ _ eq]) (use Cons.prems in simp_all)
  then show ?case
    using Cons by simp
qed simp

lemma stream_inj:
  assumes nonempty: "\<And>x. valid x \<Longrightarrow> enc x \<noteq> []"
    and valid: "list_all valid xs" "list_all valid ys" and eq: "concat (map enc xs) = concat (map enc ys)"
  shows "xs = ys"
  using valid eq
proof (induction xs arbitrary: ys)
  case Nil
  then show ?case
    using nonempty by (cases ys) auto
next
  case (Cons x xs)
  then obtain y ys' where ys: "ys = y # ys'"
    using nonempty by (cases ys) auto
  have "enc x @ concat (map enc xs) = enc y @ concat (map enc ys')"
    using Cons.prems(3) by (simp add: ys)
  then have "x = y \<and> concat (map enc xs) = concat (map enc ys')"
    using Cons.prems(1,2) by (intro cancel) (simp_all add: ys)
  then show ?case
    using Cons by (simp add: ys)
qed

end

lemma fixed_width_cancel:
  assumes "\<And>x. valid x \<Longrightarrow> length (enc x) = n" and "\<And>x y. valid x \<Longrightarrow> valid y \<Longrightarrow> enc x = enc y \<Longrightarrow> x = y"
  shows "prefix_free enc valid"
proof
  fix x y r s assume "valid x" "valid y" "enc x @ r = enc y @ s"
  then show "x = y \<and> r = s"
    using assms by (metis append_eq_append_conv)
qed

lemma to_le_inj: "m < 256 ^ k \<Longrightarrow> n < 256 ^ k \<Longrightarrow> to_le k m = to_le k n \<Longrightarrow> m = n"
  by (metis from_le_to_le_exact)

lemma to_le_prefix_free: "prefix_free (to_le k) (\<lambda>n. n < 256 ^ k)"
  by (rule fixed_width_cancel [where n = k]) (simp_all add: to_le_inj)

interpretation le2: prefix_free "to_le 2" "\<lambda>n. n < 256 ^ 2"
  by (rule to_le_prefix_free)

interpretation le4: prefix_free "to_le 4" "\<lambda>n. n < 256 ^ 4"
  by (rule to_le_prefix_free)

interpretation le8: prefix_free "to_le 8" "\<lambda>n. n < 256 ^ 8"
  by (rule to_le_prefix_free)

section \<open>Writers\<close>

definition write_len :: "usize \<Rightarrow> bytes" where
  "write_len n = to_le 8 n"

definition write_var_bytes :: "bytes \<Rightarrow> bytes" where
  "write_var_bytes bs = write_len (length bs) @ bs"

definition write_outpoint :: "transaction_outpoint \<Rightarrow> bytes" where
  "write_outpoint p = as_bytes (op_transaction_id p) @ to_le 4 (op_index p)"

record tx_encoding_flags =
  exclude_signature_script :: bool
  exclude_mass_commit :: bool

definition FULL_ENCODING :: tx_encoding_flags where
  "FULL_ENCODING = \<lparr>exclude_signature_script = False, exclude_mass_commit = False\<rparr>"

definition write_input :: "tx_encoding_flags \<Rightarrow> transaction_input \<Rightarrow> bytes" where
  "write_input encoding_flags input =
     write_outpoint (in_previous_outpoint input) @
     (if \<not> exclude_signature_script encoding_flags
      then write_var_bytes (in_signature_script input) @ [word_of_nat (in_sig_op_count input)]
      else write_var_bytes []) @
     to_le 8 (in_sequence input)"

definition write_output :: "transaction_output \<Rightarrow> bytes" where
  "write_output output =
     to_le 8 (out_value output) @ to_le 2 (spk_version (out_script_public_key output)) @
     write_var_bytes (spk_script (out_script_public_key output))"

definition write_transaction :: "tx_encoding_flags \<Rightarrow> transaction \<Rightarrow> bytes" where
  "write_transaction encoding_flags tx =
     to_le 2 (tx_version tx) @ write_len (length (tx_inputs tx)) @ concat (map (write_input encoding_flags) (tx_inputs tx)) @
     write_len (length (tx_outputs tx)) @ concat (map write_output (tx_outputs tx)) @
     to_le 8 (tx_lock_time tx) @ subnetwork_bytes (tx_subnetwork_id tx) @ to_le 8 (tx_gas tx) @
     write_var_bytes (tx_payload tx) @
     (if \<not> exclude_mass_commit encoding_flags then (if 0 < tx_mass tx then to_le 8 (tx_mass tx) else []) else [])"

definition tx_hash :: "(bytes \<Rightarrow> hash64) \<Rightarrow> transaction \<Rightarrow> hash64" where
  "tx_hash transaction_hash64 tx = transaction_hash64 (write_transaction FULL_ENCODING tx)"

definition tx_hash_pre_crescendo :: "(bytes \<Rightarrow> hash64) \<Rightarrow> transaction \<Rightarrow> hash64" where
  "tx_hash_pre_crescendo transaction_hash64 tx =
     transaction_hash64 (write_transaction \<lparr>exclude_signature_script = False, exclude_mass_commit = True\<rparr> tx)"

definition calc_tx_id :: "(bytes \<Rightarrow> hash64) \<Rightarrow> transaction \<Rightarrow> hash64" where
  "calc_tx_id transaction_id64 tx =
     transaction_id64 (write_transaction
       (if tx_is_coinbase tx then FULL_ENCODING else \<lparr>exclude_signature_script = True, exclude_mass_commit = True\<rparr>) tx)"

section \<open>Reading the encodings back\<close>

text \<open>Values that fit their types.\<close>

definition wf_hash :: "hash64 \<Rightarrow> bool" where
  "wf_hash h \<longleftrightarrow> length (as_bytes h) = HASH64_SIZE"

definition wf_outpoint :: "transaction_outpoint \<Rightarrow> bool" where
  "wf_outpoint p \<longleftrightarrow> wf_hash (op_transaction_id p) \<and> op_index p < 256 ^ 4"

definition wf_spk :: "script_public_key \<Rightarrow> bool" where
  "wf_spk spk \<longleftrightarrow> spk_version spk < 256 ^ 2 \<and> length (spk_script spk) < 256 ^ 8"

definition wf_input :: "transaction_input \<Rightarrow> bool" where
  "wf_input i \<longleftrightarrow> wf_outpoint (in_previous_outpoint i) \<and> length (in_signature_script i) < 256 ^ 8 \<and>
     in_sig_op_count i < 256 \<and> in_sequence i < 256 ^ 8"

definition wf_output :: "transaction_output \<Rightarrow> bool" where
  "wf_output t \<longleftrightarrow> out_value t < 256 ^ 8 \<and> wf_spk (out_script_public_key t)"

definition wf_transaction :: "transaction \<Rightarrow> bool" where
  "wf_transaction tx \<longleftrightarrow>
     tx_version tx < 256 ^ 2 \<and> length (tx_inputs tx) < 256 ^ 8 \<and> list_all wf_input (tx_inputs tx) \<and>
     length (tx_outputs tx) < 256 ^ 8 \<and> list_all wf_output (tx_outputs tx) \<and> tx_lock_time tx < 256 ^ 8 \<and>
     length (subnetwork_bytes (tx_subnetwork_id tx)) = SUBNETWORK_ID_SIZE \<and> tx_gas tx < 256 ^ 8 \<and>
     length (tx_payload tx) < 256 ^ 8 \<and> tx_mass tx < 256 ^ 8"

lemma write_len_cancel: "m < 256 ^ 8 \<Longrightarrow> n < 256 ^ 8 \<Longrightarrow> write_len m @ r = write_len n @ s \<Longrightarrow> m = n \<and> r = s"
  unfolding write_len_def by (rule le8.cancel)

interpretation var_bytes: prefix_free write_var_bytes "\<lambda>bs. length bs < 256 ^ 8"
proof
  fix x y r s :: bytes
  assume len: "length x < 256 ^ 8" "length y < 256 ^ 8" and eq: "write_var_bytes x @ r = write_var_bytes y @ s"
  have "length x = length y \<and> x @ r = y @ s"
    using eq by (intro write_len_cancel [OF len]) (simp add: write_var_bytes_def)
  then show "x = y \<and> r = s"
    using append_eq_append_conv by blast
qed

interpretation hash_bytes: prefix_free as_bytes wf_hash
  by (rule fixed_width_cancel [where n = HASH64_SIZE]) (simp_all add: wf_hash_def hash64.expand)

interpretation subnetwork: prefix_free subnetwork_bytes "\<lambda>s. length (subnetwork_bytes s) = SUBNETWORK_ID_SIZE"
  by (rule fixed_width_cancel [where n = SUBNETWORK_ID_SIZE]) (simp_all add: subnetwork_id.expand)

interpretation sig_op: prefix_free "\<lambda>n. [word_of_nat n]" "\<lambda>n. n < 256"
proof (rule fixed_width_cancel [where n = 1])
  fix x y :: nat
  assume "x < 256" "y < 256" "[word_of_nat x :: u8] = [word_of_nat y]"
  then show "x = y"
    by (metis list.inject mod_less unat_byte)
qed simp

interpretation outpoint_bytes: prefix_free write_outpoint wf_outpoint
proof
  fix x y r s
  assume wf: "wf_outpoint x" "wf_outpoint y" and eq: "write_outpoint x @ r = write_outpoint y @ s"
  have id: "op_transaction_id x = op_transaction_id y \<and> to_le 4 (op_index x) @ r = to_le 4 (op_index y) @ s"
    using wf eq by (intro hash_bytes.cancel) (simp_all add: wf_outpoint_def write_outpoint_def)
  then have "op_index x = op_index y \<and> r = s"
    using wf by (intro le4.cancel) (simp_all add: wf_outpoint_def)
  then show "x = y \<and> r = s"
    using id by simp
qed

interpretation output_bytes: prefix_free write_output wf_output
proof
  fix x y r s
  assume wf: "wf_output x" "wf_output y" and eq: "write_output x @ r = write_output y @ s"
  let ?x = "out_script_public_key x" and ?y = "out_script_public_key y"
  have v: "out_value x = out_value y \<and> to_le 2 (spk_version ?x) @ write_var_bytes (spk_script ?x) @ r =
      to_le 2 (spk_version ?y) @ write_var_bytes (spk_script ?y) @ s"
    using wf eq by (intro le8.cancel) (simp_all add: wf_output_def write_output_def)
  then have ver: "spk_version ?x = spk_version ?y \<and> write_var_bytes (spk_script ?x) @ r = write_var_bytes (spk_script ?y) @ s"
    using wf by (intro le2.cancel) (simp_all add: wf_output_def wf_spk_def)
  then have "spk_script ?x = spk_script ?y \<and> r = s"
    using wf by (intro var_bytes.cancel) (simp_all add: wf_output_def wf_spk_def)
  then show "x = y \<and> r = s"
    using v ver by simp
qed

interpretation full_input: prefix_free "write_input FULL_ENCODING" wf_input
proof
  fix x y r s
  assume wf: "wf_input x" "wf_input y" and eq: "write_input FULL_ENCODING x @ r = write_input FULL_ENCODING y @ s"
  note defs = wf_input_def write_input_def FULL_ENCODING_def
  have p: "in_previous_outpoint x = in_previous_outpoint y \<and>
      write_var_bytes (in_signature_script x) @ [word_of_nat (in_sig_op_count x)] @ to_le 8 (in_sequence x) @ r =
      write_var_bytes (in_signature_script y) @ [word_of_nat (in_sig_op_count y)] @ to_le 8 (in_sequence y) @ s"
    using wf eq by (intro outpoint_bytes.cancel) (simp_all add: defs)
  then have sc: "in_signature_script x = in_signature_script y \<and>
      [word_of_nat (in_sig_op_count x)] @ to_le 8 (in_sequence x) @ r =
      [word_of_nat (in_sig_op_count y)] @ to_le 8 (in_sequence y) @ s"
    using wf by (intro var_bytes.cancel) (simp_all add: wf_input_def)
  then have so: "in_sig_op_count x = in_sig_op_count y \<and> to_le 8 (in_sequence x) @ r = to_le 8 (in_sequence y) @ s"
    using wf by (intro sig_op.cancel) (simp_all add: wf_input_def)
  then have "in_sequence x = in_sequence y \<and> r = s"
    using wf by (intro le8.cancel) (simp_all add: wf_input_def)
  then show "x = y \<and> r = s"
    using p sc so by simp
qed

text \<open>What the id leaves out of an input.\<close>

definition unsigned_input :: "transaction_input \<Rightarrow> transaction_input" where
  "unsigned_input i = i\<lparr>in_signature_script := [], in_sig_op_count := 0\<rparr>"

interpretation id_input: prefix_free "write_input \<lparr>exclude_signature_script = True, exclude_mass_commit = True\<rparr>"
  "\<lambda>i. wf_input i \<and> unsigned_input i = i"
proof
  let ?enc = "write_input \<lparr>exclude_signature_script = True, exclude_mass_commit = True\<rparr>"
  fix x y r s
  assume wf: "wf_input x \<and> unsigned_input x = x" "wf_input y \<and> unsigned_input y = y" and eq: "?enc x @ r = ?enc y @ s"
  have p: "in_previous_outpoint x = in_previous_outpoint y \<and>
      write_var_bytes [] @ to_le 8 (in_sequence x) @ r = write_var_bytes [] @ to_le 8 (in_sequence y) @ s"
    using wf eq by (intro outpoint_bytes.cancel) (simp_all add: wf_input_def write_input_def)
  then have "in_sequence x = in_sequence y \<and> r = s"
    using wf by (intro le8.cancel) (simp_all add: wf_input_def)
  then show "x = y \<and> r = s"
    using wf p by (cases x; cases y) (simp add: unsigned_input_def)
qed

lemma write_input_unsigned:
  "write_input \<lparr>exclude_signature_script = True, exclude_mass_commit = True\<rparr> i =
   write_input \<lparr>exclude_signature_script = True, exclude_mass_commit = True\<rparr> (unsigned_input i)"
  by (simp add: write_input_def unsigned_input_def)

text \<open>The fields behind the inputs, common to both encodings.\<close>

lemma transaction_tail_cancel:
  assumes wf: "wf_transaction x" "wf_transaction y"
    and eq: "write_len (length (tx_outputs x)) @ concat (map write_output (tx_outputs x)) @
      to_le 8 (tx_lock_time x) @ subnetwork_bytes (tx_subnetwork_id x) @ to_le 8 (tx_gas x) @ write_var_bytes (tx_payload x) @ r =
      write_len (length (tx_outputs y)) @ concat (map write_output (tx_outputs y)) @
      to_le 8 (tx_lock_time y) @ subnetwork_bytes (tx_subnetwork_id y) @ to_le 8 (tx_gas y) @ write_var_bytes (tx_payload y) @ s"
  shows "tx_outputs x = tx_outputs y" "tx_lock_time x = tx_lock_time y" "tx_subnetwork_id x = tx_subnetwork_id y"
    "tx_gas x = tx_gas y" "tx_payload x = tx_payload y" "r = s"
proof -
  note w = wf [unfolded wf_transaction_def]
  have len: "length (tx_outputs x) < 256 ^ 8" "length (tx_outputs y) < 256 ^ 8"
    and outs: "list_all wf_output (tx_outputs x)" "list_all wf_output (tx_outputs y)"
    and lock: "tx_lock_time x < 256 ^ 8" "tx_lock_time y < 256 ^ 8" and gas: "tx_gas x < 256 ^ 8" "tx_gas y < 256 ^ 8"
    and sub: "length (subnetwork_bytes (tx_subnetwork_id x)) = SUBNETWORK_ID_SIZE"
      "length (subnetwork_bytes (tx_subnetwork_id y)) = SUBNETWORK_ID_SIZE"
    and pay: "length (tx_payload x) < 256 ^ 8" "length (tx_payload y) < 256 ^ 8"
    using w by blast+
  note 1 = write_len_cancel [OF len eq]
  note 2 = output_bytes.counted_cancel [OF conjunct1 [OF 1] outs conjunct2 [OF 1]]
  note 3 = le8.cancel [OF lock conjunct2 [OF 2]]
  note 4 = subnetwork.cancel [OF sub conjunct2 [OF 3]]
  note 5 = le8.cancel [OF gas conjunct2 [OF 4]]
  note 6 = var_bytes.cancel [OF pay conjunct2 [OF 5]]
  show "tx_outputs x = tx_outputs y" "tx_lock_time x = tx_lock_time y" "tx_subnetwork_id x = tx_subnetwork_id y"
    "tx_gas x = tx_gas y" "tx_payload x = tx_payload y" "r = s"
    using 2 3 4 5 6 by blast+
qed

lemma mass_commit_inj:
  "m < 256 ^ 8 \<Longrightarrow> n < 256 ^ 8 \<Longrightarrow>
   (if 0 < m then to_le 8 m else []) = (if 0 < n then to_le 8 n else []) \<Longrightarrow> m = n"
proof (cases "0 < m \<and> 0 < n")
  case True
  assume "m < 256 ^ 8" "n < 256 ^ 8" "(if 0 < m then to_le 8 m else []) = (if 0 < n then to_le 8 n else [])"
  then show ?thesis
    using True to_le_inj [of m 8 n] by simp
next
  case False
  assume "(if 0 < m then to_le 8 m else []) = (if 0 < n then to_le 8 n else [])"
  then have "length (if 0 < m then to_le 8 m else []) = length (if 0 < n then to_le 8 n else [])"
    by (rule arg_cong)
  then show ?thesis
    using False by (cases "0 < m"; cases "0 < n") simp_all
qed

lemma full_encoding_inj:
  assumes wf: "wf_transaction x" "wf_transaction y"
    and eq: "write_transaction FULL_ENCODING x = write_transaction FULL_ENCODING y"
  shows "x\<lparr>tx_id := tx_id y\<rparr> = y"
proof -
  have len: "length (tx_inputs x) < 256 ^ 8" "length (tx_inputs y) < 256 ^ 8"
    and ver: "tx_version x < 256 ^ 2" "tx_version y < 256 ^ 2" and mass: "tx_mass x < 256 ^ 8" "tx_mass y < 256 ^ 8"
    and ins: "list_all wf_input (tx_inputs x)" "list_all wf_input (tx_inputs y)"
    using wf by (simp_all add: wf_transaction_def)
  note 1 = le2.cancel [OF ver eq [unfolded write_transaction_def]]
  note 2 = write_len_cancel [OF len conjunct2 [OF 1]]
  note 3 = full_input.counted_cancel [OF conjunct1 [OF 2] ins conjunct2 [OF 2]]
  note 4 = transaction_tail_cancel [OF wf conjunct2 [OF 3]]
  have "tx_mass x = tx_mass y"
    using 4(6) mass_commit_inj [OF mass] by (simp add: FULL_ENCODING_def)
  then show ?thesis
    using conjunct1 [OF 1] conjunct1 [OF 3] 4(1-5) by simp
qed

text \<open>The transaction without what the id does not cover: signature scripts, signature-operation counts, mass and the
  cached id itself.\<close>

definition unsigned_tx :: "transaction \<Rightarrow> transaction" where
  "unsigned_tx tx = tx\<lparr>tx_inputs := map unsigned_input (tx_inputs tx), tx_mass := 0, tx_id := hash64_default\<rparr>"

lemma id_encoding_inj:
  assumes wf: "wf_transaction x" "wf_transaction y"
    and eq: "write_transaction \<lparr>exclude_signature_script = True, exclude_mass_commit = True\<rparr> x =
      write_transaction \<lparr>exclude_signature_script = True, exclude_mass_commit = True\<rparr> y"
  shows "unsigned_tx x = unsigned_tx y"
proof -
  let ?f = "\<lparr>exclude_signature_script = True, exclude_mass_commit = True\<rparr>"
  have len: "length (tx_inputs x) < 256 ^ 8" "length (tx_inputs y) < 256 ^ 8"
    and ver: "tx_version x < 256 ^ 2" "tx_version y < 256 ^ 2"
    and ins: "list_all wf_input (tx_inputs x)" "list_all wf_input (tx_inputs y)"
    using wf by (simp_all add: wf_transaction_def)
  have enc: "concat (map (write_input ?f) is) = concat (map (write_input ?f) (map unsigned_input is))" for "is"
    by (simp add: comp_def write_input_unsigned [symmetric])
  have wfu: "list_all (\<lambda>i. wf_input i \<and> unsigned_input i = i) (map unsigned_input is)" if "list_all wf_input is" for "is"
    using that by (induction "is") (simp_all add: wf_input_def unsigned_input_def)
  note 1 = le2.cancel [OF ver eq [unfolded write_transaction_def]]
  note 2 = write_len_cancel [OF len conjunct2 [OF 1]]
  have lens: "length (map unsigned_input (tx_inputs x)) = length (map unsigned_input (tx_inputs y))"
    using 2 by simp
  have ins': "concat (map (write_input ?f) (map unsigned_input (tx_inputs x))) @ r =
      concat (map (write_input ?f) (map unsigned_input (tx_inputs y))) @ s"
    if "concat (map (write_input ?f) (tx_inputs x)) @ r = concat (map (write_input ?f) (tx_inputs y)) @ s" for r s
    using that by (simp only: enc [of "tx_inputs x", symmetric] enc [of "tx_inputs y", symmetric])
  note 3 = id_input.counted_cancel [OF lens wfu [OF ins(1)] wfu [OF ins(2)] ins' [OF conjunct2 [OF 2]]]
  note 4 = transaction_tail_cancel [OF wf conjunct2 [OF 3]]
  show ?thesis
    using conjunct1 [OF 1] conjunct1 [OF 3] 4(1-5) by (simp add: unsigned_tx_def)
qed

section \<open>Properties\<close>

text \<open>C20. The transaction hash commits to the whole transaction. For transactions whose fields fit their types and a
  hasher that does not collide on the two encodings, equal hashes mean equal transactions up to the cached id.\<close>

theorem tx_hash_commits_to_the_transaction:
  assumes "wf_transaction x" and "wf_transaction y"
    and "H (write_transaction FULL_ENCODING x) = H (write_transaction FULL_ENCODING y) \<Longrightarrow>
      write_transaction FULL_ENCODING x = write_transaction FULL_ENCODING y"
  shows "tx_hash H x = tx_hash H y \<longleftrightarrow> x\<lparr>tx_id := tx_id y\<rparr> = y"
proof
  show "tx_hash H x = tx_hash H y \<Longrightarrow> x\<lparr>tx_id := tx_id y\<rparr> = y"
    using full_encoding_inj [OF assms(1,2)] assms(3) by (simp add: tx_hash_def)
  have same: "write_transaction FULL_ENCODING (x\<lparr>tx_id := i\<rparr>) = write_transaction FULL_ENCODING x" for i
    by (cases x) (simp add: write_transaction_def)
  assume "x\<lparr>tx_id := tx_id y\<rparr> = y"
  then show "tx_hash H x = tx_hash H y"
    unfolding tx_hash_def using same [of "tx_id y"] by simp
qed

lemma sample_hash_wf: "wf_hash (sample_hash b)"
  by (simp add: wf_hash_def sample_hash_def)

lemma native_length: "length (subnetwork_bytes SUBNETWORK_ID_NATIVE) = SUBNETWORK_ID_SIZE"
  by (simp add: SUBNETWORK_ID_NATIVE_def subnetwork_from_byte_def SUBNETWORK_ID_SIZE_def)

lemma sample_tx_wf: "wf_transaction (vt_tx sample_tx)"
  by (simp add: wf_transaction_def sample_tx_def wf_input_def wf_outpoint_def wf_output_def wf_spk_def
      sample_outpoint_def sample_hash_wf native_length)

theorem tx_hash_commits_to_the_transaction_witness:
  "tx_hash Hash64 (vt_tx sample_tx) \<noteq> tx_hash Hash64 (vt_tx sample_tx\<lparr>tx_lock_time := 1\<rparr>)"
proof -
  have "wf_transaction (vt_tx sample_tx\<lparr>tx_lock_time := 1\<rparr>)"
    using sample_tx_wf by (simp add: wf_transaction_def)
  then have "tx_hash Hash64 (vt_tx sample_tx) = tx_hash Hash64 (vt_tx sample_tx\<lparr>tx_lock_time := 1\<rparr>) \<longleftrightarrow>
      vt_tx sample_tx\<lparr>tx_id := tx_id (vt_tx sample_tx\<lparr>tx_lock_time := 1\<rparr>)\<rparr> = vt_tx sample_tx\<lparr>tx_lock_time := 1\<rparr>"
    by (rule tx_hash_commits_to_the_transaction [OF sample_tx_wf]) simp
  then show ?thesis
    by (simp add: sample_tx_def)
qed

end
