(* ===== verification/Sighash.thy ===== *)
theory Sighash
  imports Tx_Encoding Dns_Payloads
begin

text \<open>
  The message an ML-DSA-87 transaction signature signs (\<open>consensus/core/src/hashing/sighash.rs\<close>, \<open>sighash_type.rs\<close>).
  The hasher \<open>TransactionSigningHash64\<close> is the function \<open>H\<close>. The values cached between inputs are functions of the
  transaction and the hash type, so the model computes them.

  A signature of type \<open>SIG_HASH_ALL\<close> binds everything but signature scripts, mass and id; the theorem is stated for
  a hasher that does not collide on the byte strings hashed for the two transactions.
\<close>

unbundle bit_operations_syntax

type_synonym sig_hash_type = u8

definition SIG_HASH_ALL :: sig_hash_type where
  "SIG_HASH_ALL = 0x01"

definition SIG_HASH_NONE :: sig_hash_type where
  "SIG_HASH_NONE = 0x02"

definition SIG_HASH_SINGLE :: sig_hash_type where
  "SIG_HASH_SINGLE = 0x04"

definition SIG_HASH_ANY_ONE_CAN_PAY :: sig_hash_type where
  "SIG_HASH_ANY_ONE_CAN_PAY = 0x80"

definition SIG_HASH_MASK :: u8 where
  "SIG_HASH_MASK = 0x07"

definition ALLOWED_SIG_HASH_TYPES_VALUES :: "u8 list" where
  "ALLOWED_SIG_HASH_TYPES_VALUES =
     [SIG_HASH_ALL, SIG_HASH_NONE, SIG_HASH_SINGLE, SIG_HASH_ALL OR SIG_HASH_ANY_ONE_CAN_PAY,
      SIG_HASH_NONE OR SIG_HASH_ANY_ONE_CAN_PAY, SIG_HASH_SINGLE OR SIG_HASH_ANY_ONE_CAN_PAY]"

definition is_sighash_none :: "sig_hash_type \<Rightarrow> bool" where
  "is_sighash_none t \<longleftrightarrow> t AND SIG_HASH_MASK = SIG_HASH_NONE"

definition is_sighash_single :: "sig_hash_type \<Rightarrow> bool" where
  "is_sighash_single t \<longleftrightarrow> t AND SIG_HASH_MASK = SIG_HASH_SINGLE"

definition is_sighash_anyone_can_pay :: "sig_hash_type \<Rightarrow> bool" where
  "is_sighash_anyone_can_pay t \<longleftrightarrow> t AND SIG_HASH_ANY_ONE_CAN_PAY = SIG_HASH_ANY_ONE_CAN_PAY"

definition sig_hash_type_from_u8 :: "u8 \<Rightarrow> sig_hash_type option" where
  "sig_hash_type_from_u8 val = (if val \<in> set ALLOWED_SIG_HASH_TYPES_VALUES then Some val else None)"

definition MLDSA87_SIGHASH_DOMAIN :: bytes where
  "MLDSA87_SIGHASH_DOMAIN = ascii ''kaspa-pq-v2/sighash/mldsa87''"

definition mldsa87_write_outpoint :: "transaction_outpoint \<Rightarrow> bytes" where
  "mldsa87_write_outpoint p = as_bytes (op_transaction_id p) @ to_le 4 (op_index p)"

definition mldsa87_write_script_public_key :: "script_public_key \<Rightarrow> bytes" where
  "mldsa87_write_script_public_key spk = to_le 2 (spk_version spk) @ to_le 8 (length (spk_script spk)) @ spk_script spk"

definition mldsa87_write_output :: "transaction_output \<Rightarrow> bytes" where
  "mldsa87_write_output output = to_le 8 (out_value output) @ mldsa87_write_script_public_key (out_script_public_key output)"

definition mldsa87_previous_outputs_hash :: "(bytes \<Rightarrow> hash64) \<Rightarrow> transaction \<Rightarrow> sig_hash_type \<Rightarrow> hash64" where
  "mldsa87_previous_outputs_hash H tx hash_type =
     (if is_sighash_anyone_can_pay hash_type then hash64_default
      else H (concat (map (\<lambda>input. mldsa87_write_outpoint (in_previous_outpoint input)) (tx_inputs tx))))"

definition mldsa87_sequences_hash :: "(bytes \<Rightarrow> hash64) \<Rightarrow> transaction \<Rightarrow> sig_hash_type \<Rightarrow> hash64" where
  "mldsa87_sequences_hash H tx hash_type =
     (if is_sighash_single hash_type \<or> is_sighash_anyone_can_pay hash_type \<or> is_sighash_none hash_type then hash64_default
      else H (concat (map (\<lambda>input. to_le 8 (in_sequence input)) (tx_inputs tx))))"

definition mldsa87_sig_op_counts_hash :: "(bytes \<Rightarrow> hash64) \<Rightarrow> transaction \<Rightarrow> sig_hash_type \<Rightarrow> hash64" where
  "mldsa87_sig_op_counts_hash H tx hash_type =
     (if is_sighash_anyone_can_pay hash_type then hash64_default
      else H (concat (map (\<lambda>input. [word_of_nat (in_sig_op_count input)]) (tx_inputs tx))))"

definition mldsa87_payload_hash :: "(bytes \<Rightarrow> hash64) \<Rightarrow> transaction \<Rightarrow> hash64" where
  "mldsa87_payload_hash H tx =
     (if is_native (tx_subnetwork_id tx) \<and> tx_payload tx = [] then hash64_default
      else H (to_le 8 (length (tx_payload tx)) @ tx_payload tx))"

definition mldsa87_outputs_hash :: "(bytes \<Rightarrow> hash64) \<Rightarrow> transaction \<Rightarrow> sig_hash_type \<Rightarrow> usize \<Rightarrow> hash64" where
  "mldsa87_outputs_hash H tx hash_type input_index =
     (if is_sighash_none hash_type then hash64_default
      else if is_sighash_single hash_type then
        (if length (tx_outputs tx) \<le> input_index then hash64_default
         else H (mldsa87_write_output (tx_outputs tx ! input_index)))
      else H (concat (map mldsa87_write_output (tx_outputs tx))))"

definition mldsa87_transcript ::
  "(bytes \<Rightarrow> hash64) \<Rightarrow> transaction \<Rightarrow> transaction_input \<Rightarrow> utxo_entry \<Rightarrow> usize \<Rightarrow> sig_hash_type \<Rightarrow> bytes" where
  "mldsa87_transcript H tx input entry input_index hash_type =
     MLDSA87_SIGHASH_DOMAIN @
     to_le 2 (tx_version tx) @
     as_bytes (mldsa87_previous_outputs_hash H tx hash_type) @
     as_bytes (mldsa87_sequences_hash H tx hash_type) @
     as_bytes (mldsa87_sig_op_counts_hash H tx hash_type) @
     mldsa87_write_outpoint (in_previous_outpoint input) @
     mldsa87_write_script_public_key (ue_script_public_key entry) @
     to_le 8 (ue_amount entry) @
     to_le 8 (in_sequence input) @
     [word_of_nat (in_sig_op_count input)] @
     as_bytes (mldsa87_outputs_hash H tx hash_type input_index) @
     to_le 8 (tx_lock_time tx) @
     subnetwork_bytes (tx_subnetwork_id tx) @
     to_le 8 (tx_gas tx) @
     as_bytes (mldsa87_payload_hash H tx) @
     [hash_type]"

definition calc_mldsa87_signature_hash ::
  "(bytes \<Rightarrow> hash64) \<Rightarrow> transaction \<Rightarrow> utxo_entry list \<Rightarrow> usize \<Rightarrow> sig_hash_type \<Rightarrow> hash64" where
  "calc_mldsa87_signature_hash H tx entries input_index hash_type =
     H (mldsa87_transcript H tx (tx_inputs tx ! input_index) (entries ! input_index) input_index hash_type)"

section \<open>What a signature binds\<close>

interpretation sig_spk: prefix_free mldsa87_write_script_public_key wf_spk
proof
  fix x y r s
  assume wf: "wf_spk x" "wf_spk y" and
    eq: "mldsa87_write_script_public_key x @ r = mldsa87_write_script_public_key y @ s"
  have v: "spk_version x = spk_version y \<and> write_var_bytes (spk_script x) @ r = write_var_bytes (spk_script y) @ s"
    using wf eq by (intro le2.cancel) (simp_all add: wf_spk_def mldsa87_write_script_public_key_def write_var_bytes_def write_len_def)
  then have "spk_script x = spk_script y \<and> r = s"
    using wf by (intro var_bytes.cancel) (simp_all add: wf_spk_def)
  then show "x = y \<and> r = s"
    using v by simp
qed

lemma sig_output_eq: "mldsa87_write_output = write_output"
  by (simp add: fun_eq_iff mldsa87_write_output_def write_output_def mldsa87_write_script_public_key_def write_var_bytes_def write_len_def)

lemma sig_outpoint_eq: "mldsa87_write_outpoint p = write_outpoint p"
  by (simp add: mldsa87_write_outpoint_def write_outpoint_def)

lemma sighash_all_flags:
  "\<not> is_sighash_none SIG_HASH_ALL" "\<not> is_sighash_single SIG_HASH_ALL" "\<not> is_sighash_anyone_can_pay SIG_HASH_ALL"
  by (simp_all add: is_sighash_none_def is_sighash_single_def is_sighash_anyone_can_pay_def SIG_HASH_ALL_def SIG_HASH_NONE_def
      SIG_HASH_SINGLE_def SIG_HASH_ANY_ONE_CAN_PAY_def SIG_HASH_MASK_def)

definition collision_free :: "(bytes \<Rightarrow> hash64) \<Rightarrow> bytes set \<Rightarrow> bool" where
  "collision_free H M \<longleftrightarrow> inj_on H M \<and> hash64_default \<notin> H ` M"

text \<open>The byte strings hashed for a signature of type \<open>SIG_HASH_ALL\<close>.\<close>

definition sighash_parts :: "(bytes \<Rightarrow> hash64) \<Rightarrow> transaction \<Rightarrow> transaction_input \<Rightarrow> utxo_entry \<Rightarrow> usize \<Rightarrow> bytes set" where
  "sighash_parts H tx input entry i =
     {concat (map write_outpoint (map in_previous_outpoint (tx_inputs tx))),
      concat (map (to_le 8) (map in_sequence (tx_inputs tx))),
      concat (map (\<lambda>n. [word_of_nat n]) (map in_sig_op_count (tx_inputs tx))),
      concat (map write_output (tx_outputs tx)),
      write_var_bytes (tx_payload tx),
      mldsa87_transcript H tx input entry i SIG_HASH_ALL}"

text \<open>The transaction without signature scripts, mass and id.\<close>

definition signed_part :: "transaction \<Rightarrow> transaction" where
  "signed_part tx =
     tx\<lparr>tx_inputs := map (\<lambda>i. i\<lparr>in_signature_script := []\<rparr>) (tx_inputs tx), tx_mass := 0, tx_id := hash64_default\<rparr>"

lemma transcript_all:
  "mldsa87_transcript H tx input entry i SIG_HASH_ALL =
     MLDSA87_SIGHASH_DOMAIN @ to_le 2 (tx_version tx) @
     as_bytes (H (concat (map write_outpoint (map in_previous_outpoint (tx_inputs tx))))) @
     as_bytes (H (concat (map (to_le 8) (map in_sequence (tx_inputs tx))))) @
     as_bytes (H (concat (map (\<lambda>n. [word_of_nat n]) (map in_sig_op_count (tx_inputs tx))))) @
     write_outpoint (in_previous_outpoint input) @
     mldsa87_write_script_public_key (ue_script_public_key entry) @ to_le 8 (ue_amount entry) @
     to_le 8 (in_sequence input) @ [word_of_nat (in_sig_op_count input)] @
     as_bytes (H (concat (map write_output (tx_outputs tx)))) @ to_le 8 (tx_lock_time tx) @
     subnetwork_bytes (tx_subnetwork_id tx) @ to_le 8 (tx_gas tx) @ as_bytes (mldsa87_payload_hash H tx) @ [SIG_HASH_ALL]"
  by (simp add: mldsa87_transcript_def mldsa87_previous_outputs_hash_def mldsa87_sequences_hash_def
      mldsa87_sig_op_counts_hash_def mldsa87_outputs_hash_def sighash_all_flags sig_outpoint_eq sig_output_eq comp_def)

lemma inputs_signed_eq:
  fixes xs ys :: "transaction_input list"
  assumes "map in_previous_outpoint xs = map in_previous_outpoint ys" and "map in_sequence xs = map in_sequence ys"
    and "map in_sig_op_count xs = map in_sig_op_count ys"
  shows "map (\<lambda>i. i\<lparr>in_signature_script := []\<rparr>) xs = map (\<lambda>i. i\<lparr>in_signature_script := []\<rparr>) ys"
proof (rule nth_equalityI)
  show len: "length (map (\<lambda>i. i\<lparr>in_signature_script := []\<rparr>) xs) = length (map (\<lambda>i. i\<lparr>in_signature_script := []\<rparr>) ys)"
    using arg_cong [OF assms(1), of length] by simp
  fix k assume "k < length (map (\<lambda>i. i\<lparr>in_signature_script := []\<rparr>) xs)"
  then have k: "k < length xs" "k < length ys"
    using len by simp_all
  have "in_previous_outpoint (xs ! k) = in_previous_outpoint (ys ! k)" "in_sequence (xs ! k) = in_sequence (ys ! k)"
      "in_sig_op_count (xs ! k) = in_sig_op_count (ys ! k)"
    using arg_cong [OF assms(1), of "\<lambda>l. l ! k"] arg_cong [OF assms(2), of "\<lambda>l. l ! k"]
      arg_cong [OF assms(3), of "\<lambda>l. l ! k"] k by simp_all
  then show "map (\<lambda>i. i\<lparr>in_signature_script := []\<rparr>) xs ! k = map (\<lambda>i. i\<lparr>in_signature_script := []\<rparr>) ys ! k"
    using k by (cases "xs ! k"; cases "ys ! k") simp
qed

text \<open>The hashed lists of a transaction are determined by their hashes.\<close>

lemma parts_inj:
  assumes cf: "collision_free H M" and wf: "wf_transaction x" "wf_transaction y"
    and M: "sighash_parts H x i e k \<subseteq> M" "sighash_parts H y i' e' k' \<subseteq> M"
  shows "H (concat (map write_outpoint (map in_previous_outpoint (tx_inputs x)))) =
       H (concat (map write_outpoint (map in_previous_outpoint (tx_inputs y)))) \<Longrightarrow>
       map in_previous_outpoint (tx_inputs x) = map in_previous_outpoint (tx_inputs y)"
    and "H (concat (map (to_le 8) (map in_sequence (tx_inputs x)))) =
       H (concat (map (to_le 8) (map in_sequence (tx_inputs y)))) \<Longrightarrow>
       map in_sequence (tx_inputs x) = map in_sequence (tx_inputs y)"
    and "H (concat (map (\<lambda>n. [word_of_nat n]) (map in_sig_op_count (tx_inputs x)))) =
       H (concat (map (\<lambda>n. [word_of_nat n]) (map in_sig_op_count (tx_inputs y)))) \<Longrightarrow>
       map in_sig_op_count (tx_inputs x) = map in_sig_op_count (tx_inputs y)"
    and "H (concat (map write_output (tx_outputs x))) = H (concat (map write_output (tx_outputs y))) \<Longrightarrow>
       tx_outputs x = tx_outputs y"
    and "tx_subnetwork_id x = tx_subnetwork_id y \<Longrightarrow> mldsa87_payload_hash H x = mldsa87_payload_hash H y \<Longrightarrow>
       tx_payload x = tx_payload y"
proof -
  have inj: "m = m'" if "H m = H m'" "m \<in> M" "m' \<in> M" for m m'
    using cf that unfolding collision_free_def inj_on_def by blast
  have ins: "list_all wf_input (tx_inputs x)" "list_all wf_input (tx_inputs y)"
    and outs: "list_all wf_output (tx_outputs x)" "list_all wf_output (tx_outputs y)"
    and pay: "length (tx_payload x) < 256 ^ 8" "length (tx_payload y) < 256 ^ 8"
    using wf by (simp_all add: wf_transaction_def)
  have ops: "list_all wf_outpoint (map in_previous_outpoint is)" "list_all (\<lambda>n. n < 256 ^ 8) (map in_sequence is)"
      "list_all (\<lambda>n. n < 256) (map in_sig_op_count is)" if "list_all wf_input is" for "is"
    using that by (induction "is") (simp_all add: wf_input_def)
  have nonempty: "write_outpoint p \<noteq> []" "to_le 8 n \<noteq> []" "write_output t \<noteq> []" for p n t
    by (simp_all add: write_outpoint_def write_output_def flip: length_0_conv)
  note parts = M [unfolded sighash_parts_def insert_subset]
  {
    assume "H (concat (map write_outpoint (map in_previous_outpoint (tx_inputs x)))) =
       H (concat (map write_outpoint (map in_previous_outpoint (tx_inputs y))))"
    then have "concat (map write_outpoint (map in_previous_outpoint (tx_inputs x))) =
       concat (map write_outpoint (map in_previous_outpoint (tx_inputs y)))"
      by (rule inj) (use parts in blast)+
    then show "map in_previous_outpoint (tx_inputs x) = map in_previous_outpoint (tx_inputs y)"
      by (rule outpoint_bytes.stream_inj [OF nonempty(1) ops(1) [OF ins(1)] ops(1) [OF ins(2)]])
  next
    assume "H (concat (map (to_le 8) (map in_sequence (tx_inputs x)))) = H (concat (map (to_le 8) (map in_sequence (tx_inputs y))))"
    then have "concat (map (to_le 8) (map in_sequence (tx_inputs x))) = concat (map (to_le 8) (map in_sequence (tx_inputs y)))"
      by (rule inj) (use parts in blast)+
    then show "map in_sequence (tx_inputs x) = map in_sequence (tx_inputs y)"
      by (rule le8.stream_inj [OF nonempty(2) ops(2) [OF ins(1)] ops(2) [OF ins(2)]])
  next
    assume "H (concat (map (\<lambda>n. [word_of_nat n]) (map in_sig_op_count (tx_inputs x)))) =
       H (concat (map (\<lambda>n. [word_of_nat n]) (map in_sig_op_count (tx_inputs y))))"
    then have "concat (map (\<lambda>n. [word_of_nat n]) (map in_sig_op_count (tx_inputs x))) =
       concat (map (\<lambda>n. [word_of_nat n :: u8]) (map in_sig_op_count (tx_inputs y)))"
      by (rule inj) (use parts in blast)+
    then show "map in_sig_op_count (tx_inputs x) = map in_sig_op_count (tx_inputs y)"
      by (rule sig_op.stream_inj [OF _ ops(3) [OF ins(1)] ops(3) [OF ins(2)], rotated]) simp
  next
    assume "H (concat (map write_output (tx_outputs x))) = H (concat (map write_output (tx_outputs y)))"
    then have "concat (map write_output (tx_outputs x)) = concat (map write_output (tx_outputs y))"
      by (rule inj) (use parts in blast)+
    then show "tx_outputs x = tx_outputs y"
      by (rule output_bytes.stream_inj [OF nonempty(3) outs])
  next
    assume sub: "tx_subnetwork_id x = tx_subnetwork_id y" and eq: "mldsa87_payload_hash H x = mldsa87_payload_hash H y"
    have H: "mldsa87_payload_hash H tx =
        (if is_native (tx_subnetwork_id tx) \<and> tx_payload tx = [] then hash64_default else H (write_var_bytes (tx_payload tx)))" for tx
      by (simp add: mldsa87_payload_hash_def write_var_bytes_def write_len_def)
    have zero: "H (write_var_bytes (tx_payload x)) \<noteq> hash64_default" "H (write_var_bytes (tx_payload y)) \<noteq> hash64_default"
      using cf parts unfolding collision_free_def by (metis image_eqI)+
    have var: "tx_payload x = tx_payload y" if "H (write_var_bytes (tx_payload x)) = H (write_var_bytes (tx_payload y))"
      by (rule var_bytes.enc_inj [OF pay inj [OF that]]) (use parts in blast)+
    show "tx_payload x = tx_payload y"
      using eq zero var sub unfolding H by (auto split: if_splits)
  }
qed

text \<open>C10. A signature of type \<open>SIG_HASH_ALL\<close> binds the transaction and the output it spends. If two inputs have the
  same signature hash, under a 64-byte hasher that does not collide on the strings hashed for them, then the two
  transactions agree on everything but signature scripts, mass and id, and the inputs spend the same outpoint with
  the same script and amount.\<close>

theorem sighash_all_binds_the_transaction:
  assumes wf: "wf_transaction x" "wf_transaction y" and width: "\<And>m. wf_hash (H m)"
    and i: "i < length (tx_inputs x)" "j < length (tx_inputs y)"
    and entries: "wf_spk (ue_script_public_key (es ! i))" "ue_amount (es ! i) < 256 ^ 8"
      "wf_spk (ue_script_public_key (fs ! j))" "ue_amount (fs ! j) < 256 ^ 8"
    and cf: "collision_free H (sighash_parts H x (tx_inputs x ! i) (es ! i) i \<union> sighash_parts H y (tx_inputs y ! j) (fs ! j) j)"
    and eq: "calc_mldsa87_signature_hash H x es i SIG_HASH_ALL = calc_mldsa87_signature_hash H y fs j SIG_HASH_ALL"
  shows "signed_part x = signed_part y \<and> in_previous_outpoint (tx_inputs x ! i) = in_previous_outpoint (tx_inputs y ! j) \<and>
    ue_script_public_key (es ! i) = ue_script_public_key (fs ! j) \<and> ue_amount (es ! i) = ue_amount (fs ! j)"
proof -
  let ?X = "sighash_parts H x (tx_inputs x ! i) (es ! i) i" and ?Y = "sighash_parts H y (tx_inputs y ! j) (fs ! j) j"
  have "mldsa87_transcript H x (tx_inputs x ! i) (es ! i) i SIG_HASH_ALL =
      mldsa87_transcript H y (tx_inputs y ! j) (fs ! j) j SIG_HASH_ALL"
  proof (rule inj_onD [of H "?X \<union> ?Y"])
    show "inj_on H (?X \<union> ?Y)"
      using cf unfolding collision_free_def by blast
    show "H (mldsa87_transcript H x (tx_inputs x ! i) (es ! i) i SIG_HASH_ALL) =
        H (mldsa87_transcript H y (tx_inputs y ! j) (fs ! j) j SIG_HASH_ALL)"
      using eq unfolding calc_mldsa87_signature_hash_def .
  qed (unfold sighash_parts_def, blast+)
  note t = this [unfolded transcript_all append_same_eq same_append_eq]
  have ver: "tx_version x < 256 ^ 2" "tx_version y < 256 ^ 2" and lock: "tx_lock_time x < 256 ^ 8" "tx_lock_time y < 256 ^ 8"
    and gas: "tx_gas x < 256 ^ 8" "tx_gas y < 256 ^ 8"
    and sub: "length (subnetwork_bytes (tx_subnetwork_id x)) = SUBNETWORK_ID_SIZE"
      "length (subnetwork_bytes (tx_subnetwork_id y)) = SUBNETWORK_ID_SIZE"
    using wf by (simp_all add: wf_transaction_def)
  have "wf_input (tx_inputs x ! i)" "wf_input (tx_inputs y ! j)"
    using wf i by (simp_all add: wf_transaction_def list_all_length)
  then have own: "wf_outpoint (in_previous_outpoint (tx_inputs x ! i))" "wf_outpoint (in_previous_outpoint (tx_inputs y ! j))"
      "in_sequence (tx_inputs x ! i) < 256 ^ 8" "in_sequence (tx_inputs y ! j) < 256 ^ 8"
      "in_sig_op_count (tx_inputs x ! i) < 256" "in_sig_op_count (tx_inputs y ! j) < 256"
    by (simp_all add: wf_input_def)
  note 1 = le2.cancel [OF ver t]
  note 2 = hash_bytes.cancel [OF width width conjunct2 [OF 1]]
  note 3 = hash_bytes.cancel [OF width width conjunct2 [OF 2]]
  note 4 = hash_bytes.cancel [OF width width conjunct2 [OF 3]]
  note 5 = outpoint_bytes.cancel [OF own(1,2) conjunct2 [OF 4]]
  note 6 = sig_spk.cancel [OF entries(1,3) conjunct2 [OF 5]]
  note 7 = le8.cancel [OF entries(2,4) conjunct2 [OF 6]]
  note 8 = le8.cancel [OF own(3,4) conjunct2 [OF 7]]
  note 9 = sig_op.cancel [OF own(5,6) conjunct2 [OF 8]]
  note 10 = hash_bytes.cancel [OF width width conjunct2 [OF 9]]
  note 11 = le8.cancel [OF lock conjunct2 [OF 10]]
  note 12 = subnetwork.cancel [OF sub conjunct2 [OF 11]]
  note 13 = le8.cancel [OF gas conjunct2 [OF 12]]
  have pay: "mldsa87_payload_hash H x = mldsa87_payload_hash H y"
    using conjunct2 [OF 13] by (simp add: hash64.expand)
  note parts = parts_inj [OF cf wf Un_upper1 Un_upper2]
  have "map (\<lambda>i. i\<lparr>in_signature_script := []\<rparr>) (tx_inputs x) = map (\<lambda>i. i\<lparr>in_signature_script := []\<rparr>) (tx_inputs y)"
    by (rule inputs_signed_eq) (use parts(1) [OF conjunct1 [OF 2]] parts(2) [OF conjunct1 [OF 3]] parts(3) [OF conjunct1 [OF 4]] in blast)+
  moreover have "tx_outputs x = tx_outputs y"
    by (rule parts(4) [OF conjunct1 [OF 10]])
  moreover have "tx_payload x = tx_payload y"
    by (rule parts(5) [OF conjunct1 [OF 12] pay])
  ultimately have "signed_part x = signed_part y"
    using conjunct1 [OF 1] conjunct1 [OF 11] conjunct1 [OF 12] conjunct1 [OF 13] by (simp add: signed_part_def)
  then show ?thesis
    using conjunct1 [OF 5] conjunct1 [OF 6] conjunct1 [OF 7] by blast
qed

text \<open>A hasher that tells the six strings of the sample transaction apart by their lengths.\<close>

definition length_hasher :: "bytes \<Rightarrow> hash64" where
  "length_hasher m = Hash64 (to_le 8 (length m + 1) @ replicate 56 0)"

definition sample_signed_tx :: "bytes \<Rightarrow> transaction" where
  "sample_signed_tx script =
     vt_tx sample_tx\<lparr>tx_inputs := [(hd (tx_inputs (vt_tx sample_tx)))\<lparr>in_signature_script := script\<rparr>], tx_payload := [1, 2, 3]\<rparr>"

lemma length_hasher_wf: "wf_hash (length_hasher m)"
  unfolding wf_hash_def length_hasher_def HASH64_SIZE_def hash64.sel length_append length_to_le length_replicate by simp

lemma length_hasher_inj:
  assumes "length m < 1000" and "length m' < 1000" and "length_hasher m = length_hasher m'"
  shows "length m = length m'"
proof -
  have "to_le 8 (length m + 1) = to_le 8 (length m' + 1)"
    using assms(3) by (simp add: length_hasher_def)
  from arg_cong [OF this, of from_le] show ?thesis
    using assms(1,2) by (simp add: from_le_to_le)
qed

lemma length_hasher_not_zero:
  assumes "length m < 1000" and "length_hasher m = hash64_default"
  shows False
proof -
  have "replicate 64 (0 :: u8) = replicate 8 0 @ replicate 56 0"
    by (simp flip: replicate_add)
  then have "to_le 8 (length m + 1) = replicate 8 0"
    using assms(2) by (simp add: length_hasher_def hash64_default_def HASH64_SIZE_def)
  moreover have "from_le (replicate n 0) = 0" for n
    by (induction n) simp_all
  ultimately have "(length m + 1) mod 256 ^ 8 = 0"
    by (metis from_le_to_le)
  then show False
    using assms(1) by simp
qed

lemma collision_free_by_length:
  assumes "\<And>m. m \<in> M \<Longrightarrow> length m < 1000" and "\<And>m m'. m \<in> M \<Longrightarrow> m' \<in> M \<Longrightarrow> length m = length m' \<Longrightarrow> m = m'"
  shows "collision_free length_hasher M"
  unfolding collision_free_def inj_on_def
proof (intro conjI ballI impI notI)
  fix m m' assume "m \<in> M" "m' \<in> M" "length_hasher m = length_hasher m'"
  then show "m = m'"
    using assms length_hasher_inj by blast
next
  assume "hash64_default \<in> length_hasher ` M"
  then show False
    using assms(1) length_hasher_not_zero by (metis image_iff)
qed

lemma sample_signed_tx_wf: "length script < 256 ^ 8 \<Longrightarrow> wf_transaction (sample_signed_tx script)"
  using sample_tx_wf unfolding wf_transaction_def sample_signed_tx_def by (simp add: sample_tx_def wf_input_def)

lemma sample_signed_parts:
  fixes script :: bytes
  defines "x \<equiv> sample_signed_tx script"
  shows "length (concat (map write_outpoint (map in_previous_outpoint (tx_inputs x)))) = 68"
    "length (concat (map (to_le 8) (map in_sequence (tx_inputs x)))) = 8"
    "length (concat (map (\<lambda>n. [word_of_nat n :: u8]) (map in_sig_op_count (tx_inputs x)))) = 1"
    "length (concat (map write_output (tx_outputs x))) = 18"
    "length (write_var_bytes (tx_payload x)) = 11"
    "length (mldsa87_transcript length_hasher x (tx_inputs x ! 0) (sample_entry 3 0) 0 SIG_HASH_ALL) = 481"
proof -
  have width: "length (as_bytes (length_hasher m)) = 64" for m
    using length_hasher_wf [of m] by (simp add: wf_hash_def HASH64_SIZE_def)
  have own: "tx_inputs x = [\<lparr>in_previous_outpoint = sample_outpoint 0, in_signature_script = script, in_sequence = 0, in_sig_op_count = 1\<rparr>]"
      "tx_outputs x = [\<lparr>out_value = 2, out_script_public_key = \<lparr>spk_version = 0, spk_script = []\<rparr>\<rparr>]"
      "tx_payload x = [1, 2, 3]" "tx_subnetwork_id x = SUBNETWORK_ID_NATIVE"
    by (simp_all add: x_def sample_signed_tx_def sample_tx_def)
  have op: "length (write_outpoint (sample_outpoint 0)) = 68"
    by (simp add: write_outpoint_def sample_outpoint_def outpoint_def sample_hash_def HASH64_SIZE_def)
  show "length (concat (map write_outpoint (map in_previous_outpoint (tx_inputs x)))) = 68"
    "length (concat (map (to_le 8) (map in_sequence (tx_inputs x)))) = 8"
    "length (concat (map (\<lambda>n. [word_of_nat n :: u8]) (map in_sig_op_count (tx_inputs x)))) = 1"
    "length (concat (map write_output (tx_outputs x))) = 18"
    "length (write_var_bytes (tx_payload x)) = 11"
    by (simp_all add: own op write_output_def write_var_bytes_def write_len_def)
  have domain: "length MLDSA87_SIGHASH_DOMAIN = 27"
    by (simp add: MLDSA87_SIGHASH_DOMAIN_def ascii_def)
  have pay: "mldsa87_payload_hash length_hasher x = length_hasher (to_le 8 (length (tx_payload x)) @ tx_payload x)"
    by (simp add: mldsa87_payload_hash_def own)
  show "length (mldsa87_transcript length_hasher x (tx_inputs x ! 0) (sample_entry 3 0) 0 SIG_HASH_ALL) = 481"
    unfolding transcript_all length_append length_to_le width domain pay
    by (simp add: own(1,4) op native_length SUBNETWORK_ID_SIZE_def mldsa87_write_script_public_key_def sample_entry_def)
qed

theorem sighash_all_binds_the_transaction_witness:
  "signed_part (sample_signed_tx [9]) = signed_part (sample_signed_tx []) \<and>
   in_previous_outpoint (tx_inputs (sample_signed_tx [9]) ! 0) = in_previous_outpoint (tx_inputs (sample_signed_tx []) ! 0) \<and>
   ue_script_public_key ([sample_entry 3 0] ! 0) = ue_script_public_key ([sample_entry 3 0] ! 0) \<and>
   ue_amount ([sample_entry 3 0] ! 0) = ue_amount ([sample_entry 3 0] ! 0)"
proof (rule sighash_all_binds_the_transaction [where H = length_hasher])
  let ?x = "sample_signed_tx [9]" and ?y = "sample_signed_tx []" and ?e = "[sample_entry 3 0]"
  show "wf_transaction ?x" "wf_transaction ?y" "wf_hash (length_hasher m)" for m
    by (rule sample_signed_tx_wf, simp)+ (rule length_hasher_wf)
  show "0 < length (tx_inputs ?x)" "0 < length (tx_inputs ?y)"
    by (simp_all add: sample_signed_tx_def)
  show "wf_spk (ue_script_public_key (?e ! 0))" "ue_amount (?e ! 0) < 256 ^ 8"
    "wf_spk (ue_script_public_key (?e ! 0))" "ue_amount (?e ! 0) < 256 ^ 8"
    by (simp_all add: sample_entry_def wf_spk_def)
  have same: "sighash_parts length_hasher ?x (tx_inputs ?x ! 0) (?e ! 0) 0 = sighash_parts length_hasher ?y (tx_inputs ?y ! 0) (?e ! 0) 0"
    unfolding sighash_parts_def transcript_all by (simp add: sample_signed_tx_def mldsa87_payload_hash_def)
  show "collision_free length_hasher
      (sighash_parts length_hasher ?x (tx_inputs ?x ! 0) (?e ! 0) 0 \<union> sighash_parts length_hasher ?y (tx_inputs ?y ! 0) (?e ! 0) 0)"
    unfolding same Un_absorb
  proof (rule collision_free_by_length)
    fix m m' assume m: "m \<in> sighash_parts length_hasher ?y (tx_inputs ?y ! 0) (?e ! 0) 0"
    then show "length m < 1000"
      unfolding sighash_parts_def using sample_signed_parts [of "[]"] by (elim insertE emptyE) simp_all
    assume "m' \<in> sighash_parts length_hasher ?y (tx_inputs ?y ! 0) (?e ! 0) 0" and len: "length m = length m'"
    with m show "m = m'"
      unfolding sighash_parts_def using sample_signed_parts [of "[]"] by (elim insertE emptyE) simp_all
  qed
  show "calc_mldsa87_signature_hash length_hasher ?x ?e 0 SIG_HASH_ALL = calc_mldsa87_signature_hash length_hasher ?y ?e 0 SIG_HASH_ALL"
    unfolding calc_mldsa87_signature_hash_def transcript_all by (simp add: sample_signed_tx_def mldsa87_payload_hash_def)
qed

end
