(* ===== verification/Tx_Mass.thy ===== *)
theory Tx_Mass
  imports Tx_Types "HOL-Library.Monad_Syntax"
begin

text \<open>
  Transaction mass (\<open>consensus/core/src/mass/mod.rs\<close>): the estimated size, the masses computed from the
  transaction alone, and the storage mass of KIP-9 computed from the amounts it spends and creates.

  \<open>None\<close> is an abort: plain arithmetic of the release build panics on overflow, and integer division panics on a
  zero divisor. An inner \<open>None\<close> of the storage mass is the \<open>None\<close> of the source, an incomputable mass. A sum of
  non-negative terms overflows at some step exactly if its total does not fit, so \<open>fit64\<close> is applied to the total.
\<close>

definition fit64 :: "nat \<Rightarrow> u64 option" where
  "fit64 n = (if n \<le> u64_max then Some n else None)"

definition div_or_abort :: "nat \<Rightarrow> nat \<Rightarrow> nat option" where
  "div_or_abort a b = (if b = 0 then None else Some (a div b))"

lemma fit64_Some [simp]: "fit64 n = Some m \<longleftrightarrow> n \<le> u64_max \<and> m = n"
  by (auto simp: fit64_def)

lemma div_or_abort_Some [simp]: "div_or_abort a b = Some c \<longleftrightarrow> 0 < b \<and> c = a div b"
  by (auto simp: div_or_abort_def)

section \<open>Size\<close>

definition HASH_SIZE :: nat where
  "HASH_SIZE = 32"

definition outpoint_estimated_serialized_size :: u64 where
  "outpoint_estimated_serialized_size = HASH64_SIZE + 4"

definition transaction_input_estimated_serialized_size :: "transaction_input \<Rightarrow> u64" where
  "transaction_input_estimated_serialized_size input =
     outpoint_estimated_serialized_size + 8 + length (in_signature_script input) + 8"

definition transaction_output_estimated_serialized_size :: "transaction_output \<Rightarrow> u64" where
  "transaction_output_estimated_serialized_size output =
     8 + 2 + 8 + length (spk_script (out_script_public_key output))"

definition transaction_estimated_serialized_size :: "transaction \<Rightarrow> u64 option" where
  "transaction_estimated_serialized_size tx =
     fit64 (2 + 8 + (\<Sum>input\<leftarrow>tx_inputs tx. transaction_input_estimated_serialized_size input) +
            8 + (\<Sum>output\<leftarrow>tx_outputs tx. transaction_output_estimated_serialized_size output) +
            8 + SUBNETWORK_ID_SIZE + 8 + HASH_SIZE + 8 + length (tx_payload tx))"

section \<open>Masses of the transaction alone\<close>

record mass_calculator =
  mc_mass_per_tx_byte :: u64
  mc_mass_per_script_pub_key_byte :: u64
  mc_mass_per_sig_op :: u64
  mc_storage_mass_parameter :: u64

record non_contextual_masses =
  nm_compute_mass :: u64
  nm_transient_mass :: u64

definition TRANSIENT_BYTE_TO_MASS_FACTOR :: u64 where
  "TRANSIENT_BYTE_TO_MASS_FACTOR = 4"

definition calc_non_contextual_masses :: "mass_calculator \<Rightarrow> transaction \<Rightarrow> non_contextual_masses option" where
  "calc_non_contextual_masses mc tx =
     (if tx_is_coinbase tx then Some \<lparr>nm_compute_mass = 0, nm_transient_mass = 0\<rparr>
      else do {
        size \<leftarrow> transaction_estimated_serialized_size tx;
        compute_mass_for_size \<leftarrow> checked_mul u64_max size (mc_mass_per_tx_byte mc);
        total_script_public_key_size \<leftarrow>
          fit64 (\<Sum>output\<leftarrow>tx_outputs tx. 2 + length (spk_script (out_script_public_key output)));
        total_script_public_key_mass \<leftarrow>
          checked_mul u64_max total_script_public_key_size (mc_mass_per_script_pub_key_byte mc);
        total_sigops \<leftarrow> fit64 (\<Sum>input\<leftarrow>tx_inputs tx. in_sig_op_count input);
        total_sigops_mass \<leftarrow> checked_mul u64_max total_sigops (mc_mass_per_sig_op mc);
        compute_mass \<leftarrow> fit64 (compute_mass_for_size + total_script_public_key_mass + total_sigops_mass);
        transient_mass \<leftarrow> checked_mul u64_max size TRANSIENT_BYTE_TO_MASS_FACTOR;
        Some \<lparr>nm_compute_mass = compute_mass, nm_transient_mass = transient_mass\<rparr>
      })"

section \<open>Storage mass\<close>

definition UTXO_CONST_STORAGE :: usize where
  "UTXO_CONST_STORAGE = HASH64_SIZE + 4 + 8 + 8 + 1 + 2 + 8"

definition UTXO_UNIT_SIZE :: usize where
  "UTXO_UNIT_SIZE = 100"

definition utxo_plurality :: "script_public_key \<Rightarrow> u64" where
  "utxo_plurality spk = (UTXO_CONST_STORAGE + length (spk_script spk) + UTXO_UNIT_SIZE - 1) div UTXO_UNIT_SIZE"

record utxo_cell =
  uc_plurality :: u64
  uc_amount :: u64

definition cell_of_entry :: "utxo_entry \<Rightarrow> utxo_cell" where
  "cell_of_entry e = \<lparr>uc_plurality = utxo_plurality (ue_script_public_key e), uc_amount = ue_amount e\<rparr>"

definition cell_of_output :: "transaction_output \<Rightarrow> utxo_cell" where
  "cell_of_output t = \<lparr>uc_plurality = utxo_plurality (out_script_public_key t), uc_amount = out_value t\<rparr>"

text \<open>The pass over the outputs: total plurality and the harmonic portion.\<close>

fun outputs_fold :: "u64 \<Rightarrow> utxo_cell list \<Rightarrow> u64 \<Rightarrow> u64 \<Rightarrow> (u64 \<times> u64) option option" where
  "outputs_fold storm_param [] plurality harm = Some (Some (plurality, harm))"
| "outputs_fold storm_param (c # cs) plurality harm = do {
     plurality' \<leftarrow> checked_add u64_max plurality (uc_plurality c);
     (case checked_mul u64_max storm_param (uc_plurality c) of
        None \<Rightarrow> Some None
      | Some q \<Rightarrow>
          (case checked_mul u64_max q (uc_plurality c) of
             None \<Rightarrow> Some None
           | Some q \<Rightarrow> do {
               term \<leftarrow> div_or_abort q (uc_amount c);
               (case checked_add u64_max harm term of
                  None \<Rightarrow> Some None
                | Some harm' \<Rightarrow> outputs_fold storm_param cs plurality' harm')
             }))
   }"

definition relaxed_formula_path :: "u64 \<Rightarrow> utxo_cell list \<Rightarrow> bool option" where
  "relaxed_formula_path outs_plurality inputs =
     (if outs_plurality = 1 then Some True
      else if 2 < length inputs then Some False
      else do {
        ins_plurality \<leftarrow> fit64 (\<Sum>c\<leftarrow>inputs. uc_plurality c);
        Some (ins_plurality = 1 \<or> (outs_plurality = 2 \<and> ins_plurality = 2))
      })"

fun harmonic_ins :: "u64 \<Rightarrow> utxo_cell list \<Rightarrow> u64 \<Rightarrow> u64 option" where
  "harmonic_ins storm_param [] acc = Some acc"
| "harmonic_ins storm_param (c # cs) acc = do {
     q \<leftarrow> checked_mul u64_max storm_param (uc_plurality c);
     q \<leftarrow> checked_mul u64_max q (uc_plurality c);
     term \<leftarrow> div_or_abort q (uc_amount c);
     harmonic_ins storm_param cs (sat_add64 acc term)
   }"

definition calc_storage_mass :: "bool \<Rightarrow> utxo_cell list \<Rightarrow> utxo_cell list \<Rightarrow> u64 \<Rightarrow> u64 option option" where
  "calc_storage_mass is_coinbase inputs outputs storm_param =
     (if is_coinbase then Some (Some 0)
      else do {
        outs \<leftarrow> outputs_fold storm_param outputs 0 0;
        (case outs of
           None \<Rightarrow> Some None
         | Some (outs_plurality, harmonic_outs) \<Rightarrow> do {
             relaxed \<leftarrow> relaxed_formula_path outs_plurality inputs;
             if relaxed then do {
               h \<leftarrow> harmonic_ins storm_param inputs 0;
               Some (Some (harmonic_outs - h))
             }
             else do {
               ins_plurality \<leftarrow> fit64 (\<Sum>c\<leftarrow>inputs. uc_plurality c);
               sum_ins \<leftarrow> fit64 (\<Sum>c\<leftarrow>inputs. uc_amount c);
               if ins_plurality = 0 then Some (Some harmonic_outs)
               else do {
                 mean_ins \<leftarrow> div_or_abort sum_ins ins_plurality;
                 per_unit \<leftarrow> div_or_abort storm_param mean_ins;
                 Some (Some (harmonic_outs - sat_mul64 ins_plurality per_unit))
               }
             }
           })
      })"

definition calc_contextual_masses :: "mass_calculator \<Rightarrow> validated_transaction \<Rightarrow> u64 option option" where
  "calc_contextual_masses mc v =
     calc_storage_mass (tx_is_coinbase (vt_tx v)) (map (cell_of_entry \<circ> snd) (populated_inputs v))
       (map cell_of_output (tx_outputs (vt_tx v))) (mc_storage_mass_parameter mc)"

section \<open>The formula of KIP-9\<close>

text \<open>The harmonic portion \<open>C * |X| / H(X)\<close> and the mass, in unbounded arithmetic.\<close>

definition harmonic_portion :: "nat \<Rightarrow> utxo_cell list \<Rightarrow> nat" where
  "harmonic_portion C cells = (\<Sum>c\<leftarrow>cells. C * uc_plurality c * uc_plurality c div uc_amount c)"

definition plurality_sum :: "utxo_cell list \<Rightarrow> nat" where
  "plurality_sum cells = (\<Sum>c\<leftarrow>cells. uc_plurality c)"

definition amount_sum :: "utxo_cell list \<Rightarrow> nat" where
  "amount_sum cells = (\<Sum>c\<leftarrow>cells. uc_amount c)"

definition kip9_mass :: "nat \<Rightarrow> utxo_cell list \<Rightarrow> utxo_cell list \<Rightarrow> nat" where
  "kip9_mass C ins outs =
     (if plurality_sum outs = 1 \<or> plurality_sum ins = 1 \<or> (plurality_sum outs = 2 \<and> plurality_sum ins = 2)
      then harmonic_portion C outs - harmonic_portion C ins
      else harmonic_portion C outs - plurality_sum ins * (C div (amount_sum ins div plurality_sum ins)))"

text \<open>Whether the harmonic portion of the outputs can be computed in 64 bits.\<close>

definition outputs_computable :: "nat \<Rightarrow> utxo_cell list \<Rightarrow> bool" where
  "outputs_computable C outs \<longleftrightarrow>
     (\<forall>c\<in>set outs. C * uc_plurality c * uc_plurality c \<le> u64_max) \<and> harmonic_portion C outs \<le> u64_max"

definition proper_cell :: "utxo_cell \<Rightarrow> bool" where
  "proper_cell c \<longleftrightarrow> 0 < uc_plurality c \<and> 0 < uc_amount c"

lemma utxo_plurality_pos: "0 < utxo_plurality spk"
  by (simp add: utxo_plurality_def UTXO_UNIT_SIZE_def UTXO_CONST_STORAGE_def HASH64_SIZE_def div_greater_zero_iff)

lemma sums_simps [simp]:
  "harmonic_portion C [] = 0" "plurality_sum [] = 0" "amount_sum [] = 0"
  "harmonic_portion C (c # cs) = C * uc_plurality c * uc_plurality c div uc_amount c + harmonic_portion C cs"
  "plurality_sum (c # cs) = uc_plurality c + plurality_sum cs"
  "amount_sum (c # cs) = uc_amount c + amount_sum cs"
  by (simp_all add: harmonic_portion_def plurality_sum_def amount_sum_def)

lemma checked_square:
  assumes "C * p * p \<le> u64_max" and "0 < p"
  shows "checked_mul u64_max C p = Some (C * p)" "checked_mul u64_max (C * p) p = Some (C * p * p)"
proof -
  have "C * p \<le> C * p * p"
    using assms(2) by simp
  then have "C * p \<le> u64_max"
    using assms(1) by (rule order_trans)
  then show "checked_mul u64_max C p = Some (C * p)" "checked_mul u64_max (C * p) p = Some (C * p * p)"
    using assms(1) by simp_all
qed

lemma outputs_fold_exact:
  assumes "\<forall>c\<in>set outs. proper_cell c" and "plurality_sum outs + p \<le> u64_max"
  shows "outputs_fold C outs p h =
    Some (if (\<forall>c\<in>set outs. C * uc_plurality c * uc_plurality c \<le> u64_max) \<and> (outs = [] \<or> harmonic_portion C outs + h \<le> u64_max)
          then Some (plurality_sum outs + p, harmonic_portion C outs + h) else None)"
  using assms
proof (induction outs arbitrary: p h)
  case (Cons c cs)
  let ?t = "C * uc_plurality c * uc_plurality c div uc_amount c"
  have pos: "0 < uc_amount c" "0 < uc_plurality c"
    using Cons.prems(1) by (simp_all add: proper_cell_def)
  have add: "checked_add u64_max p (uc_plurality c) = Some (p + uc_plurality c)"
    using Cons.prems(2) by simp
  have IH: "outputs_fold C cs (p + uc_plurality c) h' =
      Some (if (\<forall>c\<in>set cs. C * uc_plurality c * uc_plurality c \<le> u64_max) \<and> (cs = [] \<or> harmonic_portion C cs + h' \<le> u64_max)
          then Some (plurality_sum cs + (p + uc_plurality c), harmonic_portion C cs + h') else None)" for h'
    by (rule Cons.IH) (use Cons.prems in simp_all)
  show ?case
  proof (cases "C * uc_plurality c * uc_plurality c \<le> u64_max")
    case True
    note mul = checked_square [OF True pos(2)]
    have step: "outputs_fold C (c # cs) p h =
        (case checked_add u64_max h ?t of None \<Rightarrow> Some None | Some h' \<Rightarrow> outputs_fold C cs (p + uc_plurality c) h')"
      using pos(1) by (simp add: add mul div_or_abort_def)
    show ?thesis
    proof (cases "h + ?t \<le> u64_max")
      case ok: True
      then have chk: "checked_add u64_max h ?t = Some (h + ?t)"
        by simp
      show ?thesis
        using True ok unfolding step IH chk option.case by (cases "cs = []") (auto simp: add.commute add.left_commute)
    next
      case False
      then have chk: "checked_add u64_max h ?t = None"
        by simp
      show ?thesis
        using False unfolding step chk by auto
    qed
  next
    case False
    then show ?thesis
      unfolding outputs_fold.simps add by (auto simp: checked_mul_def)
  qed
qed simp

lemma harmonic_ins_exact:
  assumes "\<forall>c\<in>set ins. proper_cell c \<and> C * uc_plurality c * uc_plurality c \<le> u64_max" and "acc \<le> u64_max"
  shows "harmonic_ins C ins acc = Some (min u64_max (harmonic_portion C ins + acc))"
  using assms
proof (induction ins arbitrary: acc)
  case (Cons c cs)
  have pos: "0 < uc_amount c" "0 < uc_plurality c" and le: "C * uc_plurality c * uc_plurality c \<le> u64_max"
    using Cons.prems(1) by (simp_all add: proper_cell_def)
  show ?case
    using Cons.IH Cons.prems(1) pos(1) by (simp add: checked_square [OF le pos(2)] div_or_abort_def sat_add_def)
qed simp

lemma relaxed_path_iff:
  assumes "\<forall>c\<in>set ins. proper_cell c" and "plurality_sum ins \<le> u64_max"
  shows "relaxed_formula_path po ins = Some (po = 1 \<or> plurality_sum ins = 1 \<or> (po = 2 \<and> plurality_sum ins = 2))"
proof -
  have "length cs \<le> plurality_sum cs" if "\<forall>c\<in>set cs. proper_cell c" for cs
    using that by (induction cs) (auto simp: proper_cell_def)
  then have "length ins \<le> plurality_sum ins"
    using assms(1) by blast
  then show ?thesis
    using assms(2) by (auto simp: relaxed_formula_path_def plurality_sum_def fit64_def)
qed

lemma storage_mass_exact:
  assumes "\<forall>c\<in>set (ins @ outs). proper_cell c" and "ins \<noteq> []"
    and "\<forall>c\<in>set ins. C * uc_plurality c * uc_plurality c \<le> u64_max"
    and "plurality_sum ins \<le> amount_sum ins" and "amount_sum ins \<le> u64_max" and "plurality_sum outs \<le> u64_max"
  shows "calc_storage_mass False ins outs C =
    Some (if outputs_computable C outs then Some (kip9_mass C ins outs) else None)"
proof -
  have outs: "outputs_fold C outs 0 0 =
      Some (if outputs_computable C outs then Some (plurality_sum outs, harmonic_portion C outs) else None)"
    using outputs_fold_exact [of outs 0 C 0] assms(1,6) by (auto simp: outputs_computable_def)
  show ?thesis
  proof (cases "outputs_computable C outs")
    case True
    have ins: "plurality_sum ins \<le> u64_max" "0 < plurality_sum ins"
      using assms(1,2,4,5) by (cases ins; simp add: proper_cell_def)+
    have rel: "relaxed_formula_path (plurality_sum outs) ins =
        Some (plurality_sum outs = 1 \<or> plurality_sum ins = 1 \<or> (plurality_sum outs = 2 \<and> plurality_sum ins = 2))"
      using relaxed_path_iff assms(1) ins(1) by simp
    have H: "harmonic_portion C outs \<le> u64_max"
      using True by (simp add: outputs_computable_def)
    have harm: "harmonic_ins C ins 0 = Some (min u64_max (harmonic_portion C ins))"
      using harmonic_ins_exact [of ins C 0] assms(1,3) by simp
    have mean: "0 < amount_sum ins div plurality_sum ins"
      using assms(4) ins(2) by (simp add: div_greater_zero_iff)
    show ?thesis
      using True ins mean H harm assms(5)
      by (auto simp: calc_storage_mass_def outs rel kip9_mass_def plurality_sum_def [symmetric] amount_sum_def [symmetric]
          div_or_abort_def sat_mul_def fit64_def)
  qed (simp add: calc_storage_mass_def outs)
qed

section \<open>Properties\<close>

text \<open>C30. Storage mass is the KIP-9 formula and never aborts: for cells with positive amounts, inputs that hold on
  average at least one sompi per storage unit, and sums that fit in 64 bits, the computation returns; it
  returns no mass exactly if the harmonic portion of the outputs does not fit, and otherwise the formula.\<close>

theorem storage_mass_is_kip9:
  assumes "\<forall>c\<in>set (ins @ outs). proper_cell c" and "ins \<noteq> []"
    and "\<forall>c\<in>set ins. C * uc_plurality c * uc_plurality c \<le> u64_max"
    and "plurality_sum ins \<le> amount_sum ins" and "amount_sum ins \<le> u64_max" and "plurality_sum outs \<le> u64_max"
  shows "calc_storage_mass False ins outs C =
    Some (if outputs_computable C outs then Some (kip9_mass C ins outs) else None)"
  using assms by (rule storage_mass_exact)

definition sample_cell :: "u64 \<Rightarrow> utxo_cell" where
  "sample_cell amount = \<lparr>uc_plurality = 2, uc_amount = amount\<rparr>"

lemma sample_cell_sel [simp]: "uc_plurality (sample_cell a) = 2" "uc_amount (sample_cell a) = a"
  by (simp_all add: sample_cell_def)

theorem storage_mass_is_kip9_witness:
  "calc_storage_mass False [sample_cell 100000000, sample_cell 100000000, sample_cell 100000000]
     [sample_cell 10000000, sample_cell 200000000] 1000000000000 = Some (Some 300000)"
proof -
  let ?ins = "[sample_cell 100000000, sample_cell 100000000, sample_cell 100000000]"
  let ?outs = "[sample_cell 10000000, sample_cell 200000000]"
  have "calc_storage_mass False ?ins ?outs 1000000000000 =
      Some (if outputs_computable 1000000000000 ?outs then Some (kip9_mass 1000000000000 ?ins ?outs) else None)"
    by (rule storage_mass_is_kip9) (simp_all add: proper_cell_def u64_max_def)
  moreover have "outputs_computable 1000000000000 ?outs" "kip9_mass 1000000000000 ?ins ?outs = 300000"
    by (simp_all add: outputs_computable_def u64_max_def kip9_mass_def)
  ultimately show ?thesis
    by simp
qed

section \<open>Positive amounts are not enough\<close>

text \<open>
  The comment of \<open>calc_storage_mass\<close> asks for positive amounts and at least one input and says that the function
  then never fails. A standard output of the network (69 script bytes) occupies two storage units, since the fixed
  part of an entry is 95 bytes: the mean of the inputs is zero for a transaction that spends two such outputs
  of one sompi each, and the division by the mean aborts. Coinbase outputs are not charged storage mass,
  so outputs of this size can exist.
\<close>

lemma standard_output_plurality: "length (spk_script spk) = 69 \<Longrightarrow> utxo_plurality spk = 2"
  by (simp add: utxo_plurality_def UTXO_CONST_STORAGE_def UTXO_UNIT_SIZE_def HASH64_SIZE_def)

definition dust_cell :: utxo_cell where
  "dust_cell = sample_cell 1"

lemma dust_cell_sel [simp]: "uc_plurality dust_cell = 2" "uc_amount dust_cell = 1"
  by (simp_all add: dust_cell_def)

theorem storage_mass_aborts_on_dust_inputs:
  "calc_storage_mass False [dust_cell, dust_cell] [dust_cell] 1000000000000 = None"
proof -
  have outs: "outputs_fold 1000000000000 [dust_cell] 0 0 = Some (Some (2, 4000000000000))"
    using outputs_fold_exact [of "[dust_cell]" 0 1000000000000 0] by (simp add: proper_cell_def u64_max_def)
  have rel: "relaxed_formula_path 2 [dust_cell, dust_cell] = Some False"
    using relaxed_path_iff [of "[dust_cell, dust_cell]" 2] by (simp add: proper_cell_def u64_max_def)
  have fit: "fit64 4 = Some 4" "fit64 (Suc (Suc 0)) = Some 2"
    by (simp_all add: u64_max_def)
  show ?thesis
    unfolding calc_storage_mass_def outs by (simp add: rel fit div_or_abort_def del: fit64_Some)
qed

end
