(* ===== verification/Tx_Validator.thy ===== *)
theory Tx_Validator
  imports Bond_Gates Script_Class Tx_Mass Coinbase
begin

text \<open>
  The transaction validator (\<open>consensus/src/processes/transaction_validator\<close>): the checks in isolation, in header
  context and in UTXO context, with every rule error, and the population of a transaction from a UTXO view
  (\<open>validate_transaction_in_utxo_context\<close> of \<open>utxo_validation.rs\<close>).

  The script engine, the stateless PALW check and the PALW provider filters are functions in the record
  \<open>validator_externals\<close> and arguments; the theorems hold for all of them. In UTXO context an outer \<open>None\<close> is an
  abort. The fee-rate comparison of the mempool is a predicate on the fee. For more than one input the source
  runs the scripts in parallel and reports some failing input; the model reports the first.
\<close>

section \<open>Data\<close>

datatype pq_enforcement_mode = Disabled | PolicyOnly | Consensus

record script_policy =
  sp_pq_only :: bool
  sp_allow_p2sh :: bool

definition PQ_ONLY :: script_policy where
  "PQ_ONLY = \<lparr>sp_pq_only = True, sp_allow_p2sh = False\<rparr>"

definition LEGACY :: script_policy where
  "LEGACY = \<lparr>sp_pq_only = False, sp_allow_p2sh = True\<rparr>"

record transaction_validator =
  tv_max_tx_inputs :: usize
  tv_max_tx_outputs :: usize
  tv_max_signature_script_len :: usize
  tv_max_script_public_key_len :: usize
  tv_coinbase_payload_script_public_key_max_len :: nat
  tv_coinbase_maturity :: u64
  tv_ghostdag_k :: nat
  tv_mass_calculator :: mass_calculator
  tv_pq_enforcement :: pq_enforcement_mode
  tv_pq_activation_daa_score :: u64
  tv_palw_lane_present :: bool

record ('s, 'p) validator_externals =
  ex_run_script :: "script_policy \<Rightarrow> transaction \<Rightarrow> utxo_entry list \<Rightarrow> nat \<Rightarrow> 's + unit"
  ex_validate_palw_overlay_tx :: "u8 \<Rightarrow> bytes \<Rightarrow> transaction_output list \<Rightarrow> 'p + unit"

datatype ('s, 'p) tx_rule_error =
    NoTxInputs
  | TxDuplicateInputs
  | TxHasGas
  | UnknownTxVersion u16
  | TooManyInputs usize usize
  | TooManyOutputs usize usize
  | TooBigSignatureScript usize usize
  | TooBigScriptPublicKey usize usize
  | NotFinalized usize
  | CoinbaseHasInputs usize
  | CoinbaseTooManyOutputs usize u64
  | CoinbaseScriptPublicKeyTooLong usize
  | CoinbaseNonZeroMassCommitment
  | ImmatureCoinbaseSpend usize transaction_outpoint u64 u64 u64
  | InputAmountOverflow
  | InputAmountTooHigh
  | TxOutZero usize
  | TxOutTooHigh usize
  | OutputsValueOverflow
  | TotalTxOutTooHigh
  | SpendTooHigh u64 u64
  | SequenceLockConditionsAreNotMet
  | MissingTxOutpoints
  | SignatureInvalid 's
  | SignatureEmpty 's
  | WrongSigOpCount usize u64 u64
  | MassIncomputable
  | WrongMass u64 u64
  | SubnetworksDisabled subnetwork_id
  | InvalidDnsOverlayPayload dns_tx_error
  | InvalidPalwOverlayPayload 'p
  | NonCanonicalPalwAuthorizationTx string
  | FeerateTooLow
  | NonPqStandardOutputClass usize
  | NonPqStandardInputClass usize
  | EvmDepositLockNotRefundableYet usize u64 u64
  | EvmDepositLockTipExceedsValue usize u64 u64
  | SpendsNonReleasableBond transaction_outpoint
  | UnauthorizedProviderUnbond transaction_outpoint
  | SpendsNonReleasableProviderBond transaction_outpoint

definition MAX_SOMPI :: u64 where
  "MAX_SOMPI = 26013224875 * 100000000"

definition LOCK_TIME_THRESHOLD :: u64 where
  "LOCK_TIME_THRESHOLD = 500000000000"

definition SUBNETWORK_ID_PALW_BLOCK_AUTHORIZATION :: subnetwork_id where
  "SUBNETWORK_ID_PALW_BLOCK_AUTHORIZATION = subnetwork_from_byte 0x38"

text \<open>A sequence of checks, each with \<open>?\<close>.\<close>

fun first_error :: "('e + unit) list \<Rightarrow> 'e + unit" where
  "first_error [] = Inr ()"
| "first_error (c # cs) = (case c of Inl e \<Rightarrow> Inl e | Inr _ \<Rightarrow> first_error cs)"

text \<open>\<open>iter().position\<close> and the loops over enumerated items.\<close>

definition position_of :: "('a \<Rightarrow> bool) \<Rightarrow> 'a list \<Rightarrow> nat option" where
  "position_of P xs = map_option fst (find (\<lambda>(i, x). P x) (enumerate 0 xs))"

section \<open>In isolation\<close>

definition check_palw_block_authorization_shape :: "transaction \<Rightarrow> ('s, 'p) tx_rule_error + unit" where
  "check_palw_block_authorization_shape tx =
     (if tx_subnetwork_id tx \<noteq> SUBNETWORK_ID_PALW_BLOCK_AUTHORIZATION then Inr ()
      else
        (let free_field =
           (if tx_version tx \<noteq> TX_VERSION then Some ''version''
            else if tx_inputs tx \<noteq> [] then Some ''inputs''
            else if tx_outputs tx \<noteq> [] then Some ''outputs''
            else if tx_lock_time tx \<noteq> 0 then Some ''lock_time''
            else if tx_gas tx \<noteq> 0 then Some ''gas''
            else if tx_mass tx \<noteq> 0 then Some ''mass''
            else None)
         in case free_field of Some field \<Rightarrow> Inl (NonCanonicalPalwAuthorizationTx field) | None \<Rightarrow> Inr ()))"

definition check_transaction_inputs_count :: "transaction_validator \<Rightarrow> transaction \<Rightarrow> ('s, 'p) tx_rule_error + unit" where
  "check_transaction_inputs_count tv tx =
     (if \<not> tx_is_coinbase tx \<and> tx_subnetwork_id tx \<noteq> SUBNETWORK_ID_PALW_BLOCK_AUTHORIZATION \<and> tx_inputs tx = []
      then Inl NoTxInputs
      else if tv_max_tx_inputs tv < length (tx_inputs tx)
      then Inl (TooManyInputs (length (tx_inputs tx)) (tv_max_tx_inputs tv))
      else Inr ())"

definition check_transaction_signature_scripts :: "transaction_validator \<Rightarrow> transaction \<Rightarrow> ('s, 'p) tx_rule_error + unit" where
  "check_transaction_signature_scripts tv tx =
     (case position_of (\<lambda>i. tv_max_signature_script_len tv < length (in_signature_script i)) (tx_inputs tx) of
        Some i \<Rightarrow> Inl (TooBigSignatureScript i (tv_max_signature_script_len tv))
      | None \<Rightarrow> Inr ())"

definition check_transaction_outputs_count :: "transaction_validator \<Rightarrow> transaction \<Rightarrow> ('s, 'p) tx_rule_error + unit" where
  "check_transaction_outputs_count tv tx =
     (if tx_is_coinbase tx then Inr ()
      else if tv_max_tx_outputs tv < length (tx_outputs tx)
      then Inl (TooManyOutputs (length (tx_outputs tx)) (tv_max_tx_inputs tv))
      else Inr ())"

definition check_transaction_script_public_keys :: "transaction_validator \<Rightarrow> transaction \<Rightarrow> ('s, 'p) tx_rule_error + unit" where
  "check_transaction_script_public_keys tv tx =
     (case position_of (\<lambda>t. tv_max_script_public_key_len tv < length (spk_script (out_script_public_key t))) (tx_outputs tx) of
        Some i \<Rightarrow> Inl (TooBigScriptPublicKey i (tv_max_script_public_key_len tv))
      | None \<Rightarrow> Inr ())"

definition check_output_class :: "nat \<Rightarrow> transaction_output \<Rightarrow> ('s, 'p) tx_rule_error + unit" where
  "check_output_class i output =
     (let class = from_script (out_script_public_key output)
      in if class = EvmDepositLock then
           (case parse_evm_deposit_lock (out_script_public_key output) of
              Some lock \<Rightarrow>
                if out_value output < dl_claim_tip_sompi lock
                then Inl (EvmDepositLockTipExceedsValue i (dl_claim_tip_sompi lock) (out_value output)) else Inr ()
            | None \<Rightarrow> Inr ())
         else if \<not> is_pq_standard class then Inl (NonPqStandardOutputClass i)
         else Inr ())"

definition check_transaction_pq_output_classes :: "transaction_validator \<Rightarrow> transaction \<Rightarrow> ('s, 'p) tx_rule_error + unit" where
  "check_transaction_pq_output_classes tv tx =
     (if tv_pq_enforcement tv \<noteq> Consensus then Inr ()
      else first_error (map (\<lambda>(i, output). check_output_class i output) (enumerate 0 (tx_outputs tx))))"

definition coinbase_outputs_limit :: "transaction_validator \<Rightarrow> u64" where
  "coinbase_outputs_limit tv =
     (let blues = tv_ghostdag_k tv + 1 in if tv_palw_lane_present tv then 3 * blues + 1 else blues + 1)"

definition check_coinbase_in_isolation :: "transaction_validator \<Rightarrow> transaction \<Rightarrow> ('s, 'p) tx_rule_error + unit" where
  "check_coinbase_in_isolation tv tx =
     (if \<not> tx_is_coinbase tx then Inr ()
      else if tx_inputs tx \<noteq> [] then Inl (CoinbaseHasInputs (length (tx_inputs tx)))
      else if 0 < tx_mass tx then Inl CoinbaseNonZeroMassCommitment
      else if coinbase_outputs_limit tv < length (tx_outputs tx)
      then Inl (CoinbaseTooManyOutputs (length (tx_outputs tx)) (coinbase_outputs_limit tv))
      else case position_of (\<lambda>t. tv_coinbase_payload_script_public_key_max_len tv < length (spk_script (out_script_public_key t)))
                  (tx_outputs tx) of
             Some i \<Rightarrow> Inl (CoinbaseScriptPublicKeyTooLong i)
           | None \<Rightarrow> Inr ())"

fun output_value_ranges :: "transaction_output list \<Rightarrow> nat \<Rightarrow> u64 \<Rightarrow> ('s, 'p) tx_rule_error + unit" where
  "output_value_ranges [] i acc = Inr ()"
| "output_value_ranges (t # ts) i acc =
     (if out_value t = 0 then Inl (TxOutZero i)
      else if MAX_SOMPI < out_value t then Inl (TxOutTooHigh i)
      else case checked_add u64_max acc (out_value t) of
        None \<Rightarrow> Inl OutputsValueOverflow
      | Some acc' \<Rightarrow> if MAX_SOMPI < acc' then Inl TotalTxOutTooHigh else output_value_ranges ts (Suc i) acc')"

definition check_transaction_output_value_ranges :: "transaction \<Rightarrow> ('s, 'p) tx_rule_error + unit" where
  "check_transaction_output_value_ranges tx = output_value_ranges (tx_outputs tx) 0 0"

fun duplicate_inputs :: "transaction_input list \<Rightarrow> transaction_outpoint set \<Rightarrow> ('s, 'p) tx_rule_error + unit" where
  "duplicate_inputs [] existing = Inr ()"
| "duplicate_inputs (i # is) existing =
     (if in_previous_outpoint i \<in> existing then Inl TxDuplicateInputs
      else duplicate_inputs is (insert (in_previous_outpoint i) existing))"

definition check_duplicate_transaction_inputs :: "transaction \<Rightarrow> ('s, 'p) tx_rule_error + unit" where
  "check_duplicate_transaction_inputs tx = duplicate_inputs (tx_inputs tx) {}"

definition check_gas :: "transaction \<Rightarrow> ('s, 'p) tx_rule_error + unit" where
  "check_gas tx = (if 0 < tx_gas tx then Inl TxHasGas else Inr ())"

definition check_transaction_version :: "transaction \<Rightarrow> ('s, 'p) tx_rule_error + unit" where
  "check_transaction_version tx = (if tx_version tx \<noteq> TX_VERSION then Inl (UnknownTxVersion (tx_version tx)) else Inr ())"

definition validate_dns_overlay_tx :: "dns_codec \<Rightarrow> dns_crypto \<Rightarrow> dns_tx_class \<Rightarrow> transaction \<Rightarrow> dns_tx_error + unit" where
  "validate_dns_overlay_tx codec cr kind tx =
     (case kind of
        StakeBond \<Rightarrow> validate_stake_bond_tx codec cr (tx_payload tx) (tx_outputs tx)
      | StakeAttestationShard \<Rightarrow> validate_stake_attestation_shard_payload codec (tx_payload tx)
      | SlashingEvidence \<Rightarrow> validate_slashing_evidence_tx codec (tx_payload tx) (tx_outputs tx)
      | StakeUnbond \<Rightarrow> validate_stake_unbond_payload codec (tx_payload tx))"

definition check_transaction_subnetwork ::
  "dns_codec \<Rightarrow> dns_crypto \<Rightarrow> ('s, 'p) validator_externals \<Rightarrow> transaction \<Rightarrow> ('s, 'p) tx_rule_error + unit" where
  "check_transaction_subnetwork codec cr ext tx =
     (if tx_is_coinbase tx \<or> is_native (tx_subnetwork_id tx) then Inr ()
      else case dns_tx_kind (tx_subnetwork_id tx) of
        Some kind \<Rightarrow>
          (case validate_dns_overlay_tx codec cr kind tx of Inl e \<Rightarrow> Inl (InvalidDnsOverlayPayload e) | Inr _ \<Rightarrow> Inr ())
      | None \<Rightarrow>
          (case palw_tx_kind (tx_subnetwork_id tx) of
             Some kind \<Rightarrow>
               (case ex_validate_palw_overlay_tx ext kind (tx_payload tx) (tx_outputs tx) of
                  Inl e \<Rightarrow> Inl (InvalidPalwOverlayPayload e) | Inr _ \<Rightarrow> Inr ())
           | None \<Rightarrow> Inl (SubnetworksDisabled (tx_subnetwork_id tx))))"

definition validate_tx_in_isolation ::
  "transaction_validator \<Rightarrow> dns_codec \<Rightarrow> dns_crypto \<Rightarrow> ('s, 'p) validator_externals \<Rightarrow> transaction \<Rightarrow>
   ('s, 'p) tx_rule_error + unit" where
  "validate_tx_in_isolation tv codec cr ext tx =
     first_error
       [check_palw_block_authorization_shape tx,
        check_transaction_inputs_count tv tx, check_transaction_signature_scripts tv tx,
        check_transaction_outputs_count tv tx, check_transaction_script_public_keys tv tx,
        check_transaction_pq_output_classes tv tx, check_coinbase_in_isolation tv tx,
        check_transaction_output_value_ranges tx, check_duplicate_transaction_inputs tx, check_gas tx,
        check_transaction_subnetwork codec cr ext tx, check_transaction_version tx]"

section \<open>In header context\<close>

datatype lock_time_type = LtFinalized | LtDaaScore | LtTime

datatype lock_time_arg = ArgFinalized | ArgDaaScore u64 | ArgMedianTime u64

definition get_lock_time_type :: "transaction \<Rightarrow> lock_time_type" where
  "get_lock_time_type tx =
     (if tx_lock_time tx = 0 then LtFinalized
      else if tx_lock_time tx < LOCK_TIME_THRESHOLD then LtDaaScore
      else LtTime)"

definition check_inputs_final :: "transaction \<Rightarrow> ('s, 'p) tx_rule_error + unit" where
  "check_inputs_final tx =
     (case position_of (\<lambda>i. in_sequence i \<noteq> u64_max) (tx_inputs tx) of Some i \<Rightarrow> Inl (NotFinalized i) | None \<Rightarrow> Inr ())"

definition check_tx_is_finalized :: "transaction \<Rightarrow> lock_time_arg \<Rightarrow> ('s, 'p) tx_rule_error + unit" where
  "check_tx_is_finalized tx lock_time_arg =
     (case lock_time_arg of
        ArgFinalized \<Rightarrow> Inr ()
      | ArgDaaScore ctx_daa_score \<Rightarrow> if tx_lock_time tx < ctx_daa_score then Inr () else check_inputs_final tx
      | ArgMedianTime ctx_block_time \<Rightarrow> if tx_lock_time tx < ctx_block_time then Inr () else check_inputs_final tx)"

definition validate_tx_in_header_context_with_args :: "transaction \<Rightarrow> u64 \<Rightarrow> u64 \<Rightarrow> ('s, 'p) tx_rule_error + unit" where
  "validate_tx_in_header_context_with_args tx ctx_daa_score ctx_block_time =
     check_tx_is_finalized tx
       (case get_lock_time_type tx of
          LtFinalized \<Rightarrow> ArgFinalized
        | LtDaaScore \<Rightarrow> ArgDaaScore ctx_daa_score
        | LtTime \<Rightarrow> ArgMedianTime ctx_block_time)"

section \<open>In UTXO context\<close>

datatype tx_validation_flags = Full | SkipScriptChecks | SkipMassCheck

type_synonym ('s, 'p, 'a) tx_outcome = "(('s, 'p) tx_rule_error + 'a) option"

text \<open>\<open>PopulatedTransaction::new\<close>: a validated transaction whose fee is not computed yet.\<close>

definition populated :: "transaction \<Rightarrow> utxo_entry list \<Rightarrow> validated_transaction" where
  "populated tx entries = \<lparr>vt_tx = tx, vt_entries = entries, vt_calculated_fee = 0\<rparr>"

fun coinbase_maturity_from ::
  "u64 \<Rightarrow> u64 \<Rightarrow> nat \<Rightarrow> (transaction_input \<times> utxo_entry) list \<Rightarrow> ('s, 'p, unit) tx_outcome" where
  "coinbase_maturity_from maturity pov index [] = Some (Inr ())"
| "coinbase_maturity_from maturity pov index ((input, entry) # rest) =
     (if ue_is_coinbase entry then
        (case fit64 (ue_block_daa_score entry + maturity) of
           None \<Rightarrow> None
         | Some mature \<Rightarrow>
             if pov < mature
             then Some (Inl (ImmatureCoinbaseSpend index (in_previous_outpoint input) (ue_block_daa_score entry) pov maturity))
             else coinbase_maturity_from maturity pov (Suc index) rest)
      else coinbase_maturity_from maturity pov (Suc index) rest)"

definition check_transaction_coinbase_maturity ::
  "transaction_validator \<Rightarrow> validated_transaction \<Rightarrow> u64 \<Rightarrow> ('s, 'p, unit) tx_outcome" where
  "check_transaction_coinbase_maturity tv v pov = coinbase_maturity_from (tv_coinbase_maturity tv) pov 0 (populated_inputs v)"

fun input_amounts :: "utxo_entry list \<Rightarrow> u64 \<Rightarrow> ('s, 'p) tx_rule_error + u64" where
  "input_amounts [] acc = Inr acc"
| "input_amounts (entry # es) acc =
     (case checked_add u64_max acc (ue_amount entry) of
        None \<Rightarrow> Inl InputAmountOverflow
      | Some acc' \<Rightarrow> if MAX_SOMPI < acc' then Inl InputAmountTooHigh else input_amounts es acc')"

definition check_transaction_input_amounts :: "validated_transaction \<Rightarrow> ('s, 'p) tx_rule_error + u64" where
  "check_transaction_input_amounts v = input_amounts (map snd (populated_inputs v)) 0"

definition check_output_values_and_compute_fee :: "validated_transaction \<Rightarrow> u64 \<Rightarrow> ('s, 'p, u64) tx_outcome" where
  "check_output_values_and_compute_fee v total_in =
     (case fit64 (\<Sum>t\<leftarrow>tx_outputs (vt_tx v). out_value t) of
        None \<Rightarrow> None
      | Some total_out \<Rightarrow>
          Some (if total_in < total_out then Inl (SpendTooHigh total_out total_in) else Inr (total_in - total_out)))"

definition check_mass_commitment :: "transaction_validator \<Rightarrow> validated_transaction \<Rightarrow> ('s, 'p, unit) tx_outcome" where
  "check_mass_commitment tv v =
     (case calc_contextual_masses (tv_mass_calculator tv) v of
        None \<Rightarrow> None
      | Some None \<Rightarrow> Some (Inl MassIncomputable)
      | Some (Some storage_mass) \<Rightarrow>
          Some (if tx_mass (vt_tx v) \<noteq> storage_mass then Inl (WrongMass storage_mass (tx_mass (vt_tx v))) else Inr ()))"

text \<open>The casts \<open>u64 as i64\<close> and the checked 64-bit signed arithmetic of the sequence lock.\<close>

definition as_i64 :: "u64 \<Rightarrow> int" where
  "as_i64 n = (if n < 2 ^ 63 then int n else int n - 2 ^ 64)"

definition fit_i64 :: "int \<Rightarrow> int option" where
  "fit_i64 i = (if - (2 ^ 63) \<le> i \<and> i < 2 ^ 63 then Some i else None)"

definition SEQUENCE_LOCK_TIME_MASK :: u64 where
  "SEQUENCE_LOCK_TIME_MASK = 2 ^ 32 - 1"

definition SEQUENCE_LOCK_TIME_DISABLED :: u64 where
  "SEQUENCE_LOCK_TIME_DISABLED = 2 ^ 63"

unbundle bit_operations_syntax

definition lock_daa_score :: "transaction_input \<Rightarrow> utxo_entry \<Rightarrow> int option" where
  "lock_daa_score input entry =
     do {
       s \<leftarrow> fit_i64 (as_i64 (ue_block_daa_score entry) + as_i64 (in_sequence input AND SEQUENCE_LOCK_TIME_MASK));
       fit_i64 (s - 1)
     }"

fun any_locked :: "int \<Rightarrow> (transaction_input \<times> utxo_entry) list \<Rightarrow> bool option" where
  "any_locked pov [] = Some False"
| "any_locked pov ((input, entry) # rest) =
     (if in_sequence input AND SEQUENCE_LOCK_TIME_DISABLED \<noteq> SEQUENCE_LOCK_TIME_DISABLED then
        (case lock_daa_score input entry of
           None \<Rightarrow> None
         | Some lock \<Rightarrow> if pov \<le> lock then Some True else any_locked pov rest)
      else any_locked pov rest)"

definition check_sequence_lock :: "validated_transaction \<Rightarrow> u64 \<Rightarrow> ('s, 'p, unit) tx_outcome" where
  "check_sequence_lock v pov =
     (case any_locked (as_i64 pov) (populated_inputs v) of
        None \<Rightarrow> None
      | Some locked \<Rightarrow> Some (if locked then Inl SequenceLockConditionsAreNotMet else Inr ()))"

text \<open>The threshold is a mass and the comparison \<open>fee / mass <= threshold\<close> in floating point.\<close>

definition check_feerate_threshold :: "u64 \<Rightarrow> (u64 \<times> (u64 \<Rightarrow> u64 \<Rightarrow> bool)) option \<Rightarrow> ('s, 'p, unit) tx_outcome" where
  "check_feerate_threshold fee mass_and_feerate_threshold =
     (case mass_and_feerate_threshold of
        None \<Rightarrow> Some (Inr ())
      | Some (contextual_mass, too_low) \<Rightarrow>
          if contextual_mass = 0 then None else Some (if too_low fee contextual_mass then Inl FeerateTooLow else Inr ()))"

definition resolved_script_policy :: "transaction_validator \<Rightarrow> u64 \<Rightarrow> script_policy" where
  "resolved_script_policy tv pov =
     (if tv_pq_enforcement tv = Consensus \<and> tv_pq_activation_daa_score tv \<le> pov then PQ_ONLY else LEGACY)"

definition check_input_class :: "u64 \<Rightarrow> nat \<Rightarrow> utxo_entry \<Rightarrow> ('s, 'p) tx_rule_error + unit" where
  "check_input_class pov i entry =
     (let class = from_script (ue_script_public_key entry)
      in if class = EvmDepositLock then
           (case parse_evm_deposit_lock (ue_script_public_key entry) of
              Some lock \<Rightarrow>
                if pov < dl_timeout_daa_score lock
                then Inl (EvmDepositLockNotRefundableYet i pov (dl_timeout_daa_score lock)) else Inr ()
            | None \<Rightarrow> Inr ())
         else if \<not> is_pq_standard class then Inl (NonPqStandardInputClass i)
         else Inr ())"

definition check_input_script_classes :: "validated_transaction \<Rightarrow> u64 \<Rightarrow> ('s, 'p) tx_rule_error + unit" where
  "check_input_script_classes v pov =
     first_error (map (\<lambda>(i, _, entry). check_input_class pov i entry) (enumerate 0 (populated_inputs v)))"

definition map_script_err :: "'s \<Rightarrow> transaction_input \<Rightarrow> ('s, 'p) tx_rule_error" where
  "map_script_err script_err input =
     (if in_signature_script input = [] then SignatureEmpty script_err else SignatureInvalid script_err)"

definition check_scripts ::
  "('s, 'p) validator_externals \<Rightarrow> validated_transaction \<Rightarrow> script_policy \<Rightarrow> ('s, 'p) tx_rule_error + unit" where
  "check_scripts ext v policy =
     first_error
       (map (\<lambda>(i, input, entry).
              case ex_run_script ext policy (vt_tx v) (vt_entries v) i of
                Inl script_err \<Rightarrow> Inl (map_script_err script_err input) | Inr _ \<Rightarrow> Inr ())
          (enumerate 0 (populated_inputs v)))"

definition check_scripts_with_policy ::
  "transaction_validator \<Rightarrow> ('s, 'p) validator_externals \<Rightarrow> validated_transaction \<Rightarrow> u64 \<Rightarrow> ('s, 'p) tx_rule_error + unit" where
  "check_scripts_with_policy tv ext v pov = check_scripts ext v (resolved_script_policy tv pov)"

definition validate_populated_transaction_and_get_fee ::
  "transaction_validator \<Rightarrow> ('s, 'p) validator_externals \<Rightarrow> validated_transaction \<Rightarrow> u64 \<Rightarrow> tx_validation_flags \<Rightarrow>
   (u64 \<times> (u64 \<Rightarrow> u64 \<Rightarrow> bool)) option \<Rightarrow> ('s, 'p, u64) tx_outcome" where
  "validate_populated_transaction_and_get_fee tv ext v pov flags feerate =
     bind_res (check_transaction_coinbase_maturity tv v pov) (\<lambda>_.
     bind_res (Some (check_transaction_input_amounts v)) (\<lambda>total_in.
     bind_res (check_output_values_and_compute_fee v total_in) (\<lambda>fee.
     bind_res (if flags \<noteq> SkipMassCheck then check_mass_commitment tv v else Some (Inr ())) (\<lambda>_.
     bind_res (check_sequence_lock v pov) (\<lambda>_.
     bind_res (check_feerate_threshold fee feerate) (\<lambda>_.
     bind_res
       (Some (case flags of
                SkipScriptChecks \<Rightarrow> Inr ()
              | _ \<Rightarrow>
                  first_error
                    [if sp_pq_only (resolved_script_policy tv pov) then check_input_script_classes v pov else Inr (),
                     check_scripts_with_policy tv ext v pov]))
       (\<lambda>_. Some (Inr fee))))))))"

text \<open>
  \<open>validate_transaction_in_utxo_context\<close> of the virtual processor: the three optional filters are the bond spend
  filter, the provider-unbond authorization (which returns the bond of an unauthorized request) and the provider bond
  spend filter.
\<close>

fun populate_entries :: "utxo_view \<Rightarrow> transaction_input list \<Rightarrow> utxo_entry list option" where
  "populate_entries view [] = Some []"
| "populate_entries view (i # is) =
     (case view (in_previous_outpoint i) of
        None \<Rightarrow> None
      | Some entry \<Rightarrow> map_option (Cons entry) (populate_entries view is))"

definition first_locked :: "(transaction_outpoint \<Rightarrow> bool) option \<Rightarrow> transaction \<Rightarrow> transaction_outpoint option" where
  "first_locked lock_filter tx =
     (case lock_filter of
        None \<Rightarrow> None
      | Some is_locked \<Rightarrow> map_option in_previous_outpoint (find (\<lambda>i. is_locked (in_previous_outpoint i)) (tx_inputs tx)))"

definition validate_transaction_in_utxo_context ::
  "transaction_validator \<Rightarrow> ('s, 'p) validator_externals \<Rightarrow> transaction \<Rightarrow> utxo_view \<Rightarrow> u64 \<Rightarrow> tx_validation_flags \<Rightarrow>
   (transaction_outpoint \<Rightarrow> bool) option \<Rightarrow> (transaction \<Rightarrow> transaction_outpoint option) option \<Rightarrow>
   (transaction_outpoint \<Rightarrow> bool) option \<Rightarrow> ('s, 'p, validated_transaction) tx_outcome" where
  "validate_transaction_in_utxo_context tv ext tx view pov flags bond_filter provider_unbond_filter provider_bond_filter =
     (case Option.bind provider_unbond_filter (\<lambda>unauthorized. unauthorized tx) of
        Some bond \<Rightarrow> Some (Inl (UnauthorizedProviderUnbond bond))
      | None \<Rightarrow>
          (case populate_entries view (tx_inputs tx) of
             None \<Rightarrow> Some (Inl MissingTxOutpoints)
           | Some entries \<Rightarrow>
               (case first_locked bond_filter tx of
                  Some p \<Rightarrow> Some (Inl (SpendsNonReleasableBond p))
                | None \<Rightarrow>
                    (case first_locked provider_bond_filter tx of
                       Some p \<Rightarrow> Some (Inl (SpendsNonReleasableProviderBond p))
                     | None \<Rightarrow>
                         bind_res (validate_populated_transaction_and_get_fee tv ext (populated tx entries) pov flags None)
                           (\<lambda>fee. Some (Inr (populated tx entries\<lparr>vt_calculated_fee := fee\<rparr>)))))))"

end
