(* ===== verification/Script_Engine.thy ===== *)
theory Script_Engine
  imports Script_Opcodes Sighash Tx_Validator
begin

text \<open>
  The script engine (\<open>crypto/txscript/src/lib.rs\<close>, \<open>opcodes/mod.rs\<close>, \<open>runtime_sig_op_counter.rs\<close>, \<open>caches.rs\<close>):
  every opcode, the run of one script, and the run of an input. The state of \<open>TxScriptEngine\<close> that execution changes is
  the record \<open>vm\<close>; what it only reads is the record \<open>script_env\<close>. A run returns the error or the new state; the
  state after an error is dropped with the engine.

  The hash functions, the ML-DSA-87 verifier and the random number generator are the fields of \<open>script_crypto\<close>. The
  build without the feature \<open>legacy-secp256k1\<close> is modelled, in which a secp256k1 signature never verifies. The
  execution log is left out.
\<close>

unbundle bit_operations_syntax

datatype op_cond = OpCondFalse | OpCondTrue | OpCondSkip

fun negate_cond :: "op_cond \<Rightarrow> op_cond" where
  "negate_cond OpCondTrue = OpCondFalse"
| "negate_cond OpCondFalse = OpCondTrue"
| "negate_cond OpCondSkip = OpCondSkip"

definition MAX_STACK_SIZE :: usize where
  "MAX_STACK_SIZE = 244"

definition MAX_SCRIPTS_SIZE :: usize where
  "MAX_SCRIPTS_SIZE = 16384"

definition MAX_SCRIPT_ELEMENT_SIZE :: usize where
  "MAX_SCRIPT_ELEMENT_SIZE = 8192"

definition MAX_OPS_PER_SCRIPT :: nat where
  "MAX_OPS_PER_SCRIPT = 201"

definition MLDSA87_PK_LEN :: usize where
  "MLDSA87_PK_LEN = 2592"

definition MLDSA87_SIG_LEN :: usize where
  "MLDSA87_SIG_LEN = 4627"

definition MLDSA87_TX_CONTEXT :: bytes where
  "MLDSA87_TX_CONTEXT = ascii ''kaspa-pq-v2/tx/mldsa87''"

definition MAX_TX_IN_SEQUENCE_NUM :: u64 where
  "MAX_TX_IN_SEQUENCE_NUM = u64_max"

section \<open>Counter and cache\<close>

record runtime_sig_op_counter =
  so_limit :: nat
  so_remaining :: nat

definition new_sig_op_counter :: "nat \<Rightarrow> runtime_sig_op_counter" where
  "new_sig_op_counter sig_op_limit = \<lparr>so_limit = sig_op_limit, so_remaining = sig_op_limit\<rparr>"

definition consume_sig_op :: "runtime_sig_op_counter \<Rightarrow> tx_script_error + runtime_sig_op_counter" where
  "consume_sig_op c =
     (if so_remaining c < 1 then Inl (ExceededSigOpLimit (so_limit c)) else Inr (c\<lparr>so_remaining := so_remaining c - 1\<rparr>))"

definition used_sig_ops :: "runtime_sig_op_counter \<Rightarrow> nat" where
  "used_sig_ops c = so_limit c - so_remaining c"

text \<open>The algorithm tag of the key is left out: only ML-DSA-87 is compiled in.\<close>

record sig_cache_key =
  sk_pub_key_digest :: bytes
  sk_signature_digest :: bytes
  sk_message_digest :: bytes

record sig_cache =
  sc_size :: usize
  sc_map :: "(sig_cache_key \<times> bool) list"

definition cache_get :: "sig_cache \<Rightarrow> sig_cache_key \<Rightarrow> bool option" where
  "cache_get c key = map_of (sc_map c) key"

text \<open>\<open>swap_remove_index\<close> and \<open>insert\<close> of the index map, which keeps its entries in a vector.\<close>

definition swap_remove_index :: "nat \<Rightarrow> 'a list \<Rightarrow> 'a list" where
  "swap_remove_index i xs = butlast (xs[i := last xs])"

fun index_map_insert :: "'k \<Rightarrow> 'v \<Rightarrow> ('k \<times> 'v) list \<Rightarrow> ('k \<times> 'v) list" where
  "index_map_insert k v [] = [(k, v)]"
| "index_map_insert k v ((k', v') # m) = (if k' = k then (k, v) # m else (k', v') # index_map_insert k v m)"

definition cache_insert :: "(nat \<Rightarrow> nat) \<Rightarrow> sig_cache_key \<Rightarrow> bool \<Rightarrow> sig_cache \<Rightarrow> sig_cache" where
  "cache_insert gen_range key data c =
     (if sc_size c = 0 then c
      else let m = (if length (sc_map c) = sc_size c then swap_remove_index (gen_range (sc_size c)) (sc_map c) else sc_map c)
           in c\<lparr>sc_map := index_map_insert key data m\<rparr>)"

section \<open>The engine's state\<close>

record script_crypto =
  kx_sha256 :: "bytes \<Rightarrow> bytes"
  kx_blake2b_256 :: "bytes \<Rightarrow> bytes"
  kx_blake2b_512 :: "bytes \<Rightarrow> bytes"
  kx_address_payload :: "bytes \<Rightarrow> hash64"
  kx_signing_hash :: "bytes \<Rightarrow> hash64"
  kx_verify :: "bytes \<Rightarrow> bytes \<Rightarrow> bytes \<Rightarrow> bytes \<Rightarrow> bool"
  kx_gen_range :: "nat \<Rightarrow> nat"

datatype script_source =
    TxInput (src_tx: validated_transaction) (src_input: transaction_input) (src_idx: usize) (src_utxo_entry: utxo_entry)
      (src_is_p2sh: bool)
  | StandAloneScripts "bytes list"

record script_env =
  sv_crypto :: script_crypto
  sv_source :: script_source
  sv_policy :: script_policy

record vm =
  vm_dstack :: script_stack
  vm_astack :: script_stack
  vm_cond_stack :: "op_cond list"
  vm_num_ops :: nat
  vm_sig_ops :: runtime_sig_op_counter
  vm_sig_cache :: sig_cache

definition is_executing :: "vm \<Rightarrow> bool" where
  "is_executing v \<longleftrightarrow> vm_cond_stack v = [] \<or> last (vm_cond_stack v) = OpCondTrue"

definition on_dstack :: "(script_stack \<Rightarrow> tx_script_error + script_stack) \<Rightarrow> vm \<Rightarrow> tx_script_error + vm" where
  "on_dstack f v = try_then (f (vm_dstack v)) (\<lambda>st. Inr (v\<lparr>vm_dstack := st\<rparr>))"

definition push_data :: "bytes \<Rightarrow> vm \<Rightarrow> tx_script_error + vm" where
  "push_data data v = Inr (v\<lparr>vm_dstack := vm_dstack v @ [data]\<rparr>)"

definition push_number :: "int \<Rightarrow> vm \<Rightarrow> tx_script_error + vm" where
  "push_number n v = on_dstack (push_int n) v"

section \<open>Signature checks\<close>

definition check_mldsa87_signature ::
  "script_env \<Rightarrow> sig_hash_type \<Rightarrow> bytes \<Rightarrow> bytes \<Rightarrow> vm \<Rightarrow> tx_script_error + (bool \<times> vm)" where
  "check_mldsa87_signature env hash_type key sig v =
     try_then (consume_sig_op (vm_sig_ops v)) (\<lambda>c.
       let v = v\<lparr>vm_sig_ops := c\<rparr>; kx = sv_crypto env
       in case sv_source env of
            StandAloneScripts _ \<Rightarrow> Inl NotATransactionInput
          | TxInput tx _ idx _ _ \<Rightarrow>
              if length key \<noteq> MLDSA87_PK_LEN then Inl PubKeyFormat
              else if length sig \<noteq> MLDSA87_SIG_LEN then Inl (SigLength (length sig))
              else let msg_bytes = as_bytes (calc_mldsa87_signature_hash (kx_signing_hash kx) (vt_tx tx) (vt_entries tx) idx hash_type);
                       sig_cache_key = \<lparr>sk_pub_key_digest = kx_blake2b_512 kx key,
                         sk_signature_digest = kx_blake2b_512 kx sig, sk_message_digest = msg_bytes\<rparr>
                   in case cache_get (vm_sig_cache v) sig_cache_key of
                        Some valid \<Rightarrow> Inr (valid, v)
                      | None \<Rightarrow>
                          let valid = kx_verify kx key msg_bytes MLDSA87_TX_CONTEXT sig
                          in Inr (valid, v\<lparr>vm_sig_cache := cache_insert (kx_gen_range kx) sig_cache_key valid (vm_sig_cache v)\<rparr>))"

text \<open>\<open>check_schnorr_signature\<close> and \<open>check_ecdsa_signature\<close> of a build without secp256k1.\<close>

definition check_legacy_signature :: "vm \<Rightarrow> tx_script_error + (bool \<times> vm)" where
  "check_legacy_signature v = try_then (consume_sig_op (vm_sig_ops v)) (\<lambda>c. Inr (False, v\<lparr>vm_sig_ops := c\<rparr>))"

datatype multisig_scheme = Schnorr | Ecdsa | MlDsa87

definition check_signature ::
  "script_env \<Rightarrow> multisig_scheme \<Rightarrow> sig_hash_type \<Rightarrow> bytes \<Rightarrow> bytes \<Rightarrow> vm \<Rightarrow> tx_script_error + (bool \<times> vm)" where
  "check_signature env scheme hash_type key sig v =
     (case scheme of
        MlDsa87 \<Rightarrow> check_mldsa87_signature env hash_type key sig v
      | _ \<Rightarrow> check_legacy_signature v)"

text \<open>The inner loop of \<open>op_check_multisig\<close>: it tries the keys left for one signature while \<open>needed\<close> signatures
  can still be matched, and returns the keys left after a valid one, or \<open>None\<close> when too few keys are left. At
  least one signature is needed when it is called.\<close>

fun match_key ::
  "script_env \<Rightarrow> multisig_scheme \<Rightarrow> sig_hash_type \<Rightarrow> bytes \<Rightarrow> nat \<Rightarrow> bytes list \<Rightarrow> vm \<Rightarrow> tx_script_error + (bytes list option \<times> vm)" where
  "match_key env scheme hash_type sig needed [] v = Inr (None, v)"
| "match_key env scheme hash_type sig needed (pub_key # pub_keys) v =
     (if length (pub_key # pub_keys) < needed then Inr (None, v)
      else try_then (check_signature env scheme hash_type pub_key sig v) (\<lambda>(valid, v).
        if valid then Inr (Some pub_keys, v) else match_key env scheme hash_type sig needed pub_keys v))"

fun match_signatures ::
  "script_env \<Rightarrow> multisig_scheme \<Rightarrow> bytes list \<Rightarrow> bytes list \<Rightarrow> vm \<Rightarrow> tx_script_error + (bool \<times> vm)" where
  "match_signatures env scheme [] pub_keys v = Inr (False, v)"
| "match_signatures env scheme (signature # signatures) pub_keys v =
     (if signature = [] then Inr (True, v)
      else case sig_hash_type_from_u8 (last signature) of
             None \<Rightarrow> Inl (InvalidSigHashType (last signature))
           | Some hash_type \<Rightarrow>
               try_then (match_key env scheme hash_type (butlast signature) (length (signature # signatures)) pub_keys v)
                 (\<lambda>(left, v). case left of
                    None \<Rightarrow> Inr (True, v)
                  | Some pub_keys \<Rightarrow> match_signatures env scheme signatures pub_keys v))"

definition op_check_multisig :: "script_env \<Rightarrow> multisig_scheme \<Rightarrow> vm \<Rightarrow> tx_script_error + vm" where
  "op_check_multisig env scheme v =
     try_then (pop_ints 4 1 (vm_dstack v)) (\<lambda>(ns, st).
       let num_keys = hd ns
       in if num_keys < 0 \<or> int MAX_PUB_KEYS_PER_MUTLTISIG < num_keys then Inl InvalidPubKeyCount
          else let num_ops = vm_num_ops v + nat num_keys
               in if MAX_OPS_PER_SCRIPT < num_ops then Inl (TooManyOperations MAX_OPS_PER_SCRIPT)
                  else try_then (pop_raw (nat num_keys) st) (\<lambda>(pub_keys, st).
                    try_then (pop_ints 4 1 st) (\<lambda>(ns, st).
                      let num_sigs = hd ns
                      in if num_sigs < 0 \<or> num_keys < num_sigs then Inl InvalidSignatureCount
                         else try_then (pop_raw (nat num_sigs) st) (\<lambda>(signatures, st).
                           try_then (match_signatures env scheme signatures pub_keys
                               (v\<lparr>vm_dstack := st, vm_num_ops := num_ops\<rparr>)) (\<lambda>(failed, v).
                             if failed \<and> (\<exists>sig\<in>set signatures. sig \<noteq> []) then Inl NullFail
                             else Inr (v\<lparr>vm_dstack := push_bool (\<not> failed) (vm_dstack v)\<rparr>))))))"

text \<open>\<open>OpCheckSig\<close>, \<open>OpCheckSigECDSA\<close> and \<open>OpCheckSigMlDsa87\<close> have this body, each with its check.\<close>

definition op_check_sig :: "script_env \<Rightarrow> multisig_scheme \<Rightarrow> vm \<Rightarrow> tx_script_error + vm" where
  "op_check_sig env scheme v =
     try_then (pop_raw 2 (vm_dstack v)) (\<lambda>(items, st).
       let sig = items ! 0; key = items ! 1; v = v\<lparr>vm_dstack := st\<rparr>
       in if sig = [] then Inr (v\<lparr>vm_dstack := push_bool False st\<rparr>)
          else case sig_hash_type_from_u8 (last sig) of
                 None \<Rightarrow> Inl (InvalidSigHashType (last sig))
               | Some hash_type \<Rightarrow>
                   try_then (check_signature env scheme hash_type key (butlast sig) v) (\<lambda>(valid, v).
                     Inr (v\<lparr>vm_dstack := push_bool valid (vm_dstack v)\<rparr>)))"

definition op_verify :: "vm \<Rightarrow> tx_script_error + vm" where
  "op_verify v =
     try_then (pop_bool (vm_dstack v)) (\<lambda>(result, st). if result then Inr (v\<lparr>vm_dstack := st\<rparr>) else Inl VerifyError)"

section \<open>Opcodes\<close>

definition execute_push :: "opcode \<Rightarrow> vm \<Rightarrow> tx_script_error + vm" where
  "execute_push opc v =
     (let c = oc_value opc
      in if c = OpFalse then push_data [] v
         else if c \<le> OpPushData4 then push_data (oc_data opc) v
         else if c = Op1Negate then push_number (-1) v
         else if c = 0x50 then Inl (OpcodeReserved c)
         else push_number (int (unat c) - 0x50) v)"

definition op_if :: "op_cond \<Rightarrow> op_cond \<Rightarrow> vm \<Rightarrow> tx_script_error + vm" where
  "op_if on_one on_empty v =
     (if is_executing v then
        (if vm_dstack v = [] then Inl EmptyStack
         else let cond_buf = last (vm_dstack v); v = v\<lparr>vm_dstack := butlast (vm_dstack v)\<rparr>
              in if 1 < length cond_buf then Inl InvalidState
                 else if cond_buf = [] then Inr (v\<lparr>vm_cond_stack := vm_cond_stack v @ [on_empty]\<rparr>)
                 else if last cond_buf = 1 then Inr (v\<lparr>vm_cond_stack := vm_cond_stack v @ [on_one]\<rparr>)
                 else Inl InvalidState)
      else Inr (v\<lparr>vm_cond_stack := vm_cond_stack v @ [OpCondSkip]\<rparr>))"

definition execute_control :: "opcode \<Rightarrow> vm \<Rightarrow> tx_script_error + vm" where
  "execute_control opc v =
     (let c = oc_value opc; cs = vm_cond_stack v
      in if c = 0x61 then Inr v
         else if c = 0x63 then op_if OpCondTrue OpCondFalse v
         else if c = 0x64 then op_if OpCondFalse OpCondTrue v
         else if c = 0x67 then
           (if cs = [] then Inl InvalidState else Inr (v\<lparr>vm_cond_stack := butlast cs @ [negate_cond (last cs)]\<rparr>))
         else if c = 0x68 then (if cs = [] then Inl InvalidState else Inr (v\<lparr>vm_cond_stack := butlast cs\<rparr>))
         else if c = 0x69 then op_verify v
         else if c = 0x6a then Inl EarlyReturn
         else Inl (OpcodeReserved c))"

definition remove_at :: "nat \<Rightarrow> 'a list \<Rightarrow> 'a list" where
  "remove_at i xs = take i xs @ drop (Suc i) xs"

text \<open>\<open>OpPick\<close> and \<open>OpRoll\<close>: the stack below the popped index and the position it names.\<close>

definition pop_location :: "script_stack \<Rightarrow> tx_script_error + (nat \<times> script_stack)" where
  "pop_location st =
     try_then (pop_ints 4 1 st) (\<lambda>(ns, st).
       let loc = hd ns
       in if loc < 0 \<or> int (length st) \<le> loc then Inl InvalidState else Inr (length st - nat loc - 1, st))"

definition execute_stack :: "opcode \<Rightarrow> vm \<Rightarrow> tx_script_error + vm" where
  "execute_stack opc v =
     (let c = oc_value opc; st = vm_dstack v
      in if c = 0x6b then
           try_then (pop_raw 1 st) (\<lambda>(items, st). Inr (v\<lparr>vm_dstack := st, vm_astack := vm_astack v @ items\<rparr>))
         else if c = 0x6c then
           (if vm_astack v = [] then Inl EmptyStack
            else Inr (v\<lparr>vm_dstack := st @ [last (vm_astack v)], vm_astack := butlast (vm_astack v)\<rparr>))
         else if c = 0x6d then on_dstack (drop_items 2) v
         else if c = 0x6e then on_dstack (dup_items 2) v
         else if c = 0x6f then on_dstack (dup_items 3) v
         else if c = 0x70 then on_dstack (over_items 2) v
         else if c = 0x71 then on_dstack (rot_items 2) v
         else if c = 0x72 then on_dstack (swap_items 2) v
         else if c = 0x73 then
           try_then (peek_raw 1 st) (\<lambda>items. if deserialize_bool (hd items) then push_data (hd items) v else Inr v)
         else if c = 0x74 then push_number (int (length st)) v
         else if c = 0x75 then on_dstack (drop_items 1) v
         else if c = 0x76 then on_dstack (dup_items 1) v
         else if c = 0x77 then
           (if 2 \<le> length st then Inr (v\<lparr>vm_dstack := remove_at (length st - 2) st\<rparr>)
            else Inl (InvalidStackOperation 2 (length st)))
         else if c = 0x78 then on_dstack (over_items 1) v
         else if c = 0x79 then on_dstack (\<lambda>st. try_then (pop_location st) (\<lambda>(i, st). Inr (st @ [st ! i]))) v
         else if c = 0x7a then on_dstack (\<lambda>st. try_then (pop_location st) (\<lambda>(i, st). Inr (remove_at i st @ [st ! i]))) v
         else if c = 0x7b then on_dstack (rot_items 1) v
         else if c = 0x7c then on_dstack (swap_items 1) v
         else (if 2 \<le> length st
               then Inr (v\<lparr>vm_dstack := take (length st - 2) st @ [last st] @ drop (length st - 2) st\<rparr>)
               else Inl (InvalidStackOperation 2 (length st))))"

definition execute_splice :: "opcode \<Rightarrow> vm \<Rightarrow> tx_script_error + vm" where
  "execute_splice opc v =
     (let c = oc_value opc; st = vm_dstack v; rest = take (length st - 2) st;
          equal = st ! (length st - 2) = st ! (length st - 1)
      in if c = 0x82 then
           (if st = [] then Inl (InvalidStackOperation 1 0)
            else if 2 ^ 63 \<le> length (last st) then Inl NumberTooBig
            else push_number (int (length (last st))) v)
         else if c = OpEqual then
           (if 2 \<le> length st then Inr (v\<lparr>vm_dstack := rest @ [if equal then [1] else []]\<rparr>)
            else Inl (InvalidStackOperation 2 (length st)))
         else if c = OpEqualVerify then
           (if 2 \<le> length st then (if equal then Inr (v\<lparr>vm_dstack := rest\<rparr>) else Inl VerifyError)
            else Inl (InvalidStackOperation 2 (length st)))
         else if c = 0x89 \<or> c = 0x8a then Inl (OpcodeReserved c)
         else Inl (OpcodeDisabled c))"

definition checked_i64 :: "int \<Rightarrow> tx_script_error + int" where
  "checked_i64 n = (if - (2 ^ 63) \<le> n \<and> n < 2 ^ 63 then Inr n else Inl NumberTooBig)"

definition numeric_op :: "nat \<Rightarrow> (int list \<Rightarrow> tx_script_error + int) \<Rightarrow> vm \<Rightarrow> tx_script_error + vm" where
  "numeric_op n f v =
     try_then (pop_ints 8 n (vm_dstack v)) (\<lambda>(ns, st). try_then (f ns) (\<lambda>r. push_number r (v\<lparr>vm_dstack := st\<rparr>)))"

definition execute_numeric :: "opcode \<Rightarrow> vm \<Rightarrow> tx_script_error + vm" where
  "execute_numeric opc v =
     (let c = oc_value opc;
          unary = \<lambda>f. numeric_op 1 (\<lambda>ns. f (ns ! 0)) v;
          binary = \<lambda>f. numeric_op 2 (\<lambda>ns. f (ns ! 0) (ns ! 1)) v;
          relation = \<lambda>R. numeric_op 2 (\<lambda>ns. Inr (of_bool (R (ns ! 0) (ns ! 1)))) v
      in if c = 0x8b then unary (\<lambda>value. checked_i64 (value + 1))
         else if c = 0x8c then unary (\<lambda>value. checked_i64 (value - 1))
         else if c = 0x8f then unary (\<lambda>value. checked_i64 (- value))
         else if c = 0x90 then unary (\<lambda>value. checked_i64 \<bar>value\<bar>)
         else if c = 0x91 then unary (\<lambda>m. Inr (of_bool (m = 0)))
         else if c = 0x92 then unary (\<lambda>m. Inr (of_bool (m \<noteq> 0)))
         else if c = 0x93 then binary (\<lambda>a b. checked_i64 (a + b))
         else if c = 0x94 then binary (\<lambda>a b. checked_i64 (a - b))
         else if c = 0x9a then relation (\<lambda>a b. a \<noteq> 0 \<and> b \<noteq> 0)
         else if c = 0x9b then relation (\<lambda>a b. a \<noteq> 0 \<or> b \<noteq> 0)
         else if c = 0x9c then relation (\<lambda>a b. a = b)
         else if c = 0x9d then
           try_then (pop_ints 8 2 (vm_dstack v)) (\<lambda>(ns, st).
             if ns ! 0 = ns ! 1 then Inr (v\<lparr>vm_dstack := st\<rparr>) else Inl VerifyError)
         else if c = 0x9e then relation (\<lambda>a b. a \<noteq> b)
         else if c = 0x9f then relation (\<lambda>a b. a < b)
         else if c = 0xa0 then relation (\<lambda>a b. a > b)
         else if c = 0xa1 then relation (\<lambda>a b. a \<le> b)
         else if c = 0xa2 then relation (\<lambda>a b. a \<ge> b)
         else if c = 0xa3 then binary (\<lambda>a b. Inr (min a b))
         else if c = 0xa4 then binary (\<lambda>a b. Inr (max a b))
         else if c = 0xa5 then numeric_op 3 (\<lambda>ns. Inr (of_bool (ns ! 0 \<ge> ns ! 1 \<and> ns ! 0 < ns ! 2))) v
         else Inl (OpcodeDisabled c))"

text \<open>The padded little-endian operand of the two lock opcodes.\<close>

definition pop_lock_operand :: "script_stack \<Rightarrow> tx_script_error + (u64 \<times> script_stack)" where
  "pop_lock_operand st =
     try_then (pop_raw 1 st) (\<lambda>(items, st).
       let lock_bytes = hd items
       in if 8 < length lock_bytes then Inl NumberTooBig
          else Inr (from_le (lock_bytes @ replicate (8 - length lock_bytes) 0), st))"

definition check_lock_time_verify :: "script_env \<Rightarrow> vm \<Rightarrow> tx_script_error + vm" where
  "check_lock_time_verify env v =
     (case sv_source env of
        StandAloneScripts _ \<Rightarrow> Inl InvalidSource
      | TxInput tx input _ _ _ \<Rightarrow>
          try_then (pop_lock_operand (vm_dstack v)) (\<lambda>(stack_lock_time, st).
            let lock_time = tx_lock_time (vt_tx tx)
            in if \<not> ((lock_time < LOCK_TIME_THRESHOLD \<and> stack_lock_time < LOCK_TIME_THRESHOLD) \<or>
                     (LOCK_TIME_THRESHOLD \<le> lock_time \<and> LOCK_TIME_THRESHOLD \<le> stack_lock_time))
               then Inl UnsatisfiedLockTime
               else if lock_time < stack_lock_time then Inl UnsatisfiedLockTime
               else if in_sequence input = MAX_TX_IN_SEQUENCE_NUM then Inl UnsatisfiedLockTime
               else Inr (v\<lparr>vm_dstack := st\<rparr>)))"

definition check_sequence_verify :: "script_env \<Rightarrow> vm \<Rightarrow> tx_script_error + vm" where
  "check_sequence_verify env v =
     (case sv_source env of
        StandAloneScripts _ \<Rightarrow> Inl InvalidSource
      | TxInput tx input _ _ _ \<Rightarrow>
          try_then (pop_lock_operand (vm_dstack v)) (\<lambda>(stack_sequence, st).
            if stack_sequence AND SEQUENCE_LOCK_TIME_DISABLED \<noteq> 0 then Inr (v\<lparr>vm_dstack := st\<rparr>)
            else if in_sequence input AND SEQUENCE_LOCK_TIME_DISABLED \<noteq> 0 then Inl UnsatisfiedLockTime
            else if in_sequence input AND SEQUENCE_LOCK_TIME_MASK < stack_sequence AND SEQUENCE_LOCK_TIME_MASK
            then Inl UnsatisfiedLockTime
            else Inr (v\<lparr>vm_dstack := st\<rparr>)))"

definition hash_op :: "(bytes \<Rightarrow> bytes) \<Rightarrow> vm \<Rightarrow> tx_script_error + vm" where
  "hash_op h v = try_then (pop_raw 1 (vm_dstack v)) (\<lambda>(items, st). Inr (v\<lparr>vm_dstack := st @ [h (hd items)]\<rparr>))"

definition execute_crypto :: "script_env \<Rightarrow> opcode \<Rightarrow> vm \<Rightarrow> tx_script_error + vm" where
  "execute_crypto env opc v =
     (let c = oc_value opc; kx = sv_crypto env
      in if c = OpCheckSigMlDsa87 then op_check_sig env MlDsa87 v
         else if c = OpCheckMultiSigMlDsa87 then op_check_multisig env MlDsa87 v
         else if c = 0xa8 then hash_op (kx_sha256 kx) v
         else if c = OpCheckMultiSigECDSA then op_check_multisig env Ecdsa v
         else if c = OpBlake2b then hash_op (kx_blake2b_256 kx) v
         else if c = OpCheckSigECDSA then op_check_sig env Ecdsa v
         else if c = OpCheckSig then op_check_sig env Schnorr v
         else if c = OpCheckSigVerify then try_then (op_check_sig env Schnorr v) op_verify
         else if c = OpCheckMultiSig then op_check_multisig env Schnorr v
         else if c = OpCheckMultiSigVerify then try_then (op_check_multisig env Schnorr v) op_verify
         else if c = 0xb0 then check_lock_time_verify env v
         else check_sequence_verify env v)"

definition spk_to_bytes :: "script_public_key \<Rightarrow> bytes" where
  "spk_to_bytes spk = rev (to_le 2 (spk_version spk)) @ spk_script spk"

text \<open>An element of a list at a script number: \<open>usize::try_from(idx).ok().and_then(get)\<close>.\<close>

definition get_at :: "int \<Rightarrow> 'a list \<Rightarrow> 'a option" where
  "get_at i xs = (if 0 \<le> i \<and> i < int (length xs) then Some (xs ! nat i) else None)"

definition push_amount :: "u64 \<Rightarrow> vm \<Rightarrow> tx_script_error + vm" where
  "push_amount n v = (if 2 ^ 63 \<le> n then Inl NumberTooBig else push_number (int n) v)"

text \<open>\<open>OpTxInputAmount\<close>, \<open>OpTxInputSpk\<close>, \<open>OpTxOutputAmount\<close> and \<open>OpTxOutputSpk\<close>. The index error of an output reports
  the number of inputs, as in the source.\<close>

definition input_field :: "validated_transaction \<Rightarrow> (utxo_entry \<Rightarrow> vm \<Rightarrow> tx_script_error + vm) \<Rightarrow> vm \<Rightarrow> tx_script_error + vm" where
  "input_field tx f v =
     try_then (pop_ints 4 1 (vm_dstack v)) (\<lambda>(ns, st).
       case get_at (hd ns) (vt_entries tx) of
         None \<Rightarrow> Inl (InvalidInputIndex (hd ns) (length (tx_inputs (vt_tx tx))))
       | Some utxo \<Rightarrow> f utxo (v\<lparr>vm_dstack := st\<rparr>))"

definition output_field :: "validated_transaction \<Rightarrow> (transaction_output \<Rightarrow> vm \<Rightarrow> tx_script_error + vm) \<Rightarrow> vm \<Rightarrow> tx_script_error + vm" where
  "output_field tx f v =
     try_then (pop_ints 4 1 (vm_dstack v)) (\<lambda>(ns, st).
       case get_at (hd ns) (tx_outputs (vt_tx tx)) of
         None \<Rightarrow> Inl (InvalidOutputIndex (hd ns) (length (tx_inputs (vt_tx tx))))
       | Some output \<Rightarrow> f output (v\<lparr>vm_dstack := st\<rparr>))"

definition execute_introspection :: "script_env \<Rightarrow> opcode \<Rightarrow> vm \<Rightarrow> tx_script_error + vm" where
  "execute_introspection env opc v =
     (let c = oc_value opc;
          on_tx = \<lambda>f. case sv_source env of TxInput tx _ idx _ _ \<Rightarrow> f tx idx | StandAloneScripts _ \<Rightarrow> Inl InvalidSource
      in if c = 0xb3 then on_tx (\<lambda>tx _. push_number (int (length (tx_inputs (vt_tx tx)))) v)
         else if c = 0xb4 then on_tx (\<lambda>tx _. push_number (int (length (tx_outputs (vt_tx tx)))) v)
         else if c = 0xb9 then on_tx (\<lambda>_ idx. push_number (int idx) v)
         else if c = 0xbe then on_tx (\<lambda>tx _. input_field tx (\<lambda>utxo. push_amount (ue_amount utxo)) v)
         else if c = 0xbf then on_tx (\<lambda>tx _. input_field tx (\<lambda>utxo. push_data (spk_to_bytes (ue_script_public_key utxo))) v)
         else if c = 0xc2 then on_tx (\<lambda>tx _. output_field tx (\<lambda>output. push_amount (out_value output)) v)
         else if c = 0xc3 then on_tx (\<lambda>tx _. output_field tx (\<lambda>output. push_data (spk_to_bytes (out_script_public_key output))) v)
         else if c = OpBlake2b512 then hash_op (\<lambda>data. as_bytes (kx_address_payload (sv_crypto env) data)) v
         else Inl (OpcodeReserved c))"

text \<open>The \<open>execute\<close> of an opcode, by the ranges of the opcode list.\<close>

definition execute_code :: "script_env \<Rightarrow> opcode \<Rightarrow> vm \<Rightarrow> tx_script_error + vm" where
  "execute_code env opc v =
     (let c = oc_value opc
      in if c \<le> Op16 then execute_push opc v
         else if c \<le> 0x6a then execute_control opc v
         else if c \<le> 0x7d then execute_stack opc v
         else if c \<le> 0x8a then execute_splice opc v
         else if c \<le> 0xa5 then execute_numeric opc v
         else if c \<le> 0xb1 then execute_crypto env opc v
         else if c \<le> OpBlake2b512 then execute_introspection env opc v
         else Inl (InvalidOpcode c))"

section \<open>Running scripts\<close>

definition execute_opcode :: "script_env \<Rightarrow> opcode \<Rightarrow> vm \<Rightarrow> tx_script_error + vm" where
  "execute_opcode env opc v =
     (let num_ops = (if is_push_opcode opc then vm_num_ops v else vm_num_ops v + 1); v = v\<lparr>vm_num_ops := num_ops\<rparr>
      in if \<not> is_push_opcode opc \<and> MAX_OPS_PER_SCRIPT < num_ops then Inl (TooManyOperations MAX_OPS_PER_SCRIPT)
         else if is_push_opcode opc \<and> MAX_SCRIPT_ELEMENT_SIZE < length (oc_data opc)
         then Inl (ElementTooBig (length (oc_data opc)) MAX_SCRIPT_ELEMENT_SIZE)
         else if is_executing v \<or> is_conditional opc then
           try_then (if 0 < oc_value opc \<and> oc_value opc \<le> 0x4e then check_minimal_data_push opc else Inr ()) (\<lambda>_.
             execute_code env opc v)
         else Inr v)"

definition run_opcode :: "script_env \<Rightarrow> bool \<Rightarrow> opcode \<Rightarrow> vm \<Rightarrow> tx_script_error + vm" where
  "run_opcode env verify_only_push opc v =
     (if is_disabled opc then Inl (OpcodeDisabled (oc_value opc))
      else if always_illegal opc then Inl (OpcodeReserved (oc_value opc))
      else if sp_pq_only (sv_policy env) \<and> is_legacy_signature_opcode (oc_value opc)
      then Inl (LegacySignatureOpcodeDisabled (oc_value opc))
      else if verify_only_push \<and> \<not> is_push_opcode opc then Inl SignatureScriptNotPushOnly
      else try_then (execute_opcode env opc v) (\<lambda>v.
        let combined_size = length (vm_astack v) + length (vm_dstack v)
        in if MAX_STACK_SIZE < combined_size then Inl (StackSizeExceeded combined_size MAX_STACK_SIZE) else Inr v))"

fun run_opcodes :: "script_env \<Rightarrow> bool \<Rightarrow> (tx_script_error + opcode) list \<Rightarrow> vm \<Rightarrow> tx_script_error + vm" where
  "run_opcodes env verify_only_push [] v = Inr v"
| "run_opcodes env verify_only_push (r # rs) v =
     try_then r (\<lambda>opc. try_then (run_opcode env verify_only_push opc v) (run_opcodes env verify_only_push rs))"

definition execute_script :: "script_env \<Rightarrow> bytes \<Rightarrow> bool \<Rightarrow> vm \<Rightarrow> tx_script_error + vm" where
  "execute_script env script verify_only_push v =
     try_then (run_opcodes env verify_only_push (parse_script script) v) (\<lambda>v.
       if vm_cond_stack v \<noteq> [] then Inl ErrUnbalancedConditional else Inr (v\<lparr>vm_astack := [], vm_num_ops := 0\<rparr>))"

definition check_error_condition :: "bool \<Rightarrow> vm \<Rightarrow> tx_script_error + vm" where
  "check_error_condition final_script v =
     (if final_script \<and> 1 < length (vm_dstack v) then Inl (CleanStack (length (vm_dstack v) - 1))
      else if final_script \<and> vm_dstack v = [] then Inl EmptyStack
      else try_then (pop_bool (vm_dstack v)) (\<lambda>(b, st). if b then Inr (v\<lparr>vm_dstack := st\<rparr>) else Inl EvalFalse))"

text \<open>The loop over the scripts with their positions; it keeps the stack saved before the second one.\<close>

fun run_scripts ::
  "script_env \<Rightarrow> bool \<Rightarrow> (nat \<times> bytes) list \<Rightarrow> script_stack option \<Rightarrow> vm \<Rightarrow> tx_script_error + (script_stack option \<times> vm)" where
  "run_scripts env is_p2sh [] saved v = Inr (saved, v)"
| "run_scripts env is_p2sh ((idx, s) # scripts) saved v =
     (let verify_only_push = (idx = 0 \<and> (case sv_source env of TxInput _ _ _ _ _ \<Rightarrow> True | StandAloneScripts _ \<Rightarrow> False));
          saved' = (if is_p2sh \<and> idx = 1 then Some (vm_dstack v) else saved)
      in try_then (execute_script env s verify_only_push v) (run_scripts env is_p2sh scripts saved'))"

definition run_p2sh :: "script_env \<Rightarrow> script_stack option \<Rightarrow> vm \<Rightarrow> tx_script_error + vm" where
  "run_p2sh env saved v =
     try_then (check_error_condition False v) (\<lambda>v.
       case saved of
         None \<Rightarrow> Inl EmptyStack
       | Some st \<Rightarrow>
           if st = [] then Inl EmptyStack
           else execute_script env (last st) False (v\<lparr>vm_dstack := butlast st\<rparr>))"

definition execute :: "script_env \<Rightarrow> vm \<Rightarrow> tx_script_error + vm" where
  "execute env v =
     (let (scripts, is_p2sh, unknown) =
            (case sv_source env of
               TxInput _ input _ utxo_entry is_p2sh \<Rightarrow>
                 ([in_signature_script input, spk_script (ue_script_public_key utxo_entry)], is_p2sh,
                  MAX_SCRIPT_PUBLIC_KEY_VERSION < spk_version (ue_script_public_key utxo_entry))
             | StandAloneScripts scripts \<Rightarrow> (scripts, False, False));
          policy = sv_policy env
      in if unknown then Inr v
         else if sp_pq_only policy \<and> \<not> sp_allow_p2sh policy \<and> is_p2sh then Inl ScriptHashDisabledInPqMode
         else if scripts = [] then Inl NoScripts
         else if list_all (\<lambda>s. s = []) scripts then Inl EvalFalse
         else case find (\<lambda>s. MAX_SCRIPTS_SIZE < length s) scripts of
                Some s \<Rightarrow> Inl (ScriptSize (length s) MAX_SCRIPTS_SIZE)
              | None \<Rightarrow>
                  try_then (run_scripts env is_p2sh (filter (\<lambda>(_, s). s \<noteq> []) (enumerate 0 scripts)) None v) (\<lambda>(saved, v).
                    try_then (if is_p2sh then run_p2sh env saved v else Inr v) (check_error_condition True)))"

text \<open>\<open>from_transaction_input\<close> with the policy set by \<open>with_script_policy\<close>; \<open>None\<close> is its failed assertion.\<close>

definition from_transaction_input ::
  "script_crypto \<Rightarrow> script_policy \<Rightarrow> sig_cache \<Rightarrow> validated_transaction \<Rightarrow> transaction_input \<Rightarrow> usize \<Rightarrow> utxo_entry \<Rightarrow> (script_env \<times> vm) option" where
  "from_transaction_input kx policy cache tx input input_idx utxo_entry =
     (if input_idx < length (tx_inputs (vt_tx tx)) then
        Some (\<lparr>sv_crypto = kx,
               sv_source = TxInput tx input input_idx utxo_entry (is_pay_to_script_hash (spk_script (ue_script_public_key utxo_entry))),
               sv_policy = policy\<rparr>,
              \<lparr>vm_dstack = [], vm_astack = [], vm_cond_stack = [], vm_num_ops = 0,
               vm_sig_ops = new_sig_op_counter (in_sig_op_count input), vm_sig_cache = cache\<rparr>)
      else None)"

text \<open>One input of a populated transaction, as the transaction validator runs it.\<close>

definition run_input :: "script_crypto \<Rightarrow> script_policy \<Rightarrow> sig_cache \<Rightarrow> validated_transaction \<Rightarrow> usize \<Rightarrow> (tx_script_error + vm) option" where
  "run_input kx policy cache tx i =
     (case from_transaction_input kx policy cache tx (tx_inputs (vt_tx tx) ! i) i (vt_entries tx ! i) of
        None \<Rightarrow> None
      | Some (env, v) \<Rightarrow> Some (execute env v))"

definition from_standalone_script :: "script_crypto \<Rightarrow> sig_cache \<Rightarrow> bytes \<Rightarrow> script_env \<times> vm" where
  "from_standalone_script kx cache script =
     (\<lparr>sv_crypto = kx, sv_source = StandAloneScripts [script], sv_policy = LEGACY\<rparr>,
      \<lparr>vm_dstack = [], vm_astack = [], vm_cond_stack = [], vm_num_ops = 0,
       vm_sig_ops = new_sig_op_counter 255, vm_sig_cache = cache\<rparr>)"

definition get_sig_op_count :: "script_crypto \<Rightarrow> validated_transaction \<Rightarrow> usize \<Rightarrow> (tx_script_error + nat) option" where
  "get_sig_op_count kx tx input_idx =
     (if input_idx < length (tx_inputs (vt_tx tx)) then
        (if input_idx < length (vt_entries tx) then
           (case from_transaction_input kx LEGACY \<lparr>sc_size = 0, sc_map = []\<rparr> tx (tx_inputs (vt_tx tx) ! input_idx) input_idx
               (vt_entries tx ! input_idx) of
              None \<Rightarrow> None
            | Some (env, v) \<Rightarrow> Some (try_then (execute env v) (\<lambda>v. Inr (used_sig_ops (vm_sig_ops v)))))
         else Some (Inl (InvalidInputIndex (int input_idx) (length (tx_inputs (vt_tx tx))))))
      else None)"

end
