(* ===== verification/Script_Cache.thy ===== *)
theory Script_Cache
  imports Script_Engine
begin

text \<open>
  The signature cache never changes the outcome of a script. \<open>forget\<close> switches the cache of an engine off; the
  operations that never touch the cache commute with it, the signature checks do when every cached result is the
  verifier's, and a run keeps the cache that way. The whole engine then refines the engine without a cache.
\<close>

section \<open>Operations that ignore the cache\<close>

definition with_cache :: "sig_cache \<Rightarrow> vm \<Rightarrow> vm" where
  "with_cache c v = v\<lparr>vm_sig_cache := c\<rparr>"

definition map_ok :: "('a \<Rightarrow> 'b) \<Rightarrow> 'e + 'a \<Rightarrow> 'e + 'b" where
  "map_ok f r = (case r of Inl e \<Rightarrow> Inl e | Inr x \<Rightarrow> Inr (f x))"

lemma map_ok_simps [simp]: "map_ok f (Inl e) = Inl e" "map_ok f (Inr x) = Inr (f x)"
  by (simp_all add: map_ok_def)

lemma map_ok_if: "map_ok f (if b then r else s) = (if b then map_ok f r else map_ok f s)"
  by simp

lemma map_ok_then: "map_ok f (try_then r g) = try_then r (\<lambda>x. map_ok f (g x))"
  by (cases r) simp_all

lemma then_map_ok: "try_then (map_ok f r) g = try_then r (\<lambda>x. g (f x))"
  by (cases r) simp_all

lemma map_ok_prod: "map_ok f (case p of (x, y) \<Rightarrow> g x y) = (case p of (x, y) \<Rightarrow> map_ok f (g x y))"
  by (cases p) simp

lemma map_ok_option: "map_ok f (case a of None \<Rightarrow> r | Some x \<Rightarrow> g x) = (case a of None \<Rightarrow> map_ok f r | Some x \<Rightarrow> map_ok f (g x))"
  by (cases a) simp_all

lemma map_ok_source:
  "map_ok f (case s of TxInput a b c d e \<Rightarrow> g a b c d e | StandAloneScripts ss \<Rightarrow> h ss) =
   (case s of TxInput a b c d e \<Rightarrow> map_ok f (g a b c d e) | StandAloneScripts ss \<Rightarrow> map_ok f (h ss))"
  by (cases s) simp_all

lemmas map_ok_push = map_ok_if map_ok_then map_ok_prod map_ok_option map_ok_source

lemma with_cache_sel [simp]:
  "vm_dstack (with_cache c v) = vm_dstack v" "vm_astack (with_cache c v) = vm_astack v"
  "vm_cond_stack (with_cache c v) = vm_cond_stack v" "vm_num_ops (with_cache c v) = vm_num_ops v"
  "vm_sig_ops (with_cache c v) = vm_sig_ops v" "vm_sig_cache (with_cache c v) = c"
  by (simp_all add: with_cache_def)

lemma with_cache_upd [simp]:
  "(with_cache c v)\<lparr>vm_dstack := st\<rparr> = with_cache c (v\<lparr>vm_dstack := st\<rparr>)"
  "(with_cache c v)\<lparr>vm_astack := st\<rparr> = with_cache c (v\<lparr>vm_astack := st\<rparr>)"
  "(with_cache c v)\<lparr>vm_cond_stack := cs\<rparr> = with_cache c (v\<lparr>vm_cond_stack := cs\<rparr>)"
  "(with_cache c v)\<lparr>vm_num_ops := n\<rparr> = with_cache c (v\<lparr>vm_num_ops := n\<rparr>)"
  "(with_cache c v)\<lparr>vm_sig_ops := so\<rparr> = with_cache c (v\<lparr>vm_sig_ops := so\<rparr>)"
  by (simp_all add: with_cache_def)

lemma is_executing_with_cache [simp]: "is_executing (with_cache c v) = is_executing v"
  by (simp add: is_executing_def)

definition ignores_cache :: "(vm \<Rightarrow> tx_script_error + vm) \<Rightarrow> bool" where
  "ignores_cache f \<longleftrightarrow> (\<forall>v c. f (with_cache c v) = map_ok (with_cache c) (f v))"

named_theorems ignoring

lemma ignores_push_data [ignoring]: "ignores_cache (push_data b)"
  by (simp add: ignores_cache_def push_data_def)

lemma ignores_on_dstack [ignoring]: "ignores_cache (on_dstack f)"
  by (simp add: ignores_cache_def on_dstack_def map_ok_push)

lemma ignores_push_number [ignoring]: "ignores_cache (push_number n)"
  unfolding ignores_cache_def push_number_def using ignores_on_dstack by (simp add: ignores_cache_def)

lemmas ignoring_step = ignores_push_data [unfolded ignores_cache_def, rule_format]
  ignores_on_dstack [unfolded ignores_cache_def, rule_format] ignores_push_number [unfolded ignores_cache_def, rule_format]

lemma ignores_push [ignoring]: "ignores_cache (execute_push opc)"
  by (simp add: ignores_cache_def execute_push_def Let_def ignoring_step)

lemma ignores_verify [ignoring]: "ignores_cache op_verify"
  by (simp add: ignores_cache_def op_verify_def map_ok_push cong: if_cong)

lemma ignores_if [ignoring]: "ignores_cache (op_if a b)"
  by (simp add: ignores_cache_def op_if_def Let_def map_ok_push)

lemma ignores_control [ignoring]: "ignores_cache (execute_control opc)"
  using ignores_if ignores_verify by (simp add: ignores_cache_def execute_control_def Let_def)

lemma ignores_stack [ignoring]: "ignores_cache (execute_stack opc)"
  unfolding ignores_cache_def execute_stack_def Let_def map_ok_push by (simp add: ignoring_step cong: if_cong)

lemma ignores_splice [ignoring]: "ignores_cache (execute_splice opc)"
  unfolding ignores_cache_def execute_splice_def Let_def map_ok_push by (simp add: ignoring_step)

lemma ignores_numeric_op [ignoring]: "ignores_cache (numeric_op n f)"
  by (simp add: ignores_cache_def numeric_op_def map_ok_push ignoring_step)

lemma ignores_numeric [ignoring]: "ignores_cache (execute_numeric opc)"
  unfolding ignores_cache_def execute_numeric_def Let_def map_ok_push
  using ignores_numeric_op by (simp add: ignores_cache_def map_ok_push cong: if_cong)

lemma ignores_input_field [ignoring]:
  assumes "\<And>u. ignores_cache (f u)"
  shows "ignores_cache (input_field tx f)"
  using assms by (simp add: ignores_cache_def input_field_def map_ok_push cong: option.case_cong)

lemma ignores_output_field [ignoring]:
  assumes "\<And>u. ignores_cache (f u)"
  shows "ignores_cache (output_field tx f)"
  using assms by (simp add: ignores_cache_def output_field_def map_ok_push cong: option.case_cong)

lemma ignores_push_amount [ignoring]: "ignores_cache (push_amount n)"
  by (simp add: ignores_cache_def push_amount_def ignoring_step)

lemma ignores_hash [ignoring]: "ignores_cache (hash_op h)"
  by (simp add: ignores_cache_def hash_op_def map_ok_push)

lemma ignores_cases [ignoring]:
  "ignores_cache f \<Longrightarrow> ignores_cache g \<Longrightarrow> ignores_cache (\<lambda>v. if b then f v else g v)"
  "ignores_cache (\<lambda>v. Inl e)"
  "(\<And>tx i j e b. ignores_cache (F tx i j e b)) \<Longrightarrow> (\<And>ss. ignores_cache (G ss)) \<Longrightarrow>
   ignores_cache (\<lambda>v. case s of TxInput tx i j e b \<Rightarrow> F tx i j e b v | StandAloneScripts ss \<Rightarrow> G ss v)"
  by (simp_all add: ignores_cache_def split: script_source.splits)

lemma ignores_introspection [ignoring]: "ignores_cache (execute_introspection env opc)"
  unfolding execute_introspection_def Let_def by (intro ignoring)

section \<open>Sound caches\<close>

definition cache_key :: "script_crypto \<Rightarrow> bytes \<Rightarrow> bytes \<Rightarrow> bytes \<Rightarrow> sig_cache_key" where
  "cache_key kx key msg sig =
     \<lparr>sk_pub_key_digest = kx_blake2b_512 kx key, sk_signature_digest = kx_blake2b_512 kx sig, sk_message_digest = msg\<rparr>"

text \<open>Every cached result is the verifier's, for all keys and signatures with the digests of the entry.\<close>

definition cache_sound :: "script_crypto \<Rightarrow> sig_cache \<Rightarrow> bool" where
  "cache_sound kx c \<longleftrightarrow>
     (\<forall>key msg sig valid. (cache_key kx key msg sig, valid) \<in> set (sc_map c) \<longrightarrow>
        valid = kx_verify kx key msg MLDSA87_TX_CONTEXT sig)"

text \<open>Keys and signatures with equal digests verify alike; it follows when the digest has no collision.\<close>

definition digests_decide :: "script_crypto \<Rightarrow> bool" where
  "digests_decide kx \<longleftrightarrow>
     (\<forall>key key' sig sig' msg. kx_blake2b_512 kx key = kx_blake2b_512 kx key' \<longrightarrow> kx_blake2b_512 kx sig = kx_blake2b_512 kx sig' \<longrightarrow>
        kx_verify kx key msg MLDSA87_TX_CONTEXT sig = kx_verify kx key' msg MLDSA87_TX_CONTEXT sig')"

lemma set_swap_remove: "set (swap_remove_index i xs) \<subseteq> set xs"
proof (cases "xs = []")
  case False
  have "set (xs[i := last xs]) \<subseteq> insert (last xs) (set xs)"
    by (rule set_update_subset_insert)
  then show ?thesis
    using False in_set_butlastD unfolding swap_remove_index_def by fastforce
qed (simp add: swap_remove_index_def)

lemma set_index_map_insert: "set (index_map_insert k v m) \<subseteq> insert (k, v) (set m)"
  by (induction k v m rule: index_map_insert.induct) auto

lemma length_index_map_insert: "length (index_map_insert k v m) \<le> Suc (length m)"
  by (induction k v m rule: index_map_insert.induct) auto

lemma set_cache_insert: "set (sc_map (cache_insert g key valid c)) \<subseteq> insert (key, valid) (set (sc_map c))"
proof -
  have "set (sc_map (cache_insert g key valid c)) \<subseteq>
      insert (key, valid) (set (sc_map c) \<union> set (swap_remove_index (g (sc_size c)) (sc_map c)))"
    using set_index_map_insert [of key valid "sc_map c"]
      set_index_map_insert [of key valid "swap_remove_index (g (sc_size c)) (sc_map c)"]
    by (auto simp: cache_insert_def Let_def)
  then show ?thesis
    using set_swap_remove [of "g (sc_size c)" "sc_map c"] by blast
qed

lemma cache_sound_insert:
  assumes "cache_sound kx c" and "digests_decide kx"
  shows "cache_sound kx (cache_insert g (cache_key kx key msg sig) (kx_verify kx key msg MLDSA87_TX_CONTEXT sig) c)"
  unfolding cache_sound_def
proof (intro allI impI)
  fix key' msg' sig' valid
  assume "(cache_key kx key' msg' sig', valid) \<in>
    set (sc_map (cache_insert g (cache_key kx key msg sig) (kx_verify kx key msg MLDSA87_TX_CONTEXT sig) c))"
  then consider "(cache_key kx key' msg' sig', valid) \<in> set (sc_map c)"
    | "cache_key kx key' msg' sig' = cache_key kx key msg sig" "valid = kx_verify kx key msg MLDSA87_TX_CONTEXT sig"
    using set_cache_insert by blast
  then show "valid = kx_verify kx key' msg' MLDSA87_TX_CONTEXT sig'"
  proof cases
    case 1
    then show ?thesis
      using assms(1) unfolding cache_sound_def by blast
  next
    case 2
    then have "kx_blake2b_512 kx key = kx_blake2b_512 kx key'" "kx_blake2b_512 kx sig = kx_blake2b_512 kx sig'" "msg = msg'"
      by (simp_all add: cache_key_def)
    then show ?thesis
      using 2(2) assms(2) unfolding digests_decide_def by blast
  qed
qed

lemma cache_sound_get:
  "cache_sound kx c \<Longrightarrow> cache_get c (cache_key kx key msg sig) = Some valid \<Longrightarrow> valid = kx_verify kx key msg MLDSA87_TX_CONTEXT sig"
  unfolding cache_sound_def cache_get_def by (blast dest: map_of_SomeD)

text \<open>The size bound of the cache, with a random index in range.\<close>

lemma cache_insert_bounded:
  assumes "length (sc_map c) \<le> sc_size c"
  shows "length (sc_map (cache_insert g key valid c)) \<le> sc_size c"
proof -
  show ?thesis
    using assms length_index_map_insert [of key valid "sc_map c"]
      length_index_map_insert [of key valid "swap_remove_index (g (sc_size c)) (sc_map c)"] by (auto simp: cache_insert_def Let_def swap_remove_index_def)
qed

section \<open>The engine without a cache\<close>

definition no_cache :: sig_cache where
  "no_cache = \<lparr>sc_size = 0, sc_map = []\<rparr>"

lemma no_cache_simps [simp]: "cache_get no_cache k = None" "cache_insert g k v no_cache = no_cache"
  by (simp_all add: no_cache_def cache_get_def cache_insert_def)

definition forget :: "vm \<Rightarrow> vm" where
  "forget = with_cache no_cache"

text \<open>A result with the cache, and the same computation without; \<open>fb\<close> forgets the cache of the result and \<open>cb\<close> reads it.\<close>

definition agree :: "('b \<Rightarrow> 'b) \<Rightarrow> ('b \<Rightarrow> sig_cache) \<Rightarrow> script_crypto \<Rightarrow> 'e + 'b \<Rightarrow> 'e + 'b \<Rightarrow> bool" where
  "agree fb cb kx r r' \<longleftrightarrow> (case r of Inl e \<Rightarrow> r' = Inl e | Inr b \<Rightarrow> cache_sound kx (cb b) \<and> r' = Inr (fb b))"

abbreviation agree_vm :: "script_crypto \<Rightarrow> 'e + vm \<Rightarrow> 'e + vm \<Rightarrow> bool" where
  "agree_vm \<equiv> agree forget vm_sig_cache"

abbreviation agree_pair :: "script_crypto \<Rightarrow> 'e + 'a \<times> vm \<Rightarrow> 'e + 'a \<times> vm \<Rightarrow> bool" where
  "agree_pair \<equiv> agree (\<lambda>(x, v). (x, forget v)) (\<lambda>(x, v). vm_sig_cache v)"

lemma agree_Inl [simp]: "agree fb cb kx (Inl e) r' \<longleftrightarrow> r' = Inl e"
  and agree_Inr [simp]: "agree fb cb kx (Inr b) r' \<longleftrightarrow> cache_sound kx (cb b) \<and> r' = Inr (fb b)"
  by (simp_all add: agree_def)

lemma agree_then:
  assumes "agree fb cb kx r r'" and "\<And>b. r = Inr b \<Longrightarrow> cache_sound kx (cb b) \<Longrightarrow> agree fc cc kx (h b) (h' (fb b))"
  shows "agree fc cc kx (try_then r h) (try_then r' h')"
  using assms by (cases r) auto

lemma agree_pure:
  assumes "\<And>x. r = Inr x \<Longrightarrow> agree fc cc kx (h x) (h' x)"
  shows "agree fc cc kx (try_then r h) (try_then r h')"
  using assms by (cases r) auto

lemma agree_ignores:
  assumes "ignores_cache f" and "cache_sound kx (vm_sig_cache v)"
  shows "agree_vm kx (f v) (f (forget v))"
proof -
  have "with_cache (vm_sig_cache v) v = v"
    by (simp add: with_cache_def)
  then have own: "f v = map_ok (with_cache (vm_sig_cache v)) (f v)"
    using assms(1) unfolding ignores_cache_def by metis
  show ?thesis
  proof (cases "f v")
    case (Inl e)
    then show ?thesis
      using assms(1) by (simp add: ignores_cache_def forget_def)
  next
    case (Inr w)
    then have "with_cache (vm_sig_cache v) w = w"
      using own by simp
    then have "vm_sig_cache w = vm_sig_cache v"
      by (metis with_cache_sel(6))
    then show ?thesis
      using Inr assms by (simp add: ignores_cache_def forget_def)
  qed
qed

lemma forget_sel [simp]:
  "vm_dstack (forget v) = vm_dstack v" "vm_astack (forget v) = vm_astack v" "vm_cond_stack (forget v) = vm_cond_stack v"
  "vm_num_ops (forget v) = vm_num_ops v" "vm_sig_ops (forget v) = vm_sig_ops v" "vm_sig_cache (forget v) = no_cache"
  "is_executing (forget v) = is_executing v"
  by (simp_all add: forget_def)

lemma forget_upd [simp]:
  "(forget v)\<lparr>vm_dstack := st\<rparr> = forget (v\<lparr>vm_dstack := st\<rparr>)" "(forget v)\<lparr>vm_astack := st\<rparr> = forget (v\<lparr>vm_astack := st\<rparr>)"
  "(forget v)\<lparr>vm_cond_stack := cs\<rparr> = forget (v\<lparr>vm_cond_stack := cs\<rparr>)" "(forget v)\<lparr>vm_num_ops := n\<rparr> = forget (v\<lparr>vm_num_ops := n\<rparr>)"
  "(forget v)\<lparr>vm_sig_ops := so\<rparr> = forget (v\<lparr>vm_sig_ops := so\<rparr>)" "forget (v\<lparr>vm_sig_cache := c\<rparr>) = forget v"
  "(forget v)\<lparr>vm_sig_cache := no_cache\<rparr> = forget v"
  by (simp_all add: forget_def with_cache_def)

section \<open>Signature checks agree\<close>

lemma agree_check_mldsa87:
  assumes "digests_decide (sv_crypto env)" and "cache_sound (sv_crypto env) (vm_sig_cache v)"
  shows "agree_pair (sv_crypto env) (check_mldsa87_signature env t key sig v) (check_mldsa87_signature env t key sig (forget v))"
proof (cases "sv_source env")
  case (TxInput tx i idx e p)
  let ?kx = "sv_crypto env"
  let ?msg = "as_bytes (calc_mldsa87_signature_hash (kx_signing_hash ?kx) (vt_tx tx) (vt_entries tx) idx t)"
  let ?cached = "\<lambda>w. (case cache_get (vm_sig_cache w) (cache_key ?kx key ?msg sig) of
      None \<Rightarrow> Inr (kx_verify ?kx key ?msg MLDSA87_TX_CONTEXT sig,
        w\<lparr>vm_sig_cache := cache_insert (kx_gen_range ?kx) (cache_key ?kx key ?msg sig)
            (kx_verify ?kx key ?msg MLDSA87_TX_CONTEXT sig) (vm_sig_cache w)\<rparr>)
    | Some valid \<Rightarrow> Inr (valid, w)) :: tx_script_error + bool \<times> vm"
  have "agree_pair ?kx (?cached w) (Inr (kx_verify ?kx key ?msg MLDSA87_TX_CONTEXT sig, forget w))"
    if "vm_sig_cache w = vm_sig_cache v" for w
    using that assms cache_sound_insert [OF assms(2,1)] cache_sound_get [OF assms(2)]
    by (cases "cache_get (vm_sig_cache v) (cache_key ?kx key ?msg sig)") simp_all
  note cached = this
  show ?thesis
    unfolding check_mldsa87_signature_def forget_sel Let_def TxInput script_source.case cache_key_def [symmetric]
  proof (rule agree_pure)
    fix c
    show "agree_pair ?kx
       (if length key \<noteq> MLDSA87_PK_LEN then Inl PubKeyFormat
        else if length sig \<noteq> MLDSA87_SIG_LEN then Inl (SigLength (length sig))
        else ?cached (v\<lparr>vm_sig_ops := c\<rparr>))
       (if length key \<noteq> MLDSA87_PK_LEN then Inl PubKeyFormat
        else if length sig \<noteq> MLDSA87_SIG_LEN then Inl (SigLength (length sig))
        else ?cached ((forget v)\<lparr>vm_sig_ops := c\<rparr>))"
      using cached [of "v\<lparr>vm_sig_ops := c\<rparr>"] by simp
  qed
next
  case (StandAloneScripts ss)
  then show ?thesis
    unfolding check_mldsa87_signature_def by (auto intro: agree_pure)
qed

lemma agree_check_signature:
  assumes "digests_decide (sv_crypto env)" and "cache_sound (sv_crypto env) (vm_sig_cache v)"
  shows "agree_pair (sv_crypto env) (check_signature env scheme t key sig v) (check_signature env scheme t key sig (forget v))"
proof -
  have "agree_pair (sv_crypto env) (check_legacy_signature v) (check_legacy_signature (forget v))"
    unfolding check_legacy_signature_def forget_sel by (rule agree_pure) (simp add: assms(2))
  then show ?thesis
    using agree_check_mldsa87 [OF assms] by (cases scheme) (simp_all add: check_signature_def)
qed

lemma agree_match_key:
  assumes "digests_decide (sv_crypto env)"
  shows "cache_sound (sv_crypto env) (vm_sig_cache v) \<Longrightarrow>
    agree_pair (sv_crypto env) (match_key env scheme t sig needed keys v) (match_key env scheme t sig needed keys (forget v))"
proof (induction keys arbitrary: v)
  case (Cons key keys)
  show ?case
  proof (cases "length (key # keys) < needed")
    case False
    then have step: "match_key env scheme t sig needed (key # keys) w =
        try_then (check_signature env scheme t key sig w) (\<lambda>(valid, w).
          if valid then Inr (Some keys, w) else match_key env scheme t sig needed keys w)" for w
      by simp
    show ?thesis
      unfolding step using agree_check_signature [OF assms Cons.prems]
      by (rule agree_then) (auto intro: Cons.IH)
  qed (simp add: Cons.prems)
qed simp

lemma agree_match_signatures:
  assumes "digests_decide (sv_crypto env)"
  shows "cache_sound (sv_crypto env) (vm_sig_cache v) \<Longrightarrow>
    agree_pair (sv_crypto env) (match_signatures env scheme sigs keys v) (match_signatures env scheme sigs keys (forget v))"
proof (induction sigs arbitrary: keys v)
  case (Cons sig sigs)
  show ?case
  proof (cases "sig = [] \<or> sig_hash_type_from_u8 (last sig) = None")
    case False
    then obtain t where t: "sig \<noteq> []" "sig_hash_type_from_u8 (last sig) = Some t"
      by auto
    have step: "match_signatures env scheme (sig # sigs) keys w =
        try_then (match_key env scheme t (butlast sig) (length (sig # sigs)) keys w) (\<lambda>(left, w).
          case left of None \<Rightarrow> Inr (True, w) | Some keys \<Rightarrow> match_signatures env scheme sigs keys w)" for w
      using t by simp
    show ?thesis
      unfolding step using agree_match_key [OF assms Cons.prems]
      by (rule agree_then) (auto intro: Cons.IH split: option.splits)
  qed (use Cons.prems in \<open>auto split: option.splits\<close>)
qed simp

lemma agree_check_sig:
  assumes "digests_decide (sv_crypto env)" and "cache_sound (sv_crypto env) (vm_sig_cache v)"
  shows "agree_vm (sv_crypto env) (op_check_sig env scheme v) (op_check_sig env scheme (forget v))"
proof -
  have check: "agree_vm (sv_crypto env)
      (try_then (check_signature env scheme t key sig w) (\<lambda>(valid, v). Inr (v\<lparr>vm_dstack := push_bool valid (vm_dstack v)\<rparr>)))
      (try_then (check_signature env scheme t key sig (forget w)) (\<lambda>(valid, v). Inr (v\<lparr>vm_dstack := push_bool valid (vm_dstack v)\<rparr>)))"
    if "vm_sig_cache w = vm_sig_cache v" for t key sig w
    using agree_check_signature [OF assms(1), of w] that assms(2) by (intro agree_then) auto
  show ?thesis
    unfolding op_check_sig_def forget_sel
    by (rule agree_pure) (auto simp: Let_def check assms(2) split: option.splits)
qed

lemma agree_check_multisig:
  assumes "digests_decide (sv_crypto env)" and "cache_sound (sv_crypto env) (vm_sig_cache v)"
  shows "agree_vm (sv_crypto env) (op_check_multisig env scheme v) (op_check_multisig env scheme (forget v))"
proof -
  have body: "agree_vm (sv_crypto env)
      (try_then (match_signatures env scheme sigs keys w) (\<lambda>(failed, v).
         if failed \<and> P then Inl NullFail else Inr (v\<lparr>vm_dstack := push_bool (\<not> failed) (vm_dstack v)\<rparr>)))
      (try_then (match_signatures env scheme sigs keys (forget w)) (\<lambda>(failed, v).
         if failed \<and> P then Inl NullFail else Inr (v\<lparr>vm_dstack := push_bool (\<not> failed) (vm_dstack v)\<rparr>)))"
    if "vm_sig_cache w = vm_sig_cache v" for sigs keys P w
    using agree_match_signatures [OF assms(1), of w] that assms(2) by (intro agree_then) auto
  show ?thesis
    unfolding op_check_multisig_def Let_def forget_sel
    by (rule agree_pure) (auto intro!: agree_pure simp: body)
qed

section \<open>The engine agrees\<close>

lemma ignores_lock_ops [ignoring]: "ignores_cache (check_lock_time_verify env)" "ignores_cache (check_sequence_verify env)"
  by (cases "sv_source env";
      simp add: ignores_cache_def check_lock_time_verify_def check_sequence_verify_def Let_def map_ok_push cong: if_cong)+

lemma agree_crypto:
  assumes "digests_decide (sv_crypto env)" and sound: "cache_sound (sv_crypto env) (vm_sig_cache v)"
  shows "agree_vm (sv_crypto env) (execute_crypto env opc v) (execute_crypto env opc (forget v))"
proof -
  have verify: "agree_vm (sv_crypto env) (try_then r op_verify) (try_then r' op_verify)" if "agree_vm (sv_crypto env) r r'" for r r'
    using that by (rule agree_then) (rule agree_ignores [OF ignores_verify])
  note sig = agree_check_sig [OF assms] and multi = agree_check_multisig [OF assms]
    and plain = agree_ignores [OF ignores_hash sound] agree_ignores [OF ignores_lock_ops(1) sound] agree_ignores [OF ignores_lock_ops(2) sound]
  show ?thesis
    unfolding execute_crypto_def Let_def by (simp add: sig multi plain verify)
qed

lemma agree_code:
  assumes "digests_decide (sv_crypto env)" and "cache_sound (sv_crypto env) (vm_sig_cache v)"
  shows "agree_vm (sv_crypto env) (execute_code env opc v) (execute_code env opc (forget v))"
  unfolding execute_code_def Let_def
  by (simp add: agree_crypto [OF assms] agree_ignores [OF ignores_push assms(2)] agree_ignores [OF ignores_control assms(2)]
      agree_ignores [OF ignores_stack assms(2)] agree_ignores [OF ignores_splice assms(2)]
      agree_ignores [OF ignores_numeric assms(2)] agree_ignores [OF ignores_introspection assms(2)])

lemma agree_opcode:
  assumes "digests_decide (sv_crypto env)" and "cache_sound (sv_crypto env) (vm_sig_cache v)"
  shows "agree_vm (sv_crypto env) (execute_opcode env opc v) (execute_opcode env opc (forget v))"
proof -
  have "agree_vm (sv_crypto env) (execute_code env opc (v\<lparr>vm_num_ops := n\<rparr>)) (execute_code env opc (forget (v\<lparr>vm_num_ops := n\<rparr>)))" for n
    using agree_code [OF assms(1), of "v\<lparr>vm_num_ops := n\<rparr>"] assms(2) by simp
  note code = this
  have "agree_vm (sv_crypto env)
      (if P then Inl e else if Q then Inl e' else if is_executing (v\<lparr>vm_num_ops := n\<rparr>) \<or> C
       then try_then m (\<lambda>_. execute_code env opc (v\<lparr>vm_num_ops := n\<rparr>)) else Inr (v\<lparr>vm_num_ops := n\<rparr>))
      (if P then Inl e else if Q then Inl e' else if is_executing ((forget v)\<lparr>vm_num_ops := n\<rparr>) \<or> C
       then try_then m (\<lambda>_. execute_code env opc ((forget v)\<lparr>vm_num_ops := n\<rparr>)) else Inr ((forget v)\<lparr>vm_num_ops := n\<rparr>))"
    for P Q C e e' n and m :: "tx_script_error + unit"
    using assms(2) code by (simp add: agree_pure)
  then show ?thesis
    unfolding execute_opcode_def Let_def forget_sel .
qed

lemma agree_run_opcode:
  assumes "digests_decide (sv_crypto env)" and "cache_sound (sv_crypto env) (vm_sig_cache v)"
  shows "agree_vm (sv_crypto env) (run_opcode env push opc v) (run_opcode env push opc (forget v))"
  using agree_opcode [OF assms] unfolding run_opcode_def Let_def by (auto intro!: agree_then [OF agree_opcode [OF assms]])

lemma agree_run_opcodes:
  assumes "digests_decide (sv_crypto env)"
  shows "cache_sound (sv_crypto env) (vm_sig_cache v) \<Longrightarrow>
    agree_vm (sv_crypto env) (run_opcodes env push rs v) (run_opcodes env push rs (forget v))"
proof (induction rs arbitrary: v)
  case (Cons r rs)
  show ?case
    unfolding run_opcodes.simps
    by (rule agree_pure, rule agree_then [OF agree_run_opcode [OF assms Cons.prems]]) (rule Cons.IH)
qed simp

lemma agree_script:
  assumes "digests_decide (sv_crypto env)" and "cache_sound (sv_crypto env) (vm_sig_cache v)"
  shows "agree_vm (sv_crypto env) (execute_script env script push v) (execute_script env script push (forget v))"
  unfolding execute_script_def by (rule agree_then [OF agree_run_opcodes [OF assms]]) simp

lemma agree_run_scripts:
  assumes "digests_decide (sv_crypto env)"
  shows "cache_sound (sv_crypto env) (vm_sig_cache v) \<Longrightarrow>
    agree_pair (sv_crypto env) (run_scripts env p2sh scripts saved v) (run_scripts env p2sh scripts saved (forget v))"
proof (induction scripts arbitrary: saved v)
  case (Cons s scripts)
  show ?case
    by (cases s, simp only: run_scripts.simps Let_def forget_sel, rule agree_then [OF agree_script [OF assms Cons.prems]]) (rule Cons.IH)
qed simp

lemma ignores_error_condition [ignoring]: "ignores_cache (check_error_condition final)"
  by (simp add: ignores_cache_def check_error_condition_def map_ok_push cong: if_cong)

lemma agree_p2sh:
  assumes "digests_decide (sv_crypto env)" and "cache_sound (sv_crypto env) (vm_sig_cache v)"
  shows "agree_vm (sv_crypto env) (run_p2sh env saved v) (run_p2sh env saved (forget v))"
  unfolding run_p2sh_def
proof (rule agree_then [OF agree_ignores [OF ignores_error_condition assms(2)]])
  fix w :: vm
  assume w: "cache_sound (sv_crypto env) (vm_sig_cache w)"
  show "agree_vm (sv_crypto env)
      (case saved of None \<Rightarrow> Inl EmptyStack | Some st \<Rightarrow> if st = [] then Inl EmptyStack
         else execute_script env (last st) False (w\<lparr>vm_dstack := butlast st\<rparr>))
      (case saved of None \<Rightarrow> Inl EmptyStack | Some st \<Rightarrow> if st = [] then Inl EmptyStack
         else execute_script env (last st) False ((forget w)\<lparr>vm_dstack := butlast st\<rparr>))"
    using agree_script [OF assms(1), of "w\<lparr>vm_dstack := _\<rparr>"] w by (cases saved) simp_all
qed

lemma agree_execute:
  assumes "digests_decide (sv_crypto env)" and "cache_sound (sv_crypto env) (vm_sig_cache v)"
  shows "agree_vm (sv_crypto env) (execute env v) (execute env (forget v))"
proof -
  let ?run = "\<lambda>p2sh scripts v. try_then (run_scripts env p2sh scripts None v) (\<lambda>(saved, v).
      try_then (if p2sh then run_p2sh env saved v else Inr v) (check_error_condition True))"
  have run: "agree_vm (sv_crypto env) (?run p2sh scripts v) (?run p2sh scripts (forget v))" for p2sh scripts
  proof (rule agree_then [OF agree_run_scripts [OF assms]], unfold case_prod_beta, rule agree_then)
    fix b :: "script_stack option \<times> vm"
    assume b: "cache_sound (sv_crypto env) (vm_sig_cache (snd b))"
    show "agree_vm (sv_crypto env) (if p2sh then run_p2sh env (fst b) (snd b) else Inr (snd b))
        (if p2sh then run_p2sh env (fst (fst b, forget (snd b))) (snd (fst b, forget (snd b))) else Inr (snd (fst b, forget (snd b))))"
      using agree_p2sh [OF assms(1) b] b by simp
  qed (rule agree_ignores [OF ignores_error_condition])
  show ?thesis
  proof (cases "sv_source env")
    case (TxInput tx i idx e p)
    then show ?thesis
      using assms(2) run [of p] unfolding execute_def Let_def by (simp only: script_source.case prod.case) (auto split: option.splits)
  next
    case (StandAloneScripts ss)
    then show ?thesis
      using assms(2) run [of False] unfolding execute_def Let_def by (simp only: script_source.case prod.case) (auto split: option.splits)
  qed
qed

end
