(* ===== verification/Script_Spend.thy ===== *)
theory Script_Spend
  imports Script_Cache
begin

text \<open>
  What it takes to spend an output. The run of a push-only signature script and of the two post-quantum templates
  (\<open>script_class.rs\<close>) is computed opcode by opcode; the engine accepts such a spend exactly when the signature
  script is the push of one ML-DSA-87 signature and the push of its public key.
\<close>

unbundle bit_operations_syntax

section \<open>Push-only scripts\<close>

text \<open>The element a push opcode puts on the stack, and when the engine lets it.\<close>

definition pushed :: "opcode \<Rightarrow> bytes" where
  "pushed opc =
     (let c = oc_value opc
      in if c = OpFalse then [] else if c \<le> OpPushData4 then oc_data opc
         else if c = Op1Negate then serialize_i64 (-1) else serialize_i64 (int (unat c) - 0x50))"

definition pushable :: "opcode \<Rightarrow> bool" where
  "pushable opc \<longleftrightarrow> is_push_opcode opc \<and> oc_value opc \<noteq> 0x50 \<and> length (oc_data opc) \<le> MAX_SCRIPT_ELEMENT_SIZE \<and>
     (0 < oc_value opc \<and> oc_value opc \<le> 0x4e \<longrightarrow> check_minimal_data_push opc = Inr ())"

definition total_size :: "vm \<Rightarrow> nat" where
  "total_size v = length (vm_astack v) + length (vm_dstack v)"

lemma push_small: "\<bar>n\<bar> < 2 ^ 63 \<Longrightarrow> push_number n v = Inr (v\<lparr>vm_dstack := vm_dstack v @ [serialize_i64 n]\<rparr>)"
  using length_serialize_i64_le [of n] by (simp add: push_number_def on_dstack_def push_int_def serialize_sized_def Let_def)

lemma execute_push_eq:
  assumes "is_push_opcode opc"
  shows "execute_push opc v =
    (if oc_value opc = 0x50 then Inl (OpcodeReserved 0x50) else Inr (v\<lparr>vm_dstack := vm_dstack v @ [pushed opc]\<rparr>))"
proof -
  have "\<bar>int n - 0x50\<bar> < 2 ^ 63" if "n < 256" for n :: nat
    using that by simp
  from this [OF unat_byte_lt [of "oc_value opc"]] have "\<bar>int (unat (oc_value opc)) - 0x50\<bar> < 2 ^ 63" .
  from push_small [OF this] push_small [of "-1"] show ?thesis
    by (simp add: execute_push_def pushed_def push_data_def Let_def code_defs)
qed

lemma push_not_special:
  assumes "is_push_opcode opc"
  shows "\<not> is_disabled opc" "\<not> always_illegal opc" "\<not> is_legacy_signature_opcode (oc_value opc)" "\<not> is_conditional opc"
proof -
  have "unat (oc_value opc) \<le> 0x60"
    using assms by (simp add: is_push_opcode_def NO_COST_OPCODE_def word_le_nat_alt)
  then show "\<not> is_disabled opc" "\<not> always_illegal opc" "\<not> is_legacy_signature_opcode (oc_value opc)" "\<not> is_conditional opc"
    by (auto simp: is_disabled_def always_illegal_def is_legacy_signature_opcode_def is_conditional_def code_defs word_le_nat_alt)
qed

lemma run_opcode_push:
  assumes "vm_cond_stack v = []"
  shows "run_opcode env True opc v = Inr w \<longleftrightarrow>
    pushable opc \<and> total_size v < MAX_STACK_SIZE \<and> w = v\<lparr>vm_dstack := vm_dstack v @ [pushed opc]\<rparr>"
proof (cases "is_push_opcode opc")
  case True
  have "execute_code env opc v = execute_push opc v"
    using True by (simp add: execute_code_def is_push_opcode_def NO_COST_OPCODE_def Op16_def)
  then have "execute_opcode env opc v =
      (if length (oc_data opc) \<le> MAX_SCRIPT_ELEMENT_SIZE then
         try_then (if 0 < oc_value opc \<and> oc_value opc \<le> 0x4e then check_minimal_data_push opc else Inr ()) (\<lambda>_. execute_push opc v)
       else Inl (ElementTooBig (length (oc_data opc)) MAX_SCRIPT_ELEMENT_SIZE))"
    using True assms by (simp add: execute_opcode_def is_executing_def)
  then show ?thesis
    using push_not_special [OF True] True
    by (auto simp: run_opcode_def pushable_def execute_push_eq total_size_def Let_def try_then_ok split: if_splits)
next
  case False
  then show ?thesis
    by (simp add: run_opcode_def pushable_def)
qed

lemma run_opcodes_push:
  "vm_cond_stack v = [] \<Longrightarrow> run_opcodes env True rs v = Inr w \<longleftrightarrow>
     (\<exists>ops. rs = map Inr ops \<and> list_all pushable ops \<and> (ops \<noteq> [] \<longrightarrow> total_size v + length ops \<le> MAX_STACK_SIZE) \<and>
        w = v\<lparr>vm_dstack := vm_dstack v @ map pushed ops\<rparr>)"
proof (induction rs arbitrary: v)
  case (Cons r rs)
  show ?case
  proof (cases r)
    case (Inr opc)
    let ?v = "v\<lparr>vm_dstack := vm_dstack v @ [pushed opc]\<rparr>"
    have "run_opcodes env True (r # rs) v = Inr w \<longleftrightarrow>
        pushable opc \<and> total_size v < MAX_STACK_SIZE \<and> run_opcodes env True rs ?v = Inr w"
      using run_opcode_push [OF Cons.prems, of env opc] by (simp add: Inr try_then_ok)
    also have "\<dots> \<longleftrightarrow> (\<exists>ops. pushable opc \<and> rs = map Inr ops \<and> list_all pushable ops \<and>
        total_size v + length (opc # ops) \<le> MAX_STACK_SIZE \<and> w = v\<lparr>vm_dstack := vm_dstack v @ map pushed (opc # ops)\<rparr>)"
      using Cons.IH [of ?v] Cons.prems by (auto simp: total_size_def)
    also have "\<dots> \<longleftrightarrow> (\<exists>ops. r # rs = map Inr ops \<and> list_all pushable ops \<and>
        (ops \<noteq> [] \<longrightarrow> total_size v + length ops \<le> MAX_STACK_SIZE) \<and> w = v\<lparr>vm_dstack := vm_dstack v @ map pushed ops\<rparr>)"
      by (auto simp: Inr Cons_eq_map_conv)
    finally show ?thesis .
  qed (simp add: Cons_eq_map_conv)
qed auto

section \<open>The templates\<close>

definition plain_op :: "u8 \<Rightarrow> opcode" where
  "plain_op c = \<lparr>oc_value = c, oc_data = []\<rparr>"

definition p2pkh_ops :: "bytes \<Rightarrow> opcode list" where
  "p2pkh_ops payload =
     [plain_op OpDup, plain_op OpBlake2b512, \<lparr>oc_value = OpData64, oc_data = payload\<rparr>, plain_op OpEqualVerify,
      plain_op OpCheckSigMlDsa87]"

definition deposit_prefix_ops :: "bytes \<Rightarrow> opcode list" where
  "deposit_prefix_ops data = [plain_op OpNop, \<lparr>oc_value = OpData36, oc_data = data\<rparr>, plain_op OpDrop]"

lemma parse_p2pkh:
  assumes "length payload = 64"
  shows "parse_script ([OpDup, OpBlake2b512, OpData64] @ payload @ [OpEqualVerify, OpCheckSigMlDsa87]) = map Inr (p2pkh_ops payload)"
proof -
  have "list_all wf_opcode (p2pkh_ops payload)"
    using assms by (simp add: p2pkh_ops_def plain_op_def wf_opcode_def opcode_length_def code_defs)
  from parse_serialized [OF this] show ?thesis
    by (simp add: p2pkh_ops_def plain_op_def serialize_opcode_def code_defs)
qed

lemma parse_deposit_lock:
  assumes "length payload = 64" and "length data = 36"
  shows "parse_script ([OpNop, OpData36] @ data @ [OpDrop] @ [OpDup, OpBlake2b512, OpData64] @ payload @ [OpEqualVerify, OpCheckSigMlDsa87]) =
    map Inr (deposit_prefix_ops data @ p2pkh_ops payload)"
proof -
  have "list_all wf_opcode (deposit_prefix_ops data @ p2pkh_ops payload)"
    using assms by (simp add: deposit_prefix_ops_def p2pkh_ops_def plain_op_def wf_opcode_def opcode_length_def code_defs)
  from parse_serialized [OF this] show ?thesis
    by (simp add: deposit_prefix_ops_def p2pkh_ops_def plain_op_def serialize_opcode_def code_defs)
qed

lemma try_then_check: "try_then r (\<lambda>x. if P x then Inl (f x) else Inr x) = Inr w \<longleftrightarrow> r = Inr w \<and> \<not> P w"
  by (cases r) auto

text \<open>One opcode outside a conditional, with room for another operation.\<close>

definition ready :: "vm \<Rightarrow> bool" where
  "ready v \<longleftrightarrow> vm_cond_stack v = [] \<and> vm_num_ops v < MAX_OPS_PER_SCRIPT"

lemma run_plain_op:
  assumes "ready v" and "\<not> is_push_opcode opc" and "\<not> is_disabled opc" and "\<not> always_illegal opc"
    and "\<not> is_legacy_signature_opcode (oc_value opc)"
  shows "run_opcode env False opc v = Inr w \<longleftrightarrow>
    execute_code env opc (v\<lparr>vm_num_ops := Suc (vm_num_ops v)\<rparr>) = Inr w \<and> total_size w \<le> MAX_STACK_SIZE"
proof -
  have "\<not> (0 < oc_value opc \<and> oc_value opc \<le> 0x4e)"
    using assms(2) by (auto simp: is_push_opcode_def NO_COST_OPCODE_def word_le_nat_alt)
  then show ?thesis
    using assms
    by (auto simp: ready_def run_opcode_def execute_opcode_def is_executing_def total_size_def Let_def try_then_check)
qed

lemma plain_op_sel [simp]: "oc_value (plain_op c) = c" "oc_data (plain_op c) = []"
  by (simp_all add: plain_op_def)

lemmas opcode_kind = is_push_opcode_def is_disabled_def always_illegal_def is_legacy_signature_opcode_def NO_COST_OPCODE_def code_defs

lemma run_dup:
  assumes "ready v"
  shows "run_opcode env False (plain_op OpDup) v = Inr w \<longleftrightarrow> vm_dstack v \<noteq> [] \<and> total_size v < MAX_STACK_SIZE \<and>
    w = v\<lparr>vm_num_ops := Suc (vm_num_ops v), vm_dstack := vm_dstack v @ [last (vm_dstack v)]\<rparr>"
proof -
  have "drop (length st - Suc 0) st = [last st]" if "st \<noteq> []" for st :: script_stack
    using that by (metis One_nat_def append_butlast_last_id append_eq_conv_conj length_butlast)
  then show ?thesis
    using run_plain_op [OF assms, of "plain_op OpDup"]
    by (auto simp: opcode_kind execute_code_def execute_stack_def on_dstack_def dup_items_def total_size_def Suc_le_eq)
qed

lemma run_hash:
  assumes "ready v"
  shows "run_opcode env False (plain_op OpBlake2b512) v = Inr w \<longleftrightarrow> vm_dstack v \<noteq> [] \<and> total_size v \<le> MAX_STACK_SIZE \<and>
    w = v\<lparr>vm_num_ops := Suc (vm_num_ops v),
          vm_dstack := butlast (vm_dstack v) @ [as_bytes (kx_address_payload (sv_crypto env) (last (vm_dstack v)))]\<rparr>"
proof -
  have "drop (length st - Suc 0) st = [last st]" if "st \<noteq> []" for st :: script_stack
    using that by (metis One_nat_def append_butlast_last_id append_eq_conv_conj length_butlast)
  then show ?thesis
    using run_plain_op [OF assms, of "plain_op OpBlake2b512"]
    by (auto simp: opcode_kind execute_code_def execute_introspection_def hash_op_def pop_raw_def total_size_def Suc_le_eq butlast_conv_take)
qed

lemma run_data:
  assumes "ready v" and "1 < length data" "length data \<le> 75" and "c = word_of_nat (length data)"
  shows "run_opcode env False \<lparr>oc_value = c, oc_data = data\<rparr> v = Inr w \<longleftrightarrow> total_size v < MAX_STACK_SIZE \<and>
    w = v\<lparr>vm_dstack := vm_dstack v @ [data]\<rparr>"
proof -
  have c: "unat c = length data"
    using assms(3,4) by (simp add: unat_of_nat)
  then have push: "is_push_opcode \<lparr>oc_value = c, oc_data = data\<rparr>" and le: "c \<le> 0x4e" "c \<le> 0x60" "0 < c" "c \<noteq> 0x50" "c \<noteq> 0"
    using assms(2,3) by (auto simp: is_push_opcode_def NO_COST_OPCODE_def word_le_nat_alt word_less_nat_alt)
  have "check_minimal_data_push \<lparr>oc_value = c, oc_data = data\<rparr> = Inr ()"
    using assms(2,3) c by (auto simp: check_minimal_data_push_def code_defs Let_def)
  then show ?thesis
    using push_not_special [OF push] push le assms(1,3)
    by (auto simp: ready_def run_opcode_def execute_opcode_def is_executing_def execute_code_def execute_push_eq [OF push] pushed_def
        total_size_def Let_def MAX_SCRIPT_ELEMENT_SIZE_def code_defs)
qed

lemma run_equal_verify:
  assumes "ready v" and st: "vm_dstack v = st @ [a, b]"
  shows "run_opcode env False (plain_op OpEqualVerify) v = Inr w \<longleftrightarrow> a = b \<and> length (vm_astack v) + length st \<le> MAX_STACK_SIZE \<and>
    w = v\<lparr>vm_num_ops := Suc (vm_num_ops v), vm_dstack := st\<rparr>"
  using run_plain_op [OF assms(1), of "plain_op OpEqualVerify"]
  by (auto simp: st opcode_kind execute_code_def execute_splice_def total_size_def nth_append)

lemma run_check_sig:
  assumes "ready v"
  shows "run_opcode env False (plain_op OpCheckSigMlDsa87) v = Inr w \<longleftrightarrow>
    op_check_sig env MlDsa87 (v\<lparr>vm_num_ops := Suc (vm_num_ops v)\<rparr>) = Inr w \<and> total_size w \<le> MAX_STACK_SIZE"
  using run_plain_op [OF assms, of "plain_op OpCheckSigMlDsa87"]
  by (simp add: opcode_kind execute_code_def execute_crypto_def)

lemma run_nop:
  assumes "ready v"
  shows "run_opcode env False (plain_op OpNop) v = Inr w \<longleftrightarrow> total_size v \<le> MAX_STACK_SIZE \<and> w = v\<lparr>vm_num_ops := Suc (vm_num_ops v)\<rparr>"
  using run_plain_op [OF assms, of "plain_op OpNop"]
  by (auto simp: opcode_kind execute_code_def execute_control_def total_size_def)

lemma run_drop:
  assumes "ready v"
  shows "run_opcode env False (plain_op OpDrop) v = Inr w \<longleftrightarrow> vm_dstack v \<noteq> [] \<and>
    length (vm_astack v) + (length (vm_dstack v) - 1) \<le> MAX_STACK_SIZE \<and>
    w = v\<lparr>vm_num_ops := Suc (vm_num_ops v), vm_dstack := butlast (vm_dstack v)\<rparr>"
  using run_plain_op [OF assms, of "plain_op OpDrop"]
  by (auto simp: opcode_kind execute_code_def execute_stack_def on_dstack_def drop_items_def total_size_def Suc_le_eq butlast_conv_take)

lemma run_opcodes_step:
  "run_opcodes env push (Inr opc # rs) v = Inr w \<longleftrightarrow> (\<exists>x. run_opcode env push opc v = Inr x \<and> run_opcodes env push rs x = Inr w)"
  by (simp add: try_then_ok)

lemma run_p2pkh:
  assumes "vm_cond_stack v = []" and "vm_num_ops v \<le> 100" and "length payload = 64"
  shows "run_opcodes env False (map Inr (p2pkh_ops payload)) v = Inr w \<longleftrightarrow>
    vm_dstack v \<noteq> [] \<and> total_size v + 2 \<le> MAX_STACK_SIZE \<and>
    as_bytes (kx_address_payload (sv_crypto env) (last (vm_dstack v))) = payload \<and>
    op_check_sig env MlDsa87 (v\<lparr>vm_num_ops := vm_num_ops v + 4\<rparr>) = Inr w \<and> total_size w \<le> MAX_STACK_SIZE"
    (is "?run \<longleftrightarrow> ?ok")
proof -
  let ?st = "vm_dstack v" and ?h = "as_bytes (kx_address_payload (sv_crypto env) (last (vm_dstack v)))"
  let ?v = "\<lambda>n st. v\<lparr>vm_num_ops := vm_num_ops v + n, vm_dstack := st\<rparr>"
  have r: "ready (?v n st)" "ready v" if "n \<le> 4" for n st
    using assms(1,2) that by (simp_all add: ready_def MAX_OPS_PER_SCRIPT_def)
  have data: "OpData64 = word_of_nat (length payload)"
    by (simp add: assms(3) code_defs)
  have 5: "run_opcodes env False [Inr (plain_op OpCheckSigMlDsa87)] (?v 3 ?st) = Inr w \<longleftrightarrow>
      op_check_sig env MlDsa87 (v\<lparr>vm_num_ops := vm_num_ops v + 4\<rparr>) = Inr w \<and> total_size w \<le> MAX_STACK_SIZE"
    using run_check_sig [OF r(1) [of 3 ?st], of env w]
    by (simp add: run_opcodes_step add.commute del: run_opcodes.simps(2))
  have 4: "run_opcodes env False (map Inr (drop 3 (p2pkh_ops payload))) (?v 2 (?st @ [?h, payload])) = Inr w \<longleftrightarrow>
      ?h = payload \<and> total_size v \<le> MAX_STACK_SIZE \<and> run_opcodes env False [Inr (plain_op OpCheckSigMlDsa87)] (?v 3 ?st) = Inr w"
    using run_equal_verify [OF r(1) [of 2 "?st @ [?h, payload]"], of ?st ?h payload env]
    by (simp add: p2pkh_ops_def run_opcodes_step total_size_def numeral_3_eq_3 del: run_opcodes.simps)
  have 3: "run_opcodes env False (map Inr (drop 2 (p2pkh_ops payload))) (?v 2 (?st @ [?h])) = Inr w \<longleftrightarrow>
      total_size v + 2 \<le> MAX_STACK_SIZE \<and> run_opcodes env False (map Inr (drop 3 (p2pkh_ops payload))) (?v 2 (?st @ [?h, payload])) = Inr w"
    using run_data [OF r(1) [of 2 "?st @ [?h]"] _ _ data, of env] assms(3)
    by (simp add: p2pkh_ops_def run_opcodes_step total_size_def Suc_le_eq del: run_opcodes.simps)
  have "?run \<longleftrightarrow> ?st \<noteq> [] \<and> total_size v < MAX_STACK_SIZE \<and>
      run_opcodes env False (map Inr (drop 2 (p2pkh_ops payload))) (?v 2 (?st @ [?h])) = Inr w"
    using run_dup [OF r(2) [of 0], of env] run_hash [OF r(1) [of 1 "?st @ [last ?st]"], of env]
    by (auto simp add: p2pkh_ops_def run_opcodes_step total_size_def simp del: run_opcodes.simps)
  then show ?thesis
    using 3 4 5 by auto
qed

lemma run_deposit_prefix:
  assumes "vm_cond_stack v = []" and "vm_num_ops v \<le> 100" and "length data = 36" and "total_size v \<le> MAX_STACK_SIZE"
  shows "run_opcodes env False (map Inr (deposit_prefix_ops data @ ops)) v = Inr w \<longleftrightarrow>
    total_size v < MAX_STACK_SIZE \<and> run_opcodes env False (map Inr ops) (v\<lparr>vm_num_ops := vm_num_ops v + 2\<rparr>) = Inr w"
proof -
  let ?v = "\<lambda>n st. v\<lparr>vm_num_ops := vm_num_ops v + n, vm_dstack := st\<rparr>"
  have r: "ready (?v n st)" "ready v" if "n \<le> 4" for n st
    using assms(1,2) that by (simp_all add: ready_def MAX_OPS_PER_SCRIPT_def)
  have data: "OpData36 = word_of_nat (length data)"
    by (simp add: assms(3) code_defs)
  show ?thesis
    using run_nop [OF r(2) [of 0], of env] run_data [OF r(1) [of 1 "vm_dstack v"] _ _ data, of env]
      run_drop [OF r(1) [of 1 "vm_dstack v @ [data]"], of env] assms(3,4)
    by (auto simp add: deposit_prefix_ops_def run_opcodes_step total_size_def simp del: run_opcodes.simps)
qed

section \<open>Signature checks\<close>

lemma check_mldsa87_uncached:
  assumes "sv_source env = TxInput tx input idx entry p2sh" and "vm_sig_cache v = no_cache"
  shows "check_mldsa87_signature env t key sig v = Inr (valid, w) \<longleftrightarrow>
    0 < so_remaining (vm_sig_ops v) \<and> length key = MLDSA87_PK_LEN \<and> length sig = MLDSA87_SIG_LEN \<and>
    valid = kx_verify (sv_crypto env) key
      (as_bytes (calc_mldsa87_signature_hash (kx_signing_hash (sv_crypto env)) (vt_tx tx) (vt_entries tx) idx t)) MLDSA87_TX_CONTEXT sig \<and>
    w = v\<lparr>vm_sig_ops := (vm_sig_ops v)\<lparr>so_remaining := so_remaining (vm_sig_ops v) - 1\<rparr>\<rparr>"
proof -
  have "v\<lparr>vm_sig_ops := c, vm_sig_cache := no_cache\<rparr> = v\<lparr>vm_sig_ops := c\<rparr>" for c
    using assms(2) by (cases v) simp
  then show ?thesis
    using assms by (auto simp: check_mldsa87_signature_def consume_sig_op_def try_then_ok Let_def)
qed

lemma check_sig_uncached:
  assumes "sv_source env = TxInput tx input idx entry p2sh" and "vm_sig_cache v = no_cache" and "vm_dstack v = st @ [s, key]"
  shows "op_check_sig env MlDsa87 v = Inr w \<and> vm_dstack w = st @ [[1]] \<longleftrightarrow>
    (\<exists>sig t. s = sig @ [t] \<and> t \<in> set ALLOWED_SIG_HASH_TYPES_VALUES \<and> 0 < so_remaining (vm_sig_ops v) \<and>
      length key = MLDSA87_PK_LEN \<and> length sig = MLDSA87_SIG_LEN \<and>
      kx_verify (sv_crypto env) key
        (as_bytes (calc_mldsa87_signature_hash (kx_signing_hash (sv_crypto env)) (vt_tx tx) (vt_entries tx) idx t)) MLDSA87_TX_CONTEXT sig \<and>
      w = v\<lparr>vm_dstack := st @ [[1]], vm_sig_ops := (vm_sig_ops v)\<lparr>so_remaining := so_remaining (vm_sig_ops v) - 1\<rparr>\<rparr>)"
proof (cases s rule: rev_cases)
  case Nil
  then show ?thesis
    by (auto simp: op_check_sig_def pop_raw_def assms(3) push_bool_def serialize_bool_def)
next
  case (snoc sig t)
  have cache: "vm_sig_cache (v\<lparr>vm_dstack := st\<rparr>) = no_cache"
    by (simp add: assms(2))
  have red: "op_check_sig env MlDsa87 v =
      (if t \<in> set ALLOWED_SIG_HASH_TYPES_VALUES then
         try_then (check_mldsa87_signature env t key sig (v\<lparr>vm_dstack := st\<rparr>))
           (\<lambda>(valid, v). Inr (v\<lparr>vm_dstack := vm_dstack v @ [serialize_bool valid]\<rparr>))
       else Inl (InvalidSigHashType t))"
    by (simp add: op_check_sig_def pop_raw_def assms(3) snoc sig_hash_type_from_u8_def check_signature_def push_bool_def)
  note check = check_mldsa87_uncached [OF assms(1) cache, of t key sig]
  show ?thesis
  proof
    assume "op_check_sig env MlDsa87 v = Inr w \<and> vm_dstack w = st @ [[1]]"
    then obtain valid x where t: "t \<in> set ALLOWED_SIG_HASH_TYPES_VALUES"
      and x: "check_mldsa87_signature env t key sig (v\<lparr>vm_dstack := st\<rparr>) = Inr (valid, x)"
      and w: "w = x\<lparr>vm_dstack := vm_dstack x @ [serialize_bool valid]\<rparr>" and top: "vm_dstack w = st @ [[1]]"
      unfolding red by (auto simp: try_then_ok split: if_splits)
    note ok = x [unfolded check]
    then have "valid"
      using top by (simp add: w serialize_bool_def split: if_splits)
    then show "\<exists>sig t. s = sig @ [t] \<and> t \<in> set ALLOWED_SIG_HASH_TYPES_VALUES \<and> 0 < so_remaining (vm_sig_ops v) \<and>
        length key = MLDSA87_PK_LEN \<and> length sig = MLDSA87_SIG_LEN \<and>
        kx_verify (sv_crypto env) key
          (as_bytes (calc_mldsa87_signature_hash (kx_signing_hash (sv_crypto env)) (vt_tx tx) (vt_entries tx) idx t)) MLDSA87_TX_CONTEXT sig \<and>
        w = v\<lparr>vm_dstack := st @ [[1]], vm_sig_ops := (vm_sig_ops v)\<lparr>so_remaining := so_remaining (vm_sig_ops v) - 1\<rparr>\<rparr>"
      using ok t by (intro exI [of _ sig] exI [of _ t]) (simp add: snoc w serialize_bool_def)
  next
    assume "\<exists>sig t. s = sig @ [t] \<and> t \<in> set ALLOWED_SIG_HASH_TYPES_VALUES \<and> 0 < so_remaining (vm_sig_ops v) \<and>
        length key = MLDSA87_PK_LEN \<and> length sig = MLDSA87_SIG_LEN \<and>
        kx_verify (sv_crypto env) key
          (as_bytes (calc_mldsa87_signature_hash (kx_signing_hash (sv_crypto env)) (vt_tx tx) (vt_entries tx) idx t)) MLDSA87_TX_CONTEXT sig \<and>
        w = v\<lparr>vm_dstack := st @ [[1]], vm_sig_ops := (vm_sig_ops v)\<lparr>so_remaining := so_remaining (vm_sig_ops v) - 1\<rparr>\<rparr>"
    then have t: "t \<in> set ALLOWED_SIG_HASH_TYPES_VALUES"
      and w: "w = v\<lparr>vm_dstack := st @ [[1]], vm_sig_ops := (vm_sig_ops v)\<lparr>so_remaining := so_remaining (vm_sig_ops v) - 1\<rparr>\<rparr>"
      and "check_mldsa87_signature env t key sig (v\<lparr>vm_dstack := st\<rparr>) =
        Inr (True, v\<lparr>vm_dstack := st, vm_sig_ops := (vm_sig_ops v)\<lparr>so_remaining := so_remaining (vm_sig_ops v) - 1\<rparr>\<rparr>)"
      by (simp_all add: check snoc)
    then show "op_check_sig env MlDsa87 v = Inr w \<and> vm_dstack w = st @ [[1]]"
      unfolding red by (simp add: serialize_bool_def)
  qed
qed

section \<open>Pushing signatures and keys\<close>

definition push_data_2 :: "bytes \<Rightarrow> bytes" where
  "push_data_2 data = OpPushData2 # to_le 2 (length data) @ data"

lemma pushed_big:
  assumes "pushable opc" and "pushed opc = e" and "255 < length e" and "length e < 65535"
  shows "opc = \<lparr>oc_value = OpPushData2, oc_data = e\<rparr>"
proof -
  have small: "length (serialize_i64 n) \<le> 8" if "\<bar>n\<bar> < 2 ^ 63" for n
    using that length_serialize_i64_le by simp
  have "\<bar>int n - 0x50\<bar> < 2 ^ 63" if "n < 256" for n :: nat
    using that by simp
  from small [OF this [OF unat_byte_lt [of "oc_value opc"]]]
  have num: "length (serialize_i64 (int (unat (oc_value opc)) - 0x50)) \<le> 8" .
  have c: "oc_value opc \<noteq> OpFalse \<and> oc_value opc \<le> OpPushData4 \<and> oc_data opc = e"
    using assms(2,3) num small [of "-1"] by (simp add: pushed_def Let_def split: if_splits)
  then have "0 < oc_value opc \<and> oc_value opc \<le> 0x4e"
    by (simp add: code_defs word_neq_0_conv)
  then have "check_minimal_data_push opc = Inr ()"
    using assms(1) by (simp add: pushable_def)
  then have "oc_value opc = OpPushData2"
    using assms(3,4) c by (auto simp: check_minimal_data_push_def Let_def code_defs split: if_splits)
  then show ?thesis
    using c by (cases opc) simp
qed

lemma pushable_big:
  assumes "255 < length e" and "length e \<le> MAX_SCRIPT_ELEMENT_SIZE"
  shows "pushable \<lparr>oc_value = OpPushData2, oc_data = e\<rparr>" "pushed \<lparr>oc_value = OpPushData2, oc_data = e\<rparr> = e"
    "wf_opcode \<lparr>oc_value = OpPushData2, oc_data = e\<rparr>"
  using assms by (auto simp: pushable_def pushed_def is_push_opcode_def NO_COST_OPCODE_def check_minimal_data_push_def Let_def code_defs
      wf_opcode_def MAX_SCRIPT_ELEMENT_SIZE_def)

definition fresh :: "vm \<Rightarrow> bool" where
  "fresh v \<longleftrightarrow> vm_dstack v = [] \<and> vm_astack v = [] \<and> vm_cond_stack v = [] \<and> vm_num_ops v = 0"

lemma signature_script_run:
  assumes "fresh v"
  shows "execute_script env script True v = Inr w \<longleftrightarrow>
    (\<exists>ops. parse_script script = map Inr ops \<and> list_all pushable ops \<and> length ops \<le> MAX_STACK_SIZE \<and> w = v\<lparr>vm_dstack := map pushed ops\<rparr>)"
proof -
  have same: "v\<lparr>vm_dstack := st, vm_astack := [], vm_num_ops := 0\<rparr> = v\<lparr>vm_dstack := st\<rparr>" for st
    using assms by (cases v) (simp add: fresh_def)
  have v: "vm_cond_stack v = []" "vm_dstack v = []" "total_size v = 0"
    using assms by (simp_all add: fresh_def total_size_def)
  have "execute_script env script True v = Inr w \<longleftrightarrow>
      (\<exists>x. run_opcodes env True (parse_script script) v = Inr x \<and> vm_cond_stack x = [] \<and> w = x\<lparr>vm_astack := [], vm_num_ops := 0\<rparr>)"
    by (cases "run_opcodes env True (parse_script script) v") (auto simp: execute_script_def)
  also have "\<dots> \<longleftrightarrow>
      (\<exists>ops. parse_script script = map Inr ops \<and> list_all pushable ops \<and> length ops \<le> MAX_STACK_SIZE \<and> w = v\<lparr>vm_dstack := map pushed ops\<rparr>)"
    unfolding run_opcodes_push [OF v(1)] by (auto simp: v same)
  finally show ?thesis .
qed

lemma signature_script_pushes:
  assumes "fresh v" and "255 < length s" "length s \<le> MAX_SCRIPT_ELEMENT_SIZE" and "255 < length key" "length key \<le> MAX_SCRIPT_ELEMENT_SIZE"
  shows "execute_script env script True v = Inr (v\<lparr>vm_dstack := [s, key]\<rparr>) \<longleftrightarrow> script = push_data_2 s @ push_data_2 key"
proof -
  have dstack: "v\<lparr>vm_dstack := xs\<rparr> = v\<lparr>vm_dstack := ys\<rparr> \<longleftrightarrow> xs = ys" for xs ys
    by (cases v) simp
  let ?ops = "[\<lparr>oc_value = OpPushData2, oc_data = s\<rparr>, \<lparr>oc_value = OpPushData2, oc_data = key\<rparr>]"
  have "map pushed ops = [s, key] \<and> list_all pushable ops \<longleftrightarrow> ops = ?ops" for ops
  proof
    assume ops: "map pushed ops = [s, key] \<and> list_all pushable ops"
    then obtain a b where ab: "ops = [a, b]" "pushed a = s" "pushed b = key" "pushable a" "pushable b"
      by (auto simp: map_eq_Cons_conv)
    then show "ops = ?ops"
      using pushed_big [OF ab(4,2) assms(2)] pushed_big [OF ab(5,3) assms(4)] assms(3,5) by (simp add: MAX_SCRIPT_ELEMENT_SIZE_def)
  next
    assume "ops = ?ops"
    then show "map pushed ops = [s, key] \<and> list_all pushable ops"
      using pushable_big [OF assms(2,3)] pushable_big [OF assms(4,5)] by simp
  qed
  note ops = this
  have "execute_script env script True v = Inr (v\<lparr>vm_dstack := [s, key]\<rparr>) \<longleftrightarrow> parse_script script = map Inr ?ops"
  proof
    assume "execute_script env script True v = Inr (v\<lparr>vm_dstack := [s, key]\<rparr>)"
    then obtain o' where "parse_script script = map Inr o'" "map pushed o' = [s, key] \<and> list_all pushable o'"
      unfolding signature_script_run [OF assms(1)] dstack by metis
    then show "parse_script script = map Inr ?ops"
      using ops [of o'] by simp
  next
    assume "parse_script script = map Inr ?ops"
    then show "execute_script env script True v = Inr (v\<lparr>vm_dstack := [s, key]\<rparr>)"
      unfolding signature_script_run [OF assms(1)] dstack using ops [of ?ops] by (intro exI [of _ ?ops]) (simp add: MAX_STACK_SIZE_def)
  qed
  also have "\<dots> \<longleftrightarrow> script = concat (map serialize_opcode ?ops)"
    using parse_script_serialize [of ?ops script] parse_serialized [of ?ops] pushable_big(3) [OF assms(2,3)] pushable_big(3) [OF assms(4,5)]
    by auto
  also have "\<dots> \<longleftrightarrow> script = push_data_2 s @ push_data_2 key"
    by (simp add: serialize_opcode_def push_data_2_def)
  finally show ?thesis .
qed

section \<open>Spending a template\<close>

lemma check_mldsa87_dstack:
  assumes "check_mldsa87_signature env t key sig v = Inr (valid, w)"
  shows "vm_dstack w = vm_dstack v"
proof -
  obtain c where c: "consume_sig_op (vm_sig_ops v) = Inr c"
    using assms by (cases "consume_sig_op (vm_sig_ops v)") (simp_all add: check_mldsa87_signature_def)
  show ?thesis
  proof (cases "sv_source env")
    case (TxInput tx input idx entry p2sh)
    then show ?thesis
      using assms by (auto simp: check_mldsa87_signature_def c Let_def split: if_splits option.splits)
  next
    case (StandAloneScripts ss)
    then show ?thesis
      using assms by (simp add: check_mldsa87_signature_def c)
  qed
qed

lemma check_signature_dstack:
  "check_signature env scheme t key sig v = Inr (valid, w) \<Longrightarrow> vm_dstack w = vm_dstack v"
  by (cases scheme) (auto simp: check_signature_def check_legacy_signature_def try_then_ok dest: check_mldsa87_dstack)

lemma check_sig_dstack:
  assumes "op_check_sig env scheme v = Inr w"
  shows "2 \<le> length (vm_dstack v) \<and> (\<exists>b. vm_dstack w = take (length (vm_dstack v) - 2) (vm_dstack v) @ [serialize_bool b])"
proof -
  let ?st = "vm_dstack v"
  have len: "2 \<le> length ?st"
    using assms by (auto simp: op_check_sig_def pop_raw_def split: if_splits)
  let ?rest = "take (length ?st - 2) ?st"
  consider (none) "w = v\<lparr>vm_dstack := push_bool False ?rest\<rparr>"
    | (check) t key sig where "try_then (check_signature env scheme t key sig (v\<lparr>vm_dstack := ?rest\<rparr>))
        (\<lambda>(valid, v). Inr (v\<lparr>vm_dstack := push_bool valid (vm_dstack v)\<rparr>)) = Inr w"
    using assms len by (auto simp: op_check_sig_def pop_raw_def Let_def split: if_splits option.splits)
  then show ?thesis
  proof cases
    case none
    then show ?thesis
      using len by (auto simp: push_bool_def)
  next
    case check
    then obtain valid x where "check_signature env scheme t key sig (v\<lparr>vm_dstack := ?rest\<rparr>) = Inr (valid, x)"
      and "w = x\<lparr>vm_dstack := push_bool valid (vm_dstack x)\<rparr>"
      by (auto simp: try_then_ok)
    then show ?thesis
      using len check_signature_dstack [of env scheme t key sig "v\<lparr>vm_dstack := ?rest\<rparr>" valid x] by (auto simp: push_bool_def)
  qed
qed

lemma error_condition_ok:
  "(\<exists>z. check_error_condition True y = Inr z) \<longleftrightarrow> (\<exists>b. vm_dstack y = [b] \<and> deserialize_bool b)"
proof (cases "vm_dstack y")
  case (Cons b st)
  then show ?thesis
    by (cases st) (auto simp: check_error_condition_def pop_bool_def pop_raw_def)
qed (simp add: check_error_condition_def)

lemma deserialize_serialize_bool [simp]: "deserialize_bool (serialize_bool b) = b"
  by (cases b) (simp_all add: deserialize_bool_def serialize_bool_def)

lemma execute_empty_script: "fresh v \<Longrightarrow> execute_script env [] push v = Inr v"
  by (cases v) (simp add: execute_script_def fresh_def)

lemma execute_input:
  assumes "sv_source env = TxInput tx input idx entry False" and "spk_version (ue_script_public_key entry) = 0" and "fresh v"
    and "spk_script (ue_script_public_key entry) = script" and "script \<noteq> []" and "length script \<le> MAX_SCRIPTS_SIZE"
  shows "(\<exists>w. execute env v = Inr w) \<longleftrightarrow> length (in_signature_script input) \<le> MAX_SCRIPTS_SIZE \<and>
    (\<exists>x y. execute_script env (in_signature_script input) True v = Inr x \<and> execute_script env script False x = Inr y \<and>
      (\<exists>b. vm_dstack y = [b] \<and> deserialize_bool b))"
proof -
  let ?sig = "in_signature_script input"
  have end_run: "run_scripts env False [] None = (\<lambda>y. Inr (None, y))"
    by (simp add: fun_eq_iff)
  have tail: "run_scripts env False [(Suc 0, script)] None = (\<lambda>x. try_then (execute_script env script False x) (\<lambda>y. Inr (None, y)))"
    by (simp add: fun_eq_iff end_run)
  have run: "run_scripts env False (filter (\<lambda>(_, s). s \<noteq> []) (enumerate 0 [?sig, script])) None v =
      try_then (execute_script env ?sig True v) (\<lambda>x. try_then (execute_script env script False x) (\<lambda>y. Inr (None, y)))"
    using assms(1,3,5) execute_empty_script [of v env True] by (cases "?sig = []") (simp_all add: tail end_run)
  have "(\<exists>w. execute env v = Inr w) \<longleftrightarrow> length ?sig \<le> MAX_SCRIPTS_SIZE \<and>
      (\<exists>w. try_then (try_then (execute_script env ?sig True v) (\<lambda>x. try_then (execute_script env script False x) (\<lambda>y. Inr (None :: script_stack option, y))))
        (\<lambda>(_, v). check_error_condition True v) = Inr w)"
    unfolding execute_def using assms run by (simp add: MAX_SCRIPT_PUBLIC_KEY_VERSION_def)
  also have "\<dots> \<longleftrightarrow> length ?sig \<le> MAX_SCRIPTS_SIZE \<and>
      (\<exists>x y. execute_script env ?sig True v = Inr x \<and> execute_script env script False x = Inr y \<and> (\<exists>z. check_error_condition True y = Inr z))"
    by (auto simp: try_then_ok)
  finally show ?thesis
    unfolding error_condition_ok .
qed

text \<open>The signature script that spends the output of a public key hash: one signature with its type, and the key.\<close>

definition mldsa87_unlocks :: "script_crypto \<Rightarrow> validated_transaction \<Rightarrow> usize \<Rightarrow> bytes \<Rightarrow> bytes \<Rightarrow> bool" where
  "mldsa87_unlocks kx tx idx payload script \<longleftrightarrow>
     (\<exists>sig t key. script = push_data_2 (sig @ [t]) @ push_data_2 key \<and> length sig = MLDSA87_SIG_LEN \<and> length key = MLDSA87_PK_LEN \<and>
        t \<in> set ALLOWED_SIG_HASH_TYPES_VALUES \<and> as_bytes (kx_address_payload kx key) = payload \<and>
        kx_verify kx key (as_bytes (calc_mldsa87_signature_hash (kx_signing_hash kx) (vt_tx tx) (vt_entries tx) idx t))
          MLDSA87_TX_CONTEXT sig)"

lemma spend_template:
  assumes env: "sv_source env = TxInput tx input idx entry False" and version: "spk_version (ue_script_public_key entry) = 0"
    and fresh: "fresh v" "vm_sig_cache v = no_cache"
    and script: "spk_script (ue_script_public_key entry) = script" "script \<noteq> []" "length script \<le> MAX_SCRIPTS_SIZE"
    and payload: "length payload = 64"
    and run: "\<And>st y. length st \<le> MAX_STACK_SIZE \<Longrightarrow>
      run_opcodes env False (parse_script script) (v\<lparr>vm_dstack := st\<rparr>) = Inr y \<longleftrightarrow>
      length st < MAX_STACK_SIZE - m \<and> run_opcodes env False (map Inr (p2pkh_ops payload)) (v\<lparr>vm_dstack := st, vm_num_ops := n\<rparr>) = Inr y"
    and bounds: "n \<le> 100" "m < 100"
  shows "(\<exists>w. execute env v = Inr w) \<longleftrightarrow>
    0 < so_remaining (vm_sig_ops v) \<and> mldsa87_unlocks (sv_crypto env) tx idx payload (in_signature_script input)"
    (is "?accepted \<longleftrightarrow> ?unlocks")
proof
  let ?v = "\<lambda>st k. v\<lparr>vm_dstack := st, vm_num_ops := n + k\<rparr>"
  have v: "vm_astack v = []" "vm_cond_stack v = []" "vm_num_ops v = 0"
    using fresh by (simp_all add: fresh_def)
  have p2pkh: "run_opcodes env False (map Inr (p2pkh_ops payload)) (v\<lparr>vm_dstack := st, vm_num_ops := n\<rparr>) = Inr y \<longleftrightarrow>
      st \<noteq> [] \<and> length st + 2 \<le> MAX_STACK_SIZE \<and> as_bytes (kx_address_payload (sv_crypto env) (last st)) = payload \<and>
      op_check_sig env MlDsa87 (?v st 4) = Inr y \<and> total_size y \<le> MAX_STACK_SIZE" for st y
    using run_p2pkh [of "v\<lparr>vm_dstack := st, vm_num_ops := n\<rparr>" payload env y] bounds(1) payload v by (simp add: total_size_def)
  have accepted: "?accepted \<longleftrightarrow> length (in_signature_script input) \<le> MAX_SCRIPTS_SIZE \<and>
    (\<exists>x y. execute_script env (in_signature_script input) True v = Inr x \<and> execute_script env script False x = Inr y \<and>
      (\<exists>b. vm_dstack y = [b] \<and> deserialize_bool b))"
    by (rule execute_input [OF env version fresh(1) script])
  {
    assume ?accepted
    then obtain x y b where x: "execute_script env (in_signature_script input) True v = Inr x"
      and y: "execute_script env script False x = Inr y" "vm_dstack y = [b]" "deserialize_bool b"
      unfolding accepted by blast
    obtain ops where ops: "list_all pushable ops" "length ops \<le> MAX_STACK_SIZE" "x = v\<lparr>vm_dstack := map pushed ops\<rparr>"
      using x unfolding signature_script_run [OF fresh(1)] by blast
    let ?st = "map pushed ops"
    obtain z where z: "run_opcodes env False (parse_script script) x = Inr z" "vm_dstack z = [b]"
      using y by (cases "run_opcodes env False (parse_script script) x") (auto simp: execute_script_def split: if_splits)
    then have st: "?st \<noteq> []" "as_bytes (kx_address_payload (sv_crypto env) (last ?st)) = payload" and sig: "op_check_sig env MlDsa87 (?v ?st 4) = Inr z"
      using run [of ?st z] ops(2) unfolding ops(3) p2pkh by simp_all
    obtain c where c: "2 \<le> length ?st" "vm_dstack z = take (length ?st - 2) ?st @ [serialize_bool c]"
      using check_sig_dstack [OF sig] by auto
    have "[b] = take (length ?st - 2) ?st @ [serialize_bool c]"
      using z(2) c(2) by (rule trans [OF sym])
    from arg_cong [OF this, of butlast] have "take (length ?st - 2) ?st = []"
      by (simp only: butlast_snoc butlast.simps if_True refl)
    then have len: "length ?st = 2"
      using c(1) st(1) by (metis diff_is_0_eq le_antisym take_eq_Nil)
    then have top: "b = serialize_bool c"
      using z(2) c(2) by simp
    then have "c"
      using y(3) by simp
    have "\<exists>s key. xs = [s, key]" if "length xs = 2" for xs :: script_stack
      using that by (auto simp: numeral_2_eq_2 length_Suc_conv)
    from this [OF len] obtain s key where two: "?st = [s, key]"
      by (elim exE) (rule that)
    have "vm_dstack z = [] @ [[1]]"
      using z(2) top \<open>c\<close> by (simp add: serialize_bool_def)
    then obtain sg t where "s = sg @ [t]" "t \<in> set ALLOWED_SIG_HASH_TYPES_VALUES" "0 < so_remaining (vm_sig_ops v)"
      "length key = MLDSA87_PK_LEN" "length sg = MLDSA87_SIG_LEN"
      "kx_verify (sv_crypto env) key (as_bytes (calc_mldsa87_signature_hash (kx_signing_hash (sv_crypto env)) (vt_tx tx) (vt_entries tx) idx t))
        MLDSA87_TX_CONTEXT sg"
      using check_sig_uncached [OF env, of "?v ?st 4" "[]" s key z] sig two fresh(2) by auto
    moreover have "in_signature_script input = push_data_2 s @ push_data_2 key"
      using signature_script_pushes [OF fresh(1), of s key env "in_signature_script input"] x ops(3) two calculation
      by (simp add: MLDSA87_PK_LEN_def MLDSA87_SIG_LEN_def MAX_SCRIPT_ELEMENT_SIZE_def)
    ultimately show ?unlocks
      using st(2) two unfolding mldsa87_unlocks_def by auto
  next
    assume ?unlocks
    then obtain sg t key where script: "in_signature_script input = push_data_2 (sg @ [t]) @ push_data_2 key"
      and lens: "length sg = MLDSA87_SIG_LEN" "length key = MLDSA87_PK_LEN" and t: "t \<in> set ALLOWED_SIG_HASH_TYPES_VALUES"
      and addr: "as_bytes (kx_address_payload (sv_crypto env) key) = payload" and rem: "0 < so_remaining (vm_sig_ops v)"
      and verify: "kx_verify (sv_crypto env) key
        (as_bytes (calc_mldsa87_signature_hash (kx_signing_hash (sv_crypto env)) (vt_tx tx) (vt_entries tx) idx t)) MLDSA87_TX_CONTEXT sg"
      unfolding mldsa87_unlocks_def by blast
    let ?st = "[sg @ [t], key]"
    have x: "execute_script env (in_signature_script input) True v = Inr (v\<lparr>vm_dstack := ?st\<rparr>)"
      using signature_script_pushes [OF fresh(1), of "sg @ [t]" key env "in_signature_script input"] script lens
      by (simp add: MLDSA87_PK_LEN_def MLDSA87_SIG_LEN_def MAX_SCRIPT_ELEMENT_SIZE_def)
    let ?z = "(?v ?st 4)\<lparr>vm_dstack := [[1]], vm_sig_ops := (vm_sig_ops v)\<lparr>so_remaining := so_remaining (vm_sig_ops v) - 1\<rparr>\<rparr>"
    have "op_check_sig env MlDsa87 (?v ?st 4) = Inr ?z"
      using check_sig_uncached [OF env, of "?v ?st 4" "[]" "sg @ [t]" key ?z] lens t rem verify fresh(2) by simp
    then have "run_opcodes env False (parse_script script) (v\<lparr>vm_dstack := ?st\<rparr>) = Inr ?z"
      using run [of ?st ?z] p2pkh [of ?st ?z] bounds(2) addr v by (simp add: total_size_def MAX_STACK_SIZE_def)
    then have "execute_script env script False (v\<lparr>vm_dstack := ?st\<rparr>) = Inr (?z\<lparr>vm_astack := [], vm_num_ops := 0\<rparr>)"
      using v by (simp add: execute_script_def)
    moreover have "length (in_signature_script input) \<le> MAX_SCRIPTS_SIZE"
      by (simp add: script push_data_2_def lens MLDSA87_PK_LEN_def MLDSA87_SIG_LEN_def MAX_SCRIPTS_SIZE_def)
    ultimately show ?accepted
      unfolding accepted using x by (auto simp: deserialize_bool_def)
  }
qed

lemma mldsa87_template_spend:
  assumes i: "i < length (tx_inputs (vt_tx tx))"
    and spk: "ue_script_public_key (vt_entries tx ! i) = p2pkh_mldsa87_spk payload \<or>
      (\<exists>data. length data = 36 \<and> ue_script_public_key (vt_entries tx ! i) =
        \<lparr>spk_version = MAX_SCRIPT_PUBLIC_KEY_VERSION,
         spk_script = [OpNop, OpData36] @ data @ [OpDrop] @ spk_script (p2pkh_mldsa87_spk payload)\<rparr>)"
    and payload: "length payload = 64"
  shows "(\<exists>w. run_input kx policy no_cache tx i = Some (Inr w)) \<longleftrightarrow>
    0 < in_sig_op_count (tx_inputs (vt_tx tx) ! i) \<and>
    mldsa87_unlocks kx tx i payload (in_signature_script (tx_inputs (vt_tx tx) ! i))"
proof -
  let ?entry = "vt_entries tx ! i" and ?input = "tx_inputs (vt_tx tx) ! i"
  let ?script = "spk_script (ue_script_public_key ?entry)"
  let ?p2pkh = "[OpDup, OpBlake2b512, OpData64] @ payload @ [OpEqualVerify, OpCheckSigMlDsa87]"
  define env where "env = \<lparr>sv_crypto = kx, sv_source = TxInput tx ?input i ?entry False, sv_policy = policy\<rparr>"
  define v where "v = \<lparr>vm_dstack = [], vm_astack = [], vm_cond_stack = [], vm_num_ops = 0,
    vm_sig_ops = new_sig_op_counter (in_sig_op_count ?input), vm_sig_cache = no_cache\<rparr>"
  have tail: "spk_script (p2pkh_mldsa87_spk payload) = ?p2pkh"
    by (simp add: p2pkh_mldsa87_spk_def opcode_defs)
  have not_p2sh: "\<not> is_pay_to_script_hash ?script" and script: "?script \<noteq> []" "length ?script \<le> MAX_SCRIPTS_SIZE"
    and version: "spk_version (ue_script_public_key ?entry) = 0"
    using spk payload
    by (auto simp: tail is_pay_to_script_hash_def MAX_SCRIPTS_SIZE_def MAX_SCRIPT_PUBLIC_KEY_VERSION_def p2pkh_mldsa87_spk_def)
  have run: "run_input kx policy no_cache tx i = Some (execute env v)"
    using i not_p2sh by (simp add: run_input_def from_transaction_input_def env_def v_def)
  have fresh: "fresh v" "vm_sig_cache v = no_cache"
    by (simp_all add: fresh_def v_def)
  have size: "total_size (v\<lparr>vm_dstack := st\<rparr>) = length st" and v: "vm_cond_stack v = []" "vm_num_ops v = 0" for st
    by (simp_all add: total_size_def v_def)
  have "\<exists>m n. n \<le> 100 \<and> m < 100 \<and> (\<forall>st y. length st \<le> MAX_STACK_SIZE \<longrightarrow>
      (run_opcodes env False (parse_script ?script) (v\<lparr>vm_dstack := st\<rparr>) = Inr y \<longleftrightarrow>
       length st < MAX_STACK_SIZE - m \<and> run_opcodes env False (map Inr (p2pkh_ops payload)) (v\<lparr>vm_dstack := st, vm_num_ops := n\<rparr>) = Inr y))"
    using spk
  proof
    assume "ue_script_public_key ?entry = p2pkh_mldsa87_spk payload"
    then have p: "parse_script ?script = map Inr (p2pkh_ops payload)"
      using parse_p2pkh [OF payload] by (simp add: tail)
    have "run_opcodes env False (parse_script ?script) (v\<lparr>vm_dstack := st\<rparr>) = Inr y \<longleftrightarrow> length st < MAX_STACK_SIZE - 0 \<and>
        run_opcodes env False (map Inr (p2pkh_ops payload)) (v\<lparr>vm_dstack := st, vm_num_ops := 0\<rparr>) = Inr y" for st y
      unfolding p using run_p2pkh [of "v\<lparr>vm_dstack := st\<rparr>" payload env y] payload v size [of st] by (simp add: v_def) linarith
    then show ?thesis
      by (intro exI [of _ 0]) simp
  next
    assume "\<exists>data. length data = 36 \<and> ue_script_public_key ?entry =
        \<lparr>spk_version = MAX_SCRIPT_PUBLIC_KEY_VERSION, spk_script = [OpNop, OpData36] @ data @ [OpDrop] @ spk_script (p2pkh_mldsa87_spk payload)\<rparr>"
    then obtain data where data: "length data = 36" and p: "parse_script ?script = map Inr (deposit_prefix_ops data @ p2pkh_ops payload)"
      using parse_deposit_lock [OF payload] by (auto simp: tail)
    have "run_opcodes env False (parse_script ?script) (v\<lparr>vm_dstack := st\<rparr>) = Inr y \<longleftrightarrow> length st < MAX_STACK_SIZE - 0 \<and>
        run_opcodes env False (map Inr (p2pkh_ops payload)) (v\<lparr>vm_dstack := st, vm_num_ops := 2\<rparr>) = Inr y"
      if "length st \<le> MAX_STACK_SIZE" for st y
      unfolding p using run_deposit_prefix [of "v\<lparr>vm_dstack := st\<rparr>" data env "p2pkh_ops payload" y] data v size [of st] that by (simp add: numeral_2_eq_2)
    then show ?thesis
      by (intro exI [of _ 0] exI [of _ 2]) simp
  qed
  then obtain m n where bounds: "n \<le> 100" "m < 100" and step: "\<And>st y. length st \<le> MAX_STACK_SIZE \<Longrightarrow>
      run_opcodes env False (parse_script ?script) (v\<lparr>vm_dstack := st\<rparr>) = Inr y \<longleftrightarrow>
      length st < MAX_STACK_SIZE - m \<and> run_opcodes env False (map Inr (p2pkh_ops payload)) (v\<lparr>vm_dstack := st, vm_num_ops := n\<rparr>) = Inr y"
    by blast
  have "(\<exists>w. execute env v = Inr w) \<longleftrightarrow> 0 < so_remaining (vm_sig_ops v) \<and>
      mldsa87_unlocks (sv_crypto env) tx i payload (in_signature_script ?input)"
    by (rule spend_template [OF _ version fresh refl script payload step bounds]) (simp_all add: env_def)
  then show ?thesis
    unfolding run by (simp add: v_def env_def new_sig_op_counter_def)
qed

end
