(* ===== verification/Tx_Acceptance.thy ===== *)
theory Tx_Acceptance
  imports Tx_Validator
begin

text \<open>
  What an accepted transaction satisfies: the checks of the transaction validator read as conditions, the supply of
  a UTXO view, and the properties of transactions accepted in isolation and in UTXO context.
\<close>

section \<open>What the checks accept\<close>

named_theorems tx_accepts "when a check of the validator succeeds"

lemma first_error_ok [tx_accepts]: "first_error cs = Inr () \<longleftrightarrow> (\<forall>c\<in>set cs. c = Inr ())"
  by (induction cs) (auto split: sum.splits)

declare first_error.simps [simp del]

lemmas [tx_accepts] = bind_res_ok

lemma position_of_None [tx_accepts]: "position_of P xs = None \<longleftrightarrow> (\<forall>x\<in>set xs. \<not> P x)"
proof -
  have "position_of P xs = None \<longleftrightarrow> (\<forall>x\<in>snd ` set (enumerate 0 xs). \<not> P x)"
    by (auto simp: position_of_def find_None_iff)
  moreover have "snd ` set (enumerate 0 xs) = set xs"
    unfolding set_map [symmetric] map_snd_enumerate ..
  ultimately show ?thesis
    by simp
qed

lemma position_check_ok [tx_accepts]:
  "(case position_of P xs of Some i \<Rightarrow> Inl (f i) | None \<Rightarrow> Inr ()) = Inr () \<longleftrightarrow> (\<forall>x\<in>set xs. \<not> P x)"
  unfolding position_of_None [symmetric] by (simp split: option.splits)

lemma output_value_ranges_ok [tx_accepts]:
  "output_value_ranges ts i acc = Inr () \<longleftrightarrow>
     (\<forall>t\<in>set ts. 0 < out_value t) \<and> (ts \<noteq> [] \<longrightarrow> acc + (\<Sum>t\<leftarrow>ts. out_value t) \<le> MAX_SOMPI)"
proof (induction ts arbitrary: i acc)
  case (Cons t ts)
  have max: "MAX_SOMPI \<le> u64_max"
    by (simp add: MAX_SOMPI_def u64_max_def)
  show ?case
  proof (cases "acc + out_value t \<le> MAX_SOMPI")
    case True
    then have chk: "checked_add u64_max acc (out_value t) = Some (acc + out_value t)"
      using max by simp
    show ?thesis
      using True Cons.IH [of "Suc i" "acc + out_value t"] unfolding output_value_ranges.simps chk option.case
      by (cases "ts = []") (auto simp: add.assoc)
  next
    case False
    then show ?thesis
      by (auto split: option.splits)
  qed
qed simp

lemma duplicate_inputs_ok [tx_accepts]:
  "duplicate_inputs is existing = Inr () \<longleftrightarrow>
     distinct (map in_previous_outpoint is) \<and> in_previous_outpoint ` set is \<inter> existing = {}"
  by (induction "is" arbitrary: existing) auto

lemma input_amounts_ok [tx_accepts]:
  assumes "acc \<le> MAX_SOMPI"
  shows "input_amounts es acc = Inr sum_in \<longleftrightarrow> sum_in = acc + (\<Sum>e\<leftarrow>es. ue_amount e) \<and> sum_in \<le> MAX_SOMPI"
  using assms
proof (induction es arbitrary: acc)
  case (Cons e es)
  have max: "MAX_SOMPI \<le> u64_max"
    by (simp add: MAX_SOMPI_def u64_max_def)
  show ?case
  proof (cases "acc + ue_amount e \<le> MAX_SOMPI")
    case True
    then have chk: "checked_add u64_max acc (ue_amount e) = Some (acc + ue_amount e)"
      using max by simp
    show ?thesis
      using True Cons.IH [of "acc + ue_amount e"] unfolding input_amounts.simps chk option.case by (auto simp: add.assoc)
  next
    case False
    then show ?thesis
      by (auto split: option.splits)
  qed
qed auto

lemma deposit_lock_parses: "from_script spk = EvmDepositLock \<Longrightarrow> \<exists>lock. parse_evm_deposit_lock spk = Some lock"
  by (simp add: parse_evm_deposit_lock_def Let_def)

lemma populate_entries_ok [tx_accepts]:
  "populate_entries view is = Some es \<longleftrightarrow> map (view \<circ> in_previous_outpoint) is = map Some es"
  by (induction "is" arbitrary: es) (auto split: option.splits simp: Cons_eq_map_conv)

lemma populated_simps [simp]:
  "vt_tx (populated tx es) = tx" "vt_entries (populated tx es) = es" "populated_inputs (populated tx es) = zip (tx_inputs tx) es"
  by (simp_all add: populated_def populated_inputs_def)

lemma first_locked_ok [tx_accepts]:
  "first_locked (Some is_locked) tx = None \<longleftrightarrow> (\<forall>i\<in>set (tx_inputs tx). \<not> is_locked (in_previous_outpoint i))"
  by (auto simp: first_locked_def find_None_iff)

lemma fee_ok [tx_accepts]:
  "check_output_values_and_compute_fee v sum_in = Some (Inr fee) \<longleftrightarrow>
     (\<Sum>t\<leftarrow>tx_outputs (vt_tx v). out_value t) \<le> u64_max \<and>
     (\<Sum>t\<leftarrow>tx_outputs (vt_tx v). out_value t) + fee = sum_in"
  by (auto simp: check_output_values_and_compute_fee_def fit64_def)

lemma input_class_ok [tx_accepts]:
  "check_input_class pov i entry = Inr () \<longleftrightarrow>
     from_script (ue_script_public_key entry) = PubKeyHashMlDsa87 \<or>
     (\<exists>lock. parse_evm_deposit_lock (ue_script_public_key entry) = Some lock \<and> dl_timeout_daa_score lock \<le> pov)"
  using deposit_lock_parses [of "ue_script_public_key entry"]
  by (auto simp: check_input_class_def is_pq_standard_def parse_evm_deposit_lock_def Let_def split: option.splits if_splits)

lemma output_class_ok [tx_accepts]:
  "check_output_class i t = Inr () \<longleftrightarrow>
     from_script (out_script_public_key t) = PubKeyHashMlDsa87 \<or>
     (\<exists>lock. parse_evm_deposit_lock (out_script_public_key t) = Some lock \<and> dl_claim_tip_sompi lock \<le> out_value t)"
  using deposit_lock_parses [of "out_script_public_key t"]
  by (auto simp: check_output_class_def is_pq_standard_def parse_evm_deposit_lock_def Let_def split: option.splits if_splits)

lemma all_enumerate: "(\<forall>x\<in>set (map (\<lambda>(i, y). f i y) (enumerate 0 ys)). P x) \<longleftrightarrow> (\<forall>i<length ys. P (f i (ys ! i)))"
  by (auto simp: set_conv_nth enumerate_eq_zip)

lemma input_classes_ok [tx_accepts]:
  "check_input_script_classes v pov = Inr () \<longleftrightarrow>
     (\<forall>(i, entry)\<in>set (populated_inputs v).
        from_script (ue_script_public_key entry) = PubKeyHashMlDsa87 \<or>
        (\<exists>lock. parse_evm_deposit_lock (ue_script_public_key entry) = Some lock \<and> dl_timeout_daa_score lock \<le> pov))"
  unfolding check_input_script_classes_def first_error_ok all_enumerate
  by (auto simp: input_class_ok all_set_conv_all_nth case_prod_beta)

lemma map_err_ok: "(case r of Inl e \<Rightarrow> Inl (f e) | Inr _ \<Rightarrow> Inr ()) = Inr () \<longleftrightarrow> r = Inr ()" for r :: "'e + unit"
  by (cases r) simp_all

lemma check_scripts_ok [tx_accepts]:
  assumes "length (vt_entries v) = length (tx_inputs (vt_tx v))"
  shows "check_scripts ext v policy = Inr () \<longleftrightarrow>
     (\<forall>i<length (tx_inputs (vt_tx v)). ex_run_script ext policy (vt_tx v) (vt_entries v) i = Inr ())"
  unfolding check_scripts_def first_error_ok all_enumerate
  using assms by (simp add: populated_inputs_def map_err_ok)

text \<open>The conditions under which each group of the isolation checks succeeds.\<close>

lemma authorization_shape_ok:
  "check_palw_block_authorization_shape tx = Inr () \<longleftrightarrow>
     (tx_subnetwork_id tx = SUBNETWORK_ID_PALW_BLOCK_AUTHORIZATION \<longrightarrow>
        tx_version tx = TX_VERSION \<and> tx_inputs tx = [] \<and> tx_outputs tx = [] \<and> tx_lock_time tx = 0 \<and>
        tx_gas tx = 0 \<and> tx_mass tx = 0)"
  by (simp add: check_palw_block_authorization_shape_def)

lemma inputs_ok:
  "check_transaction_inputs_count tv tx = Inr () \<longleftrightarrow>
     (tx_inputs tx = [] \<longrightarrow> tx_is_coinbase tx \<or> tx_subnetwork_id tx = SUBNETWORK_ID_PALW_BLOCK_AUTHORIZATION) \<and>
     length (tx_inputs tx) \<le> tv_max_tx_inputs tv"
  "check_transaction_signature_scripts tv tx = Inr () \<longleftrightarrow>
     (\<forall>i\<in>set (tx_inputs tx). length (in_signature_script i) \<le> tv_max_signature_script_len tv)"
  by (auto simp: check_transaction_inputs_count_def check_transaction_signature_scripts_def position_check_ok)

lemma outputs_ok:
  "check_transaction_outputs_count tv tx = Inr () \<longleftrightarrow>
     (\<not> tx_is_coinbase tx \<longrightarrow> length (tx_outputs tx) \<le> tv_max_tx_outputs tv)"
  "check_transaction_script_public_keys tv tx = Inr () \<longleftrightarrow>
     (\<forall>t\<in>set (tx_outputs tx). length (spk_script (out_script_public_key t)) \<le> tv_max_script_public_key_len tv)"
  by (auto simp: check_transaction_outputs_count_def check_transaction_script_public_keys_def position_check_ok)

lemma output_classes_ok:
  "first_error (map (\<lambda>(i, t). check_output_class i t) (enumerate 0 ts)) = Inr () \<longleftrightarrow>
     (\<forall>t\<in>set ts. from_script (out_script_public_key t) = PubKeyHashMlDsa87 \<or>
        (\<exists>lock. parse_evm_deposit_lock (out_script_public_key t) = Some lock \<and> dl_claim_tip_sompi lock \<le> out_value t))"
  unfolding first_error_ok all_enumerate output_class_ok unfolding all_set_conv_all_nth ..

lemma pq_outputs_ok:
  "check_transaction_pq_output_classes tv tx = Inr () \<longleftrightarrow>
     (tv_pq_enforcement tv = Consensus \<longrightarrow>
       (\<forall>t\<in>set (tx_outputs tx).
          from_script (out_script_public_key t) = PubKeyHashMlDsa87 \<or>
          (\<exists>lock. parse_evm_deposit_lock (out_script_public_key t) = Some lock \<and> dl_claim_tip_sompi lock \<le> out_value t)))"
  by (simp add: check_transaction_pq_output_classes_def output_classes_ok)

lemma coinbase_ok:
  "check_coinbase_in_isolation tv tx = Inr () \<longleftrightarrow>
     (tx_is_coinbase tx \<longrightarrow>
        tx_inputs tx = [] \<and> tx_mass tx = 0 \<and> length (tx_outputs tx) \<le> coinbase_outputs_limit tv \<and>
        (\<forall>t\<in>set (tx_outputs tx).
           length (spk_script (out_script_public_key t)) \<le> tv_coinbase_payload_script_public_key_max_len tv))"
  by (auto simp: check_coinbase_in_isolation_def position_check_ok)

definition subnetwork_routed ::
  "dns_codec \<Rightarrow> dns_crypto \<Rightarrow> ('s, 'p) validator_externals \<Rightarrow> transaction \<Rightarrow> bool" where
  "subnetwork_routed codec cr ext tx \<longleftrightarrow>
     tx_is_coinbase tx \<or> is_native (tx_subnetwork_id tx) \<or>
     (\<exists>kind. dns_tx_kind (tx_subnetwork_id tx) = Some kind \<and> validate_dns_overlay_tx codec cr kind tx = Inr ()) \<or>
     (\<exists>kind. dns_tx_kind (tx_subnetwork_id tx) = None \<and> palw_tx_kind (tx_subnetwork_id tx) = Some kind \<and>
        ex_validate_palw_overlay_tx ext kind (tx_payload tx) (tx_outputs tx) = Inr ())"

lemma subnetwork_ok: "check_transaction_subnetwork codec cr ext tx = Inr () \<longleftrightarrow> subnetwork_routed codec cr ext tx"
  by (auto simp: check_transaction_subnetwork_def subnetwork_routed_def map_err_ok split: option.splits)

lemma isolation_accepts:
  "validate_tx_in_isolation tv codec cr ext tx = Inr () \<longleftrightarrow>
     (tx_subnetwork_id tx = SUBNETWORK_ID_PALW_BLOCK_AUTHORIZATION \<longrightarrow>
        tx_inputs tx = [] \<and> tx_outputs tx = [] \<and> tx_lock_time tx = 0 \<and> tx_mass tx = 0) \<and>
     (tx_inputs tx = [] \<longrightarrow> tx_is_coinbase tx \<or> tx_subnetwork_id tx = SUBNETWORK_ID_PALW_BLOCK_AUTHORIZATION) \<and>
     length (tx_inputs tx) \<le> tv_max_tx_inputs tv \<and>
     (\<forall>i\<in>set (tx_inputs tx). length (in_signature_script i) \<le> tv_max_signature_script_len tv) \<and>
     (\<not> tx_is_coinbase tx \<longrightarrow> length (tx_outputs tx) \<le> tv_max_tx_outputs tv) \<and>
     (\<forall>t\<in>set (tx_outputs tx). length (spk_script (out_script_public_key t)) \<le> tv_max_script_public_key_len tv) \<and>
     (tv_pq_enforcement tv = Consensus \<longrightarrow>
       (\<forall>t\<in>set (tx_outputs tx).
          from_script (out_script_public_key t) = PubKeyHashMlDsa87 \<or>
          (\<exists>lock. parse_evm_deposit_lock (out_script_public_key t) = Some lock \<and> dl_claim_tip_sompi lock \<le> out_value t))) \<and>
     (tx_is_coinbase tx \<longrightarrow>
        tx_inputs tx = [] \<and> tx_mass tx = 0 \<and> length (tx_outputs tx) \<le> coinbase_outputs_limit tv \<and>
        (\<forall>t\<in>set (tx_outputs tx).
           length (spk_script (out_script_public_key t)) \<le> tv_coinbase_payload_script_public_key_max_len tv)) \<and>
     (\<forall>t\<in>set (tx_outputs tx). 0 < out_value t) \<and> (\<Sum>t\<leftarrow>tx_outputs tx. out_value t) \<le> MAX_SOMPI \<and>
     distinct (map in_previous_outpoint (tx_inputs tx)) \<and>
     tx_gas tx = 0 \<and> tx_version tx = TX_VERSION \<and> subnetwork_routed codec cr ext tx"
proof -
  have rest: "check_transaction_output_value_ranges tx = Inr () \<longleftrightarrow>
      (\<forall>t\<in>set (tx_outputs tx). 0 < out_value t) \<and> (\<Sum>t\<leftarrow>tx_outputs tx. out_value t) \<le> MAX_SOMPI"
    "check_duplicate_transaction_inputs tx = Inr () \<longleftrightarrow> distinct (map in_previous_outpoint (tx_inputs tx))"
    "check_gas tx = Inr () \<longleftrightarrow> tx_gas tx = 0" "check_transaction_version tx = Inr () \<longleftrightarrow> tx_version tx = TX_VERSION"
    by (auto simp: check_transaction_output_value_ranges_def output_value_ranges_ok check_duplicate_transaction_inputs_def
        duplicate_inputs_ok check_gas_def check_transaction_version_def)
  show ?thesis
    unfolding validate_tx_in_isolation_def first_error_ok list.set ball_simps rest authorization_shape_ok inputs_ok outputs_ok pq_outputs_ok
      coinbase_ok subnetwork_ok
    by (simp only: simp_thms) blast
qed

text \<open>The transactions \<open>validate_transaction_in_utxo_context\<close> accepts.\<close>

lemma populated_accepted:
  fixes ext :: "('s, 'p) validator_externals"
  assumes "validate_populated_transaction_and_get_fee tv ext (populated tx es) pov flags feerate = Some (Inr fee)"
    and "length es = length (tx_inputs tx)"
  shows "(\<Sum>t\<leftarrow>tx_outputs tx. out_value t) + fee = (\<Sum>e\<leftarrow>es. ue_amount e)" "(\<Sum>e\<leftarrow>es. ue_amount e) \<le> MAX_SOMPI"
    and "flags \<noteq> SkipScriptChecks \<Longrightarrow>
      first_error [if sp_pq_only (resolved_script_policy tv pov) then check_input_script_classes (populated tx es) pov
                   else Inr (),
                   check_scripts ext (populated tx es) (resolved_script_policy tv pov)] = Inr ()"
    and "flags \<noteq> SkipMassCheck \<Longrightarrow> check_mass_commitment tv (populated tx es) = Some (Inr () :: ('s, 'p) tx_rule_error + unit)"
proof -
  note run = assms(1) [unfolded validate_populated_transaction_and_get_fee_def bind_res_ok]
  obtain sum_in where ins: "check_transaction_input_amounts (populated tx es) = (Inr sum_in :: ('s, 'p) tx_rule_error + u64)"
      and fee: "check_output_values_and_compute_fee (populated tx es) sum_in = Some (Inr fee :: ('s, 'p) tx_rule_error + u64)"
    using run by auto
  have "sum_in = (\<Sum>e\<leftarrow>es. ue_amount e)" "sum_in \<le> MAX_SOMPI"
    using ins assms(2) by (simp_all add: check_transaction_input_amounts_def input_amounts_ok)
  then show "(\<Sum>t\<leftarrow>tx_outputs tx. out_value t) + fee = (\<Sum>e\<leftarrow>es. ue_amount e)" "(\<Sum>e\<leftarrow>es. ue_amount e) \<le> MAX_SOMPI"
    using fee by (simp_all add: fee_ok)
  show "first_error [if sp_pq_only (resolved_script_policy tv pov) then check_input_script_classes (populated tx es) pov
                   else Inr (),
                   check_scripts ext (populated tx es) (resolved_script_policy tv pov)] = Inr ()"
    if "flags \<noteq> SkipScriptChecks"
    using run that by (cases flags) (auto simp: check_scripts_with_policy_def)
  show "check_mass_commitment tv (populated tx es) = Some (Inr () :: ('s, 'p) tx_rule_error + unit)"
    if "flags \<noteq> SkipMassCheck"
    using run that by auto
qed

lemma utxo_context_accepted:
  assumes "validate_transaction_in_utxo_context tv ext tx view pov flags bond_filter unbond_filter provider_filter =
    Some (Inr v)"
  obtains es fee where "v = populated tx es\<lparr>vt_calculated_fee := fee\<rparr>"
    "map (view \<circ> in_previous_outpoint) (tx_inputs tx) = map Some es"
    "first_locked bond_filter tx = None" "first_locked provider_filter tx = None"
    "validate_populated_transaction_and_get_fee tv ext (populated tx es) pov flags None = Some (Inr fee)"
  using assms
  by (auto simp: validate_transaction_in_utxo_context_def bind_res_ok populate_entries_ok split: option.splits)

section \<open>Supply\<close>

definition view_supply :: "utxo_view \<Rightarrow> nat" where
  "view_supply V = (\<Sum>p\<in>dom V. ue_amount (the (V p)))"

lemma view_supply_replace:
  assumes fin: "finite (dom V)" and sub: "S \<subseteq> dom V" and dist: "distinct (map fst xs)" and new: "fst ` set xs \<inter> dom V = {}"
  shows "view_supply ((\<lambda>p. if p \<in> S then None else V p) ++ map_of xs) + (\<Sum>p\<in>S. ue_amount (the (V p))) =
    view_supply V + (\<Sum>x\<leftarrow>xs. ue_amount (snd x))"
proof -
  let ?W = "(\<lambda>p. if p \<in> S then None else V p) ++ map_of xs"
  let ?K = "fst ` set xs"
  have dom: "dom ?W = (dom V - S) \<union> ?K"
    by (auto simp: dom_map_of_conv_image_fst split: if_splits)
  have old: "the (?W p) = the (V p)" if "p \<in> dom V - S" for p
  proof -
    have "map_of xs p = None"
      unfolding map_of_eq_None_iff using that new by blast
    then show ?thesis
      using that by (simp add: map_add_def)
  qed
  have created: "the (?W (fst x)) = snd x" if "x \<in> set xs" for x
    using map_of_is_SomeI [OF dist, of "fst x" "snd x"] that by (simp add: map_add_def)
  have "view_supply ?W = (\<Sum>p\<in>dom V - S. ue_amount (the (?W p))) + (\<Sum>p\<in>?K. ue_amount (the (?W p)))"
    unfolding view_supply_def dom by (rule sum.union_disjoint) (use fin new in auto)
  also have "(\<Sum>p\<in>dom V - S. ue_amount (the (?W p))) = (\<Sum>p\<in>dom V - S. ue_amount (the (V p)))"
    by (rule sum.cong) (simp_all only: old)
  also have "(\<Sum>p\<in>?K. ue_amount (the (?W p))) = (\<Sum>x\<leftarrow>xs. ue_amount (the (?W (fst x))))"
    using sum.distinct_set_conv_list [OF dist, of "\<lambda>p. ue_amount (the (?W p))"] by (simp add: comp_def)
  also have "\<dots> = (\<Sum>x\<leftarrow>xs. ue_amount (snd x))"
    by (rule arg_cong [of _ _ sum_list], rule map_cong) (simp_all only: created)
  finally have "view_supply ?W = (\<Sum>p\<in>dom V - S. ue_amount (the (V p))) + (\<Sum>x\<leftarrow>xs. ue_amount (snd x))" .
  moreover have "view_supply V = (\<Sum>p\<in>dom V - S. ue_amount (the (V p))) + (\<Sum>p\<in>S. ue_amount (the (V p)))"
    unfolding view_supply_def using fin sub by (rule sum.subset_diff [rotated])
  ultimately show ?thesis
    by simp
qed

lemma created_amounts: "(\<Sum>x\<leftarrow>created_utxos tx s. ue_amount (snd x)) = (\<Sum>t\<leftarrow>tx_outputs tx. out_value t)"
proof -
  have "map (\<lambda>x. ue_amount (snd x)) (created_utxos tx s) = map (out_value \<circ> snd) (enumerate 0 (tx_outputs tx))"
    by (simp add: created_utxos_def utxo_entry_of_output_def comp_def case_prod_beta)
  then show ?thesis
    unfolding map_map [symmetric] map_snd_enumerate by (rule arg_cong)
qed

lemma spent_amounts:
  assumes "distinct (map in_previous_outpoint is)" and "map (V \<circ> in_previous_outpoint) is = map Some es"
  shows "(\<Sum>p\<in>in_previous_outpoint ` set is. ue_amount (the (V p))) = (\<Sum>e\<leftarrow>es. ue_amount e)"
proof -
  have "(\<Sum>p\<in>in_previous_outpoint ` set is. ue_amount (the (V p))) =
      (\<Sum>o'\<leftarrow>map (V \<circ> in_previous_outpoint) is. ue_amount (the o'))"
    using sum.distinct_set_conv_list [OF assms(1), of "\<lambda>p. ue_amount (the (V p))"] by (simp add: comp_def)
  then show ?thesis
    unfolding assms(2) by (simp add: comp_def)
qed

section \<open>Validation never aborts\<close>

text \<open>
  An entry the validator can process without overflow: it holds at least one sompi per storage unit, its harmonic term
  is computable, and its DAA score leaves room for the maturity and for a relative lock.
\<close>

definition safe_entry :: "transaction_validator \<Rightarrow> utxo_entry \<Rightarrow> bool" where
  "safe_entry tv e \<longleftrightarrow>
     utxo_plurality (ue_script_public_key e) \<le> ue_amount e \<and>
     mc_storage_mass_parameter (tv_mass_calculator tv) * utxo_plurality (ue_script_public_key e) *
       utxo_plurality (ue_script_public_key e) \<le> u64_max \<and>
     ue_block_daa_score e + tv_coinbase_maturity tv \<le> u64_max \<and> ue_block_daa_score e + 2 ^ 32 < 2 ^ 63"

lemma maturity_runs:
  "\<forall>(i, e)\<in>set ies. ue_block_daa_score e + m \<le> u64_max \<Longrightarrow> coinbase_maturity_from m pov k ies \<noteq> None"
  by (induction m pov k ies rule: coinbase_maturity_from.induct) (auto simp: fit64_def split: option.splits)

lemma relative_lock_less: "in_sequence i AND SEQUENCE_LOCK_TIME_MASK < 2 ^ 32"
proof -
  have "SEQUENCE_LOCK_TIME_MASK = mask 32"
    by (simp add: SEQUENCE_LOCK_TIME_MASK_def mask_eq_exp_minus_1)
  then have "in_sequence i AND SEQUENCE_LOCK_TIME_MASK = take_bit 32 (in_sequence i)"
    by (simp only: take_bit_eq_mask)
  then show ?thesis
    using take_bit_nat_less_exp [of 32 "in_sequence i"] by simp
qed

lemma lock_daa_score_runs:
  assumes "ue_block_daa_score e + 2 ^ 32 < 2 ^ 63"
  shows "lock_daa_score i e = Some (int (ue_block_daa_score e) + int (in_sequence i AND SEQUENCE_LOCK_TIME_MASK) - 1)"
  using assms relative_lock_less [of i]
  by (simp add: lock_daa_score_def as_i64_def fit_i64_def)

lemma any_locked_runs:
  "\<forall>(i, e)\<in>set ies. ue_block_daa_score e + 2 ^ 32 < 2 ^ 63 \<Longrightarrow> any_locked pov ies \<noteq> None"
  by (induction pov ies rule: any_locked.induct) (auto simp: lock_daa_score_runs)

lemma plurality_le: "utxo_plurality spk \<le> length (spk_script spk) + 2"
  by (simp add: utxo_plurality_def UTXO_CONST_STORAGE_def UTXO_UNIT_SIZE_def HASH64_SIZE_def)

lemma plurality_sum_bound:
  assumes "\<forall>t\<in>set ts. length (spk_script (out_script_public_key t)) \<le> m"
  shows "plurality_sum (map cell_of_output ts) \<le> length ts * (m + 2)"
  using assms
proof (induction ts)
  case (Cons t ts)
  have "utxo_plurality (out_script_public_key t) \<le> m + 2"
    using plurality_le [of "out_script_public_key t"] Cons.prems by simp
  then show ?case
    using Cons by (simp add: cell_of_output_def)
qed simp

lemma contextual_masses_run:
  assumes safe: "\<forall>e\<in>set es. safe_entry tv e" and len: "length es = length (tx_inputs tx)"
    and amounts: "(\<Sum>e\<leftarrow>es. ue_amount e) \<le> u64_max" and cb: "\<not> tx_is_coinbase tx"
    and outs: "\<forall>t\<in>set (tx_outputs tx). 0 < out_value t" "plurality_sum (map cell_of_output (tx_outputs tx)) \<le> u64_max"
    and none: "tx_inputs tx = [] \<Longrightarrow> tx_outputs tx = []"
  shows "calc_contextual_masses (tv_mass_calculator tv) (populated tx es) \<noteq> None"
proof (cases "es = []")
  case True
  then have "tx_outputs tx = []"
    using none len by simp
  then show ?thesis
    using True by (simp add: calc_contextual_masses_def calc_storage_mass_def relaxed_formula_path_def fit64_def)
next
  case False
  let ?C = "mc_storage_mass_parameter (tv_mass_calculator tv)"
  let ?ins = "map cell_of_entry es"
  have ins: "map (cell_of_entry \<circ> snd) (populated_inputs (populated tx es)) = ?ins"
    unfolding map_map [symmetric] using len by simp
  have "plurality_sum ?ins \<le> amount_sum ?ins"
    using safe by (induction es) (auto simp: cell_of_entry_def safe_entry_def intro!: add_mono)
  moreover have "amount_sum ?ins = (\<Sum>e\<leftarrow>es. ue_amount e)"
    by (simp add: amount_sum_def cell_of_entry_def comp_def)
  moreover have "proper_cell c" if "c \<in> set (?ins @ map cell_of_output (tx_outputs tx))" for c
  proof -
    have "0 < ue_amount e" if "e \<in> set es" for e
      using safe that utxo_plurality_pos [of "ue_script_public_key e"] by (auto simp: safe_entry_def intro: less_le_trans)
    then show ?thesis
      using that outs(1) by (auto simp: proper_cell_def cell_of_entry_def cell_of_output_def utxo_plurality_pos)
  qed
  moreover have "\<forall>c\<in>set ?ins. ?C * uc_plurality c * uc_plurality c \<le> u64_max"
    using safe by (auto simp: safe_entry_def cell_of_entry_def)
  ultimately have "calc_storage_mass False ?ins (map cell_of_output (tx_outputs tx)) ?C \<noteq> None"
    using storage_mass_exact [of ?ins "map cell_of_output (tx_outputs tx)" ?C] False amounts outs(2) by auto
  then show ?thesis
    using cb unfolding calc_contextual_masses_def ins by simp
qed

section \<open>The spends of an accepted transaction\<close>

text \<open>Under post-quantum enforcement every spend of an accepted transaction is of an ML-DSA-87 output or of an expired
  deposit lock, was run by the script engine under the PQ-only policy, and does not touch a bond the spend filter locks.\<close>

lemma accepted_spends:
  fixes ext :: "('s, 'p) validator_externals"
  assumes acc: "validate_transaction_in_utxo_context tv ext tx view pov flags (Some (locks bonds daa)) uf pf = Some (Inr v)"
    and flags: "flags \<noteq> SkipScriptChecks"
    and pq: "tv_pq_enforcement tv = Consensus" "tv_pq_activation_daa_score tv \<le> pov"
    and k: "k < length (tx_inputs tx)"
  shows "\<exists>entry. view (in_previous_outpoint (tx_inputs tx ! k)) = Some entry \<and>
    (from_script (ue_script_public_key entry) = PubKeyHashMlDsa87 \<or>
     (\<exists>lock. parse_evm_deposit_lock (ue_script_public_key entry) = Some lock \<and> dl_timeout_daa_score lock \<le> pov)) \<and>
    ex_run_script ext PQ_ONLY tx (vt_entries v) k = Inr () \<and> vt_entries v ! k = entry \<and>
    \<not> locks bonds daa (in_previous_outpoint (tx_inputs tx ! k))"
proof -
  obtain es fee where v: "v = populated tx es\<lparr>vt_calculated_fee := fee\<rparr>"
      and es: "map (view \<circ> in_previous_outpoint) (tx_inputs tx) = map Some es"
      and unlocked: "first_locked (Some (locks bonds daa)) tx = None"
      and fee: "validate_populated_transaction_and_get_fee tv ext (populated tx es) pov flags None = Some (Inr fee)"
    by (rule utxo_context_accepted [OF acc])
  have len: "length es = length (tx_inputs tx)"
    using arg_cong [OF es, of length] by simp
  have entry: "view (in_previous_outpoint (tx_inputs tx ! k)) = Some (es ! k)"
    using arg_cong [OF es, of "\<lambda>xs. xs ! k"] k len by simp
  have policy: "resolved_script_policy tv pov = PQ_ONLY" "sp_pq_only PQ_ONLY"
    using pq by (simp_all add: resolved_script_policy_def PQ_ONLY_def)
  have checks: "check_input_script_classes (populated tx es) pov = (Inr () :: ('s, 'p) tx_rule_error + unit)"
      "check_scripts ext (populated tx es) PQ_ONLY = Inr ()"
    using populated_accepted(3) [OF fee len flags] policy by (simp_all add: first_error_ok)
  have "(tx_inputs tx ! k, es ! k) \<in> set (zip (tx_inputs tx) es)"
    using k len by (auto simp: set_zip)
  then have pq_class: "from_script (ue_script_public_key (es ! k)) = PubKeyHashMlDsa87 \<or>
     (\<exists>lock. parse_evm_deposit_lock (ue_script_public_key (es ! k)) = Some lock \<and> dl_timeout_daa_score lock \<le> pov)"
    using checks(1) unfolding input_classes_ok populated_simps by blast
  have run: "ex_run_script ext PQ_ONLY tx es k = Inr ()"
    using checks(2) k len by (simp add: check_scripts_ok)
  have "\<not> locks bonds daa (in_previous_outpoint (tx_inputs tx ! k))"
    using unlocked k unfolding first_locked_ok by simp
  then show ?thesis
    using entry pq_class run by (simp add: v)
qed

section \<open>A payment that is accepted\<close>

definition sample_pq_spk :: script_public_key where
  "sample_pq_spk = p2pkh_mldsa87_spk (replicate 64 7)"

definition sample_coin :: utxo_entry where
  "sample_coin = \<lparr>ue_amount = 1000000000, ue_script_public_key = sample_pq_spk, ue_block_daa_score = 5, ue_is_coinbase = False\<rparr>"

definition sample_payment_view :: utxo_view where
  "sample_payment_view = [sample_outpoint 0 \<mapsto> sample_coin]"

text \<open>Two pushes with \<open>OpPushData2\<close>, of an all-zero signature with its type and of an all-zero key.\<close>

definition sample_signature_script :: bytes where
  "sample_signature_script = [0x4d, 0x14, 0x12] @ replicate 4627 0 @ [1] @ [0x4d, 0x20, 0x0a] @ replicate 2592 0"

definition sample_payment_input :: transaction_input where
  "sample_payment_input =
     \<lparr>in_previous_outpoint = sample_outpoint 0, in_signature_script = sample_signature_script, in_sequence = 0, in_sig_op_count = 1\<rparr>"

definition sample_payment_output :: transaction_output where
  "sample_payment_output = \<lparr>out_value = 900000000, out_script_public_key = sample_pq_spk\<rparr>"

definition sample_payment :: transaction where
  "sample_payment =
     \<lparr>tx_version = 0, tx_inputs = [sample_payment_input], tx_outputs = [sample_payment_output], tx_lock_time = 0,
      tx_subnetwork_id = SUBNETWORK_ID_NATIVE, tx_gas = 0, tx_payload = [], tx_mass = 444, tx_id = sample_hash 1\<rparr>"

definition sample_tx_validator :: transaction_validator where
  "sample_tx_validator =
     \<lparr>tv_max_tx_inputs = 1000, tv_max_tx_outputs = 1000, tv_max_signature_script_len = 10000,
      tv_max_script_public_key_len = 10000, tv_coinbase_payload_script_public_key_max_len = 150, tv_coinbase_maturity = 100,
      tv_ghostdag_k = 18,
      tv_mass_calculator = \<lparr>mc_mass_per_tx_byte = 1, mc_mass_per_script_pub_key_byte = 10, mc_mass_per_sig_op = 1000,
        mc_storage_mass_parameter = 1000000000000\<rparr>,
      tv_pq_enforcement = Consensus, tv_pq_activation_daa_score = 0, tv_palw_lane_present = False\<rparr>"

definition sample_externals :: "(unit, unit) validator_externals" where
  "sample_externals = \<lparr>ex_run_script = (\<lambda>_ _ _ _. Inr ()), ex_validate_palw_overlay_tx = (\<lambda>_ _ _. Inr ())\<rparr>"

lemma sample_pq_class: "from_script sample_pq_spk = PubKeyHashMlDsa87" "length (spk_script sample_pq_spk) = 69"
proof -
  show "from_script sample_pq_spk = PubKeyHashMlDsa87"
    unfolding p2pkh_spk_iff sample_pq_spk_def by (rule exI [of _ "replicate 64 7"]) simp
  show "length (spk_script sample_pq_spk) = 69"
    by (simp add: sample_pq_spk_def p2pkh_mldsa87_spk_def)
qed

lemma sample_payment_native:
  "\<not> tx_is_coinbase sample_payment" "is_native (tx_subnetwork_id sample_payment)"
  "tx_subnetwork_id sample_payment \<noteq> SUBNETWORK_ID_PALW_BLOCK_AUTHORIZATION"
  by (simp_all add: sample_payment_def tx_is_coinbase_def is_native_def SUBNETWORK_ID_PALW_BLOCK_AUTHORIZATION_def
      subnetwork_id_defs)

lemma sample_payment_isolated:
  "validate_tx_in_isolation sample_tx_validator sample_codec sample_verifier sample_externals sample_payment = Inr ()"
  unfolding isolation_accepts
  using sample_payment_native sample_pq_class
  by (simp add: sample_tx_validator_def subnetwork_routed_def)
     (simp add: sample_payment_def sample_payment_output_def sample_payment_input_def sample_signature_script_def MAX_SOMPI_def TX_VERSION_def)

lemma sample_payment_accepted_by:
  fixes ext :: "('s, 'p) validator_externals"
  assumes run: "ex_run_script ext PQ_ONLY sample_payment [sample_coin] 0 = Inr ()"
  shows "validate_transaction_in_utxo_context sample_tx_validator ext sample_payment sample_payment_view 20 Full
     (Some (locks [] 20)) None None =
   Some (Inr (populated sample_payment [sample_coin]\<lparr>vt_calculated_fee := 100000000\<rparr>))"
proof -
  let ?v = "populated sample_payment [sample_coin]"
  have pop: "populate_entries sample_payment_view (tx_inputs sample_payment) = Some [sample_coin]"
    by (simp add: sample_payment_view_def sample_payment_def sample_payment_input_def)
  have ins: "populated_inputs ?v = [(sample_payment_input, sample_coin)]"
    by (simp add: sample_payment_def)
  have plur: "utxo_plurality sample_pq_spk = 2"
    by (rule standard_output_plurality) (rule sample_pq_class)
  have "calc_contextual_masses (tv_mass_calculator sample_tx_validator) ?v = Some (Some 444)"
  proof -
    let ?i = "[sample_cell 1000000000]" and ?o = "[sample_cell 900000000]"
    have cells: "map (cell_of_entry \<circ> snd) (populated_inputs ?v) = ?i" "map cell_of_output (tx_outputs (vt_tx ?v)) = ?o"
      unfolding ins
      by (simp_all add: cell_of_entry_def cell_of_output_def sample_coin_def sample_payment_def sample_payment_output_def
          sample_cell_def plur)
    have "calc_storage_mass False ?i ?o 1000000000000 =
        Some (if outputs_computable 1000000000000 ?o then Some (kip9_mass 1000000000000 ?i ?o) else None)"
      by (rule storage_mass_exact) (simp_all add: proper_cell_def u64_max_def)
    moreover have "outputs_computable 1000000000000 ?o" "kip9_mass 1000000000000 ?i ?o = 444"
      by (simp_all add: outputs_computable_def u64_max_def kip9_mass_def)
    ultimately show ?thesis
      using sample_payment_native(1) unfolding calc_contextual_masses_def cells by (simp add: sample_tx_validator_def)
  qed
  then have mass: "check_mass_commitment sample_tx_validator ?v = Some (Inr ())"
    by (simp add: check_mass_commitment_def sample_payment_def)
  have seq: "check_sequence_lock ?v 20 = Some (Inr ())"
  proof -
    have "lock_daa_score sample_payment_input sample_coin = Some 4"
      by (simp add: lock_daa_score_runs sample_coin_def sample_payment_input_def)
    then show ?thesis
      unfolding check_sequence_lock_def ins
      by (simp add: as_i64_def sample_payment_input_def SEQUENCE_LOCK_TIME_DISABLED_def)
  qed
  have rest: "check_transaction_coinbase_maturity sample_tx_validator ?v 20 = Some (Inr ())"
    "check_transaction_input_amounts ?v = Inr 1000000000"
    "check_output_values_and_compute_fee ?v 1000000000 = Some (Inr 100000000)"
    unfolding check_transaction_coinbase_maturity_def check_transaction_input_amounts_def ins
    by (simp_all add: sample_coin_def input_amounts_ok MAX_SOMPI_def fee_ok sample_payment_def sample_payment_output_def u64_max_def
        del: input_amounts.simps)
  have classes: "check_input_script_classes ?v 20 = (Inr () :: ('s, 'p) tx_rule_error + unit)"
    unfolding input_classes_ok ins using sample_pq_class(1) by (simp add: sample_coin_def)
  have scripts: "check_scripts_with_policy sample_tx_validator ext ?v 20 = Inr ()"
    using run by (simp add: check_scripts_with_policy_def check_scripts_ok resolved_script_policy_def sample_tx_validator_def
        sample_payment_def)
  have "validate_populated_transaction_and_get_fee sample_tx_validator ext ?v 20 Full None = Some (Inr 100000000)"
    by (simp add: validate_populated_transaction_and_get_fee_def bind_res_def rest mass seq classes scripts
        check_feerate_threshold_def first_error.simps)
  moreover have "first_locked (Some (locks [] 20)) sample_payment = None" "first_locked None sample_payment = None"
    by (simp_all add: first_locked_ok locks_def hm_get_def) (simp add: first_locked_def)
  ultimately show ?thesis
    by (simp add: validate_transaction_in_utxo_context_def pop bind_res_def)
qed

lemmas sample_payment_accepted = sample_payment_accepted_by [of sample_externals, simplified sample_externals_def, simplified,
  folded sample_externals_def]

section \<open>Properties\<close>

text \<open>C4. Accepting a transaction conserves the supply. If a transaction other than the coinbase passes the checks in
  isolation and in UTXO context against the composed view, its id is fresh there and the output limit is
  representable, then applying it to the diff succeeds, and the amount held by the new view plus the fee is the amount
  held by the old one.\<close>

theorem accepted_transaction_conserves_supply:
  assumes iso: "validate_tx_in_isolation tv codec cr ext tx = Inr ()"
    and acc: "validate_transaction_in_utxo_context tv ext tx (composed_get V d) pov flags bf uf pf = Some (Inr v)"
    and cb: "\<not> tx_is_coinbase tx" and limit: "tv_max_tx_outputs tv \<le> 2 ^ 32"
    and valid: "diff_valid V d" and fin: "finite (dom (composed_get V d))"
    and fresh: "\<And>i. composed_get V d (outpoint (tx_id tx) i) = None"
    and agree: "entries_agree V (created_utxos tx s)"
  shows "\<exists>d'. add_transaction v s d = Inr d' \<and> diff_valid V d' \<and>
    view_supply (composed_get V d') + vt_calculated_fee v = view_supply (composed_get V d)"
proof -
  obtain es fee where v: "v = populated tx es\<lparr>vt_calculated_fee := fee\<rparr>"
      and es: "map (composed_get V d \<circ> in_previous_outpoint) (tx_inputs tx) = map Some es"
      and fee: "validate_populated_transaction_and_get_fee tv ext (populated tx es) pov flags None = Some (Inr fee)"
    by (rule utxo_context_accepted [OF acc])
  have len: "length es = length (tx_inputs tx)"
    using arg_cong [OF es, of length] by simp
  have conserve: "(\<Sum>t\<leftarrow>tx_outputs tx. out_value t) + fee = (\<Sum>e\<leftarrow>es. ue_amount e)"
    by (rule populated_accepted [OF fee len])
  have dist: "distinct (map in_previous_outpoint (tx_inputs tx))" and outs: "length (tx_outputs tx) \<le> 2 ^ 32"
    using iso cb limit unfolding isolation_accepts by simp_all
  have vt: "vt_tx v = tx" "vt_entries v = es" "vt_calculated_fee v = fee" "populated_inputs v = zip (tx_inputs tx) es"
    by (simp_all add: v populated_def populated_inputs_def)
  have nth: "composed_get V d (in_previous_outpoint (tx_inputs tx ! k)) = Some (es ! k)" if "k < length es" for k
    using arg_cong [OF es, of "\<lambda>xs. xs ! k"] that len by simp
  obtain d' where d': "add_transaction v s d = Inr d'" "diff_valid V d'" "composed_get V d' =
       (\<lambda>p. if p \<in> in_previous_outpoint ` set (tx_inputs tx) then None else composed_get V d p)
       ++ map_of (created_utxos tx s)"
    by (rule add_transaction_refines [of V d v s]) (use valid dist len outs fresh agree nth in \<open>auto simp: vt set_zip\<close>)
  have sub: "in_previous_outpoint ` set (tx_inputs tx) \<subseteq> dom (composed_get V d)"
    using nth len by (auto simp: in_set_conv_nth)
  have new: "fst ` set (created_utxos tx s) \<inter> dom (composed_get V d) = {}"
    using fresh by (auto simp: created_utxos_def)
  have "view_supply (composed_get V d') + (\<Sum>e\<leftarrow>es. ue_amount e) =
      view_supply (composed_get V d) + (\<Sum>t\<leftarrow>tx_outputs tx. out_value t)"
    using view_supply_replace [OF fin sub distinct_created_utxos [OF outs] new] unfolding d'(3)
    by (simp add: spent_amounts [OF dist es] created_amounts)
  then show ?thesis
    using d' conserve vt(3) by auto
qed

theorem accepted_transaction_conserves_supply_witness:
  "\<exists>d'. add_transaction (populated sample_payment [sample_coin]\<lparr>vt_calculated_fee := 100000000\<rparr>) 21 utxo_diff_default = Inr d' \<and>
     view_supply (composed_get sample_payment_view d') = 900000000"
proof -
  have "\<exists>d'. add_transaction (populated sample_payment [sample_coin]\<lparr>vt_calculated_fee := 100000000\<rparr>) 21 utxo_diff_default = Inr d' \<and>
      diff_valid sample_payment_view d' \<and>
      view_supply (composed_get sample_payment_view d') +
        vt_calculated_fee (populated sample_payment [sample_coin]\<lparr>vt_calculated_fee := 100000000\<rparr>) =
      view_supply (composed_get sample_payment_view utxo_diff_default)"
  proof (rule accepted_transaction_conserves_supply
      [OF sample_payment_isolated, where pov = 20 and flags = Full and bf = "Some (locks [] 20)" and uf = None and pf = None])
    show "validate_transaction_in_utxo_context sample_tx_validator sample_externals sample_payment
        (composed_get sample_payment_view utxo_diff_default) 20 Full (Some (locks [] 20)) None None =
      Some (Inr (populated sample_payment [sample_coin]\<lparr>vt_calculated_fee := 100000000\<rparr>))"
      unfolding default_composed by (rule sample_payment_accepted)
    show "tv_max_tx_outputs sample_tx_validator \<le> 2 ^ 32"
      by (simp add: sample_tx_validator_def)
    show "finite (dom (composed_get sample_payment_view utxo_diff_default))"
      by (simp add: default_composed sample_payment_view_def)
    show "composed_get sample_payment_view utxo_diff_default (outpoint (tx_id sample_payment) i) = None" for i
      by (simp add: default_composed sample_payment_view_def sample_payment_def)
    show "entries_agree sample_payment_view (created_utxos sample_payment 21)"
      by (auto simp: entries_agree_def sample_payment_view_def sample_payment_def created_utxos_def hm_get_def split: if_splits)
  qed (rule sample_payment_native default_valid)+
  moreover have "view_supply sample_payment_view = 1000000000"
    by (simp add: view_supply_def sample_payment_view_def sample_coin_def)
  ultimately show ?thesis
    by (auto simp: default_composed)
qed

text \<open>C33. The isolation checks accept exactly the transactions they describe: the canonical shape of a block
  authorization, inputs (only a coinbase or an authorization has none), sizes within the limits, post-quantum output
  classes under consensus enforcement, the coinbase shape, positive outputs whose sum is within the supply cap,
  distinct inputs, no gas, the current version, and a subnetwork that is native, coinbase or a valid overlay payload.\<close>

theorem isolation_accepts_exactly:
  "validate_tx_in_isolation tv codec cr ext tx = Inr () \<longleftrightarrow>
     (tx_subnetwork_id tx = SUBNETWORK_ID_PALW_BLOCK_AUTHORIZATION \<longrightarrow>
        tx_inputs tx = [] \<and> tx_outputs tx = [] \<and> tx_lock_time tx = 0 \<and> tx_mass tx = 0) \<and>
     (tx_inputs tx = [] \<longrightarrow> tx_is_coinbase tx \<or> tx_subnetwork_id tx = SUBNETWORK_ID_PALW_BLOCK_AUTHORIZATION) \<and>
     length (tx_inputs tx) \<le> tv_max_tx_inputs tv \<and>
     (\<forall>i\<in>set (tx_inputs tx). length (in_signature_script i) \<le> tv_max_signature_script_len tv) \<and>
     (\<not> tx_is_coinbase tx \<longrightarrow> length (tx_outputs tx) \<le> tv_max_tx_outputs tv) \<and>
     (\<forall>t\<in>set (tx_outputs tx). length (spk_script (out_script_public_key t)) \<le> tv_max_script_public_key_len tv) \<and>
     (tv_pq_enforcement tv = Consensus \<longrightarrow>
       (\<forall>t\<in>set (tx_outputs tx).
          from_script (out_script_public_key t) = PubKeyHashMlDsa87 \<or>
          (\<exists>lock. parse_evm_deposit_lock (out_script_public_key t) = Some lock \<and> dl_claim_tip_sompi lock \<le> out_value t))) \<and>
     (tx_is_coinbase tx \<longrightarrow>
        tx_inputs tx = [] \<and> tx_mass tx = 0 \<and> length (tx_outputs tx) \<le> coinbase_outputs_limit tv \<and>
        (\<forall>t\<in>set (tx_outputs tx).
           length (spk_script (out_script_public_key t)) \<le> tv_coinbase_payload_script_public_key_max_len tv)) \<and>
     (\<forall>t\<in>set (tx_outputs tx). 0 < out_value t) \<and> (\<Sum>t\<leftarrow>tx_outputs tx. out_value t) \<le> MAX_SOMPI \<and>
     distinct (map in_previous_outpoint (tx_inputs tx)) \<and>
     tx_gas tx = 0 \<and> tx_version tx = TX_VERSION \<and> subnetwork_routed codec cr ext tx"
  by (rule isolation_accepts)

theorem isolation_accepts_exactly_witness:
  "validate_tx_in_isolation sample_tx_validator sample_codec sample_verifier sample_externals sample_payment = Inr () \<and>
   validate_tx_in_isolation sample_tx_validator sample_codec sample_verifier sample_externals
     (sample_payment\<lparr>tx_inputs := [sample_payment_input, sample_payment_input]\<rparr>) \<noteq> Inr ()"
  unfolding isolation_accepts_exactly
  using sample_payment_isolated [unfolded isolation_accepts] by simp

text \<open>C29. Validation in UTXO context always returns: for a transaction that passed the isolation checks, on a view of
  safe entries and with limits whose product fits in 64 bits, no addition, multiplication or division of the
  maturity, amount, mass and sequence-lock checks aborts; the outcome is a rule error or a validated transaction.\<close>

theorem utxo_validation_never_aborts:
  fixes ext :: "('s, 'p) validator_externals"
  assumes iso: "validate_tx_in_isolation tv codec cr ext tx = Inr ()" and cb: "\<not> tx_is_coinbase tx"
    and safe: "\<And>p e. view p = Some e \<Longrightarrow> safe_entry tv e"
    and limits: "tv_max_tx_outputs tv * (tv_max_script_public_key_len tv + 2) \<le> u64_max"
  shows "\<exists>r. validate_transaction_in_utxo_context tv ext tx view pov flags bf uf pf = Some r"
proof -
  have iso': "length (tx_outputs tx) \<le> tv_max_tx_outputs tv" "\<forall>t\<in>set (tx_outputs tx). 0 < out_value t"
      "\<forall>t\<in>set (tx_outputs tx). length (spk_script (out_script_public_key t)) \<le> tv_max_script_public_key_len tv"
      "(\<Sum>t\<leftarrow>tx_outputs tx. out_value t) \<le> MAX_SOMPI" "tx_inputs tx = [] \<Longrightarrow> tx_outputs tx = []"
    using iso cb unfolding isolation_accepts by auto
  have max: "MAX_SOMPI \<le> u64_max"
    by (simp add: MAX_SOMPI_def u64_max_def)
  have outs: "plurality_sum (map cell_of_output (tx_outputs tx)) \<le> u64_max"
    using plurality_sum_bound [OF iso'(3)] mult_le_mono1 [OF iso'(1), of "tv_max_script_public_key_len tv + 2"] limits by linarith
  have run: "validate_populated_transaction_and_get_fee tv ext (populated tx es) pov flags None \<noteq> None"
    if es: "map (view \<circ> in_previous_outpoint) (tx_inputs tx) = map Some es" for es
  proof -
    have len: "length es = length (tx_inputs tx)"
      using arg_cong [OF es, of length] by simp
    have safe': "\<forall>e\<in>set es. safe_entry tv e"
      using safe arg_cong [OF es, of set] by (metis (no_types, lifting) comp_apply imageE imageI list.set_map)
    have zip: "(i, e) \<in> set (zip (tx_inputs tx) es) \<Longrightarrow> safe_entry tv e" for i e
      using safe' by (meson set_zip_rightD)
    have mat: "check_transaction_coinbase_maturity tv (populated tx es) pov \<noteq> (None :: ('s, 'p, unit) tx_outcome)"
      unfolding check_transaction_coinbase_maturity_def populated_simps
      by (rule maturity_runs) (use zip in \<open>auto simp: safe_entry_def\<close>)
    have lock: "check_sequence_lock (populated tx es) pov \<noteq> (None :: ('s, 'p, unit) tx_outcome)"
    proof -
      have "any_locked (as_i64 pov) (zip (tx_inputs tx) es) \<noteq> None"
        by (rule any_locked_runs) (use zip in \<open>auto simp: safe_entry_def\<close>)
      then show ?thesis
        by (auto simp: check_sequence_lock_def)
    qed
    have mass: "check_mass_commitment tv (populated tx es) \<noteq> (None :: ('s, 'p, unit) tx_outcome)"
      if "check_transaction_input_amounts (populated tx es) = (Inr sum_in :: ('s, 'p) tx_rule_error + u64)" for sum_in
    proof -
      have "(\<Sum>e\<leftarrow>es. ue_amount e) \<le> u64_max"
        using that len max by (simp add: check_transaction_input_amounts_def input_amounts_ok)
      then have "calc_contextual_masses (tv_mass_calculator tv) (populated tx es) \<noteq> None"
        by (rule contextual_masses_run [OF safe' len _ cb iso'(2) outs iso'(5)])
      then show ?thesis
        by (auto simp: check_mass_commitment_def split: option.splits)
    qed
    have fee: "check_output_values_and_compute_fee (populated tx es) sum_in \<noteq> (None :: ('s, 'p, u64) tx_outcome)" for sum_in
      using iso'(4) max by (simp add: check_output_values_and_compute_fee_def fit64_def)
    show ?thesis
      unfolding validate_populated_transaction_and_get_fee_def
      by (intro bind_res_runs) (use mat lock mass fee in \<open>auto simp: check_feerate_threshold_def\<close>)
  qed
  have "bind_res (validate_populated_transaction_and_get_fee tv ext (populated tx es) pov flags None) (\<lambda>fee. Some (Inr (f fee))) \<noteq> None"
    if "populate_entries view (tx_inputs tx) = Some es" for es and f :: "u64 \<Rightarrow> validated_transaction"
    by (rule bind_res_runs [OF run]) (use that in \<open>auto simp: populate_entries_ok\<close>)
  then show ?thesis
    unfolding validate_transaction_in_utxo_context_def by (simp split: option.split)
qed

theorem utxo_validation_never_aborts_witness:
  "\<exists>r. validate_transaction_in_utxo_context sample_tx_validator sample_externals sample_payment sample_payment_view 3 Full
     None None None = Some r"
proof (rule utxo_validation_never_aborts [OF sample_payment_isolated sample_payment_native(1)])
  have "utxo_plurality sample_pq_spk = 2"
    by (rule standard_output_plurality) (rule sample_pq_class)
  then show "safe_entry sample_tx_validator e" if "sample_payment_view p = Some e" for p e
    using that
    by (auto simp: sample_payment_view_def safe_entry_def sample_coin_def sample_tx_validator_def u64_max_def split: if_splits)
  show "tv_max_tx_outputs sample_tx_validator * (tv_max_script_public_key_len sample_tx_validator + 2) \<le> u64_max"
    by (simp add: sample_tx_validator_def u64_max_def)
qed

end
