(* ===== verification/Script_Acceptance.thy ===== *)
theory Script_Acceptance
  imports Script_Spend Tx_Acceptance
begin

text \<open>
  The script engine inside the transaction validator. \<open>check_scripts_sequential\<close> of
  \<open>tx_validation_in_utxo_context.rs\<close> runs the engine on every input and hands the signature cache on; it refines the
  check of \<open>Tx_Validator\<close> with the engine without a cache in place of its parameter. The properties follow: the cache
  never decides, a spend needs exactly its signature, and an accepted transaction has one for every input.
\<close>

section \<open>Running all inputs\<close>

fun check_inputs ::
  "script_crypto \<Rightarrow> script_policy \<Rightarrow> validated_transaction \<Rightarrow> (nat \<times> transaction_input \<times> utxo_entry) list \<Rightarrow> sig_cache \<Rightarrow>
   ((tx_script_error, 'p) tx_rule_error + sig_cache) option" where
  "check_inputs kx policy tx [] cache = Some (Inr cache)"
| "check_inputs kx policy tx ((i, input, entry) # rest) cache =
     (case from_transaction_input kx policy cache tx input i entry of
        None \<Rightarrow> None
      | Some (env, v) \<Rightarrow>
          (case execute env v of
             Inl err \<Rightarrow> Some (Inl (map_script_err err input))
           | Inr v' \<Rightarrow> check_inputs kx policy tx rest (vm_sig_cache v')))"

definition check_scripts_sequential ::
  "script_crypto \<Rightarrow> sig_cache \<Rightarrow> validated_transaction \<Rightarrow> script_policy \<Rightarrow> ((tx_script_error, 'p) tx_rule_error + sig_cache) option" where
  "check_scripts_sequential kx cache tx policy = check_inputs kx policy tx (enumerate 0 (populated_inputs tx)) cache"

text \<open>The engine as the script check of the validator; each input sees the cache at its time. The validator asks for
  inputs of the transaction only, so the failed assertion does not arise.\<close>

definition engine_run :: "script_crypto \<Rightarrow> (usize \<Rightarrow> sig_cache) \<Rightarrow> script_policy \<Rightarrow> transaction \<Rightarrow> utxo_entry list \<Rightarrow> usize \<Rightarrow> tx_script_error + unit" where
  "engine_run kx caches policy tx es i =
     (case run_input kx policy (caches i) (populated tx es) i of
        None \<Rightarrow> Inl NoScripts
      | Some r \<Rightarrow> map_ok (\<lambda>_. ()) r)"

definition engine_externals ::
  "script_crypto \<Rightarrow> (usize \<Rightarrow> sig_cache) \<Rightarrow> (u8 \<Rightarrow> bytes \<Rightarrow> transaction_output list \<Rightarrow> 'p + unit) \<Rightarrow> (tx_script_error, 'p) validator_externals" where
  "engine_externals kx caches overlay = \<lparr>ex_run_script = engine_run kx caches, ex_validate_palw_overlay_tx = overlay\<rparr>"

section \<open>The cache never decides\<close>

lemma agree_unit: "agree_vm kx r r' \<Longrightarrow> map_ok (\<lambda>_. ()) r = map_ok (\<lambda>_. ()) r'"
  by (cases r) simp_all

lemma from_input_cases:
  assumes "i < length (tx_inputs (vt_tx tx))"
  obtains env v where "from_transaction_input kx policy cache tx input i entry = Some (env, v)" "sv_crypto env = kx"
    "vm_sig_cache v = cache" "from_transaction_input kx policy no_cache tx input i entry = Some (env, forget v)"
  using assms by (simp add: from_transaction_input_def forget_def with_cache_def)

lemma run_input_agrees:
  assumes "digests_decide kx" and "cache_sound kx cache" and i: "i < length (tx_inputs (vt_tx tx))"
  obtains r r' where "run_input kx policy cache tx i = Some r" "run_input kx policy no_cache tx i = Some r'" "agree_vm kx r r'"
proof -
  obtain env v where v: "from_transaction_input kx policy cache tx (tx_inputs (vt_tx tx) ! i) i (vt_entries tx ! i) = Some (env, v)"
    "sv_crypto env = kx" "vm_sig_cache v = cache"
    "from_transaction_input kx policy no_cache tx (tx_inputs (vt_tx tx) ! i) i (vt_entries tx ! i) = Some (env, forget v)"
    by (rule from_input_cases [OF i])
  show ?thesis
    by (rule that [of "execute env v" "execute env (forget v)"])
      (use v agree_execute [of env v] assms in \<open>simp_all add: run_input_def\<close>)
qed

lemma engine_run_uncached:
  assumes "digests_decide kx" and "cache_sound kx (caches i)" and "i < length (tx_inputs tx)"
  shows "engine_run kx caches policy tx es i = engine_run kx (\<lambda>_. no_cache) policy tx es i"
proof -
  obtain r r' where "run_input kx policy (caches i) (populated tx es) i = Some r"
    "run_input kx policy no_cache (populated tx es) i = Some r'" "agree_vm kx r r'"
    by (rule run_input_agrees [of kx "caches i" i "populated tx es" policy]) (use assms in simp_all)
  then show ?thesis
    using agree_unit [of kx r r'] by (simp add: engine_run_def)
qed

lemma check_inputs_refines:
  fixes tx :: transaction and es :: "utxo_entry list" and rest :: "(nat \<times> transaction_input \<times> utxo_entry) list"
  assumes decide: "digests_decide kx"
  shows "cache_sound kx cache \<Longrightarrow>
    (\<And>i input entry. (i, input, entry) \<in> set rest \<Longrightarrow> i < length (tx_inputs tx) \<and> input = tx_inputs tx ! i \<and> entry = es ! i) \<Longrightarrow>
    \<exists>r. check_inputs kx policy (populated tx es) rest cache = Some r \<and> (\<forall>c. r = Inr c \<longrightarrow> cache_sound kx c) \<and>
      map_ok (\<lambda>_. ()) r = (first_error (map (\<lambda>(i, input, entry).
        case engine_run kx (\<lambda>_. no_cache) policy tx es i of Inl e \<Rightarrow> Inl (map_script_err e input) | Inr _ \<Rightarrow> Inr ()) rest)
          :: (tx_script_error, 'p) tx_rule_error + unit)"
proof (induction rest arbitrary: cache)
  case (Cons x rest)
  obtain i input entry where x: "x = (i, input, entry)"
    by (cases x)
  then have i: "i < length (tx_inputs (vt_tx (populated tx es)))" and own: "input = tx_inputs tx ! i" "entry = es ! i"
    using Cons.prems(2) [of i input entry] by simp_all
  obtain env v where v: "from_transaction_input kx policy cache (populated tx es) input i entry = Some (env, v)" "sv_crypto env = kx"
    "vm_sig_cache v = cache" "from_transaction_input kx policy no_cache (populated tx es) input i entry = Some (env, forget v)"
    by (rule from_input_cases [OF i])
  have run: "engine_run kx (\<lambda>_. no_cache) policy tx es i = map_ok (\<lambda>_. ()) (execute env (forget v))"
    using v(4) own by (simp add: engine_run_def run_input_def)
  have agree: "agree_vm kx (execute env v) (execute env (forget v))"
    using agree_execute [of env v] v decide Cons.prems(1) by simp
  show ?case
  proof (cases "execute env v")
    case (Inl e)
    then show ?thesis
      using agree by (simp add: x v(1) run first_error.simps)
  next
    case (Inr w)
    then have w: "cache_sound kx (vm_sig_cache w)" "engine_run kx (\<lambda>_. no_cache) policy tx es i = Inr ()"
      using agree run by simp_all
    have "\<And>i input entry. (i, input, entry) \<in> set rest \<Longrightarrow> i < length (tx_inputs tx) \<and> input = tx_inputs tx ! i \<and> entry = es ! i"
      by (rule Cons.prems(2)) simp
    from Cons.IH [OF w(1) this] show ?thesis
      using Inr w(2) by (simp add: x v(1) first_error.simps)
  qed
qed (simp add: first_error.simps)

section \<open>Which signature spends an output\<close>

text \<open>The public key hash that owns an output of a post-quantum class: the payee, or the refund key of a deposit lock.\<close>

definition spend_payload :: "script_public_key \<Rightarrow> bytes option" where
  "spend_payload spk =
     (case from_script spk of
        PubKeyHashMlDsa87 \<Rightarrow> Some (take 64 (drop 3 (spk_script spk)))
      | EvmDepositLock \<Rightarrow> Some (take 64 (drop 42 (spk_script spk)))
      | _ \<Rightarrow> None)"

lemma spend_payload_p2pkh: "length payload = 64 \<Longrightarrow> spend_payload (p2pkh_mldsa87_spk payload) = Some payload"
  using p2pkh_spk_iff [of "p2pkh_mldsa87_spk payload"] by (auto simp: spend_payload_def) (simp add: p2pkh_mldsa87_spk_def)

lemma deposit_lock_shape:
  assumes "from_script spk = EvmDepositLock"
  obtains data payload where "length data = 36" "length payload = 64" "spend_payload spk = Some payload"
    "spk = \<lparr>spk_version = MAX_SCRIPT_PUBLIC_KEY_VERSION,
           spk_script = [OpNop, OpData36] @ data @ [OpDrop] @ spk_script (p2pkh_mldsa87_spk payload)\<rparr>"
proof -
  let ?s = "spk_script spk"
  have lock: "is_evm_deposit_lock ?s" "spk_version spk = MAX_SCRIPT_PUBLIC_KEY_VERSION"
    using assms by (auto simp: from_script_def Let_def split: if_splits)
  then obtain payload where p: "length payload = 64" "drop 39 ?s = [OpDup, OpBlake2b512, OpData64] @ payload @ [OpEqualVerify, OpCheckSigMlDsa87]"
    by (auto simp: is_evm_deposit_lock_def is_p2pkh_iff)
  have len: "length ?s = 108" and heads: "?s ! 0 = OpNop" "?s ! 1 = OpData36" "?s ! 38 = OpDrop"
    using lock(1) by (simp_all add: is_evm_deposit_lock_def)
  let ?data = "take 36 (drop 2 ?s)"
  have "?s = take 2 ?s @ ?data @ [?s ! 38] @ drop 39 ?s"
  proof -
    have "drop 36 (drop 2 ?s) = ?s ! 38 # drop 39 ?s"
      using Cons_nth_drop_Suc [of 38 ?s] len by simp
    then show ?thesis
      by (metis append_Cons append_Nil append_take_drop_id)
  qed
  moreover have "take 2 ?s = [OpNop, OpData36]"
    using len heads by (auto simp: list_eq_iff_nth_eq less_Suc_eq numeral_2_eq_2)
  ultimately have s: "?s = [OpNop, OpData36] @ ?data @ [OpDrop] @ spk_script (p2pkh_mldsa87_spk payload)"
    using heads(3) p(2) by (simp add: p2pkh_mldsa87_spk_def opcode_defs)
  have "drop 42 ?s = drop 3 (drop 39 ?s)"
    by simp
  then have "spend_payload spk = Some payload"
    using assms p by (simp add: spend_payload_def)
  then show ?thesis
    using that [of ?data payload] len p(1) s lock(2) by (cases spk) simp
qed

text \<open>The engine without a cache on an output of a post-quantum class.\<close>

lemma pq_spend_uncached:
  assumes i: "i < length (tx_inputs (vt_tx tx))"
    and payload: "spend_payload (ue_script_public_key (vt_entries tx ! i)) = Some payload"
  shows "(\<exists>w. run_input kx policy no_cache tx i = Some (Inr w)) \<longleftrightarrow> 0 < in_sig_op_count (tx_inputs (vt_tx tx) ! i) \<and>
    mldsa87_unlocks kx tx i payload (in_signature_script (tx_inputs (vt_tx tx) ! i))"
proof -
  let ?spk = "ue_script_public_key (vt_entries tx ! i)"
  consider "from_script ?spk = PubKeyHashMlDsa87" | "from_script ?spk = EvmDepositLock"
    using payload by (auto simp: spend_payload_def split: script_class.splits)
  then show ?thesis
  proof cases
    case 1
    then obtain p where p: "length p = 64" "?spk = p2pkh_mldsa87_spk p"
      unfolding p2pkh_spk_iff by blast
    then have "p = payload"
      using payload spend_payload_p2pkh [OF p(1)] by simp
    then show ?thesis
      using mldsa87_template_spend [OF i, of payload] p by blast
  next
    case 2
    then obtain data p where "length data = 36" "length p = 64" "spend_payload ?spk = Some p"
      "?spk = \<lparr>spk_version = MAX_SCRIPT_PUBLIC_KEY_VERSION, spk_script = [OpNop, OpData36] @ data @ [OpDrop] @ spk_script (p2pkh_mldsa87_spk p)\<rparr>"
      by (rule deposit_lock_shape)
    then show ?thesis
      using mldsa87_template_spend [OF i, of p] payload by auto
  qed
qed

lemma run_input_accepts:
  assumes "digests_decide kx" and "cache_sound kx cache" and "i < length (tx_inputs (vt_tx tx))"
  shows "(\<exists>w. run_input kx policy cache tx i = Some (Inr w)) \<longleftrightarrow> (\<exists>w. run_input kx policy no_cache tx i = Some (Inr w))"
proof -
  obtain r r' where "run_input kx policy cache tx i = Some r" "run_input kx policy no_cache tx i = Some r'" "agree_vm kx r r'"
    by (rule run_input_agrees [OF assms])
  then show ?thesis
    by (cases r) auto
qed

section \<open>Sample data\<close>

text \<open>A digest without collisions, one address for every key, and a verifier that knows one signature.\<close>

definition sample_script_crypto :: script_crypto where
  "sample_script_crypto = \<lparr>kx_sha256 = (\<lambda>b. b), kx_blake2b_256 = (\<lambda>b. b), kx_blake2b_512 = (\<lambda>b. b),
     kx_address_payload = (\<lambda>_. Hash64 (replicate 64 7)), kx_signing_hash = Hash64,
     kx_verify = (\<lambda>key msg ctx sig. sig = replicate 4627 0), kx_gen_range = (\<lambda>_. 0)\<rparr>"

lemma sample_script_crypto_decides: "digests_decide sample_script_crypto"
  by (simp add: digests_decide_def sample_script_crypto_def)

lemma empty_cache_sound: "cache_sound kx \<lparr>sc_size = n, sc_map = []\<rparr>"
  by (simp add: cache_sound_def)

lemma no_cache_sound: "cache_sound kx no_cache"
  by (simp add: cache_sound_def no_cache_def)

lemma sample_spend_payload: "spend_payload (ue_script_public_key sample_coin) = Some (replicate 64 7)"
  by (simp add: sample_coin_def sample_pq_spk_def spend_payload_p2pkh)

lemma sample_unlocks: "mldsa87_unlocks sample_script_crypto tx i (replicate 64 7) sample_signature_script"
  unfolding mldsa87_unlocks_def
proof (intro exI conjI)
  show "sample_signature_script = push_data_2 (replicate 4627 0 @ [1]) @ push_data_2 (replicate 2592 0)"
    by (simp add: sample_signature_script_def push_data_2_def code_defs numeral_2_eq_2)
qed (simp_all add: MLDSA87_SIG_LEN_def MLDSA87_PK_LEN_def ALLOWED_SIG_HASH_TYPES_VALUES_def SIG_HASH_ALL_def sample_script_crypto_def)

lemma sample_input: "tx_inputs sample_payment = [sample_payment_input]" "in_sig_op_count sample_payment_input = 1"
  "in_signature_script sample_payment_input = sample_signature_script"
  by (simp_all add: sample_payment_def sample_payment_input_def)

lemma sample_engine_accepts:
  "ex_run_script (engine_externals sample_script_crypto (\<lambda>_. \<lparr>sc_size = 2, sc_map = []\<rparr>) overlay) PQ_ONLY sample_payment [sample_coin] 0 = Inr ()"
proof -
  have "\<exists>w. run_input sample_script_crypto PQ_ONLY no_cache (populated sample_payment [sample_coin]) 0 = Some (Inr w)"
    using pq_spend_uncached [of 0 "populated sample_payment [sample_coin]" "replicate 64 7" sample_script_crypto PQ_ONLY] sample_spend_payload
      sample_unlocks by (simp add: sample_input)
  then show ?thesis
    using engine_run_uncached [OF sample_script_crypto_decides, of "\<lambda>_. \<lparr>sc_size = 2, sc_map = []\<rparr>" 0 sample_payment PQ_ONLY "[sample_coin]"]
    by (auto simp: engine_externals_def engine_run_def empty_cache_sound sample_input)
qed

section \<open>Properties\<close>

text \<open>C8. The signature cache cannot change what a transaction validates to. If every cached result is the verifier's and
  keys and signatures with equal digests verify alike, then checking the inputs one after the other with the cache,
  evictions included, returns what the engine without a cache returns for them, errors included, and leaves a cache in
  which every result is again the verifier's.\<close>

theorem signature_cache_is_transparent:
  fixes tx :: transaction and es :: "utxo_entry list" and overlay :: "u8 \<Rightarrow> bytes \<Rightarrow> transaction_output list \<Rightarrow> 'p + unit"
  assumes "digests_decide kx" and "cache_sound kx cache" and len: "length es = length (tx_inputs tx)"
  shows "\<exists>r. check_scripts_sequential kx cache (populated tx es) policy = Some r \<and>
    map_ok (\<lambda>_. ()) r = check_scripts (engine_externals kx (\<lambda>_. no_cache) overlay) (populated tx es) policy \<and>
    (\<forall>c. r = Inr c \<longrightarrow> cache_sound kx c)"
proof -
  have "i < length (tx_inputs tx) \<and> input = tx_inputs tx ! i \<and> entry = es ! i"
    if "(i, input, entry) \<in> set (enumerate 0 (populated_inputs (populated tx es)))" for i input entry
    using that len by (auto simp: in_set_enumerate_eq)
  from check_inputs_refines [where 'p = 'p and policy = policy, OF assms(1,2) this]
  obtain r where "check_inputs kx policy (populated tx es) (enumerate 0 (populated_inputs (populated tx es))) cache = Some r"
    "\<forall>c. r = Inr c \<longrightarrow> cache_sound kx c"
    "map_ok (\<lambda>_. ()) r = check_scripts (engine_externals kx (\<lambda>_. no_cache) overlay) (populated tx es) policy"
    by (auto simp: check_scripts_def engine_externals_def)
  then show ?thesis
    unfolding check_scripts_sequential_def by blast
qed

theorem signature_cache_is_transparent_witness:
  "\<exists>r. check_scripts_sequential sample_script_crypto \<lparr>sc_size = 2, sc_map = []\<rparr> (populated sample_payment [sample_coin]) PQ_ONLY = Some r \<and>
    map_ok (\<lambda>_. ()) r = check_scripts (engine_externals sample_script_crypto (\<lambda>_. no_cache) (\<lambda>_ _ _. Inr ()))
      (populated sample_payment [sample_coin]) PQ_ONLY \<and>
    (\<forall>c. r = Inr c \<longrightarrow> cache_sound sample_script_crypto c)"
  by (rule signature_cache_is_transparent [OF sample_script_crypto_decides empty_cache_sound]) (simp add: sample_input)

text \<open>C6. An output of a post-quantum class is spent by its signature and by nothing else. On an output paying to a
  public key hash, or on a deposit lock with its refund key hash, the engine accepts an input precisely when the input
  commits to at least one signature operation and its signature script is the push of an ML-DSA-87 signature with an
  allowed type followed by the push of a public key, the key hashes to the payload of the output, and the signature
  verifies for the transaction under that key. No other signature script is accepted for such an output.\<close>

theorem pq_spend_needs_exactly_its_signature:
  assumes "digests_decide kx" and "cache_sound kx cache" and "i < length (tx_inputs (vt_tx tx))"
    and "spend_payload (ue_script_public_key (vt_entries tx ! i)) = Some payload"
  shows "(\<exists>w. run_input kx policy cache tx i = Some (Inr w)) \<longleftrightarrow>
    0 < in_sig_op_count (tx_inputs (vt_tx tx) ! i) \<and>
    mldsa87_unlocks kx tx i payload (in_signature_script (tx_inputs (vt_tx tx) ! i))"
  using run_input_accepts [OF assms(1-3)] pq_spend_uncached [OF assms(3,4)] by simp

theorem pq_spend_needs_exactly_its_signature_witness:
  "\<exists>w. run_input sample_script_crypto PQ_ONLY \<lparr>sc_size = 2, sc_map = []\<rparr> (populated sample_payment [sample_coin]) 0 = Some (Inr w)"
  using pq_spend_needs_exactly_its_signature [OF sample_script_crypto_decides empty_cache_sound, of 0 "populated sample_payment [sample_coin]"
      "replicate 64 7" PQ_ONLY 2] sample_spend_payload sample_unlocks
  by (simp add: sample_input)

text \<open>C5. Every spend of an accepted transaction carries an ML-DSA-87 signature of its owner. With the script engine
  running the scripts, each input seeing some sound state of the shared cache, a transaction accepted in UTXO context
  under post-quantum enforcement spends only existing outputs, each by a signature that verifies under a key with the
  hash the output names, none of a bond the spend filter locks, and none of an EVM deposit before its timeout.\<close>

theorem accepted_spends_carry_signatures:
  assumes acc: "validate_transaction_in_utxo_context tv (engine_externals kx caches overlay) tx view pov flags
      (Some (locks bonds daa)) uf pf = Some (Inr v)"
    and flags: "flags \<noteq> SkipScriptChecks"
    and pq: "tv_pq_enforcement tv = Consensus" "tv_pq_activation_daa_score tv \<le> pov"
    and decide: "digests_decide kx" and sound: "\<And>i. cache_sound kx (caches i)"
    and k: "k < length (tx_inputs tx)"
  shows "\<exists>entry payload. view (in_previous_outpoint (tx_inputs tx ! k)) = Some entry \<and>
    spend_payload (ue_script_public_key entry) = Some payload \<and> vt_entries v ! k = entry \<and>
    mldsa87_unlocks kx (populated tx (vt_entries v)) k payload (in_signature_script (tx_inputs tx ! k)) \<and>
    \<not> locks bonds daa (in_previous_outpoint (tx_inputs tx ! k)) \<and>
    (\<forall>lock. parse_evm_deposit_lock (ue_script_public_key entry) = Some lock \<longrightarrow> dl_timeout_daa_score lock \<le> pov)"
proof -
  obtain entry where entry: "view (in_previous_outpoint (tx_inputs tx ! k)) = Some entry"
    and cl: "from_script (ue_script_public_key entry) = PubKeyHashMlDsa87 \<or>
      (\<exists>lock. parse_evm_deposit_lock (ue_script_public_key entry) = Some lock \<and> dl_timeout_daa_score lock \<le> pov)"
    and run: "engine_run kx caches PQ_ONLY tx (vt_entries v) k = Inr ()"
    and free: "\<not> locks bonds daa (in_previous_outpoint (tx_inputs tx ! k))" and own: "vt_entries v ! k = entry"
    using accepted_spends [OF acc flags pq k] by (auto simp: engine_externals_def)
  have "from_script (ue_script_public_key entry) = PubKeyHashMlDsa87 \<or> from_script (ue_script_public_key entry) = EvmDepositLock"
    using cl by (auto simp: parse_evm_deposit_lock_def split: if_splits)
  then obtain payload where payload: "spend_payload (ue_script_public_key entry) = Some payload"
    by (auto simp: spend_payload_def)
  have "engine_run kx (\<lambda>_. no_cache) PQ_ONLY tx (vt_entries v) k = Inr ()"
    using engine_run_uncached [OF decide sound k] run by simp
  then obtain w where "run_input kx PQ_ONLY no_cache (populated tx (vt_entries v)) k = Some (Inr w)"
    by (auto simp: engine_run_def map_ok_def split: option.splits sum.splits)
  then have "mldsa87_unlocks kx (populated tx (vt_entries v)) k payload (in_signature_script (tx_inputs tx ! k))"
    using pq_spend_uncached [of k "populated tx (vt_entries v)" payload kx PQ_ONLY] k payload own by auto
  moreover have "\<forall>lock. parse_evm_deposit_lock (ue_script_public_key entry) = Some lock \<longrightarrow> dl_timeout_daa_score lock \<le> pov"
    using cl by (auto simp: parse_evm_deposit_lock_def)
  ultimately show ?thesis
    using entry payload free own by blast
qed

theorem accepted_spends_carry_signatures_witness:
  "\<exists>entry payload. sample_payment_view (in_previous_outpoint (tx_inputs sample_payment ! 0)) = Some entry \<and>
    spend_payload (ue_script_public_key entry) = Some payload \<and>
    vt_entries (populated sample_payment [sample_coin]\<lparr>vt_calculated_fee := 100000000\<rparr>) ! 0 = entry \<and>
    mldsa87_unlocks sample_script_crypto
      (populated sample_payment (vt_entries (populated sample_payment [sample_coin]\<lparr>vt_calculated_fee := 100000000\<rparr>))) 0 payload
      (in_signature_script (tx_inputs sample_payment ! 0)) \<and>
    \<not> locks [] 20 (in_previous_outpoint (tx_inputs sample_payment ! 0)) \<and>
    (\<forall>lock. parse_evm_deposit_lock (ue_script_public_key entry) = Some lock \<longrightarrow> dl_timeout_daa_score lock \<le> 20)"
  by (rule accepted_spends_carry_signatures [OF sample_payment_accepted_by [OF sample_engine_accepts] _ _ _ sample_script_crypto_decides empty_cache_sound])
    (simp_all add: sample_tx_validator_def sample_input)

end
