(* ===== verification/Script_Multisig.thy ===== *)
theory Script_Multisig
  imports Script_Acceptance "HOL-Library.Sublist"
begin

text \<open>
  Multisignature scripts and the policy against legacy signatures. \<open>op_check_multisig\<close> walks through the keys once; the
  lemmas show that this greedy walk finds an assignment of signatures to keys in order whenever there is one. A run
  under the PQ-only policy fails on every script with a legacy signature opcode, executed or not.
\<close>

section \<open>Greedy matching\<close>

fun greedy_match :: "('s \<Rightarrow> 'k \<Rightarrow> bool) \<Rightarrow> 's list \<Rightarrow> 'k list \<Rightarrow> bool" where
  "greedy_match R [] ks = True"
| "greedy_match R (s # ss) [] = False"
| "greedy_match R (s # ss) (k # ks) = (if R s k then greedy_match R ss ks else greedy_match R (s # ss) ks)"

lemma greedy_sound: "greedy_match R ss ks \<Longrightarrow> \<exists>ks'. subseq ks' ks \<and> list_all2 R ss ks'"
proof (induction R ss ks rule: greedy_match.induct)
  case (3 R s ss k ks)
  show ?case
  proof (cases "R s k")
    case True
    then obtain ks' where "subseq ks' ks" "list_all2 R ss ks'"
      using 3 by auto
    then show ?thesis
      using True by (intro exI [of _ "k # ks'"]) simp
  next
    case False
    then obtain ks' where "subseq ks' ks" "list_all2 R (s # ss) ks'"
      using 3 by auto
    then show ?thesis
      by (auto intro: list_emb_Cons)
  qed
qed auto

lemma greedy_complete: "subseq ks' ks \<Longrightarrow> list_all2 R ss ks' \<Longrightarrow> greedy_match R ss ks"
proof (induction R ss ks arbitrary: ks' rule: greedy_match.induct)
  case (3 R s ss k ks)
  obtain k' ks'' where ks': "ks' = k' # ks''" "R s k'" "list_all2 R ss ks''"
    using "3.prems"(2) by (cases ks') auto
  have sub: "subseq ks'' ks"
    using "3.prems"(1) unfolding ks'(1) by (metis subseq_Cons' subseq_Cons2_iff)
  show ?case
  proof (cases "R s k")
    case True
    then show ?thesis
      using "3.IH"(1) [OF True sub ks'(3)] by simp
  next
    case False
    then have "k' \<noteq> k"
      using ks'(2) by auto
    then have "subseq ks' ks"
      using "3.prems"(1) unfolding ks'(1) by (metis subseq_Cons2_neq)
    then show ?thesis
      using "3.IH"(2) [OF False _ "3.prems"(2)] False by simp
  qed
qed (auto dest: list_emb_Nil2)

lemma greedy_iff: "greedy_match R ss ks \<longleftrightarrow> (\<exists>ks'. subseq ks' ks \<and> list_all2 R ss ks')"
  using greedy_sound greedy_complete by blast

lemma greedy_length: "greedy_match R ss ks \<Longrightarrow> length ss \<le> length ks"
  by (induction R ss ks rule: greedy_match.induct) (auto split: if_splits)

lemma greedy_dropWhile:
  "greedy_match R (s # ss) ks \<longleftrightarrow> dropWhile (\<lambda>k. \<not> R s k) ks \<noteq> [] \<and> greedy_match R ss (tl (dropWhile (\<lambda>k. \<not> R s k) ks))"
  by (induction ks) auto

section \<open>The multisignature check\<close>

definition signature_matches :: "script_crypto \<Rightarrow> validated_transaction \<Rightarrow> usize \<Rightarrow> bytes \<Rightarrow> bytes \<Rightarrow> bool" where
  "signature_matches kx tx idx s key =
     kx_verify kx key (as_bytes (calc_mldsa87_signature_hash (kx_signing_hash kx) (vt_tx tx) (vt_entries tx) idx (last s)))
       MLDSA87_TX_CONTEXT (butlast s)"

definition proper_signature :: "bytes \<Rightarrow> bool" where
  "proper_signature s \<longleftrightarrow> length s = MLDSA87_SIG_LEN + 1 \<and> last s \<in> set ALLOWED_SIG_HASH_TYPES_VALUES"

lemma match_key_uncached:
  assumes env: "sv_source env = TxInput tx input idx entry p2sh" and sig: "length (butlast s) = MLDSA87_SIG_LEN" and "0 < needed"
  shows "vm_sig_cache v = no_cache \<Longrightarrow> \<forall>k\<in>set keys. length k = MLDSA87_PK_LEN \<Longrightarrow> length keys \<le> so_remaining (vm_sig_ops v) \<Longrightarrow>
    (let rest = dropWhile (\<lambda>k. \<not> signature_matches (sv_crypto env) tx idx s k) keys
     in \<exists>w. vm_sig_cache w = no_cache \<and> vm_dstack w = vm_dstack v \<and>
          (if rest \<noteq> [] \<and> needed \<le> length rest
           then match_key env MlDsa87 (last s) (butlast s) needed keys v = Inr (Some (tl rest), w) \<and>
                length (tl rest) \<le> so_remaining (vm_sig_ops w)
           else match_key env MlDsa87 (last s) (butlast s) needed keys v = Inr (None, w)))"
proof (induction keys arbitrary: v)
  case Nil
  then show ?case
    by (auto simp: Let_def)
next
  case (Cons k keys)
  show ?case
  proof (cases "length (k # keys) < needed")
    case True
    then have "length (dropWhile (\<lambda>k. \<not> signature_matches (sv_crypto env) tx idx s k) (k # keys)) < needed"
      by (meson length_dropWhile_le le_less_trans)
    then show ?thesis
      using True Cons.prems(1) unfolding Let_def by (intro exI [of _ v]) auto
  next
    case False
    let ?v = "v\<lparr>vm_sig_ops := (vm_sig_ops v)\<lparr>so_remaining := so_remaining (vm_sig_ops v) - 1\<rparr>\<rparr>"
    have check: "check_signature env MlDsa87 (last s) k (butlast s) v = Inr (signature_matches (sv_crypto env) tx idx s k, ?v)"
      using check_mldsa87_uncached [OF env Cons.prems(1), of "last s" k "butlast s"] Cons.prems(2,3) sig
      by (simp add: check_signature_def signature_matches_def)
    have step: "match_key env MlDsa87 (last s) (butlast s) needed (k # keys) v =
        (if signature_matches (sv_crypto env) tx idx s k then Inr (Some keys, ?v)
         else match_key env MlDsa87 (last s) (butlast s) needed keys ?v)"
      using False by (simp add: check)
    show ?thesis
    proof (cases "signature_matches (sv_crypto env) tx idx s k")
      case True
      then show ?thesis
        using False Cons.prems(1,3) unfolding Let_def by (intro exI [of _ ?v]) (auto simp: check)
    next
      case no: False
      then have drop: "dropWhile (\<lambda>k. \<not> signature_matches (sv_crypto env) tx idx s k) (k # keys) =
          dropWhile (\<lambda>k. \<not> signature_matches (sv_crypto env) tx idx s k) keys"
        by simp
      have step': "match_key env MlDsa87 (last s) (butlast s) needed (k # keys) v = match_key env MlDsa87 (last s) (butlast s) needed keys ?v"
        unfolding step by (simp only: no if_False)
      have same: "vm_dstack v = vm_dstack ?v"
        by simp
      show ?thesis
        unfolding Let_def drop step' same by (rule Cons.IH [unfolded Let_def]) (use Cons.prems in simp_all)
    qed
  qed
qed

lemma match_signatures_uncached:
  assumes env: "sv_source env = TxInput tx input idx entry p2sh"
  shows "vm_sig_cache v = no_cache \<Longrightarrow> \<forall>k\<in>set keys. length k = MLDSA87_PK_LEN \<Longrightarrow> \<forall>s\<in>set sigs. proper_signature s \<Longrightarrow>
    length keys \<le> so_remaining (vm_sig_ops v) \<Longrightarrow>
    \<exists>w. match_signatures env MlDsa87 sigs keys v = Inr (\<not> greedy_match (signature_matches (sv_crypto env) tx idx) sigs keys, w) \<and>
      vm_dstack w = vm_dstack v"
proof (induction sigs arbitrary: keys v)
  case (Cons s sigs)
  let ?R = "signature_matches (sv_crypto env) tx idx"
  let ?rest = "dropWhile (\<lambda>k. \<not> ?R s k) keys"
  have s: "s \<noteq> []" "length (butlast s) = MLDSA87_SIG_LEN" "sig_hash_type_from_u8 (last s) = Some (last s)"
    using Cons.prems(3) by (auto simp: proper_signature_def sig_hash_type_from_u8_def)
  obtain w where w: "vm_sig_cache w = no_cache" "vm_dstack w = vm_dstack v"
    and key: "if ?rest \<noteq> [] \<and> length (s # sigs) \<le> length ?rest
      then match_key env MlDsa87 (last s) (butlast s) (length (s # sigs)) keys v = Inr (Some (tl ?rest), w) \<and>
        length (tl ?rest) \<le> so_remaining (vm_sig_ops w)
      else match_key env MlDsa87 (last s) (butlast s) (length (s # sigs)) keys v = Inr (None, w)"
    using match_key_uncached [OF env s(2), of "length (s # sigs)" v keys] Cons.prems unfolding Let_def by auto
  show ?case
  proof (cases "?rest \<noteq> [] \<and> length (s # sigs) \<le> length ?rest")
    case True
    note key' = key [unfolded if_P [OF True]]
    have "set (tl ?rest) \<subseteq> set keys"
      using True by (meson list.set_sel(2) set_dropWhileD subsetI)
    then have keys: "\<forall>k\<in>set (tl ?rest). length k = MLDSA87_PK_LEN"
      using Cons.prems(2) by blast
    obtain x where "match_signatures env MlDsa87 sigs (tl ?rest) w = Inr (\<not> greedy_match ?R sigs (tl ?rest), x)" "vm_dstack x = vm_dstack w"
      using Cons.IH [OF w(1) keys] Cons.prems(3) key' by auto
    then show ?thesis
      using True key' w(2) s unfolding greedy_dropWhile [of ?R s] by simp
  next
    case False
    then have "\<not> greedy_match ?R (s # sigs) keys"
      using greedy_length [of ?R sigs "tl ?rest"] unfolding greedy_dropWhile [of ?R s] by (cases ?rest) auto
    then show ?thesis
      using key [unfolded if_not_P [OF False]] w(2) s by simp
  qed
qed simp

lemma small_number:
  assumes "n \<le> 20"
  shows "pop_ints 4 1 (st @ [serialize_i64 (int n)]) = Inr ([int n], st)"
proof -
  have "length (serialize_i64 (int n)) \<le> 4"
    using assms by (simp add: serialize_i64_def number_bytes.simps Let_def)
  then show ?thesis
    using assms deserialize_serialize [of "int n"] by (simp add: pop_ints_def pop_raw_def deserialize_sized_def)
qed

lemma pop_all: "pop_raw (length xs) (st @ xs) = Inr (xs, st)"
  by (simp add: pop_raw_def)

definition multisig_stack :: "script_stack \<Rightarrow> bytes list \<Rightarrow> bytes list \<Rightarrow> script_stack" where
  "multisig_stack st sigs keys = st @ sigs @ [serialize_i64 (int (length sigs))] @ keys @ [serialize_i64 (int (length keys))]"

lemma multisig_uncached:
  assumes env: "sv_source env = TxInput tx input idx entry p2sh" and cache: "vm_sig_cache v = no_cache"
    and stack: "vm_dstack v = multisig_stack st sigs keys" and sigs: "\<forall>s\<in>set sigs. proper_signature s"
    and keys: "\<forall>k\<in>set keys. length k = MLDSA87_PK_LEN"
    and counts: "length sigs \<le> length keys" "length keys \<le> MAX_PUB_KEYS_PER_MUTLTISIG" "length keys \<le> so_remaining (vm_sig_ops v)"
      "vm_num_ops v + length keys \<le> MAX_OPS_PER_SCRIPT"
  shows "if \<exists>ks. subseq ks keys \<and> list_all2 (signature_matches (sv_crypto env) tx idx) sigs ks
    then \<exists>w. op_check_multisig env MlDsa87 v = Inr w \<and> vm_dstack w = st @ [[1]]
    else op_check_multisig env MlDsa87 v = Inl NullFail"
proof -
  let ?m = "length sigs" and ?n = "length keys" and ?g = "greedy_match (signature_matches (sv_crypto env) tx idx) sigs keys"
  let ?v = "v\<lparr>vm_dstack := st, vm_num_ops := vm_num_ops v + ?n\<rparr>"
  have n: "?n \<le> 20" "?m \<le> 20"
    using counts by (simp_all add: MAX_PUB_KEYS_PER_MUTLTISIG_def)
  have first: "pop_ints 4 1 (vm_dstack v) = Inr ([int ?n], (st @ sigs @ [serialize_i64 (int ?m)]) @ keys)"
    using small_number [OF n(1), of "(st @ sigs @ [serialize_i64 (int ?m)]) @ keys"] by (simp add: stack multisig_stack_def)
  have second: "pop_ints 4 1 (st @ sigs @ [serialize_i64 (int ?m)]) = Inr ([int ?m], st @ sigs)"
    using small_number [OF n(2), of "st @ sigs"] by simp
  have body: "op_check_multisig env MlDsa87 v =
      try_then (match_signatures env MlDsa87 sigs keys ?v) (\<lambda>(failed, w).
        if failed \<and> (\<exists>sig\<in>set sigs. sig \<noteq> []) then Inl NullFail else Inr (w\<lparr>vm_dstack := push_bool (\<not> failed) (vm_dstack w)\<rparr>))"
    unfolding op_check_multisig_def first using n counts
    by (simp add: pop_all [of keys "st @ sigs @ [serialize_i64 (int ?m)]", simplified] second [simplified] pop_all
        MAX_PUB_KEYS_PER_MUTLTISIG_def)
  obtain w where w: "match_signatures env MlDsa87 sigs keys ?v = Inr (\<not> ?g, w)" "vm_dstack w = st"
    using match_signatures_uncached [OF env, of ?v keys sigs] cache sigs keys counts(3) by auto
  have "\<exists>sig\<in>set sigs. sig \<noteq> []" if "\<not> ?g"
    using that sigs by (cases sigs) (auto simp: proper_signature_def)
  then show ?thesis
    unfolding greedy_iff [symmetric] body using w by (auto simp: push_bool_def serialize_bool_def)
qed

section \<open>Legacy signatures\<close>

lemma run_opcodes_no_legacy:
  "sp_pq_only (sv_policy env) \<Longrightarrow> run_opcodes env push rs v = Inr w \<Longrightarrow> Inr opc \<in> set rs \<Longrightarrow> \<not> is_legacy_signature_opcode (oc_value opc)"
proof (induction rs arbitrary: v)
  case (Cons r rs)
  obtain opc' x where r: "r = Inr opc'" "run_opcode env push opc' v = Inr x" "run_opcodes env push rs x = Inr w"
    using Cons.prems(2) by (auto simp: try_then_ok)
  then have "\<not> is_legacy_signature_opcode (oc_value opc')"
    using Cons.prems(1) by (auto simp: run_opcode_def split: if_splits)
  then show ?case
    using Cons.IH [OF Cons.prems(1) r(3)] Cons.prems(3) r(1) by auto
qed simp

lemma execute_script_no_legacy:
  assumes "sp_pq_only (sv_policy env)" and "execute_script env script push v = Inr w" and "Inr opc \<in> set (parse_script script)"
  shows "\<not> is_legacy_signature_opcode (oc_value opc)"
  using run_opcodes_no_legacy [OF assms(1) _ assms(3)] assms(2) by (auto simp: execute_script_def try_then_ok)

lemma run_scripts_no_legacy:
  "sp_pq_only (sv_policy env) \<Longrightarrow> run_scripts env p2sh scripts saved v = Inr w \<Longrightarrow> (i, script) \<in> set scripts \<Longrightarrow>
   Inr opc \<in> set (parse_script script) \<Longrightarrow> \<not> is_legacy_signature_opcode (oc_value opc)"
proof (induction scripts arbitrary: saved v)
  case (Cons s scripts)
  obtain j t where s: "s = (j, t)"
    by (cases s)
  obtain x push saved' where x: "execute_script env t push v = Inr x" "run_scripts env p2sh scripts saved' x = Inr w"
    using Cons.prems(2) unfolding s run_scripts.simps Let_def try_then_ok by blast
  show ?case
    using Cons.IH [OF Cons.prems(1) x(2)] execute_script_no_legacy [OF Cons.prems(1) x(1)] Cons.prems(3,4) s by auto
qed simp

section \<open>Properties\<close>

text \<open>C9. The multisignature opcode accepts exactly when the signatures can be assigned to the keys in order. For at most
  twenty keys of the right length, at most as many well-formed signatures, and enough operations left, the opcode
  pushes true when some subsequence of the keys verifies the signatures one by one, and aborts the script otherwise;
  the single walk over the keys misses no assignment, with any sound state of the cache.\<close>

theorem multisig_accepts_ordered_matching:
  assumes decide: "digests_decide (sv_crypto env)" and sound: "cache_sound (sv_crypto env) (vm_sig_cache v)"
    and env: "sv_source env = TxInput tx input idx entry p2sh"
    and stack: "vm_dstack v = multisig_stack st sigs keys" and sigs: "\<forall>s\<in>set sigs. proper_signature s"
    and keys: "\<forall>k\<in>set keys. length k = MLDSA87_PK_LEN"
    and counts: "length sigs \<le> length keys" "length keys \<le> MAX_PUB_KEYS_PER_MUTLTISIG" "length keys \<le> so_remaining (vm_sig_ops v)"
      "vm_num_ops v + length keys \<le> MAX_OPS_PER_SCRIPT"
  shows "if \<exists>ks. subseq ks keys \<and> list_all2 (signature_matches (sv_crypto env) tx idx) sigs ks
    then \<exists>w. op_check_multisig env MlDsa87 v = Inr w \<and> vm_dstack w = st @ [[1]]
    else op_check_multisig env MlDsa87 v = Inl NullFail"
proof -
  have "vm_dstack (forget v) = multisig_stack st sigs keys" "vm_sig_cache (forget v) = no_cache"
    "length keys \<le> so_remaining (vm_sig_ops (forget v))" "vm_num_ops (forget v) + length keys \<le> MAX_OPS_PER_SCRIPT"
    using stack counts by simp_all
  note uncached = multisig_uncached [OF env this(2,1) sigs keys counts(1,2) this(3,4)]
  note agree = agree_check_multisig [OF decide sound, of MlDsa87]
  show ?thesis
  proof (cases "op_check_multisig env MlDsa87 v")
    case (Inl e)
    then show ?thesis
      using uncached agree by (auto split: if_splits)
  next
    case (Inr w)
    then show ?thesis
      using uncached agree by (auto split: if_splits)
  qed
qed

definition sample_env :: script_env where
  "sample_env = \<lparr>sv_crypto = sample_script_crypto,
     sv_source = TxInput (populated sample_payment [sample_coin]) sample_payment_input 0 sample_coin False, sv_policy = PQ_ONLY\<rparr>"

definition sample_multisig_vm :: vm where
  "sample_multisig_vm = \<lparr>vm_dstack = multisig_stack [] [replicate 4627 0 @ [1]] [replicate 2592 5, replicate 2592 6], vm_astack = [],
     vm_cond_stack = [], vm_num_ops = 1, vm_sig_ops = new_sig_op_counter 2, vm_sig_cache = no_cache\<rparr>"

theorem multisig_accepts_ordered_matching_witness:
  "\<exists>w. op_check_multisig sample_env MlDsa87 sample_multisig_vm = Inr w \<and> vm_dstack w = [] @ [[1]]"
proof -
  let ?sigs = "[replicate 4627 0 @ [1]] :: bytes list" and ?keys = "[replicate 2592 5, replicate 2592 6] :: bytes list"
  let ?R = "signature_matches (sv_crypto sample_env) (populated sample_payment [sample_coin]) 0"
  have "if \<exists>ks. subseq ks ?keys \<and> list_all2 ?R ?sigs ks
    then \<exists>w. op_check_multisig sample_env MlDsa87 sample_multisig_vm = Inr w \<and> vm_dstack w = [] @ [[1]]
    else op_check_multisig sample_env MlDsa87 sample_multisig_vm = Inl NullFail"
  proof (rule multisig_accepts_ordered_matching)
    show "digests_decide (sv_crypto sample_env)" "cache_sound (sv_crypto sample_env) (vm_sig_cache sample_multisig_vm)"
      "sv_source sample_env = TxInput (populated sample_payment [sample_coin]) sample_payment_input 0 sample_coin False"
      by (simp_all add: sample_env_def sample_script_crypto_decides sample_multisig_vm_def no_cache_sound)
    show "\<forall>s\<in>set ?sigs. proper_signature s" "\<forall>k\<in>set ?keys. length k = MLDSA87_PK_LEN"
      by (simp_all add: proper_signature_def MLDSA87_SIG_LEN_def MLDSA87_PK_LEN_def ALLOWED_SIG_HASH_TYPES_VALUES_def SIG_HASH_ALL_def)
    show "vm_dstack sample_multisig_vm = multisig_stack [] ?sigs ?keys" "length ?sigs \<le> length ?keys"
      "length ?keys \<le> MAX_PUB_KEYS_PER_MUTLTISIG" "length ?keys \<le> so_remaining (vm_sig_ops sample_multisig_vm)"
      "vm_num_ops sample_multisig_vm + length ?keys \<le> MAX_OPS_PER_SCRIPT"
      by (simp_all add: sample_multisig_vm_def MAX_PUB_KEYS_PER_MUTLTISIG_def MAX_OPS_PER_SCRIPT_def new_sig_op_counter_def)
  qed
  moreover have "subseq [replicate 2592 6] ?keys \<and> list_all2 ?R ?sigs [replicate 2592 6]"
    by (simp add: signature_matches_def sample_env_def sample_script_crypto_def)
  ultimately show ?thesis
    by (metis (no_types, lifting))
qed

text \<open>C19. Under the PQ-only policy no script with a legacy signature opcode succeeds. If the engine accepts an input
  whose output has a known script version, then neither the signature script nor the script of the output contains one of
  the six secp256k1 opcodes, in a taken or in an untaken branch.\<close>

theorem pq_only_scripts_have_no_legacy_opcode:
  assumes "from_transaction_input kx PQ_ONLY cache tx input i entry = Some (env, v)" and "execute env v = Inr w"
    and "spk_version (ue_script_public_key entry) \<le> MAX_SCRIPT_PUBLIC_KEY_VERSION"
    and "script = in_signature_script input \<or> script = spk_script (ue_script_public_key entry)"
    and "Inr opc \<in> set (parse_script script)"
  shows "\<not> is_legacy_signature_opcode (oc_value opc)"
proof -
  have env: "sv_policy env = PQ_ONLY"
    "sv_source env = TxInput tx input i entry (is_pay_to_script_hash (spk_script (ue_script_public_key entry)))"
    using assms(1) by (auto simp: from_transaction_input_def split: if_splits)
  let ?scripts = "[in_signature_script input, spk_script (ue_script_public_key entry)]"
  have "\<not> is_pay_to_script_hash (spk_script (ue_script_public_key entry))"
    using assms(2,3) by (auto simp: execute_def env PQ_ONLY_def)
  then obtain x where x: "run_scripts env False (filter (\<lambda>(_, s). s \<noteq> []) (enumerate 0 ?scripts)) None v = Inr x"
    using assms(2,3) by (auto simp: execute_def env PQ_ONLY_def try_then_ok split: if_splits option.splits)
  have "script \<noteq> []"
    using assms(5) by auto
  then have "(if script = in_signature_script input then 0 else 1, script) \<in> set (filter (\<lambda>(_, s). s \<noteq> []) (enumerate 0 ?scripts))"
    using assms(4) by auto
  then show ?thesis
    using run_scripts_no_legacy [OF _ x _ assms(5)] by (simp add: env PQ_ONLY_def)
qed

theorem pq_only_scripts_have_no_legacy_opcode_witness:
  "\<not> is_legacy_signature_opcode (oc_value (plain_op OpCheckSigMlDsa87))"
proof -
  let ?tx = "populated sample_payment [sample_coin]"
  obtain w where "run_input sample_script_crypto PQ_ONLY no_cache ?tx 0 = Some (Inr w)"
    using pq_spend_uncached [of 0 ?tx "replicate 64 7" sample_script_crypto PQ_ONLY] sample_spend_payload sample_unlocks by (auto simp: sample_input)
  then obtain env v where "from_transaction_input sample_script_crypto PQ_ONLY no_cache ?tx sample_payment_input 0 sample_coin = Some (env, v)"
    "execute env v = Inr w"
    by (auto simp: run_input_def sample_input split: option.splits)
  moreover have "Inr (plain_op OpCheckSigMlDsa87) \<in> set (parse_script (spk_script (ue_script_public_key sample_coin)))"
    using parse_p2pkh [of "replicate 64 7"] by (simp add: sample_coin_def sample_pq_spk_def p2pkh_mldsa87_spk_def opcode_defs p2pkh_ops_def)
  ultimately show ?thesis
    by (intro pq_only_scripts_have_no_legacy_opcode [where i = 0 and entry = sample_coin])
      (auto simp: sample_coin_def sample_pq_spk_def p2pkh_mldsa87_spk_def MAX_SCRIPT_PUBLIC_KEY_VERSION_def)
qed

end
