(* ===== verification/Block_Dag.thy ===== *)
theory Block_Dag
  imports Tx_Types
begin

text \<open>
  The block DAG that the relations store holds: each block with the list of its parents
  (\<open>consensus/core/src/blockhash.rs\<close>, \<open>consensus/src/model/stores/relations.rs\<close>). Ancestry is the reflexive and
  transitive closure of the parent relation. Blocks are only ever added, with parents that are known, so the
  relations stay finite, closed and acyclic, and adding a block changes no ancestry among the old ones.
\<close>

section \<open>Blocks and their parents\<close>

definition NONE :: hash64 where
  "NONE = Hash64 (replicate HASH64_SIZE 0)"

definition ORIGIN :: hash64 where
  "ORIGIN = Hash64 (replicate HASH64_SIZE 0xfe)"

type_synonym relations = "hash64 \<rightharpoonup> hash64 list"

definition parent_of :: "relations \<Rightarrow> (hash64 \<times> hash64) set" where
  "parent_of P = {(p, b). \<exists>ps. P b = Some ps \<and> p \<in> set ps}"

definition anc :: "relations \<Rightarrow> hash64 \<Rightarrow> hash64 \<Rightarrow> bool" where
  "anc P a b \<longleftrightarrow> (a, b) \<in> (parent_of P)\<^sup>*"

definition anticone :: "relations \<Rightarrow> hash64 \<Rightarrow> hash64 \<Rightarrow> bool" where
  "anticone P a b \<longleftrightarrow> \<not> anc P a b \<and> \<not> anc P b a"

definition dag_wf :: "relations \<Rightarrow> bool" where
  "dag_wf P \<longleftrightarrow> finite (dom P) \<and> (\<forall>b ps. P b = Some ps \<longrightarrow> set ps \<subseteq> dom P) \<and> acyclic (parent_of P)"

lemma parent_of_iff [simp]: "(p, b) \<in> parent_of P \<longleftrightarrow> (\<exists>ps. P b = Some ps \<and> p \<in> set ps)"
  by (simp add: parent_of_def)

lemma ORIGIN_not_NONE [simp]: "ORIGIN \<noteq> NONE" "NONE \<noteq> ORIGIN"
  by (simp_all add: ORIGIN_def NONE_def HASH64_SIZE_def replicate_eq_replicate)

section \<open>Ancestry\<close>

lemma anc_refl [simp, intro]: "anc P a a"
  by (simp add: anc_def)

lemma anc_trans [trans]: "anc P a b \<Longrightarrow> anc P b c \<Longrightarrow> anc P a c"
  by (auto simp: anc_def)

lemma anc_parent: "P b = Some ps \<Longrightarrow> p \<in> set ps \<Longrightarrow> anc P a p \<Longrightarrow> anc P a b"
  unfolding anc_def by (rule rtrancl_into_rtrancl) auto

lemma anc_cases: "anc P a b \<longleftrightarrow> a = b \<or> (\<exists>ps p. P b = Some ps \<and> p \<in> set ps \<and> anc P a p)"
proof
  assume "anc P a b"
  then show "a = b \<or> (\<exists>ps p. P b = Some ps \<and> p \<in> set ps \<and> anc P a p)"
    unfolding anc_def by (cases rule: rtrancl.cases) auto
qed (auto intro: anc_parent)

lemma anticone_sym: "anticone P a b \<longleftrightarrow> anticone P b a"
  by (auto simp: anticone_def)

lemma anticone_irrefl [simp]: "\<not> anticone P a a"
  by (simp add: anticone_def)

lemma dag_finite: "dag_wf P \<Longrightarrow> finite (dom P)"
  by (simp add: dag_wf_def)

lemma dag_closed: "dag_wf P \<Longrightarrow> P b = Some ps \<Longrightarrow> p \<in> set ps \<Longrightarrow> p \<in> dom P"
  unfolding dag_wf_def by blast

lemma anc_antisym: "dag_wf P \<Longrightarrow> anc P a b \<Longrightarrow> anc P b a \<Longrightarrow> a = b"
  unfolding dag_wf_def anc_def by (meson acyclic_impl_antisym_rtrancl antisymD)

lemma parent_strict:
  assumes "dag_wf P" "P b = Some ps" "p \<in> set ps"
  shows "anc P p b" "p \<noteq> b"
proof -
  have edge: "(p, b) \<in> parent_of P"
    using assms(2,3) by auto
  then show "anc P p b"
    unfolding anc_def by (rule r_into_rtrancl)
  show "p \<noteq> b"
    using r_into_trancl [OF edge] assms(1) unfolding dag_wf_def acyclic_def by blast
qed

lemma anc_dom:
  assumes "dag_wf P" "anc P a b" "b \<in> dom P"
  shows "a \<in> dom P"
  using assms(2,3) unfolding anc_def
proof (induction rule: converse_rtrancl_induct)
  case (step y z)
  then show ?case
    using dag_closed [OF assms(1)] by auto
qed

lemma wf_parent_of: "dag_wf P \<Longrightarrow> wf (parent_of P)"
proof -
  assume dag: "dag_wf P"
  have "parent_of P \<subseteq> dom P \<times> dom P"
    using dag by (auto simp: dag_wf_def parent_of_def)
  then have "finite (parent_of P)"
    using dag_finite [OF dag] by (meson finite_SigmaI finite_subset)
  then show ?thesis
    using dag unfolding dag_wf_def by (simp add: finite_acyclic_wf)
qed

text \<open>Induction along the strict ancestors of a block.\<close>

lemma dag_induct [consumes 1, case_names block]:
  assumes "dag_wf P" and "\<And>b. (\<And>a. anc P a b \<Longrightarrow> a \<noteq> b \<Longrightarrow> Q a) \<Longrightarrow> Q b"
  shows "Q b"
proof -
  have "wf ((parent_of P)\<^sup>+)"
    by (rule wf_trancl) (rule wf_parent_of [OF assms(1)])
  then show ?thesis
  proof (induction b rule: wf_induct_rule)
    case (less b)
    show ?case
      by (rule assms(2)) (auto intro!: less simp: anc_def rtrancl_eq_or_trancl)
  qed
qed

lemma anc_strict_parent: "anc P a b \<Longrightarrow> a \<noteq> b \<Longrightarrow> \<exists>ps p. P b = Some ps \<and> p \<in> set ps \<and> anc P a p"
  using anc_cases by blast

section \<open>Adding a block\<close>

lemma parent_of_insert:
  "h \<notin> dom P \<Longrightarrow> parent_of (P(h \<mapsto> ps)) = parent_of P \<union> (\<lambda>p. (p, h)) ` set ps"
  by (auto simp: parent_of_def domIff split: if_splits)

lemma anc_insert_new:
  assumes "h \<notin> dom P" "h \<notin> set ps" "dag_wf P" "set ps \<subseteq> dom P"
  shows "anc (P(h \<mapsto> ps)) a b \<longleftrightarrow> (if b = h then a = h \<or> (\<exists>p\<in>set ps. anc P a p) else anc P a b)"
proof -
  have up: "anc (P(h \<mapsto> ps)) a b" if "anc P a b" for a b
    using that rtrancl_mono [of "parent_of P" "parent_of (P(h \<mapsto> ps))"]
    by (auto simp: anc_def parent_of_insert [OF assms(1)])
  have down: "if b = h then a = h \<or> (\<exists>p\<in>set ps. anc P a p) else anc P a b" if "anc (P(h \<mapsto> ps)) a b" for a b
    using that [unfolded anc_def]
  proof (induction rule: rtrancl_induct)
    case (step y z)
    show ?case
    proof (cases "z = h")
      case True
      with step.hyps(2) have "y \<in> set ps"
        by simp
      then have "y \<noteq> h"
        using assms(2) by blast
      with step.IH True \<open>y \<in> set ps\<close> show ?thesis
        by auto
    next
      case False
      with step.hyps(2) obtain qs where qs: "P z = Some qs" "y \<in> set qs"
        by auto
      then have "y \<noteq> h"
        using dag_closed [OF assms(3)] assms(1) by blast
      with step.IH False qs show ?thesis
        by (auto intro: anc_parent)
    qed
  qed auto
  have "anc (P(h \<mapsto> ps)) a h" if "p \<in> set ps" "anc P a p" for p
    by (rule anc_parent [OF _ that(1) up [OF that(2)]]) simp
  then show ?thesis
    using up [of a b] down [of a b] by (cases "b = h") auto
qed

lemma dag_wf_insert:
  assumes "dag_wf P" "h \<notin> dom P" "set ps \<subseteq> dom P"
  shows "dag_wf (P(h \<mapsto> ps))"
proof -
  have no: "h \<notin> set ps"
    using assms(2,3) by auto
  have "acyclic (parent_of (P(h \<mapsto> ps)))"
  proof (rule acyclicI; intro allI notI)
    fix x assume x: "(x, x) \<in> (parent_of (P(h \<mapsto> ps)))\<^sup>+"
    then obtain y where y: "(x, y) \<in> (parent_of (P(h \<mapsto> ps)))\<^sup>*" "(y, x) \<in> parent_of (P(h \<mapsto> ps))"
      by (meson tranclD2)
    show False
    proof (cases "x = h")
      case True
      then have "y \<in> set ps" "anc (P(h \<mapsto> ps)) h y"
        using y by (auto simp: anc_def)
      then have "anc P h y"
        using anc_insert_new [OF assms(2) no assms(1,3), of h y] no by (auto split: if_splits)
      then show False
        using anc_dom [OF assms(1)] \<open>y \<in> set ps\<close> assms(2,3) by blast
    next
      case False
      then obtain qs where qs: "P x = Some qs" "y \<in> set qs"
        using y(2) by auto
      then have "y \<noteq> h"
        using dag_closed [OF assms(1)] assms(2) by blast
      then have "anc P x y"
        using y(1) anc_insert_new [OF assms(2) no assms(1,3), of x y] by (simp add: anc_def)
      then have "(x, x) \<in> (parent_of P)\<^sup>+"
        using qs unfolding anc_def by (intro rtrancl_into_trancl1) auto
      then show False
        using assms(1) by (simp add: dag_wf_def acyclic_def)
    qed
  qed
  then show ?thesis
    using assms by (auto simp: dag_wf_def split: if_splits) blast
qed

end
