(* ===== verification/Reach_Store.thy ===== *)
theory Reach_Store
  imports Block_Dag
begin

text \<open>
  The reachability index (\<open>consensus/src/processes/reachability\<close>, \<open>consensus/src/model/stores/reachability.rs\<close>): a
  spanning tree of the DAG, each block with an interval that strictly contains the intervals of its tree children,
  and with a future covering set, the tree-minimal blocks of its future outside its own subtree. Ancestry in the tree
  is containment of intervals; ancestry in the DAG is ancestry in the tree of the block or of an element of its
  future covering set, which a binary search over the intervals finds.

  A query returns a \<open>Result\<close>; an abort (an \<open>unwrap\<close>, an overflow) is \<open>None\<close>. The store is the in-memory one.
\<close>

section \<open>Intervals\<close>

record interval =
  iv_start :: u64
  iv_end :: u64

definition interval_new :: "u64 \<Rightarrow> u64 \<Rightarrow> interval" where
  "interval_new s e = \<lparr>iv_start = s, iv_end = e\<rparr>"

definition maximal_interval :: interval where
  "maximal_interval = interval_new 1 (u64_max - 1)"

definition interval_size :: "interval \<Rightarrow> u64 option" where
  "interval_size i = Option.bind (checked_add u64_max (iv_end i) 1) (\<lambda>e. checked_sub e (iv_start i))"

definition decrease_end :: "interval \<Rightarrow> u64 \<Rightarrow> interval option" where
  "decrease_end i offset = map_option (interval_new (iv_start i)) (checked_sub (iv_end i) offset)"

definition interval_contains :: "interval \<Rightarrow> interval \<Rightarrow> bool" where
  "interval_contains i j \<longleftrightarrow> iv_start i \<le> iv_start j \<and> iv_end j \<le> iv_end i"

definition strictly_contains :: "interval \<Rightarrow> interval \<Rightarrow> bool" where
  "strictly_contains i j \<longleftrightarrow> iv_start i \<le> iv_start j \<and> iv_end j < iv_end i"

text \<open>\<open>size as f32\<close> rounds to the nearest multiple of the last place of a 24-bit mantissa, ties to even. Halving it is
  exact and \<open>ceil\<close> rounds up, so the cast back to \<open>u64\<close> is the integer below.\<close>

fun f32_ulp :: "nat \<Rightarrow> nat" where
  "f32_ulp n = (if n < 2 ^ 24 then 1 else 2 * f32_ulp (n div 2))"

declare f32_ulp.simps [simp del]

definition as_f32 :: "u64 \<Rightarrow> nat" where
  "as_f32 n = (let u = f32_ulp n; q = n div u; r = n mod u
     in (if u < 2 * r \<or> (2 * r = u \<and> odd q) then q + 1 else q) * u)"

definition split_half :: "interval \<Rightarrow> (interval \<times> interval) option" where
  "split_half i = Option.bind (interval_size i) (\<lambda>size.
     let left_size = (as_f32 size + 1) div 2
     in Option.bind (checked_add u64_max (iv_start i) left_size) (\<lambda>mid.
        Option.bind (checked_sub mid 1) (\<lambda>left_end.
          Some (interval_new (iv_start i) left_end, interval_new mid (iv_end i)))))"

section \<open>The store\<close>

datatype store_error = KeyNotFound hash64 | ReindexRootNotFound | KeyAlreadyExists hash64

datatype reachability_error = StoreError store_error | DataOverflow | DataInconsistency | BadQuery

type_synonym 'a reach_result = "(reachability_error + 'a) option"

record reachability_data =
  rc_children :: "hash64 list"
  rc_parent :: hash64
  rc_interval :: interval
  rc_height :: u64
  rc_future_covering_set :: "hash64 list"

record reachability_store =
  rs_map :: "hash64 \<rightharpoonup> reachability_data"
  rs_reindex_root :: "hash64 option"

definition reach_ok :: "'a \<Rightarrow> 'a reach_result" where
  "reach_ok x = Some (Inr x)"

definition reach_err :: "reachability_error \<Rightarrow> 'a reach_result" where
  "reach_err e = Some (Inl e)"

text \<open>A value that may abort, as a result.\<close>

definition lift_abort :: "'a option \<Rightarrow> 'a reach_result" where
  "lift_abort m = map_option Inr m"

definition get_data :: "reachability_store \<Rightarrow> hash64 \<Rightarrow> reachability_data reach_result" where
  "get_data s h = (case rs_map s h of Some d \<Rightarrow> reach_ok d | None \<Rightarrow> reach_err (StoreError (KeyNotFound h)))"

definition get_interval :: "reachability_store \<Rightarrow> hash64 \<Rightarrow> interval reach_result" where
  "get_interval s h = bind_res (get_data s h) (\<lambda>d. reach_ok (rc_interval d))"

definition get_tree_parent :: "reachability_store \<Rightarrow> hash64 \<Rightarrow> hash64 reach_result" where
  "get_tree_parent s h = bind_res (get_data s h) (\<lambda>d. reach_ok (rc_parent d))"

definition get_children :: "reachability_store \<Rightarrow> hash64 \<Rightarrow> hash64 list reach_result" where
  "get_children s h = bind_res (get_data s h) (\<lambda>d. reach_ok (rc_children d))"

definition get_future_covering_set :: "reachability_store \<Rightarrow> hash64 \<Rightarrow> hash64 list reach_result" where
  "get_future_covering_set s h = bind_res (get_data s h) (\<lambda>d. reach_ok (rc_future_covering_set d))"

definition get_height :: "reachability_store \<Rightarrow> hash64 \<Rightarrow> u64 reach_result" where
  "get_height s h = bind_res (get_data s h) (\<lambda>d. reach_ok (rc_height d))"

definition get_reindex_root :: "reachability_store \<Rightarrow> hash64 reach_result" where
  "get_reindex_root s = (case rs_reindex_root s of Some r \<Rightarrow> reach_ok r | None \<Rightarrow> reach_err (StoreError ReindexRootNotFound))"

text \<open>\<open>get_data_mut\<close> and a change of the data it returns.\<close>

definition update_data ::
  "reachability_store \<Rightarrow> hash64 \<Rightarrow> (reachability_data \<Rightarrow> reachability_data) \<Rightarrow> reachability_store reach_result" where
  "update_data s h f = bind_res (get_data s h) (\<lambda>d. reach_ok (s\<lparr>rs_map := (rs_map s)(h \<mapsto> f d)\<rparr>))"

definition store_insert ::
  "reachability_store \<Rightarrow> hash64 \<Rightarrow> hash64 \<Rightarrow> interval \<Rightarrow> u64 \<Rightarrow> reachability_store reach_result" where
  "store_insert s h parent iv height =
     (case rs_map s h of
        None \<Rightarrow> reach_ok (s\<lparr>rs_map := (rs_map s)(h \<mapsto> \<lparr>rc_children = [], rc_parent = parent, rc_interval = iv,
          rc_height = height, rc_future_covering_set = []\<rparr>)\<rparr>)
      | Some _ \<Rightarrow> reach_err (StoreError (KeyAlreadyExists h)))"

definition set_interval :: "reachability_store \<Rightarrow> hash64 \<Rightarrow> interval \<Rightarrow> reachability_store reach_result" where
  "set_interval s h iv = update_data s h (rc_interval_update (\<lambda>_. iv))"

definition append_child :: "reachability_store \<Rightarrow> hash64 \<Rightarrow> hash64 \<Rightarrow> reachability_store reach_result" where
  "append_child s h child = update_data s h (rc_children_update (\<lambda>cs. cs @ [child]))"

text \<open>\<open>Vec::insert\<close> aborts beyond the end of the vector.\<close>

definition vec_insert :: "nat \<Rightarrow> 'a \<Rightarrow> 'a list \<Rightarrow> 'a list" where
  "vec_insert i x xs = take i xs @ x # drop i xs"

definition insert_future_covering_item ::
  "reachability_store \<Rightarrow> hash64 \<Rightarrow> hash64 \<Rightarrow> usize \<Rightarrow> reachability_store reach_result" where
  "insert_future_covering_item s h fci i =
     bind_res (get_future_covering_set s h) (\<lambda>fcs.
       if length fcs < i then None else update_data s h (rc_future_covering_set_update (vec_insert i fci)))"

definition init_with_params :: "reachability_store \<Rightarrow> hash64 \<Rightarrow> interval \<Rightarrow> reachability_store reach_result" where
  "init_with_params s origin capacity =
     (if rs_map s origin \<noteq> None then reach_ok s
      else bind_res (store_insert s origin NONE capacity 0) (\<lambda>s. reach_ok (s\<lparr>rs_reindex_root := Some origin\<rparr>)))"

definition reach_init :: "reachability_store \<Rightarrow> reachability_store reach_result" where
  "reach_init s = init_with_params s ORIGIN maximal_interval"

section \<open>Queries\<close>

definition is_strict_chain_ancestor_of :: "reachability_store \<Rightarrow> hash64 \<Rightarrow> hash64 \<Rightarrow> bool reach_result" where
  "is_strict_chain_ancestor_of s this queried =
     bind_res (get_interval s this) (\<lambda>i. bind_res (get_interval s queried) (\<lambda>j. reach_ok (strictly_contains i j)))"

definition is_chain_ancestor_of :: "reachability_store \<Rightarrow> hash64 \<Rightarrow> hash64 \<Rightarrow> bool reach_result" where
  "is_chain_ancestor_of s this queried =
     bind_res (get_interval s this) (\<lambda>i. bind_res (get_interval s queried) (\<lambda>j. reach_ok (interval_contains i j)))"

text \<open>\<open>slice::binary_search_by_key\<close> of the standard library: the base moves up while the probed key is not greater; the
  key of an element may abort.\<close>

function bs_loop :: "('a \<Rightarrow> nat option) \<Rightarrow> 'a list \<Rightarrow> nat \<Rightarrow> nat \<Rightarrow> nat \<Rightarrow> nat option" where
  "bs_loop key xs p base sz =
     (if sz \<le> 1 then Some base
      else Option.bind (key (xs ! (base + sz div 2))) (\<lambda>k.
        bs_loop key xs p (if p < k then base else base + sz div 2) (sz - sz div 2)))"
  by pat_completeness auto

termination bs_loop
  by (relation "measure (\<lambda>(_, _, _, _, sz). sz)") auto

declare bs_loop.simps [simp del]

definition binary_search_by_key :: "('a \<Rightarrow> nat option) \<Rightarrow> 'a list \<Rightarrow> nat \<Rightarrow> (nat + nat) option" where
  "binary_search_by_key key xs p =
     (if xs = [] then Some (Inl 0)
      else Option.bind (bs_loop key xs p 0 (length xs)) (\<lambda>base.
        Option.bind (key (xs ! base)) (\<lambda>k.
          Some (if k = p then Inr base else Inl (if k < p then base + 1 else base)))))"

datatype search_output = NotFound usize | Found hash64 usize

text \<open>\<open>unwrap\<close> of a result.\<close>

definition unwrap_res :: "'a reach_result \<Rightarrow> 'a option" where
  "unwrap_res m = (case m of Some (Inr x) \<Rightarrow> Some x | _ \<Rightarrow> None)"

definition binary_search_descendant :: "reachability_store \<Rightarrow> hash64 list \<Rightarrow> hash64 \<Rightarrow> search_output reach_result" where
  "binary_search_descendant s ordered_hashes descendant =
     bind_res (get_interval s descendant) (\<lambda>iv.
     bind_res (lift_abort (binary_search_by_key (\<lambda>c. map_option iv_start (unwrap_res (get_interval s c))) ordered_hashes (iv_end iv))) (\<lambda>r.
       case r of
         Inr i \<Rightarrow> reach_ok (Found (ordered_hashes ! i) i)
       | Inl i \<Rightarrow>
           bind_res (if 0 < i then is_chain_ancestor_of s (ordered_hashes ! (i - 1)) descendant else reach_ok False) (\<lambda>b.
             reach_ok (if b then Found (ordered_hashes ! (i - 1)) (i - 1) else NotFound i))))"

definition is_dag_ancestor_of :: "reachability_store \<Rightarrow> hash64 \<Rightarrow> hash64 \<Rightarrow> bool reach_result" where
  "is_dag_ancestor_of s this queried =
     bind_res (is_chain_ancestor_of s this queried) (\<lambda>b.
       if b then reach_ok True
       else bind_res (get_future_covering_set s this) (\<lambda>fcs.
         bind_res (binary_search_descendant s fcs queried) (\<lambda>r.
           reach_ok (case r of Found _ _ \<Rightarrow> True | NotFound _ \<Rightarrow> False))))"

definition get_next_chain_ancestor_unchecked :: "reachability_store \<Rightarrow> hash64 \<Rightarrow> hash64 \<Rightarrow> hash64 reach_result" where
  "get_next_chain_ancestor_unchecked s descendant ancestor =
     bind_res (get_children s ancestor) (\<lambda>cs.
       bind_res (binary_search_descendant s cs descendant) (\<lambda>r.
         case r of Found h _ \<Rightarrow> reach_ok h | NotFound _ \<Rightarrow> reach_err BadQuery))"

definition get_next_chain_ancestor :: "reachability_store \<Rightarrow> hash64 \<Rightarrow> hash64 \<Rightarrow> hash64 reach_result" where
  "get_next_chain_ancestor s descendant ancestor =
     (if descendant = ancestor then reach_err BadQuery
      else bind_res (is_strict_chain_ancestor_of s ancestor descendant) (\<lambda>b.
        if \<not> b then reach_err BadQuery else get_next_chain_ancestor_unchecked s descendant ancestor))"

text \<open>The reachability service unwraps the answer.\<close>

definition dag_ancestor :: "reachability_store \<Rightarrow> hash64 \<Rightarrow> hash64 \<Rightarrow> bool option" where
  "dag_ancestor s this queried = unwrap_res (is_dag_ancestor_of s this queried)"

end
