(* ===== verification/Ghostdag.thy ===== *)
theory Ghostdag
  imports Reach_Store
begin

text \<open>
  The GHOSTDAG protocol (\<open>consensus/src/processes/ghostdag\<close>, \<open>consensus/src/model/stores/ghostdag.rs\<close>): selection of
  the parent of highest blue work, the mergeset by a breadth-first search, its order by blue work and hash, the
  colouring of each block of the mergeset under the \<open>k\<close>-cluster rule, the duplicate-ticket rule of the PALW lane
  and the accumulation of blue score and of the two kinds of work.

  Every \<open>unwrap\<close>, assertion and overflow of a machine integer is \<open>None\<close>. The loops that walk the stores
  (the mergeset search and the two walks along the selected chain) are partial functions, so \<open>None\<close> is also what a
  loop that does not end is; that they return is a theorem. \<open>Uint576\<close> and \<open>Uint256\<close> wrap around in release builds.
\<close>

section \<open>Work\<close>

definition u16_max :: nat where
  "u16_max = 2 ^ 16 - 1"

definition work_max :: nat where
  "work_max = 2 ^ 576 - 1"

definition work_add :: "nat \<Rightarrow> nat \<Rightarrow> nat" where
  "work_add a b = (a + b) mod 2 ^ 576"

definition from_compact_target_bits :: "u32 \<Rightarrow> nat" where
  "from_compact_target_bits bits =
     (let e = bits div 2 ^ 24; m = bits mod 2 ^ 24;
          (mant, expt) = (if e \<le> 3 then (m div 2 ^ (8 * (3 - e)), 0) else (m, 8 * (e - 3)))
      in if 0x7FFFFF < mant then 0 else mant * 2 ^ (expt mod 256) mod 2 ^ 256)"

definition calc_work :: "u32 \<Rightarrow> nat" where
  "calc_work bits =
     (let target = from_compact_target_bits bits
      in ((2 ^ 256 - 1 - target) div ((target + 1) mod 2 ^ 256) + 1) mod 2 ^ 256)"

definition normalize_palw_work :: "u32 \<Rightarrow> u64 \<Rightarrow> nat" where
  "normalize_palw_work bits compute_work_scale = sat_mul work_max (calc_work bits) compute_work_scale"

definition COMPUTE_TO_HASH_CAP :: u64 where
  "COMPUTE_TO_HASH_CAP = 4"

definition capped_compute_work :: "nat \<Rightarrow> nat \<Rightarrow> u64 \<Rightarrow> nat" where
  "capped_compute_work compute_work hash_work cap = min compute_work (sat_mul work_max hash_work cap)"

definition effective_blue_work :: "nat \<Rightarrow> nat \<Rightarrow> u64 \<Rightarrow> nat" where
  "effective_blue_work hash_work compute_work cap = sat_add work_max hash_work (capped_compute_work compute_work hash_work cap)"

section \<open>GHOSTDAG data\<close>

type_synonym anticone_sizes = "(hash64, nat) hashmap"

record ghostdag_data =
  gd_blue_score :: u64
  gd_blue_work :: nat
  gd_blue_hash_work :: nat
  gd_blue_compute_work :: nat
  gd_selected_parent :: hash64
  gd_mergeset_blues :: "hash64 list"
  gd_mergeset_reds :: "hash64 list"
  gd_blues_anticone_sizes :: anticone_sizes

definition new_with_selected_parent :: "hash64 \<Rightarrow> nat \<Rightarrow> ghostdag_data option" where
  "new_with_selected_parent sp k = map_option (\<lambda>_.
     \<lparr>gd_blue_score = 0, gd_blue_work = 0, gd_blue_hash_work = 0, gd_blue_compute_work = 0, gd_selected_parent = sp,
      gd_mergeset_blues = [sp], gd_mergeset_reds = [], gd_blues_anticone_sizes = hm_insert sp 0 []\<rparr>) (checked_add u16_max k 1)"

definition genesis_ghostdag_data :: ghostdag_data where
  "genesis_ghostdag_data =
     \<lparr>gd_blue_score = 0, gd_blue_work = 0, gd_blue_hash_work = 0, gd_blue_compute_work = 0, gd_selected_parent = ORIGIN,
      gd_mergeset_blues = [], gd_mergeset_reds = [], gd_blues_anticone_sizes = []\<rparr>"

definition origin_ghostdag_data :: ghostdag_data where
  "origin_ghostdag_data = genesis_ghostdag_data\<lparr>gd_selected_parent := NONE\<rparr>"

definition unordered_mergeset_of :: "ghostdag_data \<Rightarrow> hash64 list" where
  "unordered_mergeset_of d = drop 1 (gd_mergeset_blues d) @ gd_mergeset_reds d"

text \<open>The sizes of the blocks a new blue block affects each grow by one.\<close>

fun add_sizes :: "anticone_sizes \<Rightarrow> anticone_sizes \<Rightarrow> anticone_sizes option" where
  "add_sizes [] m = Some m"
| "add_sizes ((blue, n) # xs) m = Option.bind (checked_add u16_max n 1) (\<lambda>n. add_sizes xs (hm_insert blue n m))"

definition add_blue :: "ghostdag_data \<Rightarrow> hash64 \<Rightarrow> nat \<Rightarrow> anticone_sizes \<Rightarrow> ghostdag_data option" where
  "add_blue d block blue_anticone_size block_blues_anticone_sizes =
     map_option (\<lambda>m. d\<lparr>gd_mergeset_blues := gd_mergeset_blues d @ [block], gd_blues_anticone_sizes := m\<rparr>)
       (add_sizes block_blues_anticone_sizes (hm_insert block blue_anticone_size (gd_blues_anticone_sizes d)))"

definition add_red :: "ghostdag_data \<Rightarrow> hash64 \<Rightarrow> ghostdag_data" where
  "add_red d block = d\<lparr>gd_mergeset_reds := gd_mergeset_reds d @ [block]\<rparr>"

definition finalize_score_and_component_work :: "ghostdag_data \<Rightarrow> u64 \<Rightarrow> nat \<Rightarrow> nat \<Rightarrow> u64 \<Rightarrow> ghostdag_data" where
  "finalize_score_and_component_work d blue_score blue_hash_work blue_compute_work_raw cap =
     d\<lparr>gd_blue_score := blue_score, gd_blue_hash_work := blue_hash_work,
       gd_blue_compute_work := capped_compute_work blue_compute_work_raw blue_hash_work cap,
       gd_blue_work := effective_blue_work blue_hash_work blue_compute_work_raw cap\<rparr>"

section \<open>The manager\<close>

record dag_header =
  dh_pow_algo_id :: nat
  dh_bits :: u32
  dh_daa_score :: u64
  dh_palw_ticket_nullifier :: hash64

definition POW_ALGO_ID_PALW_REPLICA :: nat where
  "POW_ALGO_ID_PALW_REPLICA = 4"

type_synonym nullifier_set = "(hash64, u64) hashmap"

record ghostdag_manager =
  gh_genesis_hash :: hash64
  gh_k :: nat
  gh_ghostdag_store :: "hash64 \<rightharpoonup> ghostdag_data"
  gh_relations_store :: relations
  gh_headers_store :: "hash64 \<rightharpoonup> dag_header"
  gh_reachability_service :: reachability_store
  gh_level_work :: nat
  gh_palw_activation_daa_score :: u64
  gh_palw_compute_work_scale :: u64
  gh_palw_nullifier_store :: "(hash64 \<rightharpoonup> nullifier_set) option"

text \<open>\<open>SortableBlock\<close> orders by blue work and then by hash.\<close>

definition sortable_block :: "ghostdag_manager \<Rightarrow> hash64 \<Rightarrow> (nat \<times> hash64) option" where
  "sortable_block gm b = map_option (\<lambda>d. (gd_blue_work d, b)) (gh_ghostdag_store gm b)"

definition find_selected_parent :: "ghostdag_manager \<Rightarrow> hash64 list \<Rightarrow> hash64 option" where
  "find_selected_parent gm parents =
     Option.bind (those (map (sortable_block gm) parents)) (\<lambda>ks. if ks = [] then None else Some (snd (Max (set ks))))"

definition sort_blocks :: "ghostdag_manager \<Rightarrow> hash64 list \<Rightarrow> hash64 list option" where
  "sort_blocks gm blocks = map_option (\<lambda>ks. map snd (sort ks)) (those (map (sortable_block gm) blocks))"

section \<open>The mergeset\<close>

text \<open>The loop over the parents of one block: queue, mergeset and the blocks known to be in the past.\<close>

fun visit_parents ::
  "ghostdag_manager \<Rightarrow> hash64 \<Rightarrow> hash64 list \<Rightarrow> hash64 list \<times> hash64 list \<times> hash64 list \<Rightarrow>
    (hash64 list \<times> hash64 list \<times> hash64 list) option" where
  "visit_parents gm sp [] st = Some st"
| "visit_parents gm sp (parent # ps) (queue, mergeset, past) =
     (if parent \<in> set mergeset \<or> parent \<in> set past then visit_parents gm sp ps (queue, mergeset, past)
      else Option.bind (dag_ancestor (gh_reachability_service gm) parent sp) (\<lambda>b.
        if b then visit_parents gm sp ps (queue, mergeset, parent # past)
        else visit_parents gm sp ps (queue @ [parent], parent # mergeset, past)))"

partial_function (option) mergeset_loop ::
  "ghostdag_manager \<Rightarrow> hash64 \<Rightarrow> hash64 list \<times> hash64 list \<times> hash64 list \<Rightarrow> hash64 list option" where
  "mergeset_loop gm sp st =
     (case st of (queue, mergeset, past) \<Rightarrow>
        (case queue of
           [] \<Rightarrow> Some mergeset
         | current # queue \<Rightarrow>
             Option.bind (gh_relations_store gm current) (\<lambda>current_parents.
             Option.bind (visit_parents gm sp current_parents (queue, mergeset, past)) (mergeset_loop gm sp))))"

definition unordered_mergeset_without_selected_parent :: "ghostdag_manager \<Rightarrow> hash64 \<Rightarrow> hash64 list \<Rightarrow> hash64 list option" where
  "unordered_mergeset_without_selected_parent gm sp parents =
     (let queue = filter (\<lambda>p. p \<noteq> sp) parents in mergeset_loop gm sp (queue, remdups queue, []))"

definition ordered_mergeset_without_selected_parent :: "ghostdag_manager \<Rightarrow> hash64 \<Rightarrow> hash64 list \<Rightarrow> hash64 list option" where
  "ordered_mergeset_without_selected_parent gm sp parents =
     Option.bind (unordered_mergeset_without_selected_parent gm sp parents) (sort_blocks gm)"

section \<open>Colouring\<close>

datatype coloring_state = ColoringBlue | ColoringRed | ColoringPending

datatype coloring_output = BlueOutput nat anticone_sizes | RedOutput

partial_function (option) anticone_size_walk :: "ghostdag_manager \<Rightarrow> hash64 \<Rightarrow> anticone_sizes \<Rightarrow> hash64 \<Rightarrow> nat option" where
  "anticone_size_walk gm block sizes current =
     (case hm_get sizes block of
        Some n \<Rightarrow> Some n
      | None \<Rightarrow>
          if current = gh_genesis_hash gm \<or> current = ORIGIN then None
          else Option.bind (gh_ghostdag_store gm current) (\<lambda>d.
            anticone_size_walk gm block (gd_blues_anticone_sizes d) (gd_selected_parent d)))"

definition blue_anticone_size :: "ghostdag_manager \<Rightarrow> hash64 \<Rightarrow> ghostdag_data \<Rightarrow> nat option" where
  "blue_anticone_size gm block ctx = anticone_size_walk gm block (gd_blues_anticone_sizes ctx) (gd_selected_parent ctx)"

text \<open>The loop over the blue peers of one chain block, with the sizes of the affected blues and the size of the
  candidate so far.\<close>

fun check_peers ::
  "ghostdag_manager \<Rightarrow> ghostdag_data \<Rightarrow> hash64 \<Rightarrow> nat \<Rightarrow> hash64 list \<Rightarrow> anticone_sizes \<times> nat \<Rightarrow>
    (coloring_state \<times> anticone_sizes \<times> nat) option" where
  "check_peers gm new_data candidate k [] acc = Some (ColoringPending, acc)"
| "check_peers gm new_data candidate k (peer # peers) (sizes, n) =
     Option.bind (dag_ancestor (gh_reachability_service gm) peer candidate) (\<lambda>past.
       if past then check_peers gm new_data candidate k peers (sizes, n)
       else Option.bind (blue_anticone_size gm peer new_data) (\<lambda>peer_size.
            Option.bind (checked_add u16_max n 1) (\<lambda>n.
              let sizes = hm_insert peer peer_size sizes
              in if k < n then Some (ColoringRed, sizes, n)
                 else if peer_size = k then Some (ColoringRed, sizes, n)
                 else if k < peer_size then None
                 else check_peers gm new_data candidate k peers (sizes, n))))"

definition check_blue_candidate_with_chain_block ::
  "ghostdag_manager \<Rightarrow> ghostdag_data \<Rightarrow> hash64 option \<times> ghostdag_data \<Rightarrow> hash64 \<Rightarrow> nat \<Rightarrow> anticone_sizes \<times> nat \<Rightarrow>
    (coloring_state \<times> anticone_sizes \<times> nat) option" where
  "check_blue_candidate_with_chain_block gm new_data chain_block candidate k acc =
     Option.bind (case fst chain_block of Some h \<Rightarrow> dag_ancestor (gh_reachability_service gm) h candidate | None \<Rightarrow> Some False) (\<lambda>b.
       if b then Some (ColoringBlue, acc)
       else check_peers gm new_data candidate k (gd_mergeset_blues (snd chain_block)) acc)"

partial_function (option) coloring_loop ::
  "ghostdag_manager \<Rightarrow> ghostdag_data \<Rightarrow> hash64 option \<times> ghostdag_data \<Rightarrow> hash64 \<Rightarrow> nat \<Rightarrow> anticone_sizes \<times> nat \<Rightarrow>
    coloring_output option" where
  "coloring_loop gm new_data chain_block candidate k acc =
     Option.bind (check_blue_candidate_with_chain_block gm new_data chain_block candidate k acc) (\<lambda>(state, sizes, n).
       if state = ColoringBlue then Some (BlueOutput n sizes)
       else if state = ColoringRed then Some RedOutput
       else let sp = gd_selected_parent (snd chain_block)
            in Option.bind (gh_ghostdag_store gm sp) (\<lambda>d. coloring_loop gm new_data (Some sp, d) candidate k (sizes, n)))"

definition check_blue_candidate :: "ghostdag_manager \<Rightarrow> ghostdag_data \<Rightarrow> hash64 \<Rightarrow> nat \<Rightarrow> coloring_output option" where
  "check_blue_candidate gm new_data candidate k =
     Option.bind (checked_add u16_max k 1) (\<lambda>k1.
       if length (gd_mergeset_blues new_data) mod 2 ^ 16 = k1 then Some RedOutput
       else coloring_loop gm new_data (None, new_data) candidate k ([], 0))"

section \<open>The PALW ticket rule\<close>

definition palw_ticket_of :: "ghostdag_manager \<Rightarrow> hash64 \<Rightarrow> (hash64 \<times> u64) option option" where
  "palw_ticket_of gm b = map_option (\<lambda>h.
     if dh_pow_algo_id h = POW_ALGO_ID_PALW_REPLICA then Some (dh_palw_ticket_nullifier h, dh_daa_score h) else None)
     (gh_headers_store gm b)"

definition nullifier_insert :: "hash64 \<Rightarrow> u64 \<Rightarrow> nullifier_set \<Rightarrow> nullifier_set \<times> bool" where
  "nullifier_insert nf daa seen = (if hm_contains seen nf then (seen, False) else (hm_insert nf daa seen, True))"

definition merge_from :: "nullifier_set \<Rightarrow> nullifier_set \<Rightarrow> nullifier_set" where
  "merge_from other seen = fold (\<lambda>(nf, daa) s. fst (nullifier_insert nf daa s)) other seen"

fun any_palw_active :: "ghostdag_manager \<Rightarrow> hash64 list \<Rightarrow> bool option" where
  "any_palw_active gm [] = Some False"
| "any_palw_active gm (p # ps) = Option.bind (gh_headers_store gm p) (\<lambda>h.
     if gh_palw_activation_daa_score gm \<le> dh_daa_score h then Some True else any_palw_active gm ps)"

definition seed_nullifiers :: "ghostdag_manager \<Rightarrow> bool \<Rightarrow> hash64 \<Rightarrow> nullifier_set option" where
  "seed_nullifiers gm palw_active sp =
     (if \<not> palw_active then Some []
      else Option.bind
        (case gh_palw_nullifier_store gm of
           None \<Rightarrow> Some []
         | Some store \<Rightarrow>
             Option.bind (if sp = gh_genesis_hash gm then Some False
                else map_option (\<lambda>h. gh_palw_activation_daa_score gm \<le> dh_daa_score h) (gh_headers_store gm sp)) (\<lambda>sp_active.
               if sp_active then map_option (\<lambda>window. merge_from window []) (store sp) else Some []))
        (\<lambda>seen. map_option (\<lambda>t. case t of Some (nf, daa) \<Rightarrow> fst (nullifier_insert nf daa seen) | None \<Rightarrow> seen) (palw_ticket_of gm sp)))"

section \<open>The protocol\<close>

fun color_candidates ::
  "ghostdag_manager \<Rightarrow> bool \<Rightarrow> hash64 list \<Rightarrow> ghostdag_data \<times> nullifier_set \<Rightarrow> (ghostdag_data \<times> nullifier_set) option" where
  "color_candidates gm palw_active [] st = Some st"
| "color_candidates gm palw_active (c # cs) (d, seen) =
     Option.bind (check_blue_candidate gm d c (gh_k gm)) (\<lambda>coloring.
       case coloring of
         RedOutput \<Rightarrow> color_candidates gm palw_active cs (add_red d c, seen)
       | BlueOutput n sizes \<Rightarrow>
           Option.bind (if palw_active then palw_ticket_of gm c else Some None) (\<lambda>ticket.
             let (seen', fresh) = (case ticket of Some (nf, daa) \<Rightarrow> nullifier_insert nf daa seen | None \<Rightarrow> (seen, True))
             in if \<not> fresh then color_candidates gm palw_active cs (add_red d c, seen')
                else Option.bind (add_blue d c n sizes) (\<lambda>d. color_candidates gm palw_active cs (d, seen'))))"

text \<open>The work of the blue blocks of the mergeset, by lane.\<close>

fun added_work :: "ghostdag_manager \<Rightarrow> bool \<Rightarrow> hash64 list \<Rightarrow> nat \<times> nat \<Rightarrow> (nat \<times> nat) option" where
  "added_work gm palw_active [] acc = Some acc"
| "added_work gm palw_active (blue # blues) (added_hash, added_compute) =
     Option.bind (gh_headers_store gm blue) (\<lambda>h.
       if palw_active \<and> dh_pow_algo_id h = POW_ALGO_ID_PALW_REPLICA
       then added_work gm palw_active blues
         (added_hash, work_add added_compute (normalize_palw_work (dh_bits h) (gh_palw_compute_work_scale gm)))
       else added_work gm palw_active blues (work_add added_hash (max (calc_work (dh_bits h)) (gh_level_work gm)), added_compute))"

definition ghostdag :: "ghostdag_manager \<Rightarrow> hash64 list \<Rightarrow> ghostdag_data option" where
  "ghostdag gm parents =
     (if parents = [] then None
      else Option.bind (find_selected_parent gm parents) (\<lambda>sp.
        if sp = ORIGIN then new_with_selected_parent sp 1
        else Option.bind (new_with_selected_parent sp (gh_k gm)) (\<lambda>d.
             Option.bind (ordered_mergeset_without_selected_parent gm sp parents) (\<lambda>ordered_mergeset.
             Option.bind (any_palw_active gm parents) (\<lambda>palw_active.
             Option.bind (seed_nullifiers gm palw_active sp) (\<lambda>seen.
             Option.bind (color_candidates gm palw_active ordered_mergeset (d, seen)) (\<lambda>(d, _).
             Option.bind (gh_ghostdag_store gm sp) (\<lambda>sp_data.
             Option.bind (checked_add u64_max (gd_blue_score sp_data) (length (gd_mergeset_blues d))) (\<lambda>blue_score.
             Option.bind (added_work gm palw_active (gd_mergeset_blues d) (0, 0)) (\<lambda>(added_hash, added_compute).
               Some (finalize_score_and_component_work d blue_score
                 (work_add (gd_blue_hash_work sp_data) added_hash)
                 (work_add (gd_blue_compute_work sp_data) added_compute) COMPUTE_TO_HASH_CAP)))))))))))"

end
