(* ===== verification/Reachability.thy ===== *)
theory Reachability
  imports Reach_Store
begin

text \<open>
  The reachability index answers ancestry. \<open>reach_tree\<close> is the invariant of the interval tree, \<open>represents\<close> says that
  an index describes given relations. Under it every query is answered without error: containment of intervals is
  ancestry in the tree, the binary search finds the one element whose subtree holds a block, and the DAG query is
  ancestry in the DAG.
\<close>

section \<open>Binary search\<close>

lemma bs_loop_spec:
  assumes "\<And>j. j < length xs \<Longrightarrow> key (xs ! j) = Some (f j)"
    and "\<And>i j. i \<le> j \<Longrightarrow> j < length xs \<Longrightarrow> f i \<le> f j"
    and "0 < sz" "base + sz \<le> length xs" "base = 0 \<or> f base \<le> p"
    and "\<And>j. base + sz \<le> j \<Longrightarrow> j < length xs \<Longrightarrow> p < f j"
  shows "\<exists>b. bs_loop key xs p base sz = Some b \<and> b < length xs \<and> (b = 0 \<or> f b \<le> p) \<and>
    (\<forall>j. b < j \<longrightarrow> j < length xs \<longrightarrow> p < f j)"
  using assms
proof (induction key xs p base sz rule: bs_loop.induct)
  case (1 key xs p base sz)
  show ?case
  proof (cases "sz \<le> 1")
    case True
    then have "sz = 1"
      using "1.prems"(3) by simp
    then show ?thesis
      using "1.prems"(4,5,6) by (subst bs_loop.simps) auto
  next
    case False
    define half where "half = sz div 2"
    have half: "0 < half" "half < sz" "half \<le> sz - half"
      using False by (auto simp: half_def)
    have key: "key (xs ! (base + half)) = Some (f (base + half))"
      using "1.prems"(1,4) half(2) by simp
    have step: "bs_loop key xs p base sz = bs_loop key xs p (if p < f (base + half) then base else base + half) (sz - half)"
      using False key by (subst bs_loop.simps) (simp add: half_def)
    have above: "p < f j" if "p < f (base + half)" "base + (sz - half) \<le> j" "j < length xs" for j
      using that half "1.prems"(2) [of "base + half" j] by linarith
    have rest: "p < f j" if "(if p < f (base + half) then base else base + half) + (sz - half) \<le> j" "j < length xs" for j
      using above [of j] "1.prems"(6) [of j] that half(2) by (cases "p < f (base + half)") simp_all
    show ?thesis
      unfolding step
    proof (rule "1.IH" [OF False key [unfolded half_def], folded half_def])
      let ?base = "if p < f (base + half) then base else base + half"
      show "\<And>j. j < length xs \<Longrightarrow> key (xs ! j) = Some (f j)" "\<And>i j. i \<le> j \<Longrightarrow> j < length xs \<Longrightarrow> f i \<le> f j"
        by (simp_all add: "1.prems"(1,2))
      show "0 < sz - half" "?base + (sz - half) \<le> length xs"
        using half "1.prems"(4) by auto
      show "?base = 0 \<or> f ?base \<le> p"
        using "1.prems"(5) by auto
      show "\<And>j. ?base + (sz - half) \<le> j \<Longrightarrow> j < length xs \<Longrightarrow> p < f j"
        by (rule rest)
    qed
  qed
qed

lemma binary_search_spec:
  assumes "\<And>j. j < length xs \<Longrightarrow> key (xs ! j) = Some (f j)"
    and "\<And>i j. i < j \<Longrightarrow> j < length xs \<Longrightarrow> f i < f j"
  shows "(\<exists>i. binary_search_by_key key xs p = Some (Inr i) \<and> i < length xs \<and> f i = p) \<or>
    (\<exists>i. binary_search_by_key key xs p = Some (Inl i) \<and> i \<le> length xs \<and> (\<forall>j<i. f j < p) \<and> (\<forall>j. i \<le> j \<longrightarrow> j < length xs \<longrightarrow> p < f j))"
proof (cases "xs = []")
  case False
  have mono: "f i \<le> f j" if "i \<le> j" "j < length xs" for i j
    using assms(2) [of i j] that by (cases "i = j") auto
  obtain b where b: "bs_loop key xs p 0 (length xs) = Some b" "b < length xs" "b = 0 \<or> f b \<le> p"
      "\<And>j. b < j \<Longrightarrow> j < length xs \<Longrightarrow> p < f j"
    using bs_loop_spec [where key = key and xs = xs and f = f and p = p and base = 0 and sz = "length xs"] assms(1) mono False
    by auto
  have below: "f j < p" if "j < b" "f b \<le> p" for j
    using assms(2) [of j b] that b(2) by simp
  consider "f b = p" | "f b < p" | "p < f b" "b = 0"
    using b(3) by linarith
  then show ?thesis
  proof cases
    case 2
    have "\<forall>j<b + 1. f j < p"
      using below 2 by (auto simp: less_Suc_eq)
    then show ?thesis
      using 2 b assms(1) False by (simp add: binary_search_by_key_def)
  next
    case 3
    then show ?thesis
      using b assms(1) False by (auto simp: binary_search_by_key_def) (metis not_gr_zero)
  qed (use b assms(1) False in \<open>simp add: binary_search_by_key_def\<close>)
qed (simp add: binary_search_by_key_def)

section \<open>The interval tree\<close>

definition tree_of :: "reachability_store \<Rightarrow> (hash64 \<times> hash64) set" where
  "tree_of s = {(p, c). \<exists>d. rs_map s p = Some d \<and> c \<in> set (rc_children d)}"

definition tanc :: "reachability_store \<Rightarrow> hash64 \<Rightarrow> hash64 \<Rightarrow> bool" where
  "tanc s a b \<longleftrightarrow> (a, b) \<in> (tree_of s)\<^sup>*"

definition ivl :: "reachability_store \<Rightarrow> hash64 \<Rightarrow> interval" where
  "ivl s b = rc_interval (the (rs_map s b))"

definition interval_ordered :: "reachability_store \<Rightarrow> hash64 list \<Rightarrow> bool" where
  "interval_ordered s xs \<longleftrightarrow> sorted_wrt (\<lambda>x y. iv_end (ivl s x) < iv_start (ivl s y)) xs"

definition reach_tree :: "reachability_store \<Rightarrow> bool" where
  "reach_tree s \<longleftrightarrow>
     ORIGIN \<in> dom (rs_map s) \<and> NONE \<notin> dom (rs_map s) \<and> (\<forall>b\<in>dom (rs_map s). tanc s ORIGIN b) \<and>
     (\<forall>b\<in>dom (rs_map s). 0 < iv_start (ivl s b) \<and> iv_start (ivl s b) \<le> iv_end (ivl s b) \<and> iv_end (ivl s b) < u64_max) \<and>
     (\<forall>p d. rs_map s p = Some d \<longrightarrow> rc_height d < card (dom (rs_map s)) \<and> set (rc_children d) \<subseteq> dom (rs_map s) \<and> interval_ordered s (rc_children d) \<and>
        (\<forall>c\<in>set (rc_children d). strictly_contains (ivl s p) (ivl s c) \<and> rc_parent (the (rs_map s c)) = p))"

definition represents :: "reachability_store \<Rightarrow> relations \<Rightarrow> bool" where
  "represents s P \<longleftrightarrow> reach_tree s \<and> dom (rs_map s) = dom P \<and>
     (\<forall>x d. rs_map s x = Some d \<longrightarrow>
        set (rc_future_covering_set d) \<subseteq> dom P \<and> interval_ordered s (rc_future_covering_set d) \<and>
        (\<forall>y\<in>dom P. anc P x y \<longleftrightarrow> tanc s x y \<or> (\<exists>f\<in>set (rc_future_covering_set d). tanc s f y)))"

lemma tanc_refl [simp, intro]: "tanc s a a"
  by (simp add: tanc_def)

lemma tanc_trans: "tanc s a b \<Longrightarrow> tanc s b c \<Longrightarrow> tanc s a c"
  by (auto simp: tanc_def)

lemma get_interval_dom [simp]: "b \<in> dom (rs_map s) \<Longrightarrow> get_interval s b = Some (Inr (ivl s b))"
  by (auto simp: get_interval_def get_data_def ivl_def bind_res_def reach_ok_def)

lemma ivl_Some: "rs_map s b = Some d \<Longrightarrow> ivl s b = rc_interval d"
  by (simp add: ivl_def)

lemma tree_nonempty:
  "reach_tree s \<Longrightarrow> b \<in> dom (rs_map s) \<Longrightarrow> 0 < iv_start (ivl s b) \<and> iv_start (ivl s b) \<le> iv_end (ivl s b) \<and> iv_end (ivl s b) < u64_max"
  unfolding reach_tree_def by blast

lemma tree_child:
  "reach_tree s \<Longrightarrow> (p, c) \<in> tree_of s \<Longrightarrow> p \<in> dom (rs_map s) \<and> c \<in> dom (rs_map s) \<and> strictly_contains (ivl s p) (ivl s c)"
  unfolding reach_tree_def tree_of_def by blast

lemma tree_siblings:
  assumes "reach_tree s" "(p, c) \<in> tree_of s" "(p, c') \<in> tree_of s" "c \<noteq> c'"
  shows "iv_end (ivl s c) < iv_start (ivl s c') \<or> iv_end (ivl s c') < iv_start (ivl s c)"
proof -
  obtain d where d: "rs_map s p = Some d" "c \<in> set (rc_children d)" "c' \<in> set (rc_children d)"
    using assms(2,3) by (auto simp: tree_of_def)
  then have "interval_ordered s (rc_children d)"
    using assms(1) by (auto simp: reach_tree_def)
  then show ?thesis
    using d(2,3) assms(4) unfolding interval_ordered_def in_set_conv_nth sorted_wrt_iff_nth_less
    by (metis nat_neq_iff)
qed

lemma tanc_contains:
  assumes "reach_tree s" "tanc s a b"
  shows "interval_contains (ivl s a) (ivl s b) \<and> (a \<noteq> b \<longrightarrow> iv_end (ivl s b) < iv_end (ivl s a))"
  using assms(2) unfolding tanc_def
proof (induction rule: rtrancl_induct)
  case (step y z)
  then show ?case
    using tree_child [OF assms(1) step.hyps(2)] by (auto simp: interval_contains_def strictly_contains_def)
qed (simp add: interval_contains_def)

lemma tanc_dom: "reach_tree s \<Longrightarrow> tanc s a b \<Longrightarrow> a \<noteq> b \<Longrightarrow> a \<in> dom (rs_map s) \<and> b \<in> dom (rs_map s)"
  unfolding tanc_def by (metis converse_rtranclE rtranclE tree_child)

lemma tanc_antisym: "reach_tree s \<Longrightarrow> tanc s a b \<Longrightarrow> tanc s b a \<Longrightarrow> a = b"
  using tanc_contains [of s a b] tanc_contains [of s b a] by fastforce

text \<open>Two blocks of the tree are related or their intervals are disjoint.\<close>

definition apart :: "reachability_store \<Rightarrow> hash64 \<Rightarrow> hash64 \<Rightarrow> bool" where
  "apart s a b \<longleftrightarrow> iv_end (ivl s a) < iv_start (ivl s b) \<or> iv_end (ivl s b) < iv_start (ivl s a)"

lemma apart_mono: "apart s a b \<Longrightarrow> interval_contains (ivl s b) (ivl s c) \<Longrightarrow> apart s a c"
  by (auto simp: apart_def interval_contains_def)

lemma apart_sym: "apart s a b \<longleftrightarrow> apart s b a"
  by (auto simp: apart_def)

lemma tree_trichotomy:
  assumes "reach_tree s" "a \<in> dom (rs_map s)" "b \<in> dom (rs_map s)"
  shows "tanc s a b \<or> tanc s b a \<or> apart s a b"
proof -
  have "tanc s ORIGIN b"
    using assms(1,3) by (simp add: reach_tree_def)
  then show ?thesis
    unfolding tanc_def [of _ ORIGIN b]
  proof (induction rule: rtrancl_induct)
    case base
    then show ?case
      using assms(1,2) by (simp add: reach_tree_def)
  next
    case (step p c)
    note c = tree_child [OF assms(1) step.hyps(2)]
    have pc: "tanc s p c"
      using step.hyps(2) by (auto simp: tanc_def)
    from step.IH consider "tanc s a p" | "tanc s p a" | "apart s a p"
      by blast
    then show ?case
    proof cases
      case 2
      show ?thesis
      proof (cases "a = p")
        case False
        then obtain c' where c': "(p, c') \<in> tree_of s" "tanc s c' a"
          using 2 unfolding tanc_def by (metis converse_rtranclE)
        show ?thesis
        proof (cases "c = c'")
          case False
          then have "apart s c c'"
            using tree_siblings [OF assms(1) step.hyps(2) c'(1)] by (auto simp: apart_def)
          then show ?thesis
            using apart_mono tanc_contains [OF assms(1) c'(2)] apart_sym by blast
        qed (use c' in blast)
      qed (use pc in blast)
    next
      case 3
      then show ?thesis
        using apart_mono tanc_contains [OF assms(1) pc] by blast
    qed (use pc in \<open>blast intro: tanc_trans\<close>)
  qed
qed

lemma tanc_not_apart:
  assumes "reach_tree s" "tanc s a b" "b \<in> dom (rs_map s)"
  shows "\<not> apart s a b"
  using tanc_contains [OF assms(1,2)] tree_nonempty [OF assms(1,3)] by (auto simp: apart_def interval_contains_def)

lemma contains_iff_tanc:
  assumes "reach_tree s" "a \<in> dom (rs_map s)" "b \<in> dom (rs_map s)"
  shows "interval_contains (ivl s a) (ivl s b) \<longleftrightarrow> tanc s a b"
proof
  assume c: "interval_contains (ivl s a) (ivl s b)"
  then have "\<not> apart s a b"
    using tree_nonempty [OF assms(1,3)] by (auto simp: apart_def interval_contains_def)
  then consider "tanc s a b" | "tanc s b a"
    using tree_trichotomy [OF assms] by blast
  then show "tanc s a b"
  proof cases
    case 2
    then have "a = b"
      using c tanc_contains [OF assms(1) 2] by (fastforce simp: interval_contains_def)
    then show ?thesis
      by simp
  qed
qed (use tanc_contains [OF assms(1)] in blast)

lemma is_chain_ancestor_correct:
  assumes "reach_tree s" "a \<in> dom (rs_map s)" "b \<in> dom (rs_map s)"
  shows "is_chain_ancestor_of s a b = Some (Inr (tanc s a b))"
  using assms contains_iff_tanc by (simp add: is_chain_ancestor_of_def bind_res_def reach_ok_def)

section \<open>Queries\<close>

lemma ordered_nth:
  "interval_ordered s xs \<Longrightarrow> i < j \<Longrightarrow> j < length xs \<Longrightarrow> iv_end (ivl s (xs ! i)) < iv_start (ivl s (xs ! j))"
  by (simp add: interval_ordered_def sorted_wrt_iff_nth_less)

lemma binary_search_descendant_correct:
  assumes tree: "reach_tree s" and xs: "set xs \<subseteq> dom (rs_map s)" "interval_ordered s xs" and b: "b \<in> dom (rs_map s)"
  shows "(\<exists>i<length xs. tanc s (xs ! i) b \<and> binary_search_descendant s xs b = Some (Inr (Found (xs ! i) i))) \<or>
    (\<exists>i\<le>length xs. (\<forall>x\<in>set xs. \<not> tanc s x b) \<and> binary_search_descendant s xs b = Some (Inr (NotFound i)) \<and>
       (\<forall>j<i. iv_start (ivl s (xs ! j)) < iv_end (ivl s b)) \<and>
       (\<forall>j. i \<le> j \<longrightarrow> j < length xs \<longrightarrow> iv_end (ivl s b) < iv_start (ivl s (xs ! j))))"
proof -
  define f where "f j = iv_start (ivl s (xs ! j))" for j
  let ?key = "\<lambda>c. map_option iv_start (unwrap_res (get_interval s c))" and ?p = "iv_end (ivl s b)"
  have dom: "xs ! j \<in> dom (rs_map s)" if "j < length xs" for j
    using xs(1) that by (auto dest: nth_mem)
  have key: "?key (xs ! j) = Some (f j)" if "j < length xs" for j
    using dom [OF that] by (simp add: f_def unwrap_res_def)
  have mono: "f i < f j" if "i < j" "j < length xs" for i j
    using ordered_nth [OF xs(2) that] tree_nonempty [OF tree dom, of i] that by (simp add: f_def)
  have run: "binary_search_descendant s xs b = bind_res (lift_abort (binary_search_by_key ?key xs ?p)) (\<lambda>r. case r of
      Inr i \<Rightarrow> reach_ok (Found (xs ! i) i)
    | Inl i \<Rightarrow> bind_res (if 0 < i then is_chain_ancestor_of s (xs ! (i - 1)) b else reach_ok False) (\<lambda>c.
        reach_ok (if c then Found (xs ! (i - 1)) (i - 1) else NotFound i)))"
    using b by (simp add: binary_search_descendant_def bind_res_def)
  note nb = tree_nonempty [OF tree b]
  from binary_search_spec [of xs ?key f ?p, OF key mono]
  consider i where "binary_search_by_key ?key xs ?p = Some (Inr i)" "i < length xs" "f i = ?p"
    | i where "binary_search_by_key ?key xs ?p = Some (Inl i)" "i \<le> length xs" "\<forall>j<i. f j < ?p" "\<forall>j. i \<le> j \<longrightarrow> j < length xs \<longrightarrow> ?p < f j"
    by blast
  then show ?thesis
  proof cases
    case 1
    have "\<not> apart s (xs ! i) b"
      using 1(3) nb tree_nonempty [OF tree dom [OF 1(2)]] by (auto simp: apart_def f_def)
    then have "tanc s (xs ! i) b \<or> tanc s b (xs ! i)"
      using tree_trichotomy [OF tree dom [OF 1(2)] b] by blast
    moreover have "xs ! i = b" if "tanc s b (xs ! i)"
      using tanc_contains [OF tree that] 1(3) tree_nonempty [OF tree dom [OF 1(2)]] by (fastforce simp: f_def)
    ultimately have "tanc s (xs ! i) b"
      by auto
    then show ?thesis
      using 1 by (auto simp: run lift_abort_def bind_res_def reach_ok_def)
  next
    case 2
    have holds: "j = i - 1 \<and> 0 < i" if "j < length xs" "tanc s (xs ! j) b" for j
    proof -
      have c: "f j \<le> iv_start (ivl s b)" "?p \<le> iv_end (ivl s (xs ! j))"
        using tanc_contains [OF tree that(2)] by (auto simp: interval_contains_def f_def)
      then have "j < i"
        using 2(4) that(1) nb by (meson le_trans not_le)
      moreover have "\<not> j < i - 1"
      proof
        assume "j < i - 1"
        then have "iv_end (ivl s (xs ! j)) < f (i - 1)"
          using ordered_nth [OF xs(2), of j "i - 1"] 2(2) by (simp add: f_def)
        moreover have "f (i - 1) < ?p"
          using 2(3) \<open>j < i - 1\<close> by auto
        ultimately show False
          using c(2) by linarith
      qed
      ultimately show ?thesis
        by linarith
    qed
    show ?thesis
    proof (cases "0 < i \<and> tanc s (xs ! (i - 1)) b")
      case True
      then show ?thesis
        using 2(1,2) is_chain_ancestor_correct [OF tree dom b, of "i - 1"]
        by (auto simp: run lift_abort_def bind_res_def reach_ok_def)
    next
      case False
      have "binary_search_descendant s xs b = Some (Inr (NotFound i))"
        using 2(1,2) False is_chain_ancestor_correct [OF tree dom b, of "i - 1"]
        by (auto simp: run lift_abort_def bind_res_def reach_ok_def)
      moreover have "\<forall>x\<in>set xs. \<not> tanc s x b"
        using holds False by (metis in_set_conv_nth)
      ultimately show ?thesis
        using 2 by (auto simp: f_def)
    qed
  qed
qed

lemma represents_tree: "represents s P \<Longrightarrow> reach_tree s" "represents s P \<Longrightarrow> dom (rs_map s) = dom P"
  by (simp_all add: represents_def)

lemma represents_fcs:
  assumes "represents s P" "rs_map s x = Some d"
  shows "set (rc_future_covering_set d) \<subseteq> dom P" "interval_ordered s (rc_future_covering_set d)"
    and "y \<in> dom P \<Longrightarrow> anc P x y \<longleftrightarrow> tanc s x y \<or> (\<exists>f\<in>set (rc_future_covering_set d). tanc s f y)"
  using assms unfolding represents_def by blast+

text \<open>The DAG query is ancestry in the DAG.\<close>

lemma dag_ancestor_correct:
  assumes rep: "represents s P" and a: "a \<in> dom P" and b: "b \<in> dom P"
  shows "is_dag_ancestor_of s a b = Some (Inr (anc P a b))"
proof -
  note tree = represents_tree(1) [OF rep] and dom = represents_tree(2) [OF rep]
  obtain d where d: "rs_map s a = Some d"
    using a dom by auto
  note fcs = represents_fcs [OF rep d]
  have chain: "is_chain_ancestor_of s a b = Some (Inr (tanc s a b))"
    using is_chain_ancestor_correct [OF tree] a b dom by simp
  have set: "get_future_covering_set s a = Some (Inr (rc_future_covering_set d))"
    using d by (simp add: get_future_covering_set_def get_data_def bind_res_def reach_ok_def)
  have "\<exists>r. binary_search_descendant s (rc_future_covering_set d) b = Some (Inr r) \<and>
      (case r of Found _ _ \<Rightarrow> True | NotFound _ \<Rightarrow> False) = (\<exists>f\<in>set (rc_future_covering_set d). tanc s f b)"
    using binary_search_descendant_correct [OF tree, of "rc_future_covering_set d" b] fcs(1,2) b dom by force
  then show ?thesis
    using fcs(3) [OF b] chain set by (auto simp: is_dag_ancestor_of_def bind_res_def reach_ok_def)
qed

lemma dag_ancestor_service: "represents s P \<Longrightarrow> a \<in> dom P \<Longrightarrow> b \<in> dom P \<Longrightarrow> dag_ancestor s a b = Some (anc P a b)"
  using dag_ancestor_correct by (simp add: dag_ancestor_def unwrap_res_def)

end
