(* ===== verification/Ghostdag_Mergeset.thy ===== *)
theory Ghostdag_Mergeset
  imports Ghostdag Reachability
begin

text \<open>
  The mergeset search ends and finds exactly the past of the new block that is not in the past of its selected parent.
  The order by blue work and hash is total, so the result does not depend on the order of the hash set that the search fills.
\<close>

section \<open>Breadth-first search\<close>

definition mergeset_of :: "relations \<Rightarrow> hash64 \<Rightarrow> hash64 list \<Rightarrow> hash64 set" where
  "mergeset_of P sp parents = {x. (\<exists>p\<in>set parents. anc P x p) \<and> \<not> anc P x sp}"

lemma visit_parents_spec:
  assumes rep: "represents (gh_reachability_service gm) P" and sp: "sp \<in> dom P"
    and "set cps \<subseteq> dom P" "\<forall>x\<in>set past. anc P x sp"
  shows "\<exists>new past'. visit_parents gm sp cps (queue, ms, past) = Some (queue @ new, rev new @ ms, past') \<and>
    distinct new \<and> set new \<inter> set ms = {} \<and> set new \<subseteq> set cps \<and> (\<forall>x\<in>set new. \<not> anc P x sp) \<and>
    (\<forall>x\<in>set cps. x \<in> set ms \<union> set new \<or> anc P x sp) \<and> (\<forall>x\<in>set past'. anc P x sp)"
  using assms(3,4)
proof (induction cps arbitrary: queue ms past)
  case (Cons p cps)
  let ?goal = "\<lambda>queue ms past new past'. visit_parents gm sp cps (queue, ms, past) = Some (queue @ new, rev new @ ms, past') \<and>
    distinct new \<and> set new \<inter> set ms = {} \<and> set new \<subseteq> set cps \<and> (\<forall>x\<in>set new. \<not> anc P x sp) \<and>
    (\<forall>x\<in>set cps. x \<in> set ms \<union> set new \<or> anc P x sp) \<and> (\<forall>x\<in>set past'. anc P x sp)"
  have q: "dag_ancestor (gh_reachability_service gm) p sp = Some (anc P p sp)"
    using Cons.prems(1) sp by (intro dag_ancestor_service [OF rep]) auto
  consider "p \<in> set ms \<or> p \<in> set past" | "p \<notin> set ms" "p \<notin> set past" "anc P p sp"
    | "p \<notin> set ms" "p \<notin> set past" "\<not> anc P p sp"
    by blast
  then show ?case
  proof cases
    case 1
    obtain new past' where "?goal queue ms past new past'"
      using Cons.IH [of past queue ms] Cons.prems by auto
    then show ?thesis
      using 1 Cons.prems(2) by (intro exI [of _ new] exI [of _ past']) auto
  next
    case 2
    obtain new past' where "?goal queue ms (p # past) new past'"
      using Cons.IH [of "p # past" queue ms] Cons.prems 2 by auto
    then show ?thesis
      using 2 q by (intro exI [of _ new] exI [of _ past']) auto
  next
    case 3
    obtain new past' where "?goal (queue @ [p]) (p # ms) past new past'"
      using Cons.IH [of past "queue @ [p]" "p # ms"] Cons.prems by auto
    then show ?thesis
      using 3 q by (intro exI [of _ "p # new"] exI [of _ past']) auto
  qed
qed simp

text \<open>What holds of queue, mergeset and past at every turn of the loop.\<close>

definition search_inv :: "relations \<Rightarrow> hash64 \<Rightarrow> hash64 list \<Rightarrow> hash64 list \<times> hash64 list \<times> hash64 list \<Rightarrow> bool" where
  "search_inv P sp parents = (\<lambda>(queue, ms, past).
     distinct ms \<and> set queue \<subseteq> set ms \<and> set ms \<subseteq> mergeset_of P sp parents \<and> (\<forall>x\<in>set past. anc P x sp) \<and>
     (\<forall>x\<in>set ms - set queue. \<forall>ps. P x = Some ps \<longrightarrow> (\<forall>p\<in>set ps. p \<in> set ms \<or> anc P p sp)) \<and>
     set parents - {sp} \<subseteq> set ms)"

lemma mergeset_dom: "dag_wf P \<Longrightarrow> set parents \<subseteq> dom P \<Longrightarrow> mergeset_of P sp parents \<subseteq> dom P"
  unfolding mergeset_of_def using anc_dom by blast

lemma search_finds_all:
  assumes "search_inv P sp parents ([], ms, past)"
  shows "set ms = mergeset_of P sp parents"
proof
  show "mergeset_of P sp parents \<subseteq> set ms"
  proof
    fix x assume "x \<in> mergeset_of P sp parents"
    then obtain p where p: "p \<in> set parents" "anc P x p" "\<not> anc P x sp"
      by (auto simp: mergeset_of_def)
    then have "p \<in> set ms"
      using assms by (auto simp: search_inv_def)
    from p(2)[unfolded anc_def] p(3) show "x \<in> set ms"
    proof (induction rule: converse_rtrancl_induct)
      case (step y z)
      have "anc P y z"
        using step.hyps(1) by (auto simp: anc_def)
      then have "\<not> anc P z sp"
        using step.prems anc_trans by blast
      then have "z \<in> set ms"
        by (rule step.IH)
      moreover have "\<forall>x\<in>set ms. \<forall>ps. P x = Some ps \<longrightarrow> (\<forall>p\<in>set ps. p \<in> set ms \<or> anc P p sp)"
        using assms by (simp add: search_inv_def)
      moreover obtain ps where "P z = Some ps" "y \<in> set ps"
        using step.hyps(1) by auto
      ultimately show ?case
        using step.prems by blast
    qed (use \<open>p \<in> set ms\<close> in simp)
  qed
qed (use assms in \<open>simp add: search_inv_def\<close>)

lemma search_step:
  assumes dag: "dag_wf P" and rep: "represents (gh_reachability_service gm) P" and rel: "gh_relations_store gm = P"
    and sp: "sp \<in> dom P" and ps: "set parents \<subseteq> dom P" and inv: "search_inv P sp parents (current # queue, ms, past)"
  obtains new past' where
    "mergeset_loop gm sp (current # queue, ms, past) = mergeset_loop gm sp (queue @ new, rev new @ ms, past')"
    "search_inv P sp parents (queue @ new, rev new @ ms, past')"
    "2 * card (mergeset_of P sp parents - set (rev new @ ms)) + length (queue @ new)
       < 2 * card (mergeset_of P sp parents - set ms) + length (current # queue)"
proof -
  let ?M = "mergeset_of P sp parents"
  have "current \<in> ?M"
    using inv by (auto simp: search_inv_def)
  then have "current \<in> dom P"
    using mergeset_dom [OF dag ps] by blast
  then obtain cps where cps: "P current = Some cps"
    by blast
  have cd: "set cps \<subseteq> dom P"
    using dag_closed [OF dag cps] by blast
  obtain new past' where v: "visit_parents gm sp cps (queue, ms, past) = Some (queue @ new, rev new @ ms, past')"
    and new: "distinct new" "set new \<inter> set ms = {}" "set new \<subseteq> set cps" "\<forall>x\<in>set new. \<not> anc P x sp"
      "\<forall>x\<in>set cps. x \<in> set ms \<union> set new \<or> anc P x sp" "\<forall>x\<in>set past'. anc P x sp"
    using visit_parents_spec [OF rep sp cd, of past queue ms] inv by (auto simp: search_inv_def)
  have newM: "set new \<subseteq> ?M"
  proof
    fix x assume x: "x \<in> set new"
    obtain p where "p \<in> set parents" "anc P current p"
      using \<open>current \<in> ?M\<close> by (auto simp: mergeset_of_def)
    moreover have "anc P x current"
      using x new(3) by (intro anc_parent [where P = P and b = current and ps = cps, OF cps]) auto
    ultimately have "anc P x p"
      by (meson anc_trans)
    then show "x \<in> ?M"
      using x new(4) \<open>p \<in> set parents\<close> by (auto simp: mergeset_of_def)
  qed
  show ?thesis
  proof (rule that [of new past'])
    show "mergeset_loop gm sp (current # queue, ms, past) = mergeset_loop gm sp (queue @ new, rev new @ ms, past')"
      using cps rel v by (subst mergeset_loop.simps) simp
    have "\<forall>x\<in>set ms - set (current # queue). \<forall>ps. P x = Some ps \<longrightarrow> (\<forall>p\<in>set ps. p \<in> set ms \<or> anc P p sp)"
      using inv by (simp add: search_inv_def)
    then have "p \<in> set ms \<union> set new \<or> anc P p sp" if "x \<in> set ms" "x \<notin> set queue" "P x = Some ps" "p \<in> set ps" for x ps p
      using that cps new(5) by (cases "x = current") auto
    then show "search_inv P sp parents (queue @ new, rev new @ ms, past')"
      using inv new newM unfolding search_inv_def prod.case by auto
    have fin: "finite ?M"
      using mergeset_dom [OF dag ps] dag_finite [OF dag] finite_subset by blast
    have "?M - set ms = (?M - set (rev new @ ms)) \<union> set new"
      using newM new(2) by auto
    then have "card (?M - set ms) = card (?M - set (rev new @ ms)) + length new"
      using fin card_Un_disjoint [of "?M - set (rev new @ ms)" "set new"] distinct_card [OF new(1)] by auto
    then show "2 * card (?M - set (rev new @ ms)) + length (queue @ new) < 2 * card (?M - set ms) + length (current # queue)"
      by simp
  qed
qed

lemma mergeset_loop_finds:
  assumes dag: "dag_wf P" and rep: "represents (gh_reachability_service gm) P" and rel: "gh_relations_store gm = P"
    and sp: "sp \<in> dom P" and ps: "set parents \<subseteq> dom P" and inv: "search_inv P sp parents (queue, ms, past)"
  shows "\<exists>res. mergeset_loop gm sp (queue, ms, past) = Some res \<and> distinct res \<and> set res = mergeset_of P sp parents"
  using inv
proof (induction "2 * card (mergeset_of P sp parents - set ms) + length queue" arbitrary: queue ms past rule: less_induct)
  case less
  show ?case
  proof (cases queue)
    case Nil
    have "mergeset_loop gm sp ([], ms, past) = Some ms"
      by (subst mergeset_loop.simps) simp
    moreover have "distinct ms"
      using less.prems by (simp add: search_inv_def)
    moreover have "set ms = mergeset_of P sp parents"
      using less.prems [unfolded Nil] by (rule search_finds_all)
    ultimately show ?thesis
      unfolding Nil by blast
  next
    case (Cons current queue')
    obtain new past' where
      step: "mergeset_loop gm sp (current # queue', ms, past) = mergeset_loop gm sp (queue' @ new, rev new @ ms, past')"
      and inv': "search_inv P sp parents (queue' @ new, rev new @ ms, past')"
      and dec: "2 * card (mergeset_of P sp parents - set (rev new @ ms)) + length (queue' @ new)
        < 2 * card (mergeset_of P sp parents - set ms) + length (current # queue')"
      by (rule search_step [OF dag rep rel sp ps less.prems [unfolded Cons]])
    show ?thesis
      unfolding Cons step by (rule less.hyps [OF dec [folded Cons] inv'])
  qed
qed

lemma mergeset_search_correct:
  assumes "dag_wf P" "represents (gh_reachability_service gm) P" "gh_relations_store gm = P"
    and "sp \<in> dom P" "set parents \<subseteq> dom P" "\<And>p. p \<in> set parents \<Longrightarrow> p \<noteq> sp \<Longrightarrow> \<not> anc P p sp"
  shows "\<exists>ms. unordered_mergeset_without_selected_parent gm sp parents = Some ms \<and> distinct ms \<and> set ms = mergeset_of P sp parents"
proof -
  have "search_inv P sp parents (filter (\<lambda>p. p \<noteq> sp) parents, remdups (filter (\<lambda>p. p \<noteq> sp) parents), [])"
    using assms(6) by (auto simp: search_inv_def mergeset_of_def)
  then show ?thesis
    unfolding unordered_mergeset_without_selected_parent_def Let_def
    by (rule mergeset_loop_finds [OF assms(1-5)])
qed

section \<open>Order and selected parent\<close>

lemma those_Some: "those xs = Some ys \<longleftrightarrow> xs = map Some ys"
  by (induction xs arbitrary: ys) (auto split: option.splits)

lemma those_sortable:
  assumes "\<forall>b\<in>set bs. gh_ghostdag_store gm b = Some (D b)"
  shows "those (map (sortable_block gm) bs) = Some (map (\<lambda>b. (gd_blue_work (D b), b)) bs)"
  using assms by (simp add: those_Some sortable_block_def)

lemma sort_blocks_spec:
  assumes "\<forall>b\<in>set bs. gh_ghostdag_store gm b = Some (D b)" "distinct bs"
  shows "\<exists>L. sort_blocks gm bs = Some L \<and> distinct L \<and> set L = set bs \<and>
    sorted_wrt (\<lambda>a b. (gd_blue_work (D a), a) < (gd_blue_work (D b), b)) L"
proof -
  let ?ks = "map (\<lambda>b. (gd_blue_work (D b), b)) bs"
  let ?L = "map snd (sort ?ks)"
  have "map (\<lambda>k. (gd_blue_work (D (snd k)), snd k)) (sort ?ks) = sort ?ks"
    by (rule map_idI) auto
  then have eq: "sort ?ks = map (\<lambda>b. (gd_blue_work (D b), b)) ?L"
    by (simp add: comp_def)
  have "inj_on snd (set ?ks)"
    by (auto simp: inj_on_def)
  then have dist: "distinct ?L"
    using assms(2) by (simp add: distinct_map) (auto simp: inj_on_def)
  have "sorted_wrt (<) (sort ?ks)"
    using assms(2) by (simp add: strict_sorted_iff distinct_map inj_on_def)
  then have "sorted_wrt (\<lambda>a b. (gd_blue_work (D a), a) < (gd_blue_work (D b), b)) ?L"
    by (subst (asm) eq) (simp add: sorted_wrt_map)
  then show ?thesis
    using dist by (intro exI [of _ ?L]) (auto simp: sort_blocks_def those_sortable [OF assms(1)] image_image)
qed

lemma find_selected_parent_spec:
  assumes "\<forall>b\<in>set bs. gh_ghostdag_store gm b = Some (D b)" "bs \<noteq> []"
  obtains sp where "find_selected_parent gm bs = Some sp" "sp \<in> set bs"
    "\<And>b. b \<in> set bs \<Longrightarrow> (gd_blue_work (D b), b) \<le> (gd_blue_work (D sp), sp)"
proof -
  let ?ks = "map (\<lambda>b. (gd_blue_work (D b), b)) bs"
  have "Max (set ?ks) \<in> set ?ks"
    using assms(2) by (intro Max_in) auto
  then obtain sp where sp: "sp \<in> set bs" "Max (set ?ks) = (gd_blue_work (D sp), sp)"
    by auto
  show ?thesis
  proof (rule that [of sp])
    show "find_selected_parent gm bs = Some sp"
      using assms(2) sp(2) by (simp add: find_selected_parent_def those_sortable [OF assms(1)])
    show "(gd_blue_work (D b), b) \<le> (gd_blue_work (D sp), sp)" if "b \<in> set bs" for b
      using that unfolding sp(2) [symmetric] by (intro Max_ge) auto
  qed (rule sp(1))
qed

end
