(* ===== verification/Ghostdag_Coloring.thy ===== *)
theory Ghostdag_Coloring
  imports Ghostdag_Mergeset
begin

text \<open>
  The colouring of one candidate. The blue set of a block is its blue mergeset with the blue set of its selected parent.
  While the recorded anticone sizes are exact, the walk along the selected chain ends and colours the candidate
  blue exactly if the blue set with the candidate is still a \<open>k\<close>-cluster: no member has more than \<open>k\<close> members in its anticone.
\<close>

section \<open>Blue sets and clusters\<close>

inductive blue_in :: "(hash64 \<rightharpoonup> ghostdag_data) \<Rightarrow> ghostdag_data \<Rightarrow> hash64 \<Rightarrow> bool" for D where
  own: "x \<in> set (gd_mergeset_blues d) \<Longrightarrow> blue_in D d x"
| chain: "D (gd_selected_parent d) = Some d' \<Longrightarrow> blue_in D d' x \<Longrightarrow> blue_in D d x"

definition blues :: "(hash64 \<rightharpoonup> ghostdag_data) \<Rightarrow> ghostdag_data \<Rightarrow> hash64 set" where
  "blues D d = {x. blue_in D d x}"

definition anticone_in :: "relations \<Rightarrow> hash64 set \<Rightarrow> hash64 \<Rightarrow> hash64 set" where
  "anticone_in P B x = {y \<in> B. anticone P x y}"

definition k_cluster :: "relations \<Rightarrow> nat \<Rightarrow> hash64 set \<Rightarrow> bool" where
  "k_cluster P k B \<longleftrightarrow> (\<forall>x\<in>B. card (anticone_in P B x) \<le> k)"

lemma blues_unfold:
  "blues D d = set (gd_mergeset_blues d) \<union> (case D (gd_selected_parent d) of None \<Rightarrow> {} | Some d' \<Rightarrow> blues D d')"
  by (auto simp: blues_def intro: blue_in.intros elim: blue_in.cases split: option.splits)

lemma blues_Some: "D (gd_selected_parent d) = Some d' \<Longrightarrow> blues D d = set (gd_mergeset_blues d) \<union> blues D d'"
  by (subst blues_unfold) simp

lemma anticone_in_insert:
  "anticone_in P (insert c B) x = (if anticone P x c then insert c (anticone_in P B x) else anticone_in P B x)"
  by (auto simp: anticone_in_def)

lemma k_cluster_insert:
  assumes "finite B" "c \<notin> B" "k_cluster P k B"
  shows "k_cluster P k (insert c B) \<longleftrightarrow>
    card (anticone_in P B c) \<le> k \<and> (\<forall>y\<in>anticone_in P B c. card (anticone_in P B y) < k)"
proof -
  have fin: "finite (anticone_in P B x)" "c \<notin> anticone_in P B x" for x
    using assms(1,2) by (auto simp: anticone_in_def)
  have "card (anticone_in P (insert c B) x) = card (anticone_in P B x) + (if anticone P x c then 1 else 0)" for x
    using fin [of x] by (simp add: anticone_in_insert)
  moreover have "anticone P y c \<longleftrightarrow> y \<in> anticone_in P B c" if "y \<in> B" for y
    using that anticone_sym by (auto simp: anticone_in_def)
  ultimately show ?thesis
    using assms(3) by (auto simp: k_cluster_def Suc_le_eq anticone_in_def)
qed

lemma blue_anticone_size_unfold:
  "blue_anticone_size gm x d =
     (case hm_get (gd_blues_anticone_sizes d) x of
        Some n \<Rightarrow> Some n
      | None \<Rightarrow> if gd_selected_parent d = gh_genesis_hash gm \<or> gd_selected_parent d = ORIGIN then None
          else Option.bind (gh_ghostdag_store gm (gd_selected_parent d)) (blue_anticone_size gm x))"
  unfolding blue_anticone_size_def by (subst anticone_size_walk.simps) (simp add: blue_anticone_size_def)

section \<open>The stores\<close>

text \<open>What GHOSTDAG data promises while the mergeset is being coloured: the selected parent is one of the parents and the
  first blue, the other blues are in the mergeset, the blue set is a \<open>k\<close>-cluster, and the size recorded for each blue
  block is exact. Complete data also has every block of the mergeset, once,
  and its blue score is the size of its blue set.\<close>

definition view_ok :: "ghostdag_manager \<Rightarrow> hash64 list \<Rightarrow> ghostdag_data \<Rightarrow> bool" where
  "view_ok gm parents d \<longleftrightarrow>
     (let P = gh_relations_store gm; sp = gd_selected_parent d; B = blues (gh_ghostdag_store gm) d
      in sp \<in> set parents \<and> gd_mergeset_blues d \<noteq> [] \<and> hd (gd_mergeset_blues d) = sp \<and>
         distinct (gd_mergeset_blues d) \<and> set (tl (gd_mergeset_blues d)) \<subseteq> mergeset_of P sp parents \<and>
         k_cluster P (gh_k gm) B \<and>
         (\<forall>x\<in>B. blue_anticone_size gm x d = Some (card (anticone_in P B x))) \<and>
         (\<forall>x. hm_get (gd_blues_anticone_sizes d) x \<noteq> None \<longrightarrow> x \<in> B))"

definition data_ok :: "ghostdag_manager \<Rightarrow> hash64 list \<Rightarrow> ghostdag_data \<Rightarrow> bool" where
  "data_ok gm parents d \<longleftrightarrow> view_ok gm parents d \<and> distinct (gd_mergeset_blues d @ gd_mergeset_reds d) \<and>
     set (unordered_mergeset_of d) = mergeset_of (gh_relations_store gm) (gd_selected_parent d) parents \<and>
     gd_blue_score d = card (blues (gh_ghostdag_store gm) d)"

definition roots_ok :: "ghostdag_manager \<Rightarrow> bool" where
  "roots_ok gm \<longleftrightarrow>
     (let P = gh_relations_store gm; D = gh_ghostdag_store gm; g = gh_genesis_hash gm
      in g \<noteq> ORIGIN \<and> P ORIGIN = Some [] \<and> P g = Some [ORIGIN] \<and> NONE \<notin> dom P \<and>
         D ORIGIN = Some origin_ghostdag_data \<and> D g = Some genesis_ghostdag_data \<and>
         (\<forall>b\<in>dom P. anc P ORIGIN b) \<and> (\<forall>b\<in>dom P. b \<noteq> ORIGIN \<longrightarrow> anc P g b))"

definition stores_ok :: "ghostdag_manager \<Rightarrow> bool" where
  "stores_ok gm \<longleftrightarrow>
     (let P = gh_relations_store gm; D = gh_ghostdag_store gm
      in dag_wf P \<and> represents (gh_reachability_service gm) P \<and> dom D = dom P \<and> dom (gh_headers_store gm) = dom P - {ORIGIN} \<and>
         gh_k gm < u16_max \<and> roots_ok gm \<and>
         (\<forall>b ps d. P b = Some ps \<longrightarrow> D b = Some d \<longrightarrow> b \<noteq> ORIGIN \<longrightarrow> b \<noteq> gh_genesis_hash gm \<longrightarrow>
            ORIGIN \<notin> set ps \<and> data_ok gm ps d))"

lemma stores_facts:
  assumes "stores_ok gm"
  shows "dag_wf (gh_relations_store gm)" "represents (gh_reachability_service gm) (gh_relations_store gm)"
    and "dom (gh_ghostdag_store gm) = dom (gh_relations_store gm)" "gh_k gm < u16_max" "roots_ok gm"
    and "dom (gh_headers_store gm) = dom (gh_relations_store gm) - {ORIGIN}"
  using assms by (simp_all add: stores_ok_def Let_def)

lemma stored_data_ok:
  assumes "stores_ok gm" "gh_relations_store gm b = Some ps" "gh_ghostdag_store gm b = Some d"
    and "b \<noteq> ORIGIN" "b \<noteq> gh_genesis_hash gm"
  shows "ORIGIN \<notin> set ps" "data_ok gm ps d"
  using assms unfolding stores_ok_def Let_def by blast+

lemma view_ok_blues:
  assumes "view_ok gm ps d"
  shows "gd_selected_parent d \<in> set ps"
    and "gd_mergeset_blues d = gd_selected_parent d # tl (gd_mergeset_blues d)" "distinct (gd_mergeset_blues d)"
    and "set (tl (gd_mergeset_blues d)) \<subseteq> mergeset_of (gh_relations_store gm) (gd_selected_parent d) ps"
  using assms by (cases "gd_mergeset_blues d"; simp add: view_ok_def Let_def)+

lemma view_ok_sizes:
  assumes "view_ok gm ps d"
  shows "k_cluster (gh_relations_store gm) (gh_k gm) (blues (gh_ghostdag_store gm) d)"
    and "x \<in> blues (gh_ghostdag_store gm) d \<Longrightarrow>
      blue_anticone_size gm x d = Some (card (anticone_in (gh_relations_store gm) (blues (gh_ghostdag_store gm) d) x))"
    and "hm_get (gd_blues_anticone_sizes d) x \<noteq> None \<Longrightarrow> x \<in> blues (gh_ghostdag_store gm) d"
  using assms by (simp_all add: view_ok_def Let_def)

lemma data_ok_view: "data_ok gm ps d \<Longrightarrow> view_ok gm ps d"
  by (simp add: data_ok_def)

lemma view_blues_subset:
  assumes "view_ok gm ps d"
  shows "set (gd_mergeset_blues d) \<subseteq> insert (gd_selected_parent d) (mergeset_of (gh_relations_store gm) (gd_selected_parent d) ps)"
  using view_ok_blues(2,4) [OF assms] by (metis insert_mono list.simps(15))

lemma root_blues:
  assumes "roots_ok gm" "dom (gh_ghostdag_store gm) = dom (gh_relations_store gm)"
  shows "blues (gh_ghostdag_store gm) genesis_ghostdag_data = {}" "blues (gh_ghostdag_store gm) origin_ghostdag_data = {}"
proof -
  have "gh_ghostdag_store gm NONE = None"
    using assms unfolding roots_ok_def Let_def by (metis domIff)
  then show "blues (gh_ghostdag_store gm) origin_ghostdag_data = {}"
    by (subst blues_unfold) (simp add: origin_ghostdag_data_def genesis_ghostdag_data_def)
  then show "blues (gh_ghostdag_store gm) genesis_ghostdag_data = {}"
    using assms(1) by (subst blues_unfold) (simp add: roots_ok_def Let_def genesis_ghostdag_data_def)
qed

text \<open>Blue blocks of a block are in its past.\<close>

lemma blues_in_past:
  assumes ok: "stores_ok gm" and b: "gh_ghostdag_store gm b = Some d" and x: "x \<in> blues (gh_ghostdag_store gm) d"
  shows "anc (gh_relations_store gm) x b \<and> x \<noteq> b"
  using b x
proof (induction b arbitrary: d rule: dag_induct [OF stores_facts(1) [OF ok], consumes 0])
  case (1 b)
  let ?P = "gh_relations_store gm" and ?D = "gh_ghostdag_store gm" and ?sp = "gd_selected_parent d"
  note dag = stores_facts(1) [OF ok] and roots = stores_facts(5) [OF ok] and doms = stores_facts(3) [OF ok]
  have nb: "b \<noteq> ORIGIN" "b \<noteq> gh_genesis_hash gm"
    using "1.prems" root_blues [OF roots doms] roots by (auto simp: roots_ok_def Let_def)
  obtain ps where ps: "?P b = Some ps"
    using "1.prems"(1) doms by blast
  note dok = data_ok_view [OF stored_data_ok(2) [OF ok ps "1.prems"(1) nb]]
  have up: "anc ?P y b \<and> y \<noteq> b" if "p \<in> set ps" "anc ?P y p" for y p
  proof -
    show ?thesis
      using parent_strict [OF dag ps that(1)] that(2) anc_trans anc_antisym [OF dag] by blast
  qed
  have spd: "?sp \<in> set ps"
    by (rule view_ok_blues(1) [OF dok])
  then have "?sp \<in> dom ?P"
    by (rule dag_closed [OF dag ps])
  then obtain d' where d': "?D ?sp = Some d'"
    using doms by blast
  consider "x \<in> set (gd_mergeset_blues d)" | "x \<in> blues ?D d'"
    using "1.prems"(2) blues_Some [of ?D d d', OF d'] by blast
  then show ?case
  proof cases
    case 1
    then have "x = ?sp \<or> (\<exists>p\<in>set ps. anc ?P x p)"
      using view_blues_subset [OF dok] by (auto simp: mergeset_of_def)
    then show ?thesis
      using up spd by blast
  next
    case 2
    have "anc ?P ?sp b \<and> ?sp \<noteq> b"
      using up spd by blast
    then have "anc ?P x ?sp"
      using "1.IH" d' 2 by blast
    then show ?thesis
      using up spd by blast
  qed
qed

lemma finite_blues: "stores_ok gm \<Longrightarrow> gh_ghostdag_store gm b = Some d \<Longrightarrow> finite (blues (gh_ghostdag_store gm) d)"
proof (rule finite_subset)
  assume ok: "stores_ok gm" and b: "gh_ghostdag_store gm b = Some d"
  have "b \<in> dom (gh_relations_store gm)"
    using b stores_facts(3) [OF ok] by blast
  then show "blues (gh_ghostdag_store gm) d \<subseteq> dom (gh_relations_store gm)"
    using blues_in_past [OF ok b] anc_dom [OF stores_facts(1) [OF ok]] by blast
  show "finite (dom (gh_relations_store gm))"
    by (rule dag_finite [OF stores_facts(1) [OF \<open>stores_ok gm\<close>]])
qed

section \<open>The walk along the selected chain\<close>

lemma get_fold_insert:
  "hm_get (fold (\<lambda>y. hm_insert y (f y)) ys m) x = (if x \<in> set ys then Some (f x) else hm_get m x)"
  by (induction ys arbitrary: m) auto

lemma wf_fold_insert: "hm_wf m \<Longrightarrow> hm_wf (fold (\<lambda>y. hm_insert y (f y)) ys m)"
  by (induction ys arbitrary: m) auto

lemma check_peers_spec:
  assumes rep: "represents (gh_reachability_service gm) P" and c: "c \<in> dom P" and k: "k < u16_max" and "n \<le> k"
    and peers: "set peers \<subseteq> dom P" "\<forall>y\<in>set peers. blue_anticone_size gm y nd = Some (f y) \<and> f y \<le> k"
  defines "A \<equiv> filter (\<lambda>y. \<not> anc P y c) peers"
  shows "if n + length A \<le> k \<and> (\<forall>y\<in>set A. f y < k)
    then check_peers gm nd c k peers (sizes, n) =
      Some (ColoringPending, fold (\<lambda>y. hm_insert y (f y)) A sizes, n + length A)
    else \<exists>r. check_peers gm nd c k peers (sizes, n) = Some (ColoringRed, r)"
  using assms(4) peers unfolding A_def
proof (induction peers arbitrary: sizes n)
  case (Cons p peers)
  have q: "dag_ancestor (gh_reachability_service gm) p c = Some (anc P p c)"
    using Cons.prems(2) c by (intro dag_ancestor_service [OF rep]) auto
  have size: "blue_anticone_size gm p nd = Some (f p)" "f p \<le> k"
    using Cons.prems(3) by auto
  have add: "n + 1 \<le> u16_max"
    using Cons.prems(1) k by simp
  show ?case
  proof (cases "anc P p c")
    case True
    then show ?thesis
      using Cons.IH [of n sizes] Cons.prems q by (auto split: if_splits)
  next
    case False
    show ?thesis
    proof (cases "n + 1 \<le> k \<and> f p < k")
      case True
      have "check_peers gm nd c k (p # peers) (sizes, n) = check_peers gm nd c k peers (hm_insert p (f p) sizes, n + 1)"
        using q False size add True by (simp add: checked_add_def)
      then show ?thesis
        using Cons.IH [of "n + 1" "hm_insert p (f p) sizes"] Cons.prems True False by (auto split: if_splits)
    next
      case bad: False
      then have red: "\<exists>r. check_peers gm nd c k (p # peers) (sizes, n) = Some (ColoringRed, r)"
        using q False size add by (auto simp: Let_def checked_add_def)
      have bad': "\<not> (n + length (filter (\<lambda>y. \<not> anc P y c) (p # peers)) \<le> k \<and> (\<forall>y\<in>set (filter (\<lambda>y. \<not> anc P y c) (p # peers)). f y < k))"
        using bad False by auto
      show ?thesis
        unfolding if_not_P [OF bad'] by (rule red)
    qed
  qed
qed simp

text \<open>The outcome of the walk from a chain block on, with what was seen before.\<close>

definition walk_spec ::
  "ghostdag_manager \<Rightarrow> ghostdag_data \<Rightarrow> (hash64 \<Rightarrow> nat) \<Rightarrow> hash64 \<Rightarrow> hash64 option \<times> ghostdag_data \<Rightarrow> bool" where
  "walk_spec gm nd f c cb \<longleftrightarrow>
     (\<forall>sizes n. n \<le> gh_k gm \<longrightarrow>
        (let Q = {y \<in> blues (gh_ghostdag_store gm) (snd cb). \<not> anc (gh_relations_store gm) y c}
         in if n + card Q \<le> gh_k gm \<and> (\<forall>y\<in>Q. f y < gh_k gm)
            then \<exists>sizes'. coloring_loop gm nd cb c (gh_k gm) (sizes, n) = Some (BlueOutput (n + card Q) sizes') \<and>
              (hm_wf sizes \<longrightarrow> hm_wf sizes') \<and> (\<forall>y. hm_get sizes' y = (if y \<in> Q then Some (f y) else hm_get sizes y))
            else coloring_loop gm nd cb c (gh_k gm) (sizes, n) = Some RedOutput))"

lemma walk_step:
  fixes gm :: ghostdag_manager and d :: ghostdag_data
  assumes rep: "represents (gh_reachability_service gm) P" and P: "gh_relations_store gm = P" and c: "c \<in> dom P"
    and k: "gh_k gm < u16_max" and h: "\<And>b. h = Some b \<Longrightarrow> b \<in> dom P \<and> \<not> anc P b c"
    and peers: "set (gd_mergeset_blues d) \<subseteq> dom P" "distinct (gd_mergeset_blues d)"
      "\<forall>y\<in>set (gd_mergeset_blues d). blue_anticone_size gm y nd = Some (f y) \<and> f y \<le> gh_k gm"
    and nxt: "gh_ghostdag_store gm (gd_selected_parent d) = Some d'"
      "finite (blues (gh_ghostdag_store gm) d')" "set (gd_mergeset_blues d) \<inter> blues (gh_ghostdag_store gm) d' = {}"
      "walk_spec gm nd f c (Some (gd_selected_parent d), d')"
  shows "walk_spec gm nd f c (h, d)"
  unfolding walk_spec_def Let_def snd_conv
proof (intro allI impI)
  fix sizes :: anticone_sizes and n assume n: "n \<le> gh_k gm"
  let ?D = "gh_ghostdag_store gm" and ?k = "gh_k gm"
  define A where "A = filter (\<lambda>y. \<not> anc P y c) (gd_mergeset_blues d)"
  define Q' where "Q' = {y \<in> blues ?D d'. \<not> anc P y c}"
  define Q where "Q = {y \<in> blues ?D d. \<not> anc (gh_relations_store gm) y c}"
  define m where "m = fold (\<lambda>y. hm_insert y (f y)) A sizes"
  have Q: "Q = set A \<union> Q'"
    unfolding Q_def Q'_def A_def blues_Some [of ?D d d', OF nxt(1)] P by auto
  have "distinct A"
    using peers(2) by (simp add: A_def)
  then have card: "card Q = length A + card Q'"
    unfolding Q using nxt(2,3) distinct_card [of A]
    by (subst card_Un_disjoint) (auto simp: A_def Q'_def)
  have not_past: "(case h of Some b \<Rightarrow> dag_ancestor (gh_reachability_service gm) b c | None \<Rightarrow> Some False) = Some False"
    using h dag_ancestor_service [OF rep _ c] by (cases h) auto
  have loop: "coloring_loop gm nd (h, d) c ?k (sizes, n) =
      Option.bind (check_peers gm nd c ?k (gd_mergeset_blues d) (sizes, n)) (\<lambda>(state, sizes, n).
        if state = ColoringBlue then Some (BlueOutput n sizes)
        else if state = ColoringRed then Some RedOutput
        else coloring_loop gm nd (Some (gd_selected_parent d), d') c ?k (sizes, n))"
    by (subst coloring_loop.simps)
      (auto simp: check_blue_candidate_with_chain_block_def not_past nxt(1) Let_def intro!: arg_cong [where f = "Option.bind _"])
  note spec = check_peers_spec [OF rep c k n peers(1,3), of sizes, folded A_def]
  show "if n + card Q \<le> ?k \<and> (\<forall>y\<in>Q. f y < ?k)
    then \<exists>sizes'. coloring_loop gm nd (h, d) c ?k (sizes, n) = Some (BlueOutput (n + card Q) sizes') \<and>
      (hm_wf sizes \<longrightarrow> hm_wf sizes') \<and> (\<forall>y. hm_get sizes' y = (if y \<in> Q then Some (f y) else hm_get sizes y))
    else coloring_loop gm nd (h, d) c ?k (sizes, n) = Some RedOutput"
  proof (cases "n + length A \<le> ?k \<and> (\<forall>y\<in>set A. f y < ?k)")
    case True
    then have run: "coloring_loop gm nd (h, d) c ?k (sizes, n) =
        coloring_loop gm nd (Some (gd_selected_parent d), d') c ?k (m, n + length A)"
      using spec by (simp add: loop m_def)
    have "if n + length A + card Q' \<le> ?k \<and> (\<forall>y\<in>Q'. f y < ?k)
      then \<exists>sizes'. coloring_loop gm nd (Some (gd_selected_parent d), d') c ?k (m, n + length A) = Some (BlueOutput (n + length A + card Q') sizes') \<and>
        (hm_wf m \<longrightarrow> hm_wf sizes') \<and> (\<forall>y. hm_get sizes' y = (if y \<in> Q' then Some (f y) else hm_get m y))
      else coloring_loop gm nd (Some (gd_selected_parent d), d') c ?k (m, n + length A) = Some RedOutput"
      using nxt(4) True unfolding walk_spec_def Let_def snd_conv P Q'_def by blast
    moreover have "hm_get m y = (if y \<in> set A then Some (f y) else hm_get sizes y)" for y
      by (simp add: m_def get_fold_insert)
    moreover have "hm_wf m" if "hm_wf sizes"
      using that by (simp add: m_def wf_fold_insert)
    moreover have "n + card Q \<le> ?k \<and> (\<forall>y\<in>Q. f y < ?k) \<longleftrightarrow> n + length A + card Q' \<le> ?k \<and> (\<forall>y\<in>Q'. f y < ?k)"
      using True unfolding card by (auto simp: Q)
    ultimately show ?thesis
      unfolding run card by (auto simp: Q add.assoc split: if_splits)
  next
    case False
    then have "\<not> (n + card Q \<le> ?k \<and> (\<forall>y\<in>Q. f y < ?k))"
      unfolding card by (auto simp: Q)
    moreover have "coloring_loop gm nd (h, d) c ?k (sizes, n) = Some RedOutput"
      using spec False by (auto simp: loop)
    ultimately show ?thesis
      by simp
  qed
qed

lemma view_blues_new:
  assumes ok: "stores_ok gm" and view: "view_ok gm ps d" and d': "gh_ghostdag_store gm (gd_selected_parent d) = Some d'"
  shows "set (gd_mergeset_blues d) \<inter> blues (gh_ghostdag_store gm) d' = {}"
  using blues_in_past [OF ok d'] view_blues_subset [OF view] by (auto simp: mergeset_of_def)

lemma view_sp_stored:
  assumes "stores_ok gm" "view_ok gm ps d" "set ps \<subseteq> dom (gh_relations_store gm)"
  obtains d' where "gh_ghostdag_store gm (gd_selected_parent d) = Some d'"
  using view_ok_blues(1) [OF assms(2)] assms(3) stores_facts(3) [OF assms(1)] by blast

lemma walk_stored:
  assumes ok: "stores_ok gm" and c: "c \<in> dom (gh_relations_store gm)" "c \<noteq> ORIGIN"
    and sizes: "\<forall>y\<in>B. blue_anticone_size gm y nd = Some (f y) \<and> f y \<le> gh_k gm"
    and b: "gh_ghostdag_store gm b = Some d" "blues (gh_ghostdag_store gm) d \<subseteq> B"
  shows "walk_spec gm nd f c (Some b, d)"
  using b
proof (induction b arbitrary: d rule: dag_induct [OF stores_facts(1) [OF ok], consumes 0])
  case (1 b)
  let ?P = "gh_relations_store gm" and ?D = "gh_ghostdag_store gm" and ?sp = "gd_selected_parent d"
  note dag = stores_facts(1) [OF ok] and rep = stores_facts(2) [OF ok] and doms = stores_facts(3) [OF ok]
  have bd: "b \<in> dom ?P"
    using "1.prems"(1) doms by blast
  have q: "dag_ancestor (gh_reachability_service gm) b c = Some (anc ?P b c)"
    by (rule dag_ancestor_service [OF rep bd c(1)])
  show ?case
  proof (cases "anc ?P b c")
    case True
    then have Q: "{y \<in> blues ?D d. \<not> anc ?P y c} = {}"
      using blues_in_past [OF ok "1.prems"(1)] anc_trans by blast
    have "coloring_loop gm nd (Some b, d) c (gh_k gm) (m, n) = Some (BlueOutput n m)" for m n
      using q True by (subst coloring_loop.simps) (simp add: check_blue_candidate_with_chain_block_def)
    then show ?thesis
      by (simp add: walk_spec_def Let_def Q)
  next
    case False
    have nb: "b \<noteq> ORIGIN" "b \<noteq> gh_genesis_hash gm"
      using False c stores_facts(5) [OF ok] by (auto simp: roots_ok_def Let_def)
    obtain ps where ps: "?P b = Some ps"
      using bd by blast
    have psd: "set ps \<subseteq> dom ?P"
      using dag_closed [OF dag ps] by blast
    note view = data_ok_view [OF stored_data_ok(2) [OF ok ps "1.prems"(1) nb]]
    obtain d' where d': "?D ?sp = Some d'"
      by (rule view_sp_stored [OF ok view psd])
    have B: "set (gd_mergeset_blues d) \<subseteq> B" "blues ?D d' \<subseteq> B"
      using "1.prems"(2) blues_Some [of ?D d d', OF d'] by auto
    have "anc ?P ?sp b" "?sp \<noteq> b"
      by (rule parent_strict [OF dag ps view_ok_blues(1) [OF view]])+
    then have rest: "walk_spec gm nd f c (Some ?sp, d')"
      using "1.IH" d' B(2) by blast
    show ?thesis
    proof (rule walk_step [OF rep refl c(1) stores_facts(4) [OF ok] _ _ view_ok_blues(3) [OF view] _ d'
          finite_blues [OF ok d'] view_blues_new [OF ok view d'] rest])
      show "\<And>b'. Some b = Some b' \<Longrightarrow> b' \<in> dom ?P \<and> \<not> anc ?P b' c"
        using False bd by simp
      show "set (gd_mergeset_blues d) \<subseteq> dom ?P"
        using blues_in_past [OF ok "1.prems"(1)] anc_dom [OF dag _ bd] blues_Some [of ?D d d', OF d'] by blast
      show "\<forall>y\<in>set (gd_mergeset_blues d). blue_anticone_size gm y nd = Some (f y) \<and> f y \<le> gh_k gm"
        using sizes B(1) by blast
    qed
  qed
qed

section \<open>One candidate\<close>

text \<open>The parents of a new block: known blocks, none the origin, none in the past of another.\<close>

definition parents_ok :: "ghostdag_manager \<Rightarrow> hash64 list \<Rightarrow> bool" where
  "parents_ok gm ps \<longleftrightarrow> ps \<noteq> [] \<and> set ps \<subseteq> dom (gh_relations_store gm) \<and> ORIGIN \<notin> set ps \<and>
     (\<forall>p\<in>set ps. \<forall>q\<in>set ps. anc (gh_relations_store gm) p q \<longrightarrow> p = q)"

lemma mergeset_anticone:
  assumes "parents_ok gm ps" "sp \<in> set ps" "x \<in> mergeset_of (gh_relations_store gm) sp ps"
  shows "anticone (gh_relations_store gm) sp x"
  using assms anc_trans unfolding parents_ok_def mergeset_of_def anticone_def by blast

lemma view_blues_facts:
  assumes ok: "stores_ok gm" and ps: "parents_ok gm ps" and view: "view_ok gm ps nd"
    and c: "c \<in> mergeset_of (gh_relations_store gm) (gd_selected_parent nd) ps" "c \<notin> set (gd_mergeset_blues nd)"
      "\<forall>x\<in>set (gd_mergeset_blues nd). \<not> anc (gh_relations_store gm) c x"
  shows "finite (blues (gh_ghostdag_store gm) nd)" "blues (gh_ghostdag_store gm) nd \<subseteq> dom (gh_relations_store gm)"
    and "c \<notin> blues (gh_ghostdag_store gm) nd"
    and "{y \<in> blues (gh_ghostdag_store gm) nd. \<not> anc (gh_relations_store gm) y c} =
      anticone_in (gh_relations_store gm) (blues (gh_ghostdag_store gm) nd) c"
proof -
  let ?P = "gh_relations_store gm" and ?D = "gh_ghostdag_store gm" and ?sp = "gd_selected_parent nd"
  note dag = stores_facts(1) [OF ok]
  have psd: "set ps \<subseteq> dom ?P"
    using ps by (simp add: parents_ok_def)
  obtain d' where d': "?D ?sp = Some d'"
    by (rule view_sp_stored [OF ok view psd])
  have spd: "?sp \<in> dom ?P"
    using view_ok_blues(1) [OF view] psd by blast
  note un = blues_Some [of ?D nd d', OF d']
  have past: "anc ?P y ?sp" if "y \<in> blues ?D d'" for y
    using blues_in_past [OF ok d' that] by blast
  show "finite (blues ?D nd)"
    using finite_blues [OF ok d'] by (simp add: un)
  have "set (gd_mergeset_blues nd) \<subseteq> dom ?P"
    using view_blues_subset [OF view] mergeset_dom [OF dag psd] spd by blast
  then show "blues ?D nd \<subseteq> dom ?P"
    using past anc_dom [OF dag _ spd] by (auto simp: un)
  have no: "\<not> anc ?P c y" if "y \<in> blues ?D nd" for y
    using that c(1,3) past anc_trans unfolding un mergeset_of_def by blast
  then show "c \<notin> blues ?D nd"
    by blast
  show "{y \<in> blues ?D nd. \<not> anc ?P y c} = anticone_in ?P (blues ?D nd) c"
    using no by (auto simp: anticone_in_def anticone_def)
qed

lemma view_blues_length:
  assumes ok: "stores_ok gm" and ps: "parents_ok gm ps" and view: "view_ok gm ps nd"
    and fin: "finite (blues (gh_ghostdag_store gm) nd)"
  shows "length (gd_mergeset_blues nd)
    \<le> Suc (card (anticone_in (gh_relations_store gm) (blues (gh_ghostdag_store gm) nd) (gd_selected_parent nd)))"
proof -
  let ?P = "gh_relations_store gm" and ?B = "blues (gh_ghostdag_store gm) nd" and ?sp = "gd_selected_parent nd"
  have "set (tl (gd_mergeset_blues nd)) \<subseteq> ?B"
    by (cases "gd_mergeset_blues nd") (auto simp: blues_unfold [of _ nd])
  then have "set (tl (gd_mergeset_blues nd)) \<subseteq> anticone_in ?P ?B ?sp"
    using mergeset_anticone [OF ps view_ok_blues(1) [OF view]] view_ok_blues(4) [OF view]
    by (auto simp: anticone_in_def)
  then have "card (set (tl (gd_mergeset_blues nd))) \<le> card (anticone_in ?P ?B ?sp)"
    using fin by (intro card_mono) (auto simp: anticone_in_def)
  moreover have "distinct (tl (gd_mergeset_blues nd))"
    using view_ok_blues(3) [OF view] by (rule distinct_tl)
  ultimately show ?thesis
    using distinct_card [of "tl (gd_mergeset_blues nd)"] by simp
qed

lemma check_blue_candidate_spec:
  assumes ok: "stores_ok gm" and ps: "parents_ok gm ps" and view: "view_ok gm ps nd"
    and c: "c \<in> mergeset_of (gh_relations_store gm) (gd_selected_parent nd) ps" "c \<notin> set (gd_mergeset_blues nd)"
      "\<forall>x\<in>set (gd_mergeset_blues nd). \<not> anc (gh_relations_store gm) c x"
  defines "P \<equiv> gh_relations_store gm" and "B \<equiv> blues (gh_ghostdag_store gm) nd"
  shows "if k_cluster P (gh_k gm) (insert c B)
    then \<exists>sizes. check_blue_candidate gm nd c (gh_k gm) = Some (BlueOutput (card (anticone_in P B c)) sizes) \<and>
      hm_wf sizes \<and> (\<forall>y. hm_get sizes y = (if y \<in> anticone_in P B c then Some (card (anticone_in P B y)) else None))
    else check_blue_candidate gm nd c (gh_k gm) = Some RedOutput"
proof -
  let ?D = "gh_ghostdag_store gm" and ?sp = "gd_selected_parent nd" and ?k = "gh_k gm"
  let ?f = "\<lambda>y. card (anticone_in P B y)"
  note facts = view_blues_facts [OF ok ps view c, folded P_def B_def]
  have k: "?k < u16_max"
    by (rule stores_facts(4) [OF ok])
  have psd: "set ps \<subseteq> dom P"
    using ps by (simp add: parents_ok_def P_def)
  have cd: "c \<in> dom P" "c \<noteq> ORIGIN"
  proof -
    show "c \<in> dom P"
      using mergeset_dom [OF stores_facts(1) [OF ok]] psd c(1) unfolding P_def by blast
    show "c \<noteq> ORIGIN"
      using c(1) view_ok_blues(1) [OF view] psd stores_facts(5) [OF ok]
      unfolding P_def by (auto simp: roots_ok_def Let_def mergeset_of_def)
  qed
  have cluster: "k_cluster P ?k B"
    using view_ok_sizes(1) [OF view] by (simp add: P_def B_def)
  then have sizes: "\<forall>y\<in>B. blue_anticone_size gm y nd = Some (?f y) \<and> ?f y \<le> ?k"
    using view_ok_sizes(2) [OF view] by (auto simp: P_def B_def k_cluster_def)
  obtain d' where d': "?D ?sp = Some d'"
    by (rule view_sp_stored [OF ok view]) (use psd in \<open>simp add: P_def\<close>)
  have Bun: "B = set (gd_mergeset_blues nd) \<union> blues ?D d'"
    unfolding B_def by (rule blues_Some [of ?D nd d', OF d'])
  have rest: "walk_spec gm nd ?f c (Some ?sp, d')"
    by (rule walk_stored [OF ok _ _ sizes d']) (use cd Bun in \<open>auto simp: P_def\<close>)
  have walk: "walk_spec gm nd ?f c (None, nd)"
    by (rule walk_step [OF stores_facts(2) [OF ok] refl _ k _ _ view_ok_blues(3) [OF view] _ d'
          finite_blues [OF ok d'] view_blues_new [OF ok view d'] rest])
      (use cd sizes facts(2) in \<open>auto simp: Bun P_def\<close>)
  note crit = k_cluster_insert [OF facts(1,3) cluster]
  have sp: "?sp \<in> B" "?sp \<in> anticone_in P B c"
  proof -
    show "?sp \<in> B"
      using view_ok_blues(2) [OF view] by (subst Bun) (metis UnI1 list.set_intros(1))
    then show "?sp \<in> anticone_in P B c"
      using mergeset_anticone [OF ps view_ok_blues(1) [OF view] c(1)] anticone_sym by (auto simp: anticone_in_def P_def)
  qed
  have len: "length (gd_mergeset_blues nd) \<le> Suc (?f ?sp)"
    using view_blues_length [OF ok ps view] facts(1) by (simp add: P_def B_def)
  then have short: "length (gd_mergeset_blues nd) \<le> ?k + 1"
    using sizes sp(1) by fastforce
  have run: "check_blue_candidate gm nd c ?k =
      (if length (gd_mergeset_blues nd) = ?k + 1 then Some RedOutput else coloring_loop gm nd (None, nd) c ?k ([], 0))"
    using k short by (simp add: check_blue_candidate_def checked_add_def u16_max_def)
  show ?thesis
  proof (cases "length (gd_mergeset_blues nd) = ?k + 1")
    case True
    then have "\<not> ?f ?sp < ?k"
      using len by simp
    then show ?thesis
      using crit sp(2) True run by auto
  next
    case False
    have "if card (anticone_in P B c) \<le> ?k \<and> (\<forall>y\<in>anticone_in P B c. ?f y < ?k)
      then \<exists>sizes'. coloring_loop gm nd (None, nd) c ?k ([], 0) = Some (BlueOutput (card (anticone_in P B c)) sizes') \<and>
        hm_wf sizes' \<and> (\<forall>y. hm_get sizes' y = (if y \<in> anticone_in P B c then Some (?f y) else None))
      else coloring_loop gm nd (None, nd) c ?k ([], 0) = Some RedOutput"
      using walk [unfolded walk_spec_def Let_def snd_conv, rule_format, of 0 "[]", OF le0, folded P_def B_def, unfolded facts(4)]
      by (simp only: add_0 hm_laws le0 simp_thms)
    then show ?thesis
      unfolding crit run if_not_P [OF False] .
  qed
qed

end
