(* ===== verification/Ghostdag_Protocol.thy ===== *)
theory Ghostdag_Protocol
  imports Ghostdag_Coloring
begin

text \<open>
  The protocol as a whole. Colouring keeps the recorded anticone sizes exact, the data computed for a block is correct,
  and the blue set is what the greedy rule of the protocol gives. Blocks are added by a step relation; in every state
  it reaches in which blue work grows along the parents, all stored data is correct.
\<close>

section \<open>Colouring a block\<close>

lemma add_sizes_spec:
  assumes "hm_wf xs" "\<forall>(y, n)\<in>set xs. n < u16_max"
  shows "\<exists>m'. add_sizes xs m = Some m' \<and>
    (\<forall>x. hm_get m' x = (case hm_get xs x of Some n \<Rightarrow> Some (n + 1) | None \<Rightarrow> hm_get m x))"
  using assms
proof (induction xs arbitrary: m)
  case (Cons e xs)
  obtain b n where e: "e = (b, n)"
    by fastforce
  have none: "hm_get xs b = None"
    using Cons.prems(1) by (auto simp: e hm_wf_def hm_get_def map_of_eq_None_iff)
  have wf: "hm_wf xs"
    using Cons.prems(1) by (simp add: e hm_wf_def)
  obtain m' where m': "add_sizes xs (hm_insert b (n + 1) m) = Some m'"
    "\<And>x. hm_get m' x = (case hm_get xs x of Some n \<Rightarrow> Some (n + 1) | None \<Rightarrow> hm_get (hm_insert b (n + 1) m) x)"
    using Cons.IH [OF wf, of "hm_insert b (n + 1) m"] Cons.prems(2) by (auto simp: e)
  have "add_sizes (e # xs) m = Some m'"
    using m'(1) Cons.prems(2) by (simp add: e checked_add_def)
  moreover have "hm_get (e # xs) x = (if x = b then Some n else hm_get xs x)" for x
    by (simp add: e hm_get_def)
  ultimately show ?case
    using m'(2) none by (auto split: option.splits)
qed simp

lemma blues_add_red [simp]: "blues D (add_red d c) = blues D d"
  by (subst (1 2) blues_unfold) (simp add: add_red_def)

lemma view_ok_add_red: "view_ok gm ps d \<Longrightarrow> view_ok gm ps (add_red d c)"
proof -
  assume "view_ok gm ps d"
  moreover have "blue_anticone_size gm x (add_red d c) = blue_anticone_size gm x d" for x
    by (subst (1 2) blue_anticone_size_unfold) (simp add: add_red_def split: option.split)
  ultimately show ?thesis
    by (simp add: view_ok_def Let_def) (simp add: add_red_def)
qed

lemma view_ok_add_blue:
  fixes gm :: ghostdag_manager
  assumes ok: "stores_ok gm" and view: "view_ok gm ps nd"
    and c: "c \<in> mergeset_of (gh_relations_store gm) (gd_selected_parent nd) ps" "c \<notin> set (gd_mergeset_blues nd)"
  defines "P \<equiv> gh_relations_store gm" and "B \<equiv> blues (gh_ghostdag_store gm) nd"
  assumes fin: "finite B" "c \<notin> B" and cluster: "k_cluster P (gh_k gm) (insert c B)"
    and sizes: "hm_wf sizes" "\<And>y. hm_get sizes y = (if y \<in> anticone_in P B c then Some (card (anticone_in P B y)) else None)"
  shows "\<exists>nd'. add_blue nd c (card (anticone_in P B c)) sizes = Some nd' \<and> view_ok gm ps nd' \<and>
    gd_selected_parent nd' = gd_selected_parent nd \<and> gd_mergeset_blues nd' = gd_mergeset_blues nd @ [c] \<and>
    gd_mergeset_reds nd' = gd_mergeset_reds nd \<and> blues (gh_ghostdag_store gm) nd' = insert c B"
proof -
  let ?n = "card (anticone_in P B c)" and ?D = "gh_ghostdag_store gm" and ?k = "gh_k gm"
  note old = view_ok_sizes [OF view, folded P_def B_def]
  have small: "\<forall>(y, n)\<in>set sizes. n < u16_max"
  proof clarify
    fix y n assume "(y, n) \<in> set sizes"
    then have "hm_get sizes y = Some n"
      using hm_get_in_set [OF sizes(1)] by simp
    then have "y \<in> B" "n = card (anticone_in P B y)"
      using sizes(2) [of y] by (auto simp: anticone_in_def split: if_splits)
    then have "n \<le> ?k"
      using old(1) by (simp add: k_cluster_def)
    then show "n < u16_max"
      using stores_facts(4) [OF ok] by simp
  qed
  obtain m where m: "add_sizes sizes (hm_insert c ?n (gd_blues_anticone_sizes nd)) = Some m"
    "\<And>x. hm_get m x = (case hm_get sizes x of Some n \<Rightarrow> Some (n + 1) | None \<Rightarrow> hm_get (hm_insert c ?n (gd_blues_anticone_sizes nd)) x)"
    using add_sizes_spec [OF sizes(1) small] by blast
  define nd' where "nd' = nd\<lparr>gd_mergeset_blues := gd_mergeset_blues nd @ [c], gd_blues_anticone_sizes := m\<rparr>"
  have run: "add_blue nd c ?n sizes = Some nd'"
    by (simp add: add_blue_def m(1) nd'_def)
  have B': "blues ?D nd' = insert c B"
    unfolding B_def by (subst (1 2) blues_unfold) (simp add: nd'_def)
  have no_c: "c \<notin> anticone_in P B x" for x
    using fin(2) by (simp add: anticone_in_def)
  have get: "hm_get m x = (if x = c then Some ?n else if x \<in> anticone_in P B c then Some (card (anticone_in P B x) + 1)
      else hm_get (gd_blues_anticone_sizes nd) x)" for x
    using m(2) [of x] sizes(2) [of x] no_c [of c] by (auto split: if_splits)
  have card: "card (anticone_in P (insert c B) x) = card (anticone_in P B x) + (if anticone P x c then 1 else 0)" for x
  proof -
    have "finite (anticone_in P B x)"
      using fin(1) by (simp add: anticone_in_def)
    then show ?thesis
      using no_c [of x] by (simp add: anticone_in_insert)
  qed
  have exact: "blue_anticone_size gm x nd' = Some (card (anticone_in P (insert c B) x))" if "x \<in> insert c B" for x
  proof (cases "x = c \<or> x \<in> anticone_in P B c")
    case True
    then have "hm_get m x = Some (card (anticone_in P (insert c B) x))"
      using get [of x] card [of x] fin(2) anticone_sym by (auto simp: anticone_in_def split: if_splits)
    then show ?thesis
      by (subst blue_anticone_size_unfold) (simp add: nd'_def)
  next
    case False
    then have "blue_anticone_size gm x nd' = blue_anticone_size gm x nd"
      using get [of x] by (subst (1 2) blue_anticone_size_unfold) (simp add: nd'_def split: option.split)
    moreover have "\<not> anticone P x c" "x \<in> B"
      using False that anticone_sym by (auto simp: anticone_in_def)
    ultimately show ?thesis
      using old(2) card [of x] by simp
  qed
  have keys: "x \<in> insert c B" if "hm_get m x \<noteq> None" for x
    using that get [of x] old(3) [of x] by (auto simp: anticone_in_def split: if_splits)
  obtain bl where bl: "gd_mergeset_blues nd = gd_selected_parent nd # bl"
    using view_ok_blues(2) [OF view] by blast
  have base: "gd_selected_parent nd \<in> set ps" "distinct (gd_mergeset_blues nd)"
      "set bl \<subseteq> mergeset_of P (gd_selected_parent nd) ps"
    using view_ok_blues(1,3,4) [OF view] by (simp_all add: bl P_def)
  have "view_ok gm ps nd'"
    unfolding view_ok_def Let_def B' P_def [symmetric]
    using base c [folded P_def] cluster exact keys by (auto simp: nd'_def bl)
  then show ?thesis
    using run B' by (auto simp: nd'_def)
qed

text \<open>The data a block starts with: its selected parent alone.\<close>

lemma view_ok_new:
  assumes ok: "stores_ok gm" and ps: "parents_ok gm ps" and sp: "sp \<in> set ps"
    and dsp: "gh_ghostdag_store gm sp = Some dsp"
  shows "\<exists>d. new_with_selected_parent sp (gh_k gm) = Some d \<and> view_ok gm ps d \<and> gd_selected_parent d = sp \<and>
    gd_mergeset_blues d = [sp] \<and> gd_mergeset_reds d = [] \<and>
    blues (gh_ghostdag_store gm) d = insert sp (blues (gh_ghostdag_store gm) dsp)"
proof -
  let ?P = "gh_relations_store gm" and ?D = "gh_ghostdag_store gm" and ?k = "gh_k gm" and ?B = "blues (gh_ghostdag_store gm) dsp"
  obtain d where d: "new_with_selected_parent sp ?k = Some d"
    and f: "gd_selected_parent d = sp" "gd_mergeset_blues d = [sp]" "gd_mergeset_reds d = []" "gd_blues_anticone_sizes d = hm_insert sp 0 []"
    using stores_facts(4) [OF ok] by (simp add: new_with_selected_parent_def checked_add_def)
  have B: "blues ?D d = insert sp ?B"
    using blues_Some [of ?D d dsp] f dsp by simp
  have past: "anc ?P y sp \<and> y \<noteq> sp" if "y \<in> ?B" for y
    by (rule blues_in_past [OF ok dsp that])
  have spP: "sp \<in> dom ?P" "sp \<noteq> ORIGIN"
    using ps sp by (auto simp: parents_ok_def)
  have anti_sp: "anticone_in ?P (insert sp ?B) sp = {}"
    using past by (auto simp: anticone_in_def anticone_def)
  have anti: "anticone_in ?P (insert sp ?B) x = anticone_in ?P ?B x" if "x \<in> ?B" for x
    using past that by (auto simp: anticone_in_insert anticone_def)
  have stored: "blue_anticone_size gm x dsp = Some (card (anticone_in ?P ?B x)) \<and> card (anticone_in ?P ?B x) \<le> ?k \<and> sp \<noteq> gh_genesis_hash gm"
    if "x \<in> ?B" for x
  proof -
    have g: "sp \<noteq> gh_genesis_hash gm"
      using that dsp root_blues(1) [OF stores_facts(5,3) [OF ok]] stores_facts(5) [OF ok] by (auto simp: roots_ok_def Let_def)
    obtain qs where "?P sp = Some qs"
      using spP by blast
    then have "view_ok gm qs dsp"
      using data_ok_view [OF stored_data_ok(2) [OF ok _ dsp]] spP(2) g by blast
    then show ?thesis
      using view_ok_sizes [of gm qs dsp] that g by (auto simp: k_cluster_def)
  qed
  have exact: "blue_anticone_size gm x d = Some (card (anticone_in ?P (insert sp ?B) x))" if "x \<in> insert sp ?B" for x
  proof (cases "x = sp")
    case True
    then show ?thesis
      by (subst blue_anticone_size_unfold) (simp add: f anti_sp)
  next
    case False
    then have "x \<in> ?B"
      using that by simp
    then show ?thesis
      using stored [of x] anti [of x] False dsp spP(2)
      by (subst blue_anticone_size_unfold) (simp add: f)
  qed
  have "view_ok gm ps d"
    unfolding view_ok_def Let_def B
    using exact stored anti anti_sp sp by (auto simp: f k_cluster_def)
  then show ?thesis
    using d f B by blast
qed

definition color_inv :: "ghostdag_manager \<Rightarrow> hash64 list \<Rightarrow> hash64 \<Rightarrow> hash64 list \<Rightarrow> ghostdag_data \<Rightarrow> bool" where
  "color_inv gm ps sp pre d \<longleftrightarrow> view_ok gm ps d \<and> gd_selected_parent d = sp \<and>
     distinct (gd_mergeset_blues d @ gd_mergeset_reds d) \<and> set (unordered_mergeset_of d) = set pre"

text \<open>The greedy rule: in the order of the mergeset, a block joins the blue set if the set stays a \<open>k\<close>-cluster and,
  on the PALW lane, if its ticket was not used before.\<close>

fun greedy_blues ::
  "relations \<Rightarrow> nat \<Rightarrow> (hash64 \<Rightarrow> hash64 option) \<Rightarrow> hash64 list \<Rightarrow> hash64 set \<Rightarrow> hash64 set \<Rightarrow> hash64 set" where
  "greedy_blues P k ticket [] used B = B"
| "greedy_blues P k ticket (c # cs) used B =
     (if \<not> k_cluster P k (insert c B) then greedy_blues P k ticket cs used B
      else case ticket c of
             None \<Rightarrow> greedy_blues P k ticket cs used (insert c B)
           | Some nf \<Rightarrow> if nf \<in> used then greedy_blues P k ticket cs used B
               else greedy_blues P k ticket cs (insert nf used) (insert c B))"

definition block_ticket :: "ghostdag_manager \<Rightarrow> bool \<Rightarrow> hash64 \<Rightarrow> hash64 option" where
  "block_ticket gm palw_active b =
     (if palw_active then map_option fst (the (palw_ticket_of gm b)) else None)"

lemma color_candidates_spec:
  assumes ok: "stores_ok gm" and ps: "parents_ok gm ps"
    and L: "set L = mergeset_of (gh_relations_store gm) sp ps" "distinct L" "L = pre @ cs"
      "sorted_wrt (\<lambda>x y. \<not> anc (gh_relations_store gm) y x) L" "set L \<subseteq> dom (gh_headers_store gm)" "sp \<notin> set L"
    and inv: "color_inv gm ps sp pre d"
  shows "\<exists>d' seen'. color_candidates gm act cs (d, seen) = Some (d', seen') \<and> color_inv gm ps sp L d' \<and>
    blues (gh_ghostdag_store gm) d' =
      greedy_blues (gh_relations_store gm) (gh_k gm) (block_ticket gm act) cs (fst ` set seen) (blues (gh_ghostdag_store gm) d)"
  using L(3) inv
proof (induction cs arbitrary: pre d seen)
  case (Cons c cs)
  let ?P = "gh_relations_store gm" and ?D = "gh_ghostdag_store gm" and ?k = "gh_k gm"
  let ?B = "blues ?D d"
  note view = Cons.prems(2) [unfolded color_inv_def, THEN conjunct1]
  have inv: "gd_selected_parent d = sp" "distinct (gd_mergeset_blues d @ gd_mergeset_reds d)" "set (unordered_mergeset_of d) = set pre"
    using Cons.prems(2) by (auto simp: color_inv_def)
  obtain bl where bl: "gd_mergeset_blues d = sp # bl"
    using view_ok_blues(2) [OF view] inv(1) by metis
  have sub: "set (gd_mergeset_blues d) \<subseteq> insert sp (set pre)" "set (gd_mergeset_reds d) \<subseteq> set pre"
    using inv(3) by (auto simp: unordered_mergeset_of_def bl)
  have c: "c \<in> mergeset_of ?P (gd_selected_parent d) ps" "c \<notin> set pre" "c \<noteq> sp"
    using L(1,2,6) Cons.prems(1) inv(1) by auto
  have c_new: "c \<notin> set (gd_mergeset_blues d)" "c \<notin> set (gd_mergeset_reds d)"
    using sub c by auto
  have later: "\<forall>x\<in>set pre. \<not> anc ?P c x"
    using L(4) Cons.prems(1) by (auto simp: sorted_wrt_append)
  have "\<not> anc ?P c sp"
    using c(1) inv(1) by (simp add: mergeset_of_def)
  then have later_b: "\<forall>x\<in>set (gd_mergeset_blues d). \<not> anc ?P c x"
    using sub(1) later by blast
  note facts = view_blues_facts [OF ok ps view c(1) c_new(1) later_b]
  note spec = check_blue_candidate_spec [OF ok ps view c(1) c_new(1) later_b]
  have L': "L = (pre @ [c]) @ cs"
    using Cons.prems(1) by simp
  have red: "color_inv gm ps sp (pre @ [c]) (add_red d c)"
    unfolding color_inv_def using view_ok_add_red [OF view] inv c_new
    by (auto simp: add_red_def unordered_mergeset_of_def bl)
  have hdr: "c \<in> dom (gh_headers_store gm)"
    using L(5) Cons.prems(1) by auto
  show ?case
  proof (cases "k_cluster ?P ?k (insert c ?B)")
    case False
    then have "check_blue_candidate gm d c ?k = Some RedOutput"
      using spec by simp
    then show ?thesis
      using Cons.IH [OF L' red] False by simp
  next
    case True
    then obtain sizes where check: "check_blue_candidate gm d c ?k = Some (BlueOutput (card (anticone_in ?P ?B c)) sizes)"
      and wf: "hm_wf sizes" and get: "\<And>y. hm_get sizes y = (if y \<in> anticone_in ?P ?B c then Some (card (anticone_in ?P ?B y)) else None)"
      using spec by auto
    obtain d' where d': "add_blue d c (card (anticone_in ?P ?B c)) sizes = Some d'" "view_ok gm ps d'"
        "gd_selected_parent d' = sp" "gd_mergeset_blues d' = gd_mergeset_blues d @ [c]" "gd_mergeset_reds d' = gd_mergeset_reds d"
        "blues ?D d' = insert c ?B"
      using view_ok_add_blue [OF ok view c(1) c_new(1) facts(1,3) True wf get] inv(1) by blast
    have blue: "color_inv gm ps sp (pre @ [c]) d'"
      unfolding color_inv_def using d'(2-5) inv c_new
      by (auto simp: unordered_mergeset_of_def bl)
    obtain h where h: "gh_headers_store gm c = Some h"
      using hdr by blast
    show ?thesis
    proof (cases "act \<and> dh_pow_algo_id h = POW_ALGO_ID_PALW_REPLICA")
      case lane: True
      let ?nf = "dh_palw_ticket_nullifier h"
      have ticket: "palw_ticket_of gm c = Some (Some (?nf, dh_daa_score h))" "block_ticket gm act c = Some ?nf"
        using lane h by (auto simp: palw_ticket_of_def block_ticket_def)
      show ?thesis
      proof (cases "?nf \<in> fst ` set seen")
        case True
        then show ?thesis
          using Cons.IH [OF L' red, of seen] check ticket lane \<open>k_cluster ?P ?k (insert c ?B)\<close>
          by (simp add: nullifier_insert_def hm_contains_keys)
      next
        case False
        have keys: "fst ` set (hm_insert ?nf (dh_daa_score h) seen) = insert ?nf (fst ` set seen)"
          by (simp add: hm_insert_def dom_update)
        show ?thesis
          using Cons.IH [OF L' blue, of "hm_insert ?nf (dh_daa_score h) seen"] check ticket lane False d'(1,6)
            \<open>k_cluster ?P ?k (insert c ?B)\<close>
          by (simp add: nullifier_insert_def hm_contains_keys keys)
      qed
    next
      case False
      then have ticket: "(if act then palw_ticket_of gm c else Some None) = Some None" "block_ticket gm act c = None"
        using h by (auto simp: palw_ticket_of_def block_ticket_def)
      show ?thesis
        using Cons.IH [OF L' blue, of seen] check ticket d'(1,6) True by simp
    qed
  qed
qed simp

section \<open>The data of a new block\<close>

text \<open>Blue work grows along the parents, so the order by blue work is topological. On a network without the compute lane
  this is a theorem; a lane whose blocks may add no work does not give it.\<close>

definition work_grows :: "ghostdag_manager \<Rightarrow> bool" where
  "work_grows gm \<longleftrightarrow>
     (\<forall>b ps d p dp. gh_relations_store gm b = Some ps \<longrightarrow> gh_ghostdag_store gm b = Some d \<longrightarrow> b \<noteq> ORIGIN \<longrightarrow> b \<noteq> gh_genesis_hash gm \<longrightarrow>
        p \<in> set ps \<longrightarrow> gh_ghostdag_store gm p = Some dp \<longrightarrow> gd_blue_work dp < gd_blue_work d)"

lemma work_anc:
  assumes ok: "stores_ok gm" and grow: "work_grows gm" and "anc (gh_relations_store gm) x y" "x \<noteq> y" "y \<in> dom (gh_relations_store gm)"
    and x: "x \<noteq> ORIGIN" "x \<noteq> gh_genesis_hash gm" "gh_ghostdag_store gm x = Some dx" and y: "gh_ghostdag_store gm y = Some dy"
  shows "gd_blue_work dx < gd_blue_work dy"
  using assms(3-5) y
proof (induction y arbitrary: dy rule: dag_induct [OF stores_facts(1) [OF ok], consumes 0])
  case (1 y)
  let ?P = "gh_relations_store gm" and ?D = "gh_ghostdag_store gm"
  note dag = stores_facts(1) [OF ok] and roots = stores_facts(5) [OF ok]
  obtain ps p where p: "?P y = Some ps" "p \<in> set ps" "anc ?P x p"
    using anc_strict_parent [OF "1.prems"(1,2)] by blast
  have "y \<noteq> ORIGIN"
    using p roots by (auto simp: roots_ok_def Let_def)
  have "y \<noteq> gh_genesis_hash gm"
  proof
    assume "y = gh_genesis_hash gm"
    then have "anc ?P x ORIGIN" "?P ORIGIN = Some []"
      using p roots by (auto simp: roots_ok_def Let_def)
    then show False
      using x(1) anc_cases [of ?P x ORIGIN] by auto
  qed
  have pd: "p \<in> dom ?P"
    by (rule dag_closed [OF dag p(1,2)])
  then obtain dp where dp: "?D p = Some dp"
    using stores_facts(3) [OF ok] by blast
  have step: "gd_blue_work dp < gd_blue_work dy"
    using grow p(1,2) "1.prems"(4) \<open>y \<noteq> ORIGIN\<close> \<open>y \<noteq> gh_genesis_hash gm\<close> dp unfolding work_grows_def by blast
  show ?case
  proof (cases "x = p")
    case True
    then show ?thesis
      using step dp x(3) by simp
  next
    case False
    then show ?thesis
      using "1.IH" [OF parent_strict [OF dag p(1,2)] p(3) False pd dp] step by simp
  qed
qed

lemma mergeset_no_root:
  assumes ok: "stores_ok gm" and ps: "parents_ok gm ps" and sp: "sp \<in> set ps" and x: "x \<in> mergeset_of (gh_relations_store gm) sp ps"
  shows "x \<in> dom (gh_relations_store gm)" "x \<noteq> ORIGIN" "x \<noteq> gh_genesis_hash gm" "x \<noteq> sp"
proof -
  let ?P = "gh_relations_store gm"
  have psd: "set ps \<subseteq> dom ?P" "ORIGIN \<notin> set ps"
    using ps by (auto simp: parents_ok_def)
  show "x \<in> dom ?P"
    using mergeset_dom [OF stores_facts(1) [OF ok] psd(1)] x by blast
  have spd: "sp \<in> dom ?P" "sp \<noteq> ORIGIN"
    using psd sp by auto
  have "anc ?P ORIGIN sp" "anc ?P (gh_genesis_hash gm) sp"
    using stores_facts(5) [OF ok] spd unfolding roots_ok_def Let_def by blast+
  then show "x \<noteq> ORIGIN" "x \<noteq> gh_genesis_hash gm" "x \<noteq> sp"
    using x by (auto simp: mergeset_of_def)
qed

lemma ordered_mergeset_topological:
  assumes ok: "stores_ok gm" and grow: "work_grows gm" and ps: "parents_ok gm ps" and sp: "sp \<in> set ps"
  obtains L where "ordered_mergeset_without_selected_parent gm sp ps = Some L" "distinct L"
    "set L = mergeset_of (gh_relations_store gm) sp ps" "sorted_wrt (\<lambda>x y. \<not> anc (gh_relations_store gm) y x) L"
proof -
  let ?P = "gh_relations_store gm" and ?D = "gh_ghostdag_store gm"
  define W where "W b = the (?D b)" for b
  have psd: "set ps \<subseteq> dom ?P"
    using ps by (simp add: parents_ok_def)
  have anti: "\<not> anc ?P p sp" if "p \<in> set ps" "p \<noteq> sp" for p
    using ps sp that unfolding parents_ok_def by blast
  obtain ms where ms: "unordered_mergeset_without_selected_parent gm sp ps = Some ms" "distinct ms" "set ms = mergeset_of ?P sp ps"
    using mergeset_search_correct [OF stores_facts(1,2) [OF ok] refl _ psd anti] sp psd by blast
  note root = mergeset_no_root [OF ok ps sp]
  have stored: "?D b = Some (W b)" if "b \<in> set ms" for b
    using root(1) [of b] that ms(3) stores_facts(3) [OF ok] unfolding W_def by (metis domIff option.exhaust_sel)
  obtain L where L: "sort_blocks gm ms = Some L" "distinct L" "set L = set ms"
      "sorted_wrt (\<lambda>a b. (gd_blue_work (W a), a) < (gd_blue_work (W b), b)) L"
    using sort_blocks_spec [of ms gm W] stored ms(2) by blast
  have top: "\<not> anc ?P y x" if "x \<in> set L" "y \<in> set L" "(gd_blue_work (W x), x) < (gd_blue_work (W y), y)" for x y
  proof
    assume yx: "anc ?P y x"
    have "y \<noteq> x"
      using that(3) by auto
    then have "gd_blue_work (W y) < gd_blue_work (W x)"
      using work_anc [OF ok grow yx _ root(1) root(2,3) stored stored] that(1,2) L(3) ms(3) by blast
    then show False
      using that(3) by auto
  qed
  have "sorted_wrt (\<lambda>x y. \<not> anc ?P y x) L"
    by (rule sorted_wrt_mono_rel [OF top L(4)])
  then show ?thesis
    using that [of L] ms L by (simp add: ordered_mergeset_without_selected_parent_def)
qed

text \<open>Every block of the compute lane has its nullifier window.\<close>

definition windows_ok :: "ghostdag_manager \<Rightarrow> bool" where
  "windows_ok gm \<longleftrightarrow>
     (\<forall>store b h. gh_palw_nullifier_store gm = Some store \<longrightarrow> gh_headers_store gm b = Some h \<longrightarrow>
        gh_palw_activation_daa_score gm \<le> dh_daa_score h \<longrightarrow> b \<noteq> gh_genesis_hash gm \<longrightarrow> store b \<noteq> None)"

lemma any_palw_active_runs: "set ps \<subseteq> dom (gh_headers_store gm) \<Longrightarrow> \<exists>act. any_palw_active gm ps = Some act"
  by (induction ps) auto

lemma seed_nullifiers_runs:
  assumes "windows_ok gm" "sp \<in> dom (gh_headers_store gm)"
  shows "\<exists>seen. seed_nullifiers gm act sp = Some seen"
proof -
  obtain h where h: "gh_headers_store gm sp = Some h"
    using assms(2) by blast
  have "\<exists>w. store sp = Some w" if "gh_palw_nullifier_store gm = Some store" "gh_palw_activation_daa_score gm \<le> dh_daa_score h"
      "sp \<noteq> gh_genesis_hash gm" for store
    using assms(1) h that unfolding windows_ok_def by blast
  then show ?thesis
    using h by (fastforce simp: seed_nullifiers_def palw_ticket_of_def split: option.splits)
qed

lemma added_work_runs: "set bs \<subseteq> dom (gh_headers_store gm) \<Longrightarrow> \<exists>h c. added_work gm act bs acc = Some (h, c)"
  by (induction bs arbitrary: acc) auto

lemma finalize_view:
  "data_ok gm ps (finalize_score_and_component_work d (card (blues (gh_ghostdag_store gm) d)) hw cw cap) \<longleftrightarrow>
     view_ok gm ps d \<and> distinct (gd_mergeset_blues d @ gd_mergeset_reds d) \<and>
     set (unordered_mergeset_of d) = mergeset_of (gh_relations_store gm) (gd_selected_parent d) ps"
  (is "data_ok gm ps ?d \<longleftrightarrow> _")
proof -
  have f: "gd_selected_parent ?d = gd_selected_parent d" "gd_mergeset_blues ?d = gd_mergeset_blues d"
      "gd_mergeset_reds ?d = gd_mergeset_reds d" "gd_blues_anticone_sizes ?d = gd_blues_anticone_sizes d"
      "gd_blue_score ?d = card (blues (gh_ghostdag_store gm) d)"
    by (simp_all add: finalize_score_and_component_work_def)
  have b: "blues (gh_ghostdag_store gm) ?d = blues (gh_ghostdag_store gm) d"
    by (subst (1 2) blues_unfold) (simp add: f)
  have "blue_anticone_size gm x ?d = blue_anticone_size gm x d" for x
    by (subst (1 2) blue_anticone_size_unfold) (simp add: f split: option.split)
  then show ?thesis
    by (simp add: data_ok_def view_ok_def Let_def unordered_mergeset_of_def f b)
qed

lemma blues_finalize [simp]: "blues D (finalize_score_and_component_work d sc hw cw cap) = blues D d"
  by (subst (1 2) blues_unfold) (simp add: finalize_score_and_component_work_def)

text \<open>The protocol returns, its data is correct, and its blue set is the greedy one.\<close>

lemma ghostdag_correct:
  assumes ok: "stores_ok gm" and grow: "work_grows gm" and ps: "parents_ok gm ps" and win: "windows_ok gm"
    and size: "card (dom (gh_relations_store gm)) \<le> u64_max"
  obtains d sp dsp L act seen where "ghostdag gm ps = Some d" "data_ok gm ps d"
    "find_selected_parent gm ps = Some sp" "gd_selected_parent d = sp" "gh_ghostdag_store gm sp = Some dsp"
    "\<And>p dp. p \<in> set ps \<Longrightarrow> gh_ghostdag_store gm p = Some dp \<Longrightarrow> (gd_blue_work dp, p) \<le> (gd_blue_work dsp, sp)"
    "ordered_mergeset_without_selected_parent gm sp ps = Some L" "set L = mergeset_of (gh_relations_store gm) sp ps" "distinct L"
    "any_palw_active gm ps = Some act" "seed_nullifiers gm act sp = Some seen"
    "blues (gh_ghostdag_store gm) d = greedy_blues (gh_relations_store gm) (gh_k gm) (block_ticket gm act) L (fst ` set seen)
       (insert sp (blues (gh_ghostdag_store gm) dsp))"
    "\<exists>h c. added_work gm act (gd_mergeset_blues d) (0, 0) = Some (h, c) \<and>
       gd_blue_hash_work d = work_add (gd_blue_hash_work dsp) h \<and>
       gd_blue_compute_work d = capped_compute_work (work_add (gd_blue_compute_work dsp) c) (gd_blue_hash_work d) COMPUTE_TO_HASH_CAP \<and>
       gd_blue_work d = effective_blue_work (gd_blue_hash_work d) (work_add (gd_blue_compute_work dsp) c) COMPUTE_TO_HASH_CAP"
proof -
  let ?P = "gh_relations_store gm" and ?D = "gh_ghostdag_store gm" and ?k = "gh_k gm"
  have psd: "ps \<noteq> []" "set ps \<subseteq> dom ?P" "ORIGIN \<notin> set ps"
    using ps by (auto simp: parents_ok_def)
  define W where "W b = the (?D b)" for b
  have stored: "\<forall>b\<in>set ps. ?D b = Some (W b)"
    using psd(2) stores_facts(3) [OF ok] unfolding W_def by (metis domIff option.exhaust_sel subsetD)
  obtain sp where sp: "find_selected_parent gm ps = Some sp" "sp \<in> set ps"
      "\<And>b. b \<in> set ps \<Longrightarrow> (gd_blue_work (W b), b) \<le> (gd_blue_work (W sp), sp)"
    using find_selected_parent_spec [OF stored psd(1)] by metis
  define dsp where "dsp = W sp"
  have dsp: "?D sp = Some dsp"
    using stored sp(2) by (simp add: dsp_def)
  have spd: "sp \<in> dom ?P" "sp \<noteq> ORIGIN"
    using psd sp(2) by auto
  obtain d0 where d0: "new_with_selected_parent sp ?k = Some d0" "view_ok gm ps d0" "gd_selected_parent d0 = sp"
      "gd_mergeset_blues d0 = [sp]" "gd_mergeset_reds d0 = []" "blues ?D d0 = insert sp (blues ?D dsp)"
    using view_ok_new [OF ok ps sp(2) dsp] by blast
  obtain L where L: "ordered_mergeset_without_selected_parent gm sp ps = Some L" "distinct L" "set L = mergeset_of ?P sp ps"
      "sorted_wrt (\<lambda>x y. \<not> anc ?P y x) L"
    by (rule ordered_mergeset_topological [OF ok grow ps sp(2)])
  note root = mergeset_no_root [OF ok ps sp(2)]
  have hdrs: "set ps \<subseteq> dom (gh_headers_store gm)" "set L \<subseteq> dom (gh_headers_store gm)" "sp \<notin> set L"
    unfolding stores_facts(6) [OF ok] L(3) using psd root by blast+
  obtain act where act: "any_palw_active gm ps = Some act"
    using any_palw_active_runs [OF hdrs(1)] by blast
  obtain seen where seen: "seed_nullifiers gm act sp = Some seen"
    using seed_nullifiers_runs [OF win] hdrs(1) sp(2) by blast
  have "color_inv gm ps sp [] d0"
    using d0 by (simp add: color_inv_def unordered_mergeset_of_def)
  then obtain d seen' where d: "color_candidates gm act L (d0, seen) = Some (d, seen')" "color_inv gm ps sp L d"
      "blues ?D d = greedy_blues ?P ?k (block_ticket gm act) L (fst ` set seen) (blues ?D d0)"
    using color_candidates_spec [OF ok ps L(3,2) _ L(4) hdrs(2,3), of "[]" L d0 act seen] by auto
  have dv: "view_ok gm ps d" "gd_selected_parent d = sp" "distinct (gd_mergeset_blues d @ gd_mergeset_reds d)"
      "set (unordered_mergeset_of d) = set L"
    using d(2) by (auto simp: color_inv_def)
  have sub: "set (gd_mergeset_blues d) \<subseteq> insert sp (set L)"
    using view_blues_subset [OF dv(1)] dv(2) L(3) by simp
  have past: "blues ?D dsp \<subseteq> dom ?P"
    using blues_in_past [OF ok dsp] anc_dom [OF stores_facts(1) [OF ok] _ spd(1)] by blast
  have score: "gd_blue_score dsp = card (blues ?D dsp)"
  proof (cases "sp = gh_genesis_hash gm")
    case True
    then show ?thesis
      using dsp stores_facts(5) [OF ok] root_blues(1) [OF stores_facts(5,3) [OF ok]]
      by (auto simp: roots_ok_def Let_def genesis_ghostdag_data_def)
  next
    case False
    then show ?thesis
      using stored_data_ok(2) [OF ok _ dsp spd(2) False] spd(1) by (auto simp: data_ok_def)
  qed
  have Bd: "blues ?D d = set (gd_mergeset_blues d) \<union> blues ?D dsp"
    using blues_Some [of ?D d dsp] dv(2) dsp by simp
  have "set (gd_mergeset_blues d) \<inter> blues ?D dsp = {}"
    using view_blues_new [OF ok dv(1)] dv(2) dsp by simp
  then have card: "card (blues ?D d) = gd_blue_score dsp + length (gd_mergeset_blues d)"
    unfolding Bd score using finite_blues [OF ok dsp] distinct_card [of "gd_mergeset_blues d"] dv(3)
    by (subst card_Un_disjoint) auto
  have "blues ?D d \<subseteq> dom ?P"
    using sub past spd(1) root(1) L(3) by (auto simp: Bd)
  then have "card (blues ?D d) \<le> card (dom ?P)"
    by (rule card_mono [OF dag_finite [OF stores_facts(1) [OF ok]]])
  then have le: "gd_blue_score dsp + length (gd_mergeset_blues d) \<le> u64_max"
    using card size by linarith
  have "set (gd_mergeset_blues d) \<subseteq> dom (gh_headers_store gm)"
    using sub hdrs(1,2) sp(2) by blast
  then obtain h c where w: "added_work gm act (gd_mergeset_blues d) (0, 0) = Some (h, c)"
    using added_work_runs by blast
  define d' where "d' = finalize_score_and_component_work d (card (blues ?D d)) (work_add (gd_blue_hash_work dsp) h)
    (work_add (gd_blue_compute_work dsp) c) COMPUTE_TO_HASH_CAP"
  have run: "ghostdag gm ps = Some d'"
    using psd(1) sp(1) spd(2) d0(1) L(1) act seen d(1) dsp le w
    by (simp add: ghostdag_def d'_def card checked_add_def)
  have ok': "data_ok gm ps d'"
    unfolding d'_def finalize_view using dv L(3) by simp
  have max: "(gd_blue_work dp, p) \<le> (gd_blue_work dsp, sp)" if "p \<in> set ps" "?D p = Some dp" for p dp
    using sp(3) [OF that(1)] that stored by (simp add: dsp_def)
  show ?thesis
  proof (rule that [OF run ok' sp(1) _ dsp max L(1,3,2) act seen])
    show "gd_selected_parent d' = sp"
      using dv(2) by (simp add: d'_def finalize_score_and_component_work_def)
    show "blues ?D d' = greedy_blues ?P ?k (block_ticket gm act) L (fst ` set seen) (insert sp (blues ?D dsp))"
      using d(3) d0(6) by (simp add: d'_def)
  qed (use w in \<open>simp_all add: d'_def finalize_score_and_component_work_def\<close>)
qed

end
