(* ===== verification/Ghostdag_Growth.thy ===== *)
theory Ghostdag_Growth
  imports Ghostdag_Protocol
begin

text \<open>
  Adding a block to the stores. The data of the old blocks is not touched by a new block, and the data of the new one is
  correct by the protocol, so the invariant of the stores is kept. On a network whose compute lane is inactive the blue
  work of a block is the sum of the work of its blue set, hence grows along the parents.
\<close>

definition insert_block ::
  "ghostdag_manager \<Rightarrow> hash64 \<Rightarrow> hash64 list \<Rightarrow> ghostdag_data \<Rightarrow> dag_header \<Rightarrow> reachability_store \<Rightarrow>
    (hash64 \<rightharpoonup> nullifier_set) option \<Rightarrow> ghostdag_manager" where
  "insert_block gm h ps d hdr rs ws =
     gm\<lparr>gh_relations_store := (gh_relations_store gm)(h \<mapsto> ps), gh_ghostdag_store := (gh_ghostdag_store gm)(h \<mapsto> d),
        gh_headers_store := (gh_headers_store gm)(h \<mapsto> hdr), gh_reachability_service := rs, gh_palw_nullifier_store := ws\<rparr>"

lemma insert_block_simps [simp]:
  "gh_genesis_hash (insert_block gm h ps d hdr rs ws) = gh_genesis_hash gm"
  "gh_k (insert_block gm h ps d hdr rs ws) = gh_k gm"
  "gh_relations_store (insert_block gm h ps d hdr rs ws) = (gh_relations_store gm)(h \<mapsto> ps)"
  "gh_ghostdag_store (insert_block gm h ps d hdr rs ws) = (gh_ghostdag_store gm)(h \<mapsto> d)"
  "gh_headers_store (insert_block gm h ps d hdr rs ws) = (gh_headers_store gm)(h \<mapsto> hdr)"
  "gh_reachability_service (insert_block gm h ps d hdr rs ws) = rs"
  "gh_level_work (insert_block gm h ps d hdr rs ws) = gh_level_work gm"
  "gh_palw_activation_daa_score (insert_block gm h ps d hdr rs ws) = gh_palw_activation_daa_score gm"
  by (simp_all add: insert_block_def)

section \<open>Old data\<close>

lemma stored_sp:
  assumes ok: "stores_ok gm" and b: "gh_ghostdag_store gm b = Some e"
  shows "gd_selected_parent e = NONE \<or> (anc (gh_relations_store gm) (gd_selected_parent e) b \<and> gd_selected_parent e \<noteq> b)"
proof -
  let ?P = "gh_relations_store gm"
  note dag = stores_facts(1) [OF ok] and roots = stores_facts(5) [OF ok]
  obtain ps where ps: "?P b = Some ps"
    using b stores_facts(3) [OF ok] by blast
  consider "b = ORIGIN" | "b = gh_genesis_hash gm" | "b \<noteq> ORIGIN" "b \<noteq> gh_genesis_hash gm"
    by blast
  then show ?thesis
  proof cases
    case 1
    then show ?thesis
      using b roots by (auto simp: roots_ok_def Let_def origin_ghostdag_data_def)
  next
    case 2
    then have "gd_selected_parent e = ORIGIN" "ORIGIN \<in> set ps"
      using b ps roots by (auto simp: roots_ok_def Let_def genesis_ghostdag_data_def)
    then show ?thesis
      using parent_strict [OF dag ps] by simp
  next
    case 3
    then have "gd_selected_parent e \<in> set ps"
      using view_ok_blues(1) [OF data_ok_view [OF stored_data_ok(2) [OF ok ps b]]] by blast
    then show ?thesis
      using parent_strict [OF dag ps] by blast
  qed
qed

lemma old_data_kept:
  fixes gm :: ghostdag_manager and h and ps :: "hash64 list" and d :: ghostdag_data and hdr :: dag_header and rs and ws
  assumes ok: "stores_ok gm" and h: "h \<notin> dom (gh_relations_store gm)" "h \<noteq> NONE" and b: "gh_ghostdag_store gm b = Some e"
  defines "gm' \<equiv> insert_block gm h ps d hdr rs ws"
  shows "blues (gh_ghostdag_store gm') e = blues (gh_ghostdag_store gm) e \<and> blue_anticone_size gm' x e = blue_anticone_size gm x e"
  using b
proof (induction b arbitrary: e rule: dag_induct [OF stores_facts(1) [OF ok], consumes 0])
  case (1 b)
  let ?P = "gh_relations_store gm" and ?D = "gh_ghostdag_store gm" and ?sp = "gd_selected_parent e"
  have bd: "b \<in> dom ?P"
    using "1.prems" stores_facts(3) [OF ok] by blast
  have same: "gh_ghostdag_store gm' ?sp = ?D ?sp"
    using stored_sp [OF ok "1.prems"] anc_dom [OF stores_facts(1) [OF ok] _ bd] h by (auto simp: gm'_def)
  have IH: "blues (gh_ghostdag_store gm') e' = blues ?D e' \<and> blue_anticone_size gm' x e' = blue_anticone_size gm x e'"
    if "?D ?sp = Some e'" for e'
  proof -
    have "?sp \<noteq> NONE"
      using that stores_facts(3,5) [OF ok] by (auto simp: roots_ok_def Let_def)
    then show ?thesis
      using stored_sp [OF ok "1.prems"] "1.IH" that by blast
  qed
  have "blues (gh_ghostdag_store gm') e = blues ?D e"
    by (subst (1 2) blues_unfold) (use same IH in \<open>auto split: option.splits\<close>)
  moreover have "blue_anticone_size gm' x e = blue_anticone_size gm x e"
    by (subst (1 2) blue_anticone_size_unfold) (use same IH in \<open>auto simp: gm'_def split: option.splits bind_splits\<close>)
  ultimately show ?case
    by blast
qed

lemma new_data_kept:
  fixes gm :: ghostdag_manager and h and ps :: "hash64 list" and d :: ghostdag_data and hdr :: dag_header and rs and ws
  assumes ok: "stores_ok gm" and h: "h \<notin> dom (gh_relations_store gm)" "h \<noteq> NONE"
    and sp: "gh_ghostdag_store gm (gd_selected_parent e) = Some dsp" "gd_selected_parent e \<noteq> h"
  defines "gm' \<equiv> insert_block gm h ps d hdr rs ws"
  shows "blues (gh_ghostdag_store gm') e = blues (gh_ghostdag_store gm) e" "blue_anticone_size gm' x e = blue_anticone_size gm x e"
proof -
  note old = old_data_kept [OF ok h sp(1), of ps d hdr rs ws, folded gm'_def]
  have same: "gh_ghostdag_store gm' (gd_selected_parent e) = Some dsp"
    using sp by (simp add: gm'_def)
  show "blues (gh_ghostdag_store gm') e = blues (gh_ghostdag_store gm) e"
    using old blues_Some [of "gh_ghostdag_store gm'" e dsp, OF same] blues_Some [of "gh_ghostdag_store gm" e dsp, OF sp(1)]
    by simp
  show "blue_anticone_size gm' x e = blue_anticone_size gm x e"
    by (subst (1 2) blue_anticone_size_unfold) (use same sp(1) old in \<open>auto simp: gm'_def split: option.splits\<close>)
qed

lemma data_ok_kept:
  assumes ok: "stores_ok gm" and h: "h \<notin> dom (gh_relations_store gm)" "h \<noteq> NONE"
    and ps: "set ps \<subseteq> dom (gh_relations_store gm)"
    and qs: "set qs \<subseteq> dom (gh_relations_store gm)" and e: "data_ok gm qs e"
  shows "data_ok (insert_block gm h ps d hdr rs ws) qs e"
proof -
  define gm' where "gm' = insert_block gm h ps d hdr rs ws"
  let ?P = "gh_relations_store gm" and ?D = "gh_ghostdag_store gm" and ?sp = "gd_selected_parent e"
  have no: "h \<notin> set ps"
    using ps h(1) by auto
  have anc: "anc (gh_relations_store gm') a b \<longleftrightarrow> anc ?P a b" if "b \<in> dom ?P" for a b
    using anc_insert_new [OF h(1) no stores_facts(1) [OF ok] ps, of a b] that h(1) by (auto simp: gm'_def)
  note view = data_ok_view [OF e]
  have spd: "?sp \<in> dom ?P"
    using view_ok_blues(1) [OF view] qs by blast
  obtain dsp where dsp: "?D ?sp = Some dsp"
    by (rule view_sp_stored [OF ok view qs])
  have "?sp \<noteq> h"
    using spd h(1) by blast
  note kept = new_data_kept [OF ok h dsp this, of ps d hdr rs ws, folded gm'_def]
  have ms: "mergeset_of (gh_relations_store gm') ?sp qs = mergeset_of ?P ?sp qs"
    using anc qs spd unfolding mergeset_of_def by (intro Collect_cong) blast
  have sub: "blues ?D e \<subseteq> dom ?P"
    using blues_Some [of ?D e dsp, OF dsp] view_blues_subset [OF view] mergeset_dom [OF stores_facts(1) [OF ok] qs] spd
      blues_in_past [OF ok dsp] anc_dom [OF stores_facts(1) [OF ok] _ spd] by blast
  have anti: "anticone_in (gh_relations_store gm') (blues ?D e) x = anticone_in ?P (blues ?D e) x" if "x \<in> blues ?D e" for x
    using anc sub that unfolding anticone_in_def anticone_def by (intro Collect_cong) blast
  have cluster: "k_cluster (gh_relations_store gm') (gh_k gm) (blues ?D e) = k_cluster ?P (gh_k gm) (blues ?D e)"
    using anti by (simp add: k_cluster_def)
  have k: "gh_k gm' = gh_k gm"
    by (simp add: gm'_def)
  have "data_ok gm' qs e"
    using e anti unfolding data_ok_def view_ok_def Let_def kept k cluster ms by auto
  then show ?thesis
    by (simp add: gm'_def)
qed

lemma stores_ok_insert:
  assumes ok: "stores_ok gm" and h: "h \<notin> dom (gh_relations_store gm)" "h \<noteq> NONE" and ps: "parents_ok gm ps"
    and d: "data_ok gm ps d" and rs: "represents rs ((gh_relations_store gm)(h \<mapsto> ps))"
  shows "stores_ok (insert_block gm h ps d hdr rs ws)"
proof -
  let ?P = "gh_relations_store gm" and ?D = "gh_ghostdag_store gm"
  let ?P' = "?P(h \<mapsto> ps)"
  have psd: "set ps \<subseteq> dom ?P" "ORIGIN \<notin> set ps" "ps \<noteq> []"
    using ps by (auto simp: parents_ok_def)
  note roots = stores_facts(5) [OF ok, unfolded roots_ok_def Let_def] and dag = stores_facts(1) [OF ok]
  have no: "h \<notin> set ps" "h \<noteq> ORIGIN" "h \<noteq> gh_genesis_hash gm"
    using psd h(1) roots by auto
  note anc = anc_insert_new [OF h(1) no(1) dag psd(1)]
  have "anc ?P' ORIGIN b" if "b \<in> dom ?P'" for b
    using that roots psd unfolding anc by (cases "b = h") (auto simp: neq_Nil_conv)
  moreover have "anc ?P' (gh_genesis_hash gm) b" if "b \<in> dom ?P'" "b \<noteq> ORIGIN" for b
  proof (cases "b = h")
    case True
    obtain p where "p \<in> set ps" "p \<in> dom ?P" "p \<noteq> ORIGIN"
      using psd by (metis list.set_intros(1) neq_Nil_conv subsetD)
    then show ?thesis
      using roots True unfolding anc by auto
  qed (use that roots in \<open>auto simp: anc\<close>)
  ultimately have roots': "roots_ok (insert_block gm h ps d hdr rs ws)"
    using roots no h(2) by (simp add: roots_ok_def Let_def)
  have "ORIGIN \<notin> set qs \<and> data_ok (insert_block gm h ps d hdr rs ws) qs e"
    if "?P' b = Some qs" "(?D(h \<mapsto> d)) b = Some e" "b \<noteq> ORIGIN" "b \<noteq> gh_genesis_hash gm" for b qs e
  proof (cases "b = h")
    case True
    then show ?thesis
      using that data_ok_kept [OF ok h psd(1,1) d] psd(2) by auto
  next
    case False
    then have b: "?P b = Some qs" "?D b = Some e"
      using that by auto
    have "set qs \<subseteq> dom ?P"
      using dag_closed [OF dag b(1)] by blast
    then show ?thesis
      using data_ok_kept [OF ok h psd(1)] stored_data_ok [OF ok b that(3,4)] by blast
  qed
  moreover have "dom (?D(h \<mapsto> d)) = dom ?P'" "dom ((gh_headers_store gm)(h \<mapsto> hdr)) = dom ?P' - {ORIGIN}"
    using stores_facts(3,6) [OF ok] no(2) by auto
  ultimately show ?thesis
    using dag_wf_insert [OF dag h(1) psd(1)] rs stores_facts(4) [OF ok] roots'
    unfolding stores_ok_def Let_def insert_block_simps by blast
qed

section \<open>Reachable states\<close>

definition genesis_state :: "ghostdag_manager \<Rightarrow> bool" where
  "genesis_state gm \<longleftrightarrow>
     (let g = gh_genesis_hash gm
      in g \<noteq> ORIGIN \<and> g \<noteq> NONE \<and> gh_k gm < u16_max \<and> gh_relations_store gm = [ORIGIN \<mapsto> [], g \<mapsto> [ORIGIN]] \<and>
         gh_ghostdag_store gm = [ORIGIN \<mapsto> origin_ghostdag_data, g \<mapsto> genesis_ghostdag_data] \<and>
         dom (gh_headers_store gm) = {g} \<and> represents (gh_reachability_service gm) (gh_relations_store gm))"

inductive dag_reachable :: "ghostdag_manager \<Rightarrow> bool" where
  genesis: "genesis_state gm \<Longrightarrow> dag_reachable gm"
| block: "dag_reachable gm \<Longrightarrow> h \<notin> dom (gh_relations_store gm) \<Longrightarrow> h \<noteq> NONE \<Longrightarrow> parents_ok gm ps \<Longrightarrow> windows_ok gm \<Longrightarrow>
    ghostdag gm ps = Some d \<Longrightarrow> represents rs ((gh_relations_store gm)(h \<mapsto> ps)) \<Longrightarrow>
    dag_reachable (insert_block gm h ps d hdr rs ws)"

inductive_cases genesis_or_block: "dag_reachable gm"

lemma genesis_stores_ok:
  assumes "genesis_state gm"
  shows "stores_ok gm"
proof -
  let ?P = "gh_relations_store gm" and ?g = "gh_genesis_hash gm"
  note st = assms [unfolded genesis_state_def Let_def]
  have P: "?P ORIGIN = Some []" "?P ?g = Some [ORIGIN]" "dom ?P = {ORIGIN, ?g}"
    using st by auto
  have "parent_of [ORIGIN \<mapsto> []] = {}"
    by (auto simp: parent_of_def split: if_splits)
  then have "dag_wf [ORIGIN \<mapsto> []]"
    by (simp add: dag_wf_def acyclic_def)
  then have dag: "dag_wf ?P"
    using dag_wf_insert [of "[ORIGIN \<mapsto> []]" ?g "[ORIGIN]"] st by simp
  have "anc ?P ORIGIN ?g"
    using P(2) by (rule anc_parent) auto
  then have roots: "roots_ok gm"
    using st P by (auto simp: roots_ok_def Let_def)
  show ?thesis
    using st dag roots P unfolding stores_ok_def Let_def by auto
qed

lemma work_grows_earlier:
  assumes grow: "work_grows (insert_block gm h ps d hdr rs ws)" and h: "h \<notin> dom (gh_relations_store gm)"
    and dom: "dom (gh_ghostdag_store gm) = dom (gh_relations_store gm)"
  shows "work_grows gm"
  unfolding work_grows_def
proof (intro allI impI)
  fix b qs e p dp
  assume a: "gh_relations_store gm b = Some qs" "gh_ghostdag_store gm b = Some e" "b \<noteq> ORIGIN" "b \<noteq> gh_genesis_hash gm"
    "p \<in> set qs" "gh_ghostdag_store gm p = Some dp"
  then have "b \<noteq> h" "p \<noteq> h"
    using h dom by auto
  then show "gd_blue_work dp < gd_blue_work e"
    using grow [unfolded work_grows_def, rule_format, of b qs e p dp] a by simp
qed

lemma reachable_doms:
  "dag_reachable gm \<Longrightarrow> dom (gh_ghostdag_store gm) = dom (gh_relations_store gm) \<and> finite (dom (gh_relations_store gm)) \<and>
     dom (gh_headers_store gm) = dom (gh_relations_store gm) - {ORIGIN} \<and> ORIGIN \<in> dom (gh_relations_store gm)"
proof (induction rule: dag_reachable.induct)
  case (genesis gm)
  note ok = genesis_stores_ok [OF genesis]
  have "ORIGIN \<in> dom (gh_relations_store gm)"
    using stores_facts(5) [OF ok] by (auto simp: roots_ok_def Let_def)
  then show ?case
    using stores_facts(3,6) [OF ok] dag_finite [OF stores_facts(1) [OF ok]] by blast
next
  case (block gm h ps d rs hdr ws)
  then show ?case
    unfolding insert_block_simps dom_fun_upd by auto
qed

lemma reachable_stores_ok:
  "dag_reachable gm \<Longrightarrow> work_grows gm \<Longrightarrow> card (dom (gh_relations_store gm)) \<le> u64_max \<Longrightarrow>
     stores_ok gm"
proof (induction rule: dag_reachable.induct)
  case (block gm h ps d rs hdr ws)
  note doms = reachable_doms [OF block.hyps(1)]
  have grow: "work_grows gm"
    using work_grows_earlier [OF block.prems(1) block.hyps(2)] doms by blast
  have size: "card (dom (gh_relations_store gm)) \<le> u64_max"
    using block.prems(2) block.hyps(2) doms unfolding insert_block_simps dom_fun_upd by (simp add: card_insert_if)
  note ok = block.IH [OF grow size]
  obtain d' where "ghostdag gm ps = Some d'" "data_ok gm ps d'"
    using ghostdag_correct [OF ok grow block.hyps(4,5) size] by metis
  then show ?case
    using stores_ok_insert [OF ok block.hyps(2-4) _ block.hyps(7)] block.hyps(6) by simp
qed (rule genesis_stores_ok)

section \<open>Networks without the compute lane\<close>

definition inert_network :: "ghostdag_manager \<Rightarrow> bool" where
  "inert_network gm \<longleftrightarrow> gh_level_work gm \<le> 2 ^ 256 \<and> card (dom (gh_relations_store gm)) \<le> u64_max \<and>
     (\<forall>b h. gh_headers_store gm b = Some h \<longrightarrow> dh_daa_score h < gh_palw_activation_daa_score gm \<and> 0 < calc_work (dh_bits h))"

definition block_work :: "ghostdag_manager \<Rightarrow> hash64 \<Rightarrow> nat" where
  "block_work gm b = max (calc_work (dh_bits (the (gh_headers_store gm b)))) (gh_level_work gm)"

definition sums_work :: "ghostdag_manager \<Rightarrow> ghostdag_data \<Rightarrow> bool" where
  "sums_work gm d \<longleftrightarrow> gd_blue_hash_work d = (\<Sum>x\<in>blues (gh_ghostdag_store gm) d. block_work gm x) \<and>
     gd_blue_compute_work d = 0 \<and> gd_blue_work d = gd_blue_hash_work d"

lemma block_work_le: "inert_network gm \<Longrightarrow> block_work gm b \<le> 2 ^ 256"
proof -
  assume "inert_network gm"
  moreover have "calc_work x < 2 ^ 256" for x
    unfolding calc_work_def Let_def by (rule mod_less_divisor) simp
  ultimately show ?thesis
    by (simp add: block_work_def inert_network_def less_imp_le)
qed

lemma added_work_inert:
  assumes "inert_network gm" "set bs \<subseteq> dom (gh_headers_store gm)" "a + (\<Sum>b\<leftarrow>bs. block_work gm b) < 2 ^ 576"
  shows "added_work gm False bs (a, c) = Some (a + (\<Sum>b\<leftarrow>bs. block_work gm b), c)"
  using assms(2,3)
proof (induction bs arbitrary: a)
  case (Cons b bs)
  obtain h where h: "gh_headers_store gm b = Some h"
    using Cons.prems(1) by auto
  have "work_add a (max (calc_work (dh_bits h)) (gh_level_work gm)) = a + block_work gm b"
    using Cons.prems(2) by (simp add: work_add_def block_work_def h)
  then show ?case
    using Cons.IH [of "a + block_work gm b"] Cons.prems h by (simp add: add.assoc)
qed simp

lemma any_palw_inert: "inert_network gm \<Longrightarrow> set ps \<subseteq> dom (gh_headers_store gm) \<Longrightarrow> any_palw_active gm ps = Some False"
  by (induction ps) (auto simp: inert_network_def dest!: spec)

lemma blues_work_bound:
  assumes "inert_network gm" "finite B" "card B \<le> u64_max"
  shows "(\<Sum>x\<in>B. block_work gm x) < 2 ^ 576"
proof -
  have "(\<Sum>x\<in>B. block_work gm x) \<le> card B * 2 ^ 256"
    using sum_bounded_above [of B "block_work gm" "2 ^ 256"] block_work_le [OF assms(1)] by simp
  also have "\<dots> \<le> u64_max * 2 ^ 256"
    using assms(3) by simp
  also have "\<dots> < 2 ^ 576"
    by (simp add: u64_max_def)
  finally show ?thesis .
qed

lemma inert_block:
  assumes ok: "stores_ok gm" and grow: "work_grows gm" and ps: "parents_ok gm ps" and win: "windows_ok gm"
    and inert: "inert_network gm" and sums: "\<forall>b e. gh_ghostdag_store gm b = Some e \<longrightarrow> sums_work gm e"
    and run: "ghostdag gm ps = Some d"
  shows "data_ok gm ps d" "sums_work gm d"
    and "p \<in> set ps \<Longrightarrow> gh_ghostdag_store gm p = Some dp \<Longrightarrow> gd_blue_work dp < gd_blue_work d"
proof -
  let ?P = "gh_relations_store gm" and ?D = "gh_ghostdag_store gm" and ?w = "block_work gm"
  have size: "card (dom ?P) \<le> u64_max"
    using inert by (simp add: inert_network_def)
  obtain d' sp dsp act h c where c: "ghostdag gm ps = Some d'" "data_ok gm ps d'" "gd_selected_parent d' = sp" "?D sp = Some dsp"
      "\<And>p dp. p \<in> set ps \<Longrightarrow> ?D p = Some dp \<Longrightarrow> (gd_blue_work dp, p) \<le> (gd_blue_work dsp, sp)"
      "any_palw_active gm ps = Some act" "added_work gm act (gd_mergeset_blues d') (0, 0) = Some (h, c)"
      "gd_blue_hash_work d' = work_add (gd_blue_hash_work dsp) h"
      "gd_blue_compute_work d' = capped_compute_work (work_add (gd_blue_compute_work dsp) c) (gd_blue_hash_work d') COMPUTE_TO_HASH_CAP"
      "gd_blue_work d' = effective_blue_work (gd_blue_hash_work d') (work_add (gd_blue_compute_work dsp) c) COMPUTE_TO_HASH_CAP"
    using ghostdag_correct [OF ok grow ps win size] by metis
  have d: "d' = d"
    using run c(1) by simp
  note view = data_ok_view [OF c(2) [unfolded d]]
  have spd: "sp \<in> set ps" "set ps \<subseteq> dom ?P" "ORIGIN \<notin> set ps"
    using view_ok_blues(1) [OF view] ps c(3) d by (auto simp: parents_ok_def)
  have "set (gd_mergeset_blues d) \<subseteq> insert sp (mergeset_of ?P sp ps)"
    using view_blues_subset [OF view] c(3) d by simp
  then have hd: "set ps \<subseteq> dom (gh_headers_store gm)" "set (gd_mergeset_blues d) \<subseteq> dom (gh_headers_store gm)"
    using mergeset_no_root(1,2) [OF ok ps spd(1)] spd unfolding stores_facts(6) [OF ok] by blast+
  have act: "act = False"
    using c(6) any_palw_inert [OF inert hd(1)] by simp
  have Bd: "blues ?D d = set (gd_mergeset_blues d) \<union> blues ?D dsp"
    using blues_Some [of ?D d dsp] c(3,4) d by simp
  have disj: "set (gd_mergeset_blues d) \<inter> blues ?D dsp = {}"
    using view_blues_new [OF ok view] c(3,4) d by simp
  have dist: "distinct (gd_mergeset_blues d)"
    by (rule view_ok_blues(3) [OF view])
  have fin: "finite (blues ?D d)" "finite (blues ?D dsp)"
    using finite_blues [OF ok c(4)] by (auto simp: Bd)
  have "blues ?D dsp \<subseteq> dom ?P"
    using blues_in_past [OF ok c(4)] anc_dom [OF stores_facts(1) [OF ok]] spd(1,2) by blast
  moreover have "set (gd_mergeset_blues d) \<subseteq> dom ?P"
    using hd(2) unfolding stores_facts(6) [OF ok] by blast
  ultimately have "blues ?D d \<subseteq> dom ?P"
    by (simp add: Bd)
  then have "card (blues ?D d) \<le> card (dom ?P)"
    by (rule card_mono [OF dag_finite [OF stores_facts(1) [OF ok]]])
  then have "card (blues ?D d) \<le> u64_max"
    using size by linarith
  note bound = blues_work_bound [OF inert fin(1) this]
  have split: "(\<Sum>x\<in>blues ?D d. ?w x) = (\<Sum>b\<leftarrow>gd_mergeset_blues d. ?w b) + (\<Sum>x\<in>blues ?D dsp. ?w x)"
    unfolding Bd using disj fin(2) dist by (subst sum.union_disjoint) (auto simp: sum_list_distinct_conv_sum_set)
  have hc: "h = (\<Sum>b\<leftarrow>gd_mergeset_blues d. ?w b)" "c = 0"
    using added_work_inert [OF inert hd(2), of 0 0] c(7) bound split act d by simp_all
  have sp: "gd_blue_hash_work dsp = (\<Sum>x\<in>blues ?D dsp. ?w x)" "gd_blue_compute_work dsp = 0" "gd_blue_work dsp = gd_blue_hash_work dsp"
    using sums c(4) by (auto simp: sums_work_def)
  have hash: "gd_blue_hash_work d = (\<Sum>x\<in>blues ?D d. ?w x)"
    using c(8) bound split hc(1) sp(1) d by (simp add: work_add_def add.commute)
  have comp: "work_add (gd_blue_compute_work dsp) c = 0"
    by (simp add: work_add_def sp(2) hc(2))
  show "data_ok gm ps d"
    using c(2) d by simp
  show "sums_work gm d"
    using c(9,10) hash comp bound d
    by (simp add: sums_work_def capped_compute_work_def effective_blue_work_def sat_add_def work_max_def)
  then have work: "gd_blue_work d = (\<Sum>x\<in>blues ?D d. ?w x)"
    by (simp add: sums_work_def)
  have "sp \<in> set (gd_mergeset_blues d)"
    using view_ok_blues(2) [OF view] c(3) d by (metis list.set_intros(1))
  then have "?w sp \<le> (\<Sum>b\<leftarrow>gd_mergeset_blues d. ?w b)"
    by (intro member_le_sum_list) auto
  moreover have "0 < ?w sp"
    using inert hd(1) spd(1) by (fastforce simp: inert_network_def block_work_def)
  ultimately have "gd_blue_work dsp < gd_blue_work d"
    using work split sp by simp
  then show "gd_blue_work dp < gd_blue_work d" if "p \<in> set ps" "?D p = Some dp"
    using c(5) [OF that] by auto
qed

lemma inert_invariant:
  "dag_reachable gm \<Longrightarrow> inert_network gm \<Longrightarrow>
     stores_ok gm \<and> work_grows gm \<and> (\<forall>b e. gh_ghostdag_store gm b = Some e \<longrightarrow> sums_work gm e)"
proof (induction rule: dag_reachable.induct)
  case (genesis gm)
  note ok = genesis_stores_ok [OF genesis.hyps]
  note st = genesis.hyps [unfolded genesis_state_def Let_def]
  have "sums_work gm origin_ghostdag_data" "sums_work gm genesis_ghostdag_data"
    unfolding sums_work_def root_blues [OF stores_facts(5,3) [OF ok]]
    by (simp_all add: origin_ghostdag_data_def genesis_ghostdag_data_def)
  then have "sums_work gm e" if "gh_ghostdag_store gm b = Some e" for b e
    using that st by (auto split: if_splits)
  moreover have "work_grows gm"
    using st by (auto simp: work_grows_def split: if_splits)
  ultimately show ?case
    using ok by blast
next
  case (block gm h ps d rs hdr ws)
  define gm' where "gm' = insert_block gm h ps d hdr rs ws"
  let ?P = "gh_relations_store gm" and ?D = "gh_ghostdag_store gm"
  note doms = reachable_doms [OF block.hyps(1)]
  have "card (dom ?P) \<le> u64_max"
    using block.prems block.hyps(2) doms unfolding inert_network_def insert_block_simps dom_fun_upd by (simp add: card_insert_if)
  moreover have "dh_daa_score x < gh_palw_activation_daa_score gm \<and> 0 < calc_work (dh_bits x)"
    if "gh_headers_store gm b = Some x" for b x
  proof -
    have "b \<noteq> h"
      using that doms block.hyps(2) by blast
    then show ?thesis
      using block.prems that unfolding inert_network_def insert_block_simps by (metis fun_upd_other)
  qed
  ultimately have inert: "inert_network gm"
    using block.prems by (simp add: inert_network_def)
  have ok: "stores_ok gm" and grow: "work_grows gm" and sums: "\<forall>b e. ?D b = Some e \<longrightarrow> sums_work gm e"
    using block.IH [OF inert] by blast+
  note new = inert_block [OF ok grow block.hyps(4,5) inert sums block.hyps(6)]
  have ok': "stores_ok gm'"
    unfolding gm'_def by (rule stores_ok_insert [OF ok block.hyps(2-4) new(1) block.hyps(7)])
  have psd: "set ps \<subseteq> dom ?P"
    using block.hyps(4) by (simp add: parents_ok_def)
  have no: "h \<notin> set ps"
    using psd block.hyps(2) by blast
  have old: "blues (gh_ghostdag_store gm') e = blues ?D e" if "?D b = Some e" for b e
    using old_data_kept [OF ok block.hyps(2,3) that] by (simp add: gm'_def)
  obtain dsp where dsp: "?D (gd_selected_parent d) = Some dsp"
    by (rule view_sp_stored [OF ok data_ok_view [OF new(1)] psd])
  have "gd_selected_parent d \<noteq> h"
    using dsp doms block.hyps(2) by blast
  then have newb: "blues (gh_ghostdag_store gm') d = blues ?D d"
    using new_data_kept(1) [OF ok block.hyps(2,3) dsp] by (simp add: gm'_def)
  have work: "block_work gm' x = block_work gm x" if "x \<noteq> h" for x
    using that by (simp add: block_work_def gm'_def)
  have stored': "gh_ghostdag_store gm' = ?D(h \<mapsto> d)"
    by (simp add: gm'_def)
  have "sums_work gm' e" if "gh_ghostdag_store gm' b = Some e" for b e
  proof -
    have "blues (gh_ghostdag_store gm') e = blues ?D e \<and> sums_work gm e"
    proof (cases "b = h")
      case True
      then have "e = d"
        using that by (simp add: gm'_def)
      then show ?thesis
        using newb new(2) by simp
    next
      case False
      then have "?D b = Some e"
        using that by (simp add: gm'_def)
      then show ?thesis
        using old sums by blast
    qed
    moreover have "h \<notin> blues ?D e"
    proof
      assume "h \<in> blues ?D e"
      then have "h \<in> blues (gh_ghostdag_store gm') e"
        using calculation by simp
      then have "anc (gh_relations_store gm') h b \<and> h \<noteq> b"
        by (rule blues_in_past [OF ok' that])
      moreover have "b \<noteq> h"
        using calculation by blast
      moreover have "b \<in> dom ?P"
        using that \<open>b \<noteq> h\<close> doms unfolding stored' by auto
      ultimately have "anc ?P h b"
        using anc_insert_new [OF block.hyps(2) no stores_facts(1) [OF ok] psd] by (simp add: gm'_def)
      then show False
        using anc_dom [OF stores_facts(1) [OF ok]] \<open>b \<in> dom ?P\<close> block.hyps(2) by blast
    qed
    ultimately show ?thesis
      using work unfolding sums_work_def by (metis (no_types, lifting) sum.cong)
  qed
  moreover have "work_grows gm'"
    unfolding work_grows_def
  proof (intro allI impI)
    fix b qs e p dp
    assume a: "gh_relations_store gm' b = Some qs" "gh_ghostdag_store gm' b = Some e" "b \<noteq> ORIGIN" "b \<noteq> gh_genesis_hash gm'"
      "p \<in> set qs" "gh_ghostdag_store gm' p = Some dp"
    show "gd_blue_work dp < gd_blue_work e"
    proof (cases "b = h")
      case True
      then have e: "p \<in> set ps" "e = d"
        using a(1,2,5) by (simp_all add: gm'_def)
      then have "?D p = Some dp"
        using a(6) no by (auto simp: gm'_def split: if_splits)
      then show ?thesis
        unfolding e(2) by (rule new(3) [OF e(1)])
    next
      case False
      then have b: "?P b = Some qs" "?D b = Some e"
        using a by (simp_all add: gm'_def)
      then have "p \<noteq> h"
        using dag_closed [OF stores_facts(1) [OF ok] b(1) a(5)] block.hyps(2) by blast
      then show ?thesis
        using grow [unfolded work_grows_def, rule_format, OF b _ _ a(5)] a(3,4,6) by (simp add: gm'_def)
    qed
  qed
  ultimately show ?case
    using ok' unfolding gm'_def by blast
qed

end
