(* ===== verification/Reach_Reindex.thy ===== *)
theory Reach_Reindex
  imports Reach_Store
begin

text \<open>
  The mutation side of the reachability index (\<open>tree.rs\<close>, \<open>reindex.rs\<close>, \<open>extensions.rs\<close>, \<open>inquirer.rs\<close>): a new tree block takes
  half of the space its parent has left; when none is left the intervals of a subtree are laid out again by the sizes
  of its subtrees, or space is reclaimed from the slack along the chain to the reindex root.

  The loops are partial functions. The rounding of \<open>split_exponential\<close> in floating point is a parameter: the code caps each
  bias by what remains, so the layout does not depend on how it rounds.
\<close>

lemma bind_res_bind: "bind_res m g = Option.bind m (case_sum (\<lambda>e. Some (Inl e)) g)"
  by (auto simp: bind_res_def split: option.splits sum.splits)

lemma bind_res_mono [partial_function_mono]:
  assumes "mono_option B" "\<And>y. mono_option (\<lambda>f. C y f)"
  shows "mono_option (\<lambda>f. bind_res (B f) (\<lambda>y. C y f))"
proof -
  have "mono_option (\<lambda>f. case_sum (\<lambda>e. Some (Inl e)) (\<lambda>y. C y f) r)" for r
    using assms(2) by (cases r) (auto intro: option.const_mono)
  then show ?thesis
    unfolding bind_res_bind by (intro bind_mono assms(1))
qed

section \<open>Interval arithmetic\<close>

type_synonym interval_op = "interval \<Rightarrow> u64 \<Rightarrow> interval option"

definition increase :: interval_op where
  "increase i offset = Option.bind (checked_add u64_max (iv_start i) offset) (\<lambda>s.
     map_option (interval_new s) (checked_add u64_max (iv_end i) offset))"

definition decrease :: interval_op where
  "decrease i offset = Option.bind (checked_sub (iv_start i) offset) (\<lambda>s. map_option (interval_new s) (checked_sub (iv_end i) offset))"

definition increase_start :: interval_op where
  "increase_start i offset = map_option (\<lambda>s. interval_new s (iv_end i)) (checked_add u64_max (iv_start i) offset)"

definition decrease_start :: interval_op where
  "decrease_start i offset = map_option (\<lambda>s. interval_new s (iv_end i)) (checked_sub (iv_start i) offset)"

definition increase_end :: interval_op where
  "increase_end i offset = map_option (interval_new (iv_start i)) (checked_add u64_max (iv_end i) offset)"

definition sum_u64 :: "u64 list \<Rightarrow> u64 option" where
  "sum_u64 xs = (if sum_list xs \<le> u64_max then Some (sum_list xs) else None)"

fun split_parts :: "u64 \<Rightarrow> u64 list \<Rightarrow> interval list option" where
  "split_parts start [] = Some []"
| "split_parts start (n # ns) =
     Option.bind (checked_add u64_max start n) (\<lambda>stop. Option.bind (checked_sub stop 1) (\<lambda>e.
       map_option (Cons (interval_new start e)) (split_parts stop ns)))"

definition split_exact :: "interval \<Rightarrow> u64 list \<Rightarrow> interval list option" where
  "split_exact i sizes = Option.bind (sum_u64 sizes) (\<lambda>t. Option.bind (interval_size i) (\<lambda>n.
     if t \<noteq> n then None else split_parts (iv_start i) sizes))"

text \<open>\<open>bias sizes total i\<close> is \<open>f64::round(total_bias * fraction)\<close> for the \<open>i\<close>-th of the exponential fractions.\<close>

type_synonym bias_rounding = "u64 list \<Rightarrow> u64 \<Rightarrow> nat \<Rightarrow> u64"

fun biased_sizes :: "(nat \<Rightarrow> u64) \<Rightarrow> nat \<Rightarrow> u64 list \<Rightarrow> u64 \<Rightarrow> u64 list option" where
  "biased_sizes f i [] remaining = Some []"
| "biased_sizes f i (n # ns) remaining =
     (let b = (if ns = [] then remaining else min remaining (f i))
      in Option.bind (checked_add u64_max n b) (\<lambda>m. map_option (Cons m) (biased_sizes f (i + 1) ns (remaining - b))))"

definition split_exponential :: "bias_rounding \<Rightarrow> interval \<Rightarrow> u64 list \<Rightarrow> interval list option" where
  "split_exponential bias i sizes =
     Option.bind (interval_size i) (\<lambda>n. Option.bind (sum_u64 sizes) (\<lambda>t.
       if n < t \<or> t = 0 then None
       else if n = t then split_exact i sizes
       else Option.bind (biased_sizes (bias sizes (n - t)) 0 sizes (n - t)) (split_exact i)))"

definition interval_children_capacity :: "reachability_store \<Rightarrow> hash64 \<Rightarrow> interval reach_result" where
  "interval_children_capacity s b = bind_res (get_interval s b) (\<lambda>i. lift_abort (decrease_end i 1))"

definition interval_remaining_before :: "reachability_store \<Rightarrow> hash64 \<Rightarrow> interval reach_result" where
  "interval_remaining_before s b =
     bind_res (interval_children_capacity s b) (\<lambda>capacity. bind_res (get_children s b) (\<lambda>cs.
       if cs = [] then reach_ok capacity
       else bind_res (get_interval s (hd cs)) (\<lambda>i.
         bind_res (lift_abort (checked_sub (iv_start i) 1)) (\<lambda>e. reach_ok (interval_new (iv_start capacity) e)))))"

definition interval_remaining_after :: "reachability_store \<Rightarrow> hash64 \<Rightarrow> interval reach_result" where
  "interval_remaining_after s b =
     bind_res (interval_children_capacity s b) (\<lambda>capacity. bind_res (get_children s b) (\<lambda>cs.
       if cs = [] then reach_ok capacity
       else bind_res (get_interval s (last cs)) (\<lambda>i.
         bind_res (lift_abort (checked_add u64_max (iv_end i) 1)) (\<lambda>st. reach_ok (interval_new st (iv_end capacity))))))"

section \<open>Subtree sizes and layout\<close>

type_synonym subtree_sizes = "(hash64, u64) hashmap"

text \<open>The inner loop of \<open>count_subtrees\<close>: push a finished subtree up until a block waits for another child.\<close>

partial_function (option) push_up ::
  "reachability_store \<Rightarrow> hash64 \<Rightarrow> hash64 \<Rightarrow> (hash64, u64) hashmap \<Rightarrow> subtree_sizes \<Rightarrow>
    ((hash64, u64) hashmap \<times> subtree_sizes) reach_result" where
  "push_up s block current counts sizes =
     (if current = block then reach_ok (counts, sizes)
      else bind_res (get_tree_parent s current) (\<lambda>p.
        bind_res (get_children s p) (\<lambda>cs.
        bind_res (lift_abort (checked_add u64_max (case hm_get counts p of Some n \<Rightarrow> n | None \<Rightarrow> 0) 1)) (\<lambda>n.
          if n < length cs then reach_ok (hm_insert p n counts, sizes)
          else bind_res (lift_abort (Option.bind (those (map (hm_get sizes) cs)) sum_u64)) (\<lambda>t.
               bind_res (lift_abort (checked_add u64_max t 1)) (\<lambda>t.
                 push_up s block p (hm_insert p n counts) (hm_insert p t sizes)))))))"

partial_function (option) count_loop ::
  "reachability_store \<Rightarrow> hash64 \<Rightarrow> hash64 list \<Rightarrow> (hash64, u64) hashmap \<Rightarrow> subtree_sizes \<Rightarrow> subtree_sizes reach_result" where
  "count_loop s block queue counts sizes =
     (case queue of
        [] \<Rightarrow> reach_ok sizes
      | current # queue \<Rightarrow>
          bind_res (get_children s current) (\<lambda>cs.
            if cs \<noteq> [] \<and> hm_get sizes current = None then count_loop s block (queue @ cs) counts sizes
            else bind_res (push_up s block current counts (if cs = [] then hm_insert current 1 sizes else sizes)) (\<lambda>r.
              count_loop s block queue (fst r) (snd r))))"

definition count_subtrees :: "reachability_store \<Rightarrow> hash64 \<Rightarrow> subtree_sizes \<Rightarrow> subtree_sizes reach_result" where
  "count_subtrees s block sizes = (if hm_contains sizes block then reach_ok sizes else count_loop s block [block] [] sizes)"

fun set_intervals :: "reachability_store \<Rightarrow> (hash64 \<times> interval) list \<Rightarrow> reachability_store reach_result" where
  "set_intervals s [] = reach_ok s"
| "set_intervals s ((c, iv) # cs) = bind_res (set_interval s c iv) (\<lambda>s. set_intervals s cs)"

partial_function (option) propagate_loop ::
  "bias_rounding \<Rightarrow> subtree_sizes \<Rightarrow> hash64 list \<Rightarrow> reachability_store \<Rightarrow> reachability_store reach_result" where
  "propagate_loop bias sizes queue s =
     (case queue of
        [] \<Rightarrow> reach_ok s
      | current # queue \<Rightarrow>
          bind_res (get_children s current) (\<lambda>cs.
            if cs = [] then propagate_loop bias sizes queue s
            else bind_res (lift_abort (those (map (hm_get sizes) cs))) (\<lambda>ns.
                 bind_res (interval_children_capacity s current) (\<lambda>iv.
                 bind_res (lift_abort (split_exponential bias iv ns)) (\<lambda>ivs.
                 bind_res (set_intervals s (zip cs ivs)) (\<lambda>s. propagate_loop bias sizes (queue @ cs) s))))))"

text \<open>The context of a reindex operation is the store with the subtree sizes known so far.\<close>

type_synonym reindex_ctx = "reachability_store \<times> subtree_sizes"

definition propagate_interval :: "bias_rounding \<Rightarrow> hash64 \<Rightarrow> reindex_ctx \<Rightarrow> reindex_ctx reach_result" where
  "propagate_interval bias block = (\<lambda>(s, sizes).
     bind_res (count_subtrees s block sizes) (\<lambda>sizes.
       bind_res (propagate_loop bias sizes [block] s) (\<lambda>s. reach_ok (s, sizes))))"

definition apply_interval_op :: "hash64 \<Rightarrow> u64 \<Rightarrow> interval_op \<Rightarrow> reindex_ctx \<Rightarrow> reindex_ctx reach_result" where
  "apply_interval_op block offset iop = (\<lambda>(s, sizes).
     bind_res (get_interval s block) (\<lambda>i. bind_res (lift_abort (iop i offset)) (\<lambda>j.
       bind_res (set_interval s block j) (\<lambda>s. reach_ok (s, sizes)))))"

definition apply_interval_op_and_propagate :: "bias_rounding \<Rightarrow> hash64 \<Rightarrow> u64 \<Rightarrow> interval_op \<Rightarrow> reindex_ctx \<Rightarrow> reindex_ctx reach_result" where
  "apply_interval_op_and_propagate bias block offset iop c =
     bind_res (apply_interval_op block offset iop c) (propagate_interval bias block)"

section \<open>Reclaiming space outside the reindex root\<close>

definition split_children :: "hash64 list \<Rightarrow> hash64 \<Rightarrow> (hash64 list \<times> hash64 list) reach_result" where
  "split_children cs pivot =
     (if pivot \<in> set cs then reach_ok (takeWhile (\<lambda>c. c \<noteq> pivot) cs, tl (dropWhile (\<lambda>c. c \<noteq> pivot) cs))
      else reach_err DataInconsistency)"

text \<open>The loop over the siblings, towards the block that gets the space.\<close>

fun offset_siblings ::
  "bias_rounding \<Rightarrow> hash64 \<Rightarrow> u64 \<Rightarrow> interval_op \<Rightarrow> interval_op \<Rightarrow> hash64 list \<Rightarrow> reindex_ctx \<Rightarrow> reindex_ctx reach_result" where
  "offset_siblings bias allocation_block offset grow shift [] c = reach_ok c"
| "offset_siblings bias allocation_block offset grow shift (sibling # siblings) c =
     (if sibling = allocation_block then apply_interval_op_and_propagate bias allocation_block offset grow c
      else bind_res (apply_interval_op_and_propagate bias sibling offset shift c)
        (offset_siblings bias allocation_block offset grow shift siblings))"

definition offset_siblings_before :: "bias_rounding \<Rightarrow> hash64 \<Rightarrow> hash64 \<Rightarrow> u64 \<Rightarrow> reindex_ctx \<Rightarrow> reindex_ctx reach_result" where
  "offset_siblings_before bias allocation_block current offset c =
     bind_res (get_tree_parent (fst c) current) (\<lambda>parent. bind_res (get_children (fst c) parent) (\<lambda>cs.
       bind_res (split_children cs current) (\<lambda>(before, _).
         offset_siblings bias allocation_block offset increase_end increase (rev before) c)))"

definition offset_siblings_after :: "bias_rounding \<Rightarrow> hash64 \<Rightarrow> hash64 \<Rightarrow> u64 \<Rightarrow> reindex_ctx \<Rightarrow> reindex_ctx reach_result" where
  "offset_siblings_after bias allocation_block current offset c =
     bind_res (get_tree_parent (fst c) current) (\<lambda>parent. bind_res (get_children (fst c) parent) (\<lambda>cs.
       bind_res (split_children cs current) (\<lambda>(_, after).
         offset_siblings bias allocation_block offset decrease_start decrease after c)))"

text \<open>The two directions of the reclaiming functions differ in the side they take the slack from.\<close>

record reclaim_side =
  side_remaining :: "reachability_store \<Rightarrow> hash64 \<Rightarrow> interval reach_result"
  side_shrink :: interval_op
  side_siblings :: "bias_rounding \<Rightarrow> hash64 \<Rightarrow> hash64 \<Rightarrow> u64 \<Rightarrow> reindex_ctx \<Rightarrow> reindex_ctx reach_result"

definition side_before :: reclaim_side where
  "side_before = \<lparr>side_remaining = interval_remaining_before, side_shrink = increase_start, side_siblings = offset_siblings_before\<rparr>"

definition side_after :: reclaim_side where
  "side_after = \<lparr>side_remaining = interval_remaining_after, side_shrink = decrease_end, side_siblings = offset_siblings_after\<rparr>"


text \<open>The walk from the chosen child towards the reindex root; it returns the block it stopped at and the slack to leave.\<close>

partial_function (option) reclaim_up ::
  "bias_rounding \<Rightarrow> u64 \<Rightarrow> reclaim_side \<Rightarrow> hash64 \<Rightarrow> hash64 \<Rightarrow> u64 \<Rightarrow> hash64 \<Rightarrow> u64 \<Rightarrow> u64 \<Rightarrow> reindex_ctx \<Rightarrow>
    (hash64 \<times> u64 \<times> reindex_ctx) reach_result" where
  "reclaim_up bias slack side allocation_block reindex_root required current slack_sum path_len c =
     (if current = reindex_root then
        bind_res (lift_abort (Option.bind (checked_mul u64_max slack path_len) (\<lambda>x.
          Option.bind (checked_add u64_max required x) (\<lambda>y. checked_sub y slack_sum)))) (\<lambda>offset.
        bind_res (apply_interval_op_and_propagate bias current offset (side_shrink side) c) (\<lambda>c.
        bind_res (side_siblings side bias allocation_block current offset c) (\<lambda>c. reach_ok (current, slack, c))))
      else
        bind_res (side_remaining side (fst c) current) (\<lambda>rest.
        bind_res (lift_abort (interval_size rest)) (\<lambda>slack_current.
        bind_res (lift_abort (checked_add u64_max slack_sum slack_current)) (\<lambda>slack_sum.
          if required \<le> slack_sum then
            bind_res (lift_abort (checked_sub slack_current (slack_sum - required))) (\<lambda>offset.
            bind_res (apply_interval_op current offset (side_shrink side) c) (\<lambda>c.
            bind_res (side_siblings side bias allocation_block current offset c) (\<lambda>c. reach_ok (current, 0, c))))
          else
            bind_res (get_next_chain_ancestor_unchecked (fst c) reindex_root current) (\<lambda>next_block.
            bind_res (lift_abort (checked_add u64_max path_len 1)) (\<lambda>path_len.
              reclaim_up bias slack side allocation_block reindex_root required next_block slack_sum path_len c))))))"

partial_function (option) reclaim_down ::
  "bias_rounding \<Rightarrow> reclaim_side \<Rightarrow> hash64 \<Rightarrow> hash64 \<Rightarrow> u64 \<Rightarrow> hash64 \<Rightarrow> reindex_ctx \<Rightarrow> reindex_ctx reach_result" where
  "reclaim_down bias side allocation_block common_ancestor path_slack_alloc current c =
     bind_res (get_tree_parent (fst c) current) (\<lambda>current.
       if current = common_ancestor then reach_ok c
       else
         bind_res (side_remaining side (fst c) current) (\<lambda>rest.
         bind_res (lift_abort (interval_size rest)) (\<lambda>slack_current.
         bind_res (lift_abort (checked_sub slack_current path_slack_alloc)) (\<lambda>offset.
         bind_res (apply_interval_op current offset (side_shrink side) c) (\<lambda>c.
         bind_res (side_siblings side bias allocation_block current offset c) (\<lambda>c.
           reclaim_down bias side allocation_block common_ancestor path_slack_alloc current c))))))"

definition reclaim_interval ::
  "bias_rounding \<Rightarrow> u64 \<Rightarrow> reclaim_side \<Rightarrow> hash64 \<Rightarrow> hash64 \<Rightarrow> hash64 \<Rightarrow> hash64 \<Rightarrow> u64 \<Rightarrow> reindex_ctx \<Rightarrow> reindex_ctx reach_result" where
  "reclaim_interval bias slack side allocation_block common_ancestor chosen_child reindex_root required c =
     bind_res (reclaim_up bias slack side allocation_block reindex_root required chosen_child 0 0 c) (\<lambda>(current, path_slack_alloc, c).
       reclaim_down bias side allocation_block common_ancestor path_slack_alloc current c)"

definition reindex_intervals_earlier_than_root ::
  "bias_rounding \<Rightarrow> u64 \<Rightarrow> hash64 \<Rightarrow> hash64 \<Rightarrow> hash64 \<Rightarrow> u64 \<Rightarrow> reindex_ctx \<Rightarrow> reindex_ctx reach_result" where
  "reindex_intervals_earlier_than_root bias slack allocation_block reindex_root common_ancestor required c =
     bind_res (get_next_chain_ancestor_unchecked (fst c) reindex_root common_ancestor) (\<lambda>chosen_child.
     bind_res (get_interval (fst c) allocation_block) (\<lambda>block_interval.
     bind_res (get_interval (fst c) chosen_child) (\<lambda>chosen_interval.
       reclaim_interval bias slack (if iv_start block_interval < iv_start chosen_interval then side_before else side_after)
         allocation_block common_ancestor chosen_child reindex_root required c)))"

section \<open>Reindexing below a new child\<close>

partial_function (option) reindex_loop ::
  "bias_rounding \<Rightarrow> u64 \<Rightarrow> hash64 \<Rightarrow> hash64 \<Rightarrow> reindex_ctx \<Rightarrow> reindex_ctx reach_result" where
  "reindex_loop bias slack reindex_root current c =
     bind_res (get_interval (fst c) current) (\<lambda>current_interval.
     bind_res (count_subtrees (fst c) current (snd c)) (\<lambda>sizes.
     bind_res (lift_abort (interval_size current_interval)) (\<lambda>n.
     bind_res (lift_abort (hm_get sizes current)) (\<lambda>m.
       if m \<le> n then propagate_interval bias current (fst c, sizes)
       else
         bind_res (get_tree_parent (fst c) current) (\<lambda>parent.
           if parent = NONE then reach_err DataOverflow
           else if current = reindex_root then reach_err DataOverflow
           else bind_res (is_strict_chain_ancestor_of (fst c) parent reindex_root) (\<lambda>b.
             if b then reindex_intervals_earlier_than_root bias slack current reindex_root parent m (fst c, sizes)
             else reindex_loop bias slack reindex_root parent (fst c, sizes)))))))"

definition reindex_intervals :: "bias_rounding \<Rightarrow> u64 \<Rightarrow> hash64 \<Rightarrow> hash64 \<Rightarrow> reachability_store \<Rightarrow> reachability_store reach_result" where
  "reindex_intervals bias slack new_child reindex_root s =
     bind_res (reindex_loop bias slack reindex_root new_child (s, [])) (\<lambda>c. reach_ok (fst c))"

section \<open>Adding a block\<close>

definition DEFAULT_REINDEX_SLACK :: u64 where
  "DEFAULT_REINDEX_SLACK = 2 ^ 14"

definition add_tree_block :: "bias_rounding \<Rightarrow> u64 \<Rightarrow> hash64 \<Rightarrow> hash64 \<Rightarrow> reachability_store \<Rightarrow> reachability_store reach_result" where
  "add_tree_block bias reindex_slack new_block parent s =
     bind_res (interval_remaining_after s parent) (\<lambda>remaining.
     bind_res (append_child s parent new_block) (\<lambda>s.
     bind_res (get_height s parent) (\<lambda>parent_height.
     bind_res (lift_abort (interval_size remaining)) (\<lambda>n.
       if n = 0 then
         bind_res (lift_abort (checked_add u64_max parent_height 1)) (\<lambda>h.
         bind_res (store_insert s new_block parent remaining h) (\<lambda>s.
         bind_res (get_reindex_root s) (\<lambda>reindex_root. reindex_intervals bias reindex_slack new_block reindex_root s)))
       else
         bind_res (lift_abort (split_half remaining)) (\<lambda>(allocated, _).
         bind_res (lift_abort (checked_add u64_max parent_height 1)) (\<lambda>h. store_insert s new_block parent allocated h))))))"

definition insert_to_future_covering_set :: "hash64 \<Rightarrow> reachability_store \<Rightarrow> hash64 \<Rightarrow> reachability_store reach_result" where
  "insert_to_future_covering_set new_block s merged_block =
     bind_res (get_future_covering_set s merged_block) (\<lambda>fcs.
     bind_res (binary_search_descendant s fcs new_block) (\<lambda>r.
       case r of Found _ _ \<Rightarrow> reach_err DataInconsistency
       | NotFound i \<Rightarrow> insert_future_covering_item s merged_block new_block i))"

fun add_dag_block :: "hash64 \<Rightarrow> reachability_store \<Rightarrow> hash64 list \<Rightarrow> reachability_store reach_result" where
  "add_dag_block new_block s [] = reach_ok s"
| "add_dag_block new_block s (merged_block # mergeset) =
     bind_res (insert_to_future_covering_set new_block s merged_block) (\<lambda>s. add_dag_block new_block s mergeset)"

definition add_block :: "bias_rounding \<Rightarrow> hash64 \<Rightarrow> hash64 \<Rightarrow> hash64 list \<Rightarrow> reachability_store \<Rightarrow> reachability_store reach_result" where
  "add_block bias new_block selected_parent mergeset s =
     bind_res (add_tree_block bias DEFAULT_REINDEX_SLACK new_block selected_parent s) (\<lambda>s. add_dag_block new_block s mergeset)"

end
