(* ===== verification/Reach_Shape.thy ===== *)
theory Reach_Shape
  imports Reachability Reach_Reindex
begin

text \<open>
  The reachability tree apart from its intervals. Reindexing changes the intervals of a store and nothing else, so a
  store is taken as its tree with a labelling by intervals; a labelling that lays out every subtree gives the
  invariant of the interval tree. The size of a subtree is what \<open>count_subtrees\<close> counts.
\<close>

lemma bind_res_simps [simp]: "bind_res (Some (Inr x)) f = f x" "bind_res (Some (Inl e)) f = Some (Inl e)" "bind_res None f = None"
  by (simp_all add: bind_res_def)

lemma lift_abort_simps [simp]: "lift_abort (Some x) = Some (Inr x)" "lift_abort None = None"
  by (simp_all add: lift_abort_def)

section \<open>The tree\<close>

definition children_of :: "reachability_store \<Rightarrow> hash64 \<Rightarrow> hash64 list" where
  "children_of s p = (case rs_map s p of Some d \<Rightarrow> rc_children d | None \<Rightarrow> [])"

definition tree_shape :: "reachability_store \<Rightarrow> bool" where
  "tree_shape s \<longleftrightarrow> finite (dom (rs_map s)) \<and> ORIGIN \<in> dom (rs_map s) \<and> NONE \<notin> dom (rs_map s) \<and>
     (\<forall>b\<in>dom (rs_map s). tanc s ORIGIN b) \<and> acyclic (tree_of s) \<and>
     (\<forall>b d. rs_map s b = Some d \<longrightarrow> rc_height d < card (dom (rs_map s))) \<and>
     (\<forall>p. distinct (children_of s p) \<and> set (children_of s p) \<subseteq> dom (rs_map s) \<and>
        (\<forall>c\<in>set (children_of s p). rc_parent (the (rs_map s c)) = p))"

definition subtree :: "reachability_store \<Rightarrow> hash64 \<Rightarrow> hash64 set" where
  "subtree s b = {x. tanc s b x}"

definition subtree_size :: "reachability_store \<Rightarrow> hash64 \<Rightarrow> nat" where
  "subtree_size s b = card (subtree s b)"

lemma tree_of_iff: "(p, c) \<in> tree_of s \<longleftrightarrow> c \<in> set (children_of s p)"
  by (cases "rs_map s p") (simp_all add: tree_of_def children_of_def)

lemma children_dom: "c \<in> set (children_of s p) \<Longrightarrow> p \<in> dom (rs_map s)"
  by (cases "rs_map s p") (auto simp: children_of_def)

lemma get_children_dom [simp]: "b \<in> dom (rs_map s) \<Longrightarrow> get_children s b = Some (Inr (children_of s b))"
  by (auto simp: get_children_def get_data_def children_of_def bind_res_def reach_ok_def)

lemma get_tree_parent_dom [simp]: "b \<in> dom (rs_map s) \<Longrightarrow> get_tree_parent s b = Some (Inr (rc_parent (the (rs_map s b))))"
  by (auto simp: get_tree_parent_def get_data_def bind_res_def reach_ok_def)

lemma shape_child:
  assumes "tree_shape s" "c \<in> set (children_of s p)"
  shows "c \<in> dom (rs_map s)" "rc_parent (the (rs_map s c)) = p"
  using assms unfolding tree_shape_def by blast+

lemma shape_distinct: "tree_shape s \<Longrightarrow> distinct (children_of s p)"
  by (simp add: tree_shape_def)

lemma shape_finite: "tree_shape s \<Longrightarrow> finite (dom (rs_map s))"
  by (simp add: tree_shape_def)

lemma tanc_child: "c \<in> set (children_of s p) \<Longrightarrow> tanc s p c"
  unfolding tanc_def using tree_of_iff by (metis r_into_rtrancl)

lemma tanc_first: "tanc s a b \<longleftrightarrow> a = b \<or> (\<exists>c\<in>set (children_of s a). tanc s c b)"
proof
  assume "tanc s a b"
  then show "a = b \<or> (\<exists>c\<in>set (children_of s a). tanc s c b)"
    unfolding tanc_def by (cases rule: converse_rtranclE) (auto simp: tree_of_iff)
qed (auto intro: tanc_trans [OF tanc_child])

lemma tanc_last: "tanc s a b \<longleftrightarrow> a = b \<or> (\<exists>p. b \<in> set (children_of s p) \<and> tanc s a p)"
proof
  assume "tanc s a b"
  then show "a = b \<or> (\<exists>p. b \<in> set (children_of s p) \<and> tanc s a p)"
    unfolding tanc_def by (cases rule: rtranclE) (auto simp: tree_of_iff)
qed (auto intro: tanc_trans [OF _ tanc_child])

lemma shape_antisym: "tree_shape s \<Longrightarrow> tanc s a b \<Longrightarrow> tanc s b a \<Longrightarrow> a = b"
  unfolding tree_shape_def tanc_def by (meson acyclic_impl_antisym_rtrancl antisymD)

lemma shape_child_neq: "tree_shape s \<Longrightarrow> c \<in> set (children_of s p) \<Longrightarrow> \<not> tanc s c p"
  unfolding tree_shape_def acyclic_def tanc_def by (meson rtrancl_into_trancl2 tree_of_iff)

lemma shape_dom:
  assumes "tree_shape s" "tanc s a b" "a \<in> dom (rs_map s)"
  shows "b \<in> dom (rs_map s)"
  using assms shape_child(1) [OF assms(1)] by (metis tanc_last)

text \<open>The ancestors of a block are a chain.\<close>

lemma shape_chain:
  assumes "tree_shape s" "tanc s a x" "tanc s b x"
  shows "tanc s a b \<or> tanc s b a"
  using assms(2) unfolding tanc_def [of s a x]
proof (induction rule: converse_rtrancl_induct)
  case base
  then show ?case
    using assms(3) by simp
next
  case (step p c)
  have c: "c \<in> set (children_of s p)"
    using step.hyps(1) tree_of_iff by blast
  from step.IH show ?case
  proof
    assume "tanc s c b"
    then show ?thesis
      using tanc_child [OF c] tanc_trans by blast
  next
    assume "tanc s b c"
    then show ?thesis
      using tanc_child [OF c] shape_child(2) [OF assms(1)] c by (metis tanc_last)
  qed
qed

lemma shape_induct [consumes 2, case_names child]:
  assumes "tree_shape s" "b \<in> dom (rs_map s)"
    and "\<And>b. b \<in> dom (rs_map s) \<Longrightarrow> (\<And>c. c \<in> set (children_of s b) \<Longrightarrow> Q c) \<Longrightarrow> Q b"
  shows "Q b"
proof -
  have "tree_of s \<subseteq> dom (rs_map s) \<times> dom (rs_map s)"
  proof (rule subrelI)
    fix p c assume "(p, c) \<in> tree_of s"
    then have c: "c \<in> set (children_of s p)"
      by (simp add: tree_of_iff)
    show "(p, c) \<in> dom (rs_map s) \<times> dom (rs_map s)"
      using shape_child(1) [OF assms(1) c] children_dom [OF c] by blast
  qed
  then have "finite (tree_of s)"
    using shape_finite [OF assms(1)] by (meson finite_SigmaI finite_subset)
  then have "wf ((tree_of s)\<inverse>)"
    using assms(1) by (intro finite_acyclic_wf_converse) (simp_all add: tree_shape_def)
  then show ?thesis
    using assms(2)
  proof (induction b rule: wf_induct_rule)
    case (less b)
    show ?case
      by (rule assms(3)) (use less shape_child(1) [OF assms(1)] in \<open>auto simp: tree_of_iff\<close>)
  qed
qed

lemma subtree_self [simp]: "b \<in> subtree s b"
  by (simp add: subtree_def)

lemma subtree_dom: "tree_shape s \<Longrightarrow> b \<in> dom (rs_map s) \<Longrightarrow> subtree s b \<subseteq> dom (rs_map s)"
  using shape_dom unfolding subtree_def by blast

lemma subtree_finite: "tree_shape s \<Longrightarrow> b \<in> dom (rs_map s) \<Longrightarrow> finite (subtree s b)"
  by (rule finite_subset [OF subtree_dom shape_finite])

lemma subtree_children: "subtree s b = insert b (\<Union>c\<in>set (children_of s b). subtree s c)"
proof (rule set_eqI)
  fix x show "x \<in> subtree s b \<longleftrightarrow> x \<in> insert b (\<Union>c\<in>set (children_of s b). subtree s c)"
    unfolding subtree_def using tanc_first [of s b x] by blast
qed

lemma siblings_disjoint:
  assumes "tree_shape s" "c \<in> set (children_of s p)" "c' \<in> set (children_of s p)" "c \<noteq> c'"
  shows "subtree s c \<inter> subtree s c' = {}"
proof -
  have no: "\<not> tanc s x y" if "x \<in> set (children_of s p)" "y \<in> set (children_of s p)" "x \<noteq> y" for x y
  proof
    assume t: "tanc s x y"
    obtain q where "y \<in> set (children_of s q)" "tanc s x q"
      using t \<open>x \<noteq> y\<close> tanc_last [of s x y] by blast
    then have "tanc s x p"
      using shape_child(2) [OF assms(1)] \<open>y \<in> set (children_of s p)\<close> by metis
    then show False
      using shape_child_neq [OF assms(1) \<open>x \<in> set (children_of s p)\<close>] by simp
  qed
  show ?thesis
    using shape_chain [OF assms(1), of c _ c'] no assms(2,3,4) by (auto simp: subtree_def)
qed

lemma subtree_size_children:
  assumes "tree_shape s" "b \<in> dom (rs_map s)"
  shows "subtree_size s b = 1 + sum_list (map (subtree_size s) (children_of s b))"
proof -
  let ?cs = "set (children_of s b)"
  have fin: "finite (subtree s c)" if "c \<in> ?cs" for c
    using subtree_finite [OF assms(1) shape_child(1) [OF assms(1) that]] .
  have "b \<notin> (\<Union>c\<in>?cs. subtree s c)"
    using shape_child_neq [OF assms(1)] by (auto simp: subtree_def)
  then have "card (subtree s b) = 1 + card (\<Union>c\<in>?cs. subtree s c)"
    using fin by (subst subtree_children) simp
  also have "card (\<Union>c\<in>?cs. subtree s c) = (\<Sum>c\<in>?cs. subtree_size s c)"
    unfolding subtree_size_def by (rule card_UN_disjoint) (use fin siblings_disjoint [OF assms(1)] in auto)
  also have "\<dots> = sum_list (map (subtree_size s) (children_of s b))"
    by (rule sum.distinct_set_conv_list) (rule shape_distinct [OF assms(1)])
  finally show ?thesis
    by (simp add: subtree_size_def)
qed

lemma subtree_size_pos: "tree_shape s \<Longrightarrow> b \<in> dom (rs_map s) \<Longrightarrow> 0 < subtree_size s b"
  by (simp add: subtree_size_children)

lemma subtree_size_le: "tree_shape s \<Longrightarrow> b \<in> dom (rs_map s) \<Longrightarrow> subtree_size s b \<le> card (dom (rs_map s))"
  unfolding subtree_size_def by (rule card_mono) (simp_all add: shape_finite subtree_dom)

section \<open>Labellings\<close>

definition with_intervals :: "reachability_store \<Rightarrow> (hash64 \<Rightarrow> interval) \<Rightarrow> reachability_store" where
  "with_intervals s f = s\<lparr>rs_map := (\<lambda>b. map_option (rc_interval_update (\<lambda>_. f b)) (rs_map s b))\<rparr>"

lemma dom_with_intervals [simp]: "dom (rs_map (with_intervals s f)) = dom (rs_map s)"
  by (auto simp: with_intervals_def)

lemma children_with_intervals [simp]: "children_of (with_intervals s f) = children_of s"
  by (auto simp: with_intervals_def children_of_def fun_eq_iff split: option.splits)

lemma tree_of_with_intervals [simp]: "tree_of (with_intervals s f) = tree_of s"
  by (auto simp: tree_of_iff)

lemma tanc_with_intervals [simp]: "tanc (with_intervals s f) = tanc s"
  by (simp add: tanc_def fun_eq_iff)

lemma ivl_with_intervals [simp]: "b \<in> dom (rs_map s) \<Longrightarrow> ivl (with_intervals s f) b = f b"
  by (auto simp: with_intervals_def ivl_def)

lemma parent_with_intervals [simp]:
  "rc_parent (the (rs_map (with_intervals s f) b)) = rc_parent (the (rs_map s b))"
  by (cases "rs_map s b") (simp_all add: with_intervals_def)

lemma height_with_intervals [simp]:
  "(\<forall>b d. rs_map (with_intervals s f) b = Some d \<longrightarrow> rc_height d < n) \<longleftrightarrow> (\<forall>b d. rs_map s b = Some d \<longrightarrow> rc_height d < n)"
proof -
  have "(\<forall>d. rs_map (with_intervals s f) b = Some d \<longrightarrow> rc_height d < n) \<longleftrightarrow> (\<forall>d. rs_map s b = Some d \<longrightarrow> rc_height d < n)" for b
    by (cases "rs_map s b") (simp_all add: with_intervals_def)
  then show ?thesis
    by simp
qed

lemma root_with_intervals [simp]: "rs_reindex_root (with_intervals s f) = rs_reindex_root s"
  by (simp add: with_intervals_def)

lemma with_own_intervals: "with_intervals s (ivl s) = s"
proof -
  have "map_option (rc_interval_update (\<lambda>_. ivl s b)) (rs_map s b) = rs_map s b" for b
    by (cases "rs_map s b") (simp_all add: ivl_def)
  then show ?thesis
    by (simp add: with_intervals_def)
qed

lemma with_intervals_twice [simp]: "with_intervals (with_intervals s f) g = with_intervals s g"
  by (simp add: with_intervals_def option.map_comp comp_def)

lemma set_interval_with [simp]:
  "b \<in> dom (rs_map s) \<Longrightarrow> set_interval (with_intervals s f) b iv = Some (Inr (with_intervals s (f(b := iv))))"
  by (auto simp: set_interval_def update_data_def get_data_def with_intervals_def bind_res_def reach_ok_def fun_eq_iff)

lemma shape_with_intervals [simp]: "tree_shape (with_intervals s f) \<longleftrightarrow> tree_shape s"
  unfolding tree_shape_def by (auto simp: subset_iff)

definition fits :: "(hash64 \<Rightarrow> interval) \<Rightarrow> hash64 \<Rightarrow> hash64 list \<Rightarrow> bool" where
  "fits f p cs \<longleftrightarrow> sorted_wrt (\<lambda>x y. iv_end (f x) < iv_start (f y)) cs \<and>
     (\<forall>c\<in>set cs. iv_start (f p) \<le> iv_start (f c) \<and> iv_start (f c) \<le> iv_end (f c) \<and> iv_end (f c) < iv_end (f p))"

definition laid_out :: "reachability_store \<Rightarrow> (hash64 \<Rightarrow> interval) \<Rightarrow> hash64 \<Rightarrow> bool" where
  "laid_out s f b \<longleftrightarrow> (\<forall>x. tanc s b x \<longrightarrow> fits f x (children_of s x))"

definition root_fits :: "(hash64 \<Rightarrow> interval) \<Rightarrow> bool" where
  "root_fits f \<longleftrightarrow> 0 < iv_start (f ORIGIN) \<and> iv_start (f ORIGIN) \<le> iv_end (f ORIGIN) \<and> iv_end (f ORIGIN) < u64_max"

lemma laid_out_below: "laid_out s f b \<Longrightarrow> tanc s b x \<Longrightarrow> laid_out s f x"
  using tanc_trans by (auto simp: laid_out_def)

lemma laid_out_within:
  assumes "laid_out s f b" "tanc s b x" "iv_start (f b) \<le> iv_end (f b)"
  shows "iv_start (f b) \<le> iv_start (f x) \<and> iv_start (f x) \<le> iv_end (f x) \<and> iv_end (f x) \<le> iv_end (f b)"
  using assms(2) unfolding tanc_def
proof (induction rule: rtrancl_induct)
  case (step y z)
  then have "fits f y (children_of s y)" "z \<in> set (children_of s y)"
    using assms(1) tree_of_iff by (auto simp: laid_out_def tanc_def)
  then show ?case
    using step.IH by (fastforce simp: fits_def)
qed (simp add: assms(3))

lemma reach_tree_laid_out:
  assumes "tree_shape s" "laid_out s f ORIGIN" "root_fits f"
  shows "reach_tree (with_intervals s f)"
proof -
  let ?t = "with_intervals s f"
  have all: "tanc s ORIGIN b" if "b \<in> dom (rs_map s)" for b
    using assms(1) that by (simp add: tree_shape_def)
  have bounds: "0 < iv_start (f b) \<and> iv_start (f b) \<le> iv_end (f b) \<and> iv_end (f b) < u64_max" if "b \<in> dom (rs_map s)" for b
    using laid_out_within [OF assms(2) all [OF that]] assms(3) by (fastforce simp: root_fits_def)
  have kids: "set (rc_children d) \<subseteq> dom (rs_map ?t) \<and> interval_ordered ?t (rc_children d) \<and>
      (\<forall>c\<in>set (rc_children d). strictly_contains (ivl ?t p) (ivl ?t c) \<and> rc_parent (the (rs_map ?t c)) = p)"
    if d: "rs_map ?t p = Some d" for p d
  proof -
    have cs: "rc_children d = children_of s p"
      using d children_with_intervals [of s f] by (metis children_of_def option.simps(5))
    have p: "p \<in> dom (rs_map s)"
      using d dom_with_intervals [of s f] by blast
    have fit: "fits f p (children_of s p)"
      using assms(2) all [OF p] by (simp add: laid_out_def)
    have dom: "c \<in> dom (rs_map s)" if "c \<in> set (children_of s p)" for c
      using shape_child(1) [OF assms(1) that] .
    have "sorted_wrt (\<lambda>x y. iv_end (ivl ?t x) < iv_start (ivl ?t y)) (children_of s p)"
      by (rule sorted_wrt_mono_rel [where P = "\<lambda>x y. iv_end (f x) < iv_start (f y)"]) (use dom fit in \<open>auto simp: fits_def\<close>)
    then show ?thesis
      using dom fit p shape_child(2) [OF assms(1)] unfolding cs interval_ordered_def strictly_contains_def fits_def by auto
  qed
  have "\<forall>b d. rs_map ?t b = Some d \<longrightarrow> rc_height d < card (dom (rs_map ?t))"
    using assms(1) by (simp add: tree_shape_def)
  then show ?thesis
    unfolding reach_tree_def using assms(1) all bounds kids by (auto simp: tree_shape_def)
qed

lemma tree_fits:
  assumes "reach_tree s" "finite (dom (rs_map s))"
  shows "tree_shape s" "laid_out s (ivl s) ORIGIN" "root_fits (ivl s)"
proof -
  have kids: "set (children_of s p) \<subseteq> dom (rs_map s) \<and> interval_ordered s (children_of s p) \<and>
      (\<forall>c\<in>set (children_of s p). strictly_contains (ivl s p) (ivl s c) \<and> rc_parent (the (rs_map s c)) = p)" for p
    using assms(1) unfolding reach_tree_def children_of_def
    by (cases "rs_map s p") (auto simp: interval_ordered_def)
  have ne: "iv_start (ivl s c) \<le> iv_end (ivl s c)" if "c \<in> set (children_of s p)" for c p
    using kids [of p] tree_nonempty [OF assms(1), of c] that by blast
  have dist: "distinct (children_of s p)" for p
  proof -
    have "\<not> iv_end (ivl s c) < iv_start (ivl s c)" if "c \<in> set (children_of s p)" for c
      using ne [OF that] by simp
    then show ?thesis
      using kids [of p] unfolding interval_ordered_def distinct_conv_nth sorted_wrt_iff_nth_less
      by (metis linorder_neqE_nat nth_mem)
  qed
  have "acyclic (tree_of s)"
  proof (rule acyclicI; intro allI notI)
    fix x assume "(x, x) \<in> (tree_of s)\<^sup>+"
    then obtain y where y: "(x, y) \<in> tree_of s" "(y, x) \<in> (tree_of s)\<^sup>*"
      by (meson tranclD)
    then have "tanc s x y" "tanc s y x"
      by (auto simp: tanc_def)
    then have "x = y"
      using tanc_antisym [OF assms(1)] by blast
    then show False
      using tree_child [OF assms(1) y(1)] by (simp add: strictly_contains_def)
  qed
  then show "tree_shape s"
    using assms kids dist by (simp add: tree_shape_def reach_tree_def)
  show "laid_out s (ivl s) ORIGIN"
    using kids ne unfolding laid_out_def fits_def interval_ordered_def strictly_contains_def by blast
  show "root_fits (ivl s)"
    using tree_nonempty [OF assms(1)] assms(1) by (simp add: root_fits_def reach_tree_def)
qed

end
