(* ===== verification/Reach_Count.thy ===== *)
theory Reach_Count
  imports Reach_Shape
begin

text \<open>
  \<open>count_subtrees\<close> returns and finds the size of every subtree: the breadth-first search visits each block once, and a
  block is given its size when the last of its children has reported.
\<close>

section \<open>Breadth-first fronts\<close>

text \<open>\<open>V\<close> are the blocks the search below \<open>B\<close> has taken from its queue \<open>Q\<close>.\<close>

definition front :: "reachability_store \<Rightarrow> hash64 \<Rightarrow> hash64 set \<Rightarrow> hash64 list \<Rightarrow> bool" where
  "front s B V Q \<longleftrightarrow> distinct Q \<and> V \<inter> set Q = {} \<and> V \<union> set Q \<subseteq> subtree s B \<and> B \<in> V \<union> set Q \<and>
     (\<forall>x\<in>V \<union> set Q. x \<noteq> B \<longrightarrow> rc_parent (the (rs_map s x)) \<in> V)"

lemma front_start: "front s B {} [B]"
  by (simp add: front_def)

lemma front_pop: "front s B V (x # Q) \<Longrightarrow> front s B (insert x V) Q"
  unfolding front_def by auto

lemma front_fresh:
  assumes "tree_shape s" "front s B V (x # Q)" "c \<in> set (children_of s x)"
  shows "c \<notin> V" "c \<noteq> x" "c \<notin> set Q"
proof -
  have x: "tanc s B x" "x \<notin> V"
    using assms(2) by (auto simp: front_def subtree_def)
  have "c \<noteq> B"
    using shape_child_neq [OF assms(1,3)] x(1) by blast
  moreover have "rc_parent (the (rs_map s c)) \<notin> V"
    using shape_child(2) [OF assms(1,3)] x(2) by simp
  ultimately have "c \<notin> V \<union> set (x # Q)"
    using assms(2) unfolding front_def by blast
  then show "c \<notin> V" "c \<noteq> x" "c \<notin> set Q"
    by auto
qed

lemma front_expand:
  assumes "tree_shape s" "front s B V (x # Q)"
  shows "front s B (insert x V) (Q @ children_of s x)"
proof -
  have x: "tanc s B x"
    using assms(2) by (auto simp: front_def subtree_def)
  have "c \<in> subtree s B" if "c \<in> set (children_of s x)" for c
    using tanc_trans [OF x tanc_child [OF that]] by (simp add: subtree_def)
  then show ?thesis
    using front_pop [OF assms(2)] front_fresh [OF assms] shape_distinct [OF assms(1), of x] shape_child(2) [OF assms(1), of _ x]
    unfolding front_def by auto
qed

lemma front_less:
  assumes "finite (subtree s B)" "front s B V (x # Q)"
  shows "card (subtree s B - insert x V) < card (subtree s B - V)"
proof (rule psubset_card_mono)
  show "finite (subtree s B - V)"
    using assms(1) by simp
  show "subtree s B - insert x V \<subset> subtree s B - V"
    using assms(2) by (auto simp: front_def)
qed

section \<open>Counting\<close>

abbreviation known :: "subtree_sizes \<Rightarrow> hash64 \<Rightarrow> bool" where
  "known sizes x \<equiv> hm_get sizes x \<noteq> None"

definition sizes_ok :: "reachability_store \<Rightarrow> subtree_sizes \<Rightarrow> bool" where
  "sizes_ok s sizes \<longleftrightarrow> (\<forall>x n. hm_get sizes x = Some n \<longrightarrow>
     x \<in> dom (rs_map s) \<and> n = subtree_size s x \<and> (\<forall>c\<in>set (children_of s x). known sizes c))"

definition reported :: "reachability_store \<Rightarrow> hash64 set \<Rightarrow> subtree_sizes \<Rightarrow> hash64 \<Rightarrow> hash64 set" where
  "reported s V sizes p = {c \<in> set (children_of s p). c \<in> V \<and> known sizes c}"

text \<open>The invariant of the search; the blocks of \<open>X\<close> have a size that their parent does not count yet.\<close>

definition count_inv ::
  "reachability_store \<Rightarrow> hash64 \<Rightarrow> hash64 set \<Rightarrow> hash64 list \<Rightarrow> (hash64, u64) hashmap \<Rightarrow> subtree_sizes \<Rightarrow> hash64 set \<Rightarrow> bool" where
  "count_inv s B V Q counts sizes X \<longleftrightarrow> front s B V Q \<and> sizes_ok s sizes \<and>
     (\<forall>p\<in>subtree s B. (case hm_get counts p of Some n \<Rightarrow> n | None \<Rightarrow> 0) = card (reported s V sizes p - X)) \<and>
     (\<forall>x\<in>V. \<forall>c\<in>set (children_of s x). known sizes x \<longrightarrow> c \<in> V \<union> set Q \<longrightarrow> c \<in> V \<and> known sizes c \<and> c \<notin> X) \<and>
     (\<forall>x\<in>V. \<not> known sizes x \<longrightarrow> set (children_of s x) \<subseteq> V \<union> set Q \<and> \<not> set (children_of s x) \<subseteq> reported s V sizes x - X)"

lemma count_invI:
  assumes "front s B V Q" "sizes_ok s sizes"
    and "\<And>p. p \<in> subtree s B \<Longrightarrow> (case hm_get counts p of Some n \<Rightarrow> n | None \<Rightarrow> 0) = card (reported s V sizes p - X)"
    and "\<And>x c. x \<in> V \<Longrightarrow> c \<in> set (children_of s x) \<Longrightarrow> known sizes x \<Longrightarrow> c \<in> V \<union> set Q \<Longrightarrow> c \<in> V \<and> known sizes c \<and> c \<notin> X"
    and "\<And>x. x \<in> V \<Longrightarrow> \<not> known sizes x \<Longrightarrow>
      set (children_of s x) \<subseteq> V \<union> set Q \<and> \<not> set (children_of s x) \<subseteq> reported s V sizes x - X"
  shows "count_inv s B V Q counts sizes X"
  unfolding count_inv_def using assms by blast

lemma count_inv_front: "count_inv s B V Q counts sizes X \<Longrightarrow> front s B V Q"
  and count_inv_sizes: "count_inv s B V Q counts sizes X \<Longrightarrow> sizes_ok s sizes"
  by (simp_all add: count_inv_def)

lemma count_inv_counts:
  "count_inv s B V Q counts sizes X \<Longrightarrow> p \<in> subtree s B \<Longrightarrow>
    (case hm_get counts p of Some n \<Rightarrow> n | None \<Rightarrow> 0) = card (reported s V sizes p - X)"
  by (simp add: count_inv_def)

lemma count_inv_done:
  "count_inv s B V Q counts sizes X \<Longrightarrow> x \<in> V \<Longrightarrow> known sizes x \<Longrightarrow> c \<in> set (children_of s x) \<Longrightarrow> c \<in> V \<union> set Q \<Longrightarrow>
    c \<in> V \<and> known sizes c \<and> c \<notin> X"
  unfolding count_inv_def by blast

lemma count_inv_open:
  "count_inv s B V Q counts sizes X \<Longrightarrow> x \<in> V \<Longrightarrow> \<not> known sizes x \<Longrightarrow>
    set (children_of s x) \<subseteq> V \<union> set Q \<and> \<not> set (children_of s x) \<subseteq> reported s V sizes x - X"
  unfolding count_inv_def by blast

lemma sizes_okI_insert:
  assumes "sizes_ok s sizes" "y \<in> dom (rs_map s)" "\<And>c. c \<in> set (children_of s y) \<Longrightarrow> known sizes c"
  shows "sizes_ok s (hm_insert y (subtree_size s y) sizes)"
  using assms unfolding sizes_ok_def by (auto split: if_splits)

lemma those_sizes:
  assumes "sizes_ok s sizes" "\<And>c. c \<in> set cs \<Longrightarrow> known sizes c"
  shows "those (map (hm_get sizes) cs) = Some (map (subtree_size s) cs)"
  using assms(2)
proof (induction cs)
  case (Cons c cs)
  then obtain n where "hm_get sizes c = Some n"
    by fastforce
  then have "hm_get sizes c = Some (subtree_size s c)"
    using assms(1) by (simp add: sizes_ok_def)
  then show ?case
    using Cons by simp
qed simp

lemma size_fits:
  "tree_shape s \<Longrightarrow> card (dom (rs_map s)) \<le> u64_max \<Longrightarrow> y \<in> dom (rs_map s) \<Longrightarrow>
    1 + sum_list (map (subtree_size s) (children_of s y)) \<le> u64_max"
  using subtree_size_le [of s y] subtree_size_children [of s y] by simp

lemma reported_insert:
  "reported s V (hm_insert y n sizes) p = reported s V sizes p \<union> (if y \<in> set (children_of s p) \<and> y \<in> V then {y} else {})"
  by (auto simp: reported_def)

text \<open>A child reports to a parent that waits for it.\<close>

lemma report_step:
  assumes shape: "tree_shape s" and inv: "count_inv s B V Q counts sizes {z}"
    and z: "z \<in> set (children_of s y)" "z \<in> V" "known sizes z" and y: "y \<in> subtree s B"
  shows "y \<in> V" "\<not> known sizes y"
    and "(case hm_get counts y of Some n \<Rightarrow> n | None \<Rightarrow> 0) + 1 = card (reported s V sizes y)"
    and "\<not> set (children_of s y) \<subseteq> reported s V sizes y \<Longrightarrow>
      count_inv s B V Q (hm_insert y (card (reported s V sizes y)) counts) sizes {}"
    and "set (children_of s y) \<subseteq> reported s V sizes y \<Longrightarrow>
      count_inv s B V Q (hm_insert y (card (reported s V sizes y)) counts) (hm_insert y (subtree_size s y) sizes) {y}"
proof -
  note front = count_inv_front [OF inv]
  have "z \<noteq> B"
    using shape_child_neq [OF shape z(1)] y by (auto simp: subtree_def)
  then show yV: "y \<in> V"
    using front z(2) shape_child(2) [OF shape z(1)] by (auto simp: front_def)
  show unknown: "\<not> known sizes y"
    using count_inv_done [OF inv yV _ z(1)] z(2) by blast
  have rz: "z \<in> reported s V sizes y"
    using z by (simp add: reported_def)
  have fin: "finite (reported s V sizes y)"
    by (simp add: reported_def)
  have other: "reported s V sizes p - {z} = reported s V sizes p" if "p \<noteq> y" for p
    using that shape_child(2) [OF shape z(1)] shape_child(2) [OF shape, of z p] by (auto simp: reported_def)
  show n: "(case hm_get counts y of Some n \<Rightarrow> n | None \<Rightarrow> 0) + 1 = card (reported s V sizes y)"
    using count_inv_counts [OF inv y] card_Suc_Diff1 [OF fin rz] by linarith
  let ?counts = "hm_insert y (card (reported s V sizes y)) counts"
  have counts: "(case hm_get ?counts p of Some n \<Rightarrow> n | None \<Rightarrow> 0) = card (reported s V sizes p)" if "p \<in> subtree s B" for p
    using count_inv_counts [OF inv that] other [of p] by (cases "p = y") simp_all
  {
    assume open_y: "\<not> set (children_of s y) \<subseteq> reported s V sizes y"
    have open_x: "\<not> set (children_of s x) \<subseteq> reported s V sizes x" if "x \<in> V" "\<not> known sizes x" for x
      using count_inv_open [OF inv that] other [of x] open_y by (cases "x = y") auto
    show "count_inv s B V Q ?counts sizes {}"
    proof (rule count_invI [OF front count_inv_sizes [OF inv]], unfold Diff_empty)
      show "\<And>p. p \<in> subtree s B \<Longrightarrow> (case hm_get ?counts p of Some n \<Rightarrow> n | None \<Rightarrow> 0) = card (reported s V sizes p)"
        by (rule counts)
    qed (use count_inv_done [OF inv] count_inv_open [OF inv] open_x in blast)+
  }
  assume full: "set (children_of s y) \<subseteq> reported s V sizes y"
  let ?sizes = "hm_insert y (subtree_size s y) sizes"
  have ydom: "y \<in> dom (rs_map s)"
    using children_dom [OF z(1)] .
  have ok: "sizes_ok s ?sizes"
    by (rule sizes_okI_insert [OF count_inv_sizes [OF inv] ydom]) (use full in \<open>auto simp: reported_def\<close>)
  have unreported: "y \<notin> reported s V sizes p" for p
    using unknown by (simp add: reported_def)
  have rep: "reported s V ?sizes p - {y} = reported s V sizes p" for p
    using unreported [of p] by (auto simp: reported_insert)
  have self: "y \<notin> set (children_of s y)"
    using shape_child_neq [OF shape] by blast
  have done_x: "c \<in> V \<and> known ?sizes c \<and> c \<notin> {y}"
    if "x \<in> V" "c \<in> set (children_of s x)" "known ?sizes x" "c \<in> V \<union> set Q" for x c
  proof (cases "x = y")
    case True
    then show ?thesis
      using full that(2) self by (auto simp: reported_def)
  next
    case False
    then have "c \<in> V \<and> known sizes c"
      using count_inv_done [OF inv that(1) _ that(2,4)] that(3) by simp
    then show ?thesis
      using unknown by auto
  qed
  have open_x: "set (children_of s x) \<subseteq> V \<union> set Q \<and> \<not> set (children_of s x) \<subseteq> reported s V ?sizes x - {y}"
    if "x \<in> V" "\<not> known ?sizes x" for x
  proof -
    have "x \<noteq> y" "\<not> known sizes x"
      using that(2) by (auto split: if_splits)
    then show ?thesis
      using count_inv_open [OF inv that(1)] other [of x] rep [of x] by simp
  qed
  show "count_inv s B V Q ?counts ?sizes {y}"
  proof (rule count_invI [OF front ok])
    show "\<And>p. p \<in> subtree s B \<Longrightarrow> (case hm_get ?counts p of Some n \<Rightarrow> n | None \<Rightarrow> 0) = card (reported s V ?sizes p - {y})"
      unfolding rep by (rule counts)
  qed (use done_x open_x in blast)+
qed

lemma push_up_total:
  assumes shape: "tree_shape s" and small: "card (dom (rs_map s)) \<le> u64_max"
  shows "tanc s B z \<Longrightarrow> count_inv s B V Q counts sizes {z} \<Longrightarrow> z \<in> V \<Longrightarrow> known sizes z \<Longrightarrow>
    \<exists>counts' sizes'. push_up s B z counts sizes = Some (Inr (counts', sizes')) \<and> count_inv s B V Q counts' sizes' {} \<and>
      (\<forall>x. known sizes x \<longrightarrow> known sizes' x)"
  unfolding tanc_def
proof (induction arbitrary: counts sizes rule: rtrancl_induct)
  case base
  have inV: "p \<in> subtree s B" if "p \<in> V" for p
    using count_inv_front [OF base.prems(1)] that by (auto simp: front_def)
  have "B \<notin> reported s V sizes p" if "p \<in> subtree s B" for p
    using shape_child_neq [OF shape] that by (auto simp: reported_def subtree_def)
  then have no: "reported s V sizes p - {B} = reported s V sizes p - {}" if "p \<in> subtree s B" for p
    using that by auto
  have "count_inv s B V Q counts sizes {}"
  proof (rule count_invI [OF count_inv_front [OF base.prems(1)] count_inv_sizes [OF base.prems(1)]])
    fix p assume "p \<in> subtree s B"
    then show "(case hm_get counts p of Some n \<Rightarrow> n | None \<Rightarrow> 0) = card (reported s V sizes p - {})"
      using count_inv_counts [OF base.prems(1)] no by metis
  next
    fix x assume x: "x \<in> V" "\<not> known sizes x"
    show "set (children_of s x) \<subseteq> V \<union> set Q \<and> \<not> set (children_of s x) \<subseteq> reported s V sizes x - {}"
      using count_inv_open [OF base.prems(1) x] no [OF inV [OF x(1)]] by metis
  qed (use count_inv_done [OF base.prems(1)] in blast)
  then show ?case
    by (subst push_up.simps) (simp add: reach_ok_def)
next
  case (step y z)
  have z: "z \<in> set (children_of s y)" and y: "y \<in> subtree s B"
    using step.hyps by (auto simp: tree_of_iff subtree_def tanc_def)
  note r = report_step [OF shape step.prems(1) z step.prems(2,3) y]
  have dom: "y \<in> dom (rs_map s)" "z \<in> dom (rs_map s)" "rc_parent (the (rs_map s z)) = y"
    using children_dom [OF z] shape_child [OF shape z] by auto
  have "z \<noteq> B"
    using shape_child_neq [OF shape z] y by (auto simp: subtree_def)
  let ?n = "card (reported s V sizes y)"
  have sub: "reported s V sizes y \<subseteq> set (children_of s y)"
    by (auto simp: reported_def)
  have len: "length (children_of s y) = card (set (children_of s y))"
    using distinct_card [OF shape_distinct [OF shape]] by metis
  have "?n \<le> length (children_of s y)"
    unfolding len by (rule card_mono) (use sub in auto)
  moreover have "length (children_of s y) \<le> card (dom (rs_map s))"
    unfolding len by (rule card_mono) (use shape_child(1) [OF shape] shape_finite [OF shape] in auto)
  ultimately have add: "checked_add u64_max (case hm_get counts y of Some n \<Rightarrow> n | None \<Rightarrow> 0) 1 = Some ?n"
    using r(3) small by (simp add: checked_add_def)
  have full: "set (children_of s y) \<subseteq> reported s V sizes y \<longleftrightarrow> \<not> ?n < length (children_of s y)"
    unfolding len using sub by (metis List.finite_set card_mono card_subset_eq finite_subset le_antisym not_less order_refl)
  have run: "push_up s B z counts sizes =
      (if ?n < length (children_of s y) then Some (Inr (hm_insert y ?n counts, sizes))
       else bind_res (lift_abort (Option.bind (those (map (hm_get sizes) (children_of s y))) sum_u64)) (\<lambda>t.
               bind_res (lift_abort (checked_add u64_max t 1)) (\<lambda>t.
                 push_up s B y (hm_insert y ?n counts) (hm_insert y t sizes))))"
    using \<open>z \<noteq> B\<close> dom by (subst push_up.simps) (simp add: add reach_ok_def del: One_nat_def)
  show ?case
  proof (cases "?n < length (children_of s y)")
    case True
    then show ?thesis
      using r(4) full run by auto
  next
    case False
    have ks: "known sizes c" if "c \<in> set (children_of s y)" for c
      using full False that by (auto simp: reported_def)
    have "those (map (hm_get sizes) (children_of s y)) = Some (map (subtree_size s) (children_of s y))"
      by (rule those_sizes [OF count_inv_sizes [OF step.prems(1)] ks])
    then have "push_up s B z counts sizes = push_up s B y (hm_insert y ?n counts) (hm_insert y (subtree_size s y) sizes)"
      using False run size_fits [OF shape small dom(1)] subtree_size_children [OF shape dom(1)]
      by (simp add: sum_u64_def bind_res_def lift_abort_def checked_add_def)
    moreover have "count_inv s B V Q (hm_insert y ?n counts) (hm_insert y (subtree_size s y) sizes) {y}"
      using r(5) full False by simp
    ultimately show ?thesis
      using step.IH [of "hm_insert y ?n counts" "hm_insert y (subtree_size s y) sizes"] r(1) by auto
  qed
qed

lemma count_inv_expand:
  assumes shape: "tree_shape s" and inv: "count_inv s B V (x # Q) counts sizes {}"
    and x: "children_of s x \<noteq> []" "\<not> known sizes x"
  shows "count_inv s B (insert x V) (Q @ children_of s x) counts sizes {}"
proof -
  note front = count_inv_front [OF inv]
  note fresh = front_fresh [OF shape front]
  have rep: "reported s (insert x V) sizes p = reported s V sizes p" for p
    using x(2) by (auto simp: reported_def)
  have done_y: "c \<in> insert x V \<and> known sizes c"
    if "y \<in> insert x V" "c \<in> set (children_of s y)" "known sizes y" "c \<in> insert x V \<union> set (Q @ children_of s x)" for y c
  proof -
    have y: "y \<in> V" "y \<noteq> x"
      using that(1,3) x(2) by auto
    then have "c \<notin> set (children_of s x)"
      using shape_child(2) [OF shape] that(2) by metis
    then show ?thesis
      using count_inv_done [OF inv y(1) that(3,2)] that(4) by auto
  qed
  have open_y: "set (children_of s y) \<subseteq> insert x V \<union> set (Q @ children_of s x) \<and> \<not> set (children_of s y) \<subseteq> reported s V sizes y"
    if "y \<in> insert x V" "\<not> known sizes y" for y
  proof (cases "y = x")
    case True
    have "hd (children_of s x) \<in> set (children_of s x)" "hd (children_of s x) \<notin> reported s V sizes x"
      using x(1) fresh(1) [of "hd (children_of s x)"] by (auto simp: reported_def)
    then show ?thesis
      using True by auto
  next
    case False
    then show ?thesis
      using count_inv_open [OF inv _ that(2)] that(1) by auto
  qed
  show ?thesis
  proof (rule count_invI [OF front_expand [OF shape front] count_inv_sizes [OF inv]], unfold rep)
    show "\<And>p. p \<in> subtree s B \<Longrightarrow> (case hm_get counts p of Some n \<Rightarrow> n | None \<Rightarrow> 0) = card (reported s V sizes p - {})"
      by (rule count_inv_counts [OF inv])
    show "\<And>y c. y \<in> insert x V \<Longrightarrow> c \<in> set (children_of s y) \<Longrightarrow> known sizes y \<Longrightarrow>
      c \<in> insert x V \<union> set (Q @ children_of s x) \<Longrightarrow> c \<in> insert x V \<and> known sizes c \<and> c \<notin> {}"
      using done_y by blast
    show "\<And>y. y \<in> insert x V \<Longrightarrow> \<not> known sizes y \<Longrightarrow> set (children_of s y) \<subseteq> insert x V \<union> set (Q @ children_of s x) \<and>
      \<not> set (children_of s y) \<subseteq> reported s V sizes y - {}"
      using open_y by blast
  qed
qed

lemma count_inv_pop:
  assumes shape: "tree_shape s" and inv: "count_inv s B V (x # Q) counts sizes {}" and xdom: "x \<in> dom (rs_map s)"
    and x: "children_of s x = [] \<or> known sizes x"
  defines "sizes' \<equiv> (if children_of s x = [] then hm_insert x 1 sizes else sizes)"
  shows "count_inv s B (insert x V) Q counts sizes' {x}" "known sizes' x" "\<And>y. known sizes y \<Longrightarrow> known sizes' y"
proof -
  note front = count_inv_front [OF inv]
  note fresh = front_fresh [OF shape front]
  have xV: "x \<notin> V"
    using front by (simp add: front_def)
  show xk: "known sizes' x" and up: "\<And>y. known sizes y \<Longrightarrow> known sizes' y"
    using x by (auto simp: sizes'_def)
  have k: "known sizes' y \<longleftrightarrow> known sizes y" if "y \<noteq> x" for y
    using that by (auto simp: sizes'_def)
  have ok: "sizes_ok s sizes'"
    using sizes_okI_insert [OF count_inv_sizes [OF inv] xdom] count_inv_sizes [OF inv] subtree_size_children [OF shape xdom]
    by (auto simp: sizes'_def)
  have rep: "reported s (insert x V) sizes' p - {x} = reported s V sizes p" for p
  proof (rule set_eqI)
    fix c show "c \<in> reported s (insert x V) sizes' p - {x} \<longleftrightarrow> c \<in> reported s V sizes p"
      using k [of c] xV by (cases "c = x") (simp_all add: reported_def)
  qed
  have done_y: "c \<in> insert x V \<and> known sizes' c \<and> c \<notin> {x}"
    if "y \<in> insert x V" "c \<in> set (children_of s y)" "known sizes' y" "c \<in> insert x V \<union> set Q" for y c
  proof (cases "y = x")
    case True
    then show ?thesis
      using fresh [of c] that by auto
  next
    case False
    then have "y \<in> V" "known sizes y"
      using that k by auto
    then show ?thesis
      using count_inv_done [OF inv _ _ that(2)] that(4) xV up by auto
  qed
  have open_y: "set (children_of s y) \<subseteq> insert x V \<union> set Q \<and> \<not> set (children_of s y) \<subseteq> reported s V sizes y"
    if "y \<in> insert x V" "\<not> known sizes' y" for y
  proof -
    have "y \<noteq> x"
      using that(2) xk by blast
    then have "y \<in> V" "\<not> known sizes y"
      using that k [of y] by auto
    then show ?thesis
      using count_inv_open [OF inv, of y] by auto
  qed
  show "count_inv s B (insert x V) Q counts sizes' {x}"
  proof (rule count_invI [OF front_pop [OF front] ok], unfold rep)
    show "\<And>p. p \<in> subtree s B \<Longrightarrow> (case hm_get counts p of Some n \<Rightarrow> n | None \<Rightarrow> 0) = card (reported s V sizes p)"
      using count_inv_counts [OF inv] by simp
  qed (use done_y open_y in blast)+
qed

lemma count_loop_total:
  assumes shape: "tree_shape s" and small: "card (dom (rs_map s)) \<le> u64_max" and B: "B \<in> dom (rs_map s)"
  shows "count_inv s B V Q counts sizes {} \<Longrightarrow>
    \<exists>sizes'. count_loop s B Q counts sizes = Some (Inr sizes') \<and> sizes_ok s sizes' \<and> (\<forall>x. known sizes x \<longrightarrow> known sizes' x) \<and>
      (known sizes' B \<or> B \<notin> V \<union> set Q)"
proof (induction "card (subtree s B - V)" arbitrary: V Q counts sizes rule: less_induct)
  case less
  note inv = less.prems and front = count_inv_front [OF less.prems]
  show ?case
  proof (cases Q)
    case Nil
    have "b \<in> V \<longrightarrow> known sizes b" if "b \<in> dom (rs_map s)" for b
      using shape that
    proof (induction b rule: shape_induct)
      case (child b)
      show ?case
      proof (rule ccontr)
        assume "\<not> (b \<in> V \<longrightarrow> known sizes b)"
        then have "set (children_of s b) \<subseteq> V" "\<not> set (children_of s b) \<subseteq> reported s V sizes b"
          using count_inv_open [OF inv, of b] Nil by auto
        then show False
          using child by (auto simp: reported_def)
      qed
    qed
    then show ?thesis
      using Nil B count_inv_sizes [OF inv] by (subst count_loop.simps) (auto simp: reach_ok_def)
  next
    case (Cons x Q')
    have x: "tanc s B x" "x \<in> dom (rs_map s)"
      using front Cons subtree_dom [OF shape B] by (auto simp: front_def subtree_def)
    have smaller: "card (subtree s B - insert x V) < card (subtree s B - V)"
      using front_less [OF subtree_finite [OF shape B]] front Cons by simp
    have Bin: "B \<in> V \<union> set Q"
      using front by (simp add: front_def)
    show ?thesis
    proof (cases "children_of s x \<noteq> [] \<and> \<not> known sizes x")
      case True
      have "count_loop s B Q counts sizes = count_loop s B (Q' @ children_of s x) counts sizes"
        using True x Cons by (subst count_loop.simps) (simp add: bind_res_def)
      moreover have "count_inv s B (insert x V) (Q' @ children_of s x) counts sizes {}"
        using count_inv_expand [OF shape] inv Cons True by simp
      ultimately show ?thesis
        using less.hyps [OF smaller] Bin Cons by fastforce
    next
      case False
      define sizes1 where "sizes1 = (if children_of s x = [] then hm_insert x 1 sizes else sizes)"
      have pop: "count_inv s B (insert x V) Q' counts sizes1 {x}" "known sizes1 x" "\<And>y. known sizes y \<Longrightarrow> known sizes1 y"
        using count_inv_pop [OF shape _ x(2), of B V Q' counts sizes] inv Cons False by (auto simp: sizes1_def)
      obtain counts' sizes' where up: "push_up s B x counts sizes1 = Some (Inr (counts', sizes'))"
          "count_inv s B (insert x V) Q' counts' sizes' {}" "\<forall>y. known sizes1 y \<longrightarrow> known sizes' y"
        using push_up_total [OF shape small x(1) pop(1) _ pop(2)] by blast
      have "count_loop s B Q counts sizes = count_loop s B Q' counts' sizes'"
        using False x Cons up(1) by (subst count_loop.simps) (auto simp: bind_res_def sizes1_def)
      then show ?thesis
        using less.hyps [OF smaller up(2)] up(3) pop(3) Bin Cons by fastforce
    qed
  qed
qed

lemma count_subtrees_total:
  assumes "tree_shape s" "card (dom (rs_map s)) \<le> u64_max" "B \<in> dom (rs_map s)" "sizes_ok s sizes"
  shows "\<exists>sizes'. count_subtrees s B sizes = Some (Inr sizes') \<and> sizes_ok s sizes' \<and>
    hm_get sizes' B = Some (subtree_size s B)"
proof -
  have "\<exists>sizes'. count_subtrees s B sizes = Some (Inr sizes') \<and> sizes_ok s sizes' \<and> known sizes' B"
  proof (cases "known sizes B")
    case False
    then have "count_inv s B {} [B] [] sizes {}"
      using assms(4) front_start by (simp add: count_inv_def reported_def)
    then show ?thesis
      using count_loop_total [OF assms(1,2,3)] False by (fastforce simp: count_subtrees_def hm_contains_def)
  qed (use assms(4) in \<open>simp add: count_subtrees_def hm_contains_def reach_ok_def\<close>)
  then show ?thesis
    by (fastforce simp: sizes_ok_def)
qed

end
