(* ===== verification/Reach_Layout.thy ===== *)
theory Reach_Layout
  imports Reach_Count
begin

text \<open>
  Laying out a subtree. Splitting an interval gives every child at least the size asked for, in order and inside the
  interval, whatever the rounding of the exponential bias; \<open>propagate_interval\<close> then lays out the whole subtree below a
  block that has room for it, and changes no other interval. A reindexing that finds room at or below the reindex root
  therefore leaves a well-formed interval tree.
\<close>

section \<open>Splitting intervals\<close>

definition parts_of :: "u64 \<Rightarrow> u64 \<Rightarrow> u64 list \<Rightarrow> interval list \<Rightarrow> bool" where
  "parts_of lo hi ns ivs \<longleftrightarrow> sorted_wrt (\<lambda>i j. iv_end i < iv_start j) ivs \<and>
     list_all2 (\<lambda>n i. iv_start i + n \<le> iv_end i + 1 \<and> lo \<le> iv_start i \<and> iv_end i < hi) ns ivs"

lemma split_parts_spec:
  assumes "\<forall>n\<in>set ns. 0 < n" "start + sum_list ns \<le> u64_max"
  shows "\<exists>ivs. split_parts start ns = Some ivs \<and> parts_of start (start + sum_list ns) ns ivs"
  using assms
proof (induction ns arbitrary: start)
  case (Cons n ns)
  then obtain ivs where ivs: "split_parts (start + n) ns = Some ivs" "parts_of (start + n) (start + n + sum_list ns) ns ivs"
    using Cons.IH [of "start + n"] by (auto simp: add.assoc)
  have first: "start + n - 1 < iv_start i" if "i \<in> set ivs" for i
    using ivs(2) that Cons.prems(1) unfolding parts_of_def list_all2_conv_all_nth in_set_conv_nth by force
  have n: "0 < n" "checked_add u64_max start n = Some (start + n)" "checked_sub (start + n) 1 = Some (start + n - 1)"
    using Cons.prems by (auto simp: checked_add_def checked_sub_def)
  let ?iv = "interval_new start (start + n - 1)"
  have "split_parts start (n # ns) = Some (?iv # ivs)"
    by (simp add: n(2,3) ivs(1) del: One_nat_def)
  moreover have "parts_of start (start + sum_list (n # ns)) (n # ns) (?iv # ivs)"
    using ivs(2) n(1) first unfolding parts_of_def by (auto elim!: list_all2_mono simp: interval_new_def)
  ultimately show ?case
    by blast
qed (simp add: parts_of_def)

lemma biased_sizes_spec:
  assumes "sum_list ns + r \<le> u64_max"
  shows "\<exists>ms. biased_sizes f i ns r = Some ms \<and> list_all2 (\<le>) ns ms \<and> (ns \<noteq> [] \<longrightarrow> sum_list ms = sum_list ns + r)"
  using assms
proof (induction f i ns r rule: biased_sizes.induct)
  case (2 f i n ns r)
  define b where "b = (if ns = [] then r else min r (f i))"
  have b: "b \<le> r"
    by (simp add: b_def)
  have "\<exists>ms. biased_sizes f (i + 1) ns (r - b) = Some ms \<and> list_all2 (\<le>) ns ms \<and> (ns \<noteq> [] \<longrightarrow> sum_list ms = sum_list ns + (r - b))"
    by (rule "2.IH" [OF b_def]) (use "2.prems" b in \<open>simp_all add: checked_add_def\<close>)
  then obtain ms where ms: "biased_sizes f (i + 1) ns (r - b) = Some ms" "list_all2 (\<le>) ns ms"
      "ns \<noteq> [] \<longrightarrow> sum_list ms = sum_list ns + (r - b)"
    by blast
  have add: "checked_add u64_max n b = Some (n + b)"
    using "2.prems" b by (simp add: checked_add_def)
  have "biased_sizes f i (n # ns) r = Some ((n + b) # ms)"
    by (simp add: add ms(1) Let_def b_def [symmetric] del: One_nat_def)
  moreover have "sum_list ((n + b) # ms) = sum_list (n # ns) + r"
    using ms(2,3) b by (cases "ns = []") (simp_all add: b_def)
  ultimately show ?case
    using ms(2) by simp
qed simp

lemma parts_of_mono:
  assumes "parts_of lo hi ms ivs" "list_all2 (\<le>) ns ms"
  shows "parts_of lo hi ns ivs"
  using assms unfolding parts_of_def list_all2_conv_all_nth by force

lemma split_exact_spec:
  assumes "\<forall>n\<in>set ns. 0 < n" "iv_start i + sum_list ns = iv_end i + 1" "iv_end i < u64_max"
  shows "\<exists>ivs. split_exact i ns = Some ivs \<and> parts_of (iv_start i) (iv_end i + 1) ns ivs"
proof -
  have "sum_u64 ns = Some (sum_list ns)" "interval_size i = Some (sum_list ns)"
    using assms(2,3) by (simp_all add: sum_u64_def interval_size_def checked_add_def checked_sub_def)
  then show ?thesis
    using split_parts_spec [OF assms(1), of "iv_start i"] assms(2,3) by (simp add: split_exact_def)
qed

lemma split_exponential_spec:
  assumes "ns \<noteq> []" "\<forall>n\<in>set ns. 0 < n" "iv_start i + sum_list ns \<le> iv_end i + 1" "iv_end i < u64_max"
  shows "\<exists>ivs. split_exponential bias i ns = Some ivs \<and> parts_of (iv_start i) (iv_end i + 1) ns ivs"
proof -
  let ?n = "iv_end i + 1 - iv_start i" and ?t = "sum_list ns"
  have t: "sum_u64 ns = Some ?t" "interval_size i = Some ?n" "?t \<le> ?n"
    using assms(3,4) by (auto simp: sum_u64_def interval_size_def checked_add_def checked_sub_def)
  have pos: "0 < ?t"
    using assms(1,2) by (cases ns) auto
  show ?thesis
  proof (cases "?n = ?t")
    case True
    then have "iv_start i + ?t = iv_end i + 1"
      using assms(3) by simp
    then show ?thesis
      using split_exact_spec [OF assms(2) _ assms(4)] t pos True by (simp add: split_exponential_def del: sum_list_eq_0_iff)
  next
    case False
    have "?t + (?n - ?t) \<le> u64_max"
      using t(3) assms(4) by linarith
    then obtain ms where ms: "biased_sizes (bias ns (?n - ?t)) 0 ns (?n - ?t) = Some ms" "list_all2 (\<le>) ns ms"
        "sum_list ms = ?t + (?n - ?t)"
      using biased_sizes_spec [of ns "?n - ?t" "bias ns (?n - ?t)" 0] assms(1) by blast
    have "\<forall>m\<in>set ms. 0 < m"
      using ms(2) assms(2) by (metis in_set_conv_nth list_all2_conv_all_nth order.strict_trans2)
    then obtain ivs where ivs: "split_exact i ms = Some ivs" "parts_of (iv_start i) (iv_end i + 1) ms ivs"
      using split_exact_spec [of ms i] ms(3) t(3) assms(3,4) by auto
    have "split_exponential bias i ns = Some ivs"
      using t pos False ms(1) ivs(1) by (simp add: split_exponential_def del: sum_list_eq_0_iff)
    then show ?thesis
      using parts_of_mono [OF ivs(2) ms(2)] by blast
  qed
qed

section \<open>Propagation\<close>

lemma set_intervals_spec:
  assumes "distinct cs" "set cs \<subseteq> dom (rs_map s)" "length ivs = length cs"
  shows "\<exists>g. set_intervals (with_intervals s f) (zip cs ivs) = Some (Inr (with_intervals s g)) \<and>
    map g cs = ivs \<and> (\<forall>x. x \<notin> set cs \<longrightarrow> g x = f x)"
  using assms
proof (induction cs arbitrary: f ivs)
  case (Cons c cs)
  then obtain iv ivs' where ivs: "ivs = iv # ivs'" "length ivs' = length cs"
    by (cases ivs) auto
  obtain g where g: "set_intervals (with_intervals s (f(c := iv))) (zip cs ivs') = Some (Inr (with_intervals s g))"
      "map g cs = ivs'" "\<forall>x. x \<notin> set cs \<longrightarrow> g x = (f(c := iv)) x"
    using Cons.IH [of ivs' "f(c := iv)"] Cons.prems(1,2) ivs(2) by (metis distinct.simps(2) set_subset_Cons subset_trans)
  have "set_intervals (with_intervals s f) (zip (c # cs) ivs) = Some (Inr (with_intervals s g))"
    using g(1) Cons.prems(2) by (simp add: ivs(1))
  then show ?case
    using g Cons.prems(1) by (intro exI [of _ g]) (auto simp: ivs(1))
qed (auto simp: reach_ok_def)

text \<open>A block has room for its subtree.\<close>

definition roomy :: "reachability_store \<Rightarrow> (hash64 \<Rightarrow> interval) \<Rightarrow> hash64 \<Rightarrow> bool" where
  "roomy s f x \<longleftrightarrow> 0 < iv_start (f x) \<and> iv_end (f x) < u64_max \<and> iv_start (f x) + subtree_size s x \<le> iv_end (f x) + 1"

lemma interval_children_capacity_with:
  "x \<in> dom (rs_map s) \<Longrightarrow> 0 < iv_end (f x) \<Longrightarrow>
    interval_children_capacity (with_intervals s f) x = Some (Inr (interval_new (iv_start (f x)) (iv_end (f x) - 1)))"
  by (simp add: interval_children_capacity_def decrease_end_def checked_sub_def)

text \<open>The children of a roomy block get parts of its interval that are roomy again.\<close>

lemma split_children_fits:
  assumes shape: "tree_shape s" and x: "x \<in> dom (rs_map s)" "roomy s f x" "children_of s x \<noteq> []"
  shows "\<exists>ivs. split_exponential bias (interval_new (iv_start (f x)) (iv_end (f x) - 1)) (map (subtree_size s) (children_of s x)) = Some ivs \<and>
    length ivs = length (children_of s x) \<and>
    (\<forall>g. map g (children_of s x) = ivs \<longrightarrow> g x = f x \<longrightarrow>
      fits g x (children_of s x) \<and> (\<forall>c\<in>set (children_of s x). roomy s g c))"
proof -
  let ?cs = "children_of s x" and ?i = "interval_new (iv_start (f x)) (iv_end (f x) - 1)"
  have room: "0 < iv_start (f x)" "iv_end (f x) < u64_max" "iv_start (f x) + sum_list (map (subtree_size s) ?cs) \<le> iv_end (f x)"
    using x(2) subtree_size_children [OF shape x(1)] by (simp_all add: roomy_def)
  have pos: "0 < subtree_size s c" if "c \<in> set ?cs" for c
    using subtree_size_pos [OF shape shape_child(1) [OF shape that]] .
  have last_end: "iv_end ?i + 1 = iv_end (f x)" "iv_start ?i = iv_start (f x)" "iv_end ?i < u64_max"
    using room by (auto simp: interval_new_def)
  obtain ivs where ivs: "split_exponential bias ?i (map (subtree_size s) ?cs) = Some ivs"
      "parts_of (iv_start (f x)) (iv_end (f x)) (map (subtree_size s) ?cs) ivs"
    using split_exponential_spec [of "map (subtree_size s) ?cs" ?i bias] x(3) pos room last_end
    unfolding last_end(1,2) by auto
  have len: "length ivs = length ?cs"
    using ivs(2) by (auto simp: parts_of_def dest: list_all2_lengthD)
  have "fits g x ?cs \<and> (\<forall>c\<in>set ?cs. roomy s g c)" if g: "map g ?cs = ivs" "g x = f x" for g
  proof -
    have each: "iv_start (g c) + subtree_size s c \<le> iv_end (g c) + 1 \<and> iv_start (f x) \<le> iv_start (g c) \<and> iv_end (g c) < iv_end (f x)"
      if "c \<in> set ?cs" for c
      using ivs(2) that unfolding g(1) [symmetric] parts_of_def list_all2_conv_all_nth in_set_conv_nth by auto
    have "sorted_wrt (\<lambda>x y. iv_end (g x) < iv_start (g y)) ?cs"
      using ivs(2) unfolding g(1) [symmetric] parts_of_def by (simp add: sorted_wrt_map)
    moreover have "iv_start (g c) \<le> iv_end (g c)" if "c \<in> set ?cs" for c
      using each [OF that] pos [OF that] by linarith
    ultimately show ?thesis
      using each room(1,2) g(2) unfolding fits_def roomy_def by fastforce
  qed
  then show ?thesis
    using ivs(1) len by blast
qed

definition propagate_inv :: "reachability_store \<Rightarrow> hash64 \<Rightarrow> (hash64 \<Rightarrow> interval) \<Rightarrow> hash64 set \<Rightarrow> hash64 list \<Rightarrow> (hash64 \<Rightarrow> interval) \<Rightarrow> bool" where
  "propagate_inv s B f0 V Q f \<longleftrightarrow> front s B V Q \<and>
     (\<forall>x\<in>V. set (children_of s x) \<subseteq> V \<union> set Q \<and> fits f x (children_of s x)) \<and>
     (\<forall>x\<in>set Q. roomy s f x) \<and> (\<forall>x. x \<notin> subtree s B \<or> x = B \<longrightarrow> f x = f0 x)"

lemma fits_cong: "fits f x cs \<Longrightarrow> (\<And>y. y \<in> insert x (set cs) \<Longrightarrow> f y = g y) \<Longrightarrow> fits g x cs"
  unfolding fits_def by (auto elim!: sorted_wrt_mono_rel [rotated])

lemma propagate_step:
  assumes shape: "tree_shape s" and inv: "propagate_inv s B f0 V (x # Q) f"
    and g: "\<And>y. y \<notin> set (children_of s x) \<Longrightarrow> g y = f y" "fits g x (children_of s x)" "\<forall>c\<in>set (children_of s x). roomy s g c"
  shows "propagate_inv s B f0 (insert x V) (Q @ children_of s x) g"
proof -
  have front: "front s B V (x # Q)"
    using inv by (simp add: propagate_inv_def)
  note fresh = front_fresh [OF shape front]
  have same: "g y = f y" if "y \<in> V \<union> set (x # Q)" for y
    using g(1) [of y] fresh [of y] that by auto
  have old: "set (children_of s y) \<subseteq> V \<union> set (x # Q)" "fits f y (children_of s y)" if "y \<in> V" for y
    using inv that unfolding propagate_inv_def by blast+
  have "fits g y (children_of s y)" if "y \<in> V" for y
    by (rule fits_cong [OF old(2) [OF that]]) (use same old(1) [OF that] that in auto)
  moreover have "roomy s g y" if "y \<in> set Q" for y
    using inv same [of y] that by (auto simp: propagate_inv_def roomy_def)
  moreover have "g y = f0 y" if "y \<notin> subtree s B \<or> y = B" for y
  proof -
    have x: "tanc s B x"
      using front by (auto simp: front_def subtree_def)
    have "y \<notin> set (children_of s x)"
    proof
      assume c: "y \<in> set (children_of s x)"
      then have "y \<in> subtree s B"
        using tanc_trans [OF x tanc_child [OF c]] by (simp add: subtree_def)
      then show False
        using that x shape_child_neq [OF shape c] by blast
    qed
    then show ?thesis
      using g(1) [of y] inv that unfolding propagate_inv_def by auto
  qed
  moreover have "set (children_of s y) \<subseteq> insert x V \<union> set (Q @ children_of s x)" if "y \<in> insert x V" for y
    using old(1) [of y] that by (cases "y = x") auto
  ultimately show ?thesis
    using front_expand [OF shape front] g(2,3) unfolding propagate_inv_def by auto
qed

lemma propagate_done:
  assumes shape: "tree_shape s" and inv: "propagate_inv s B f0 V [] f"
  shows "laid_out s f B"
proof -
  have V: "B \<in> V" "set (children_of s x) \<subseteq> V" "fits f x (children_of s x)" if "x \<in> V" for x
    using inv that unfolding propagate_inv_def front_def by auto
  have BV: "B \<in> V"
    using inv by (simp add: propagate_inv_def front_def)
  have "x \<in> V" if "tanc s B x" for x
    using that unfolding tanc_def
  proof (induction rule: rtrancl_induct)
    case (step y z)
    then show ?case
      using V(2) tree_of_iff by blast
  qed (rule BV)
  then show ?thesis
    using V(3) by (simp add: laid_out_def)
qed

lemma propagate_loop_total:
  assumes shape: "tree_shape s" and B: "B \<in> dom (rs_map s)" and ok: "sizes_ok s sizes" "\<And>x. tanc s B x \<Longrightarrow> known sizes x"
  shows "propagate_inv s B f0 V Q f \<Longrightarrow>
    \<exists>g. propagate_loop bias sizes Q (with_intervals s f) = Some (Inr (with_intervals s g)) \<and> laid_out s g B \<and>
      (\<forall>x. x \<notin> subtree s B \<or> x = B \<longrightarrow> g x = f0 x)"
proof (induction "card (subtree s B - V)" arbitrary: V Q f rule: less_induct)
  case less
  have front: "front s B V Q"
    using less.prems by (simp add: propagate_inv_def)
  show ?case
  proof (cases Q)
    case Nil
    then have "\<forall>x. x \<notin> subtree s B \<or> x = B \<longrightarrow> f x = f0 x"
      using less.prems by (simp add: propagate_inv_def)
    then show ?thesis
      using propagate_done [OF shape] less.prems Nil by (subst propagate_loop.simps) (auto simp: reach_ok_def)
  next
    case (Cons x Q')
    let ?cs = "children_of s x"
    note inv = less.prems [unfolded Cons]
    have x: "tanc s B x" "x \<in> dom (rs_map s)" "roomy s f x"
      using front less.prems Cons subtree_dom [OF shape B] by (auto simp: front_def subtree_def propagate_inv_def)
    have smaller: "card (subtree s B - insert x V) < card (subtree s B - V)"
      using front_less [OF subtree_finite [OF shape B]] front Cons by simp
    show ?thesis
    proof (cases "?cs = []")
      case True
      have "propagate_inv s B f0 (insert x V) (Q' @ ?cs) f"
        by (rule propagate_step [OF shape inv]) (simp_all add: True fits_def)
      moreover have "propagate_loop bias sizes Q (with_intervals s f) = propagate_loop bias sizes Q' (with_intervals s f)"
        using Cons True x(2) by (subst propagate_loop.simps) simp
      ultimately show ?thesis
        using less.hyps [OF smaller] True by simp
    next
      case False
      obtain ivs where ivs: "split_exponential bias (interval_new (iv_start (f x)) (iv_end (f x) - 1)) (map (subtree_size s) ?cs) = Some ivs"
          "length ivs = length ?cs" "\<And>g. map g ?cs = ivs \<Longrightarrow> g x = f x \<Longrightarrow> fits g x ?cs \<and> (\<forall>c\<in>set ?cs. roomy s g c)"
        using split_children_fits [OF shape x(2,3) False] by blast
      have dom: "set ?cs \<subseteq> dom (rs_map s)"
        using shape_child(1) [OF shape] by blast
      obtain g where g: "set_intervals (with_intervals s f) (zip ?cs ivs) = Some (Inr (with_intervals s g))"
          "map g ?cs = ivs" "\<forall>y. y \<notin> set ?cs \<longrightarrow> g y = f y"
        using set_intervals_spec [OF shape_distinct [OF shape] dom ivs(2)] by blast
      have "x \<notin> set ?cs"
        using shape_child_neq [OF shape] by blast
      then have gx: "g x = f x"
        using g(3) by blast
      have "propagate_inv s B f0 (insert x V) (Q' @ ?cs) g"
        by (rule propagate_step [OF shape inv]) (use g(3) ivs(3) [OF g(2) gx] in auto)
      moreover have "those (map (hm_get sizes) ?cs) = Some (map (subtree_size s) ?cs)"
        by (rule those_sizes [OF ok(1)]) (use ok(2) x(1) tanc_child tanc_trans in blast)
      moreover have "0 < iv_end (f x)"
        using x(3) subtree_size_pos [OF shape x(2)] by (auto simp: roomy_def)
      ultimately have "propagate_loop bias sizes Q (with_intervals s f) = propagate_loop bias sizes (Q' @ ?cs) (with_intervals s g)"
        using Cons False x(2) ivs(1) g(1) by (subst propagate_loop.simps) (simp add: interval_children_capacity_with)
      then show ?thesis
        using less.hyps [OF smaller \<open>propagate_inv s B f0 (insert x V) (Q' @ ?cs) g\<close>] by simp
    qed
  qed
qed

lemma sizes_ok_with [simp]: "sizes_ok (with_intervals s f) sizes = sizes_ok s sizes"
  by (simp add: sizes_ok_def subtree_size_def subtree_def)

lemma known_below:
  assumes "sizes_ok s sizes" "known sizes b" "tanc s b x"
  shows "known sizes x"
  using assms(3) unfolding tanc_def
proof (induction rule: rtrancl_induct)
  case (step y z)
  then show ?case
    using assms(1) tree_of_iff unfolding sizes_ok_def by blast
qed (rule assms(2))

text \<open>Propagating below a roomy block lays out its subtree and changes nothing else.\<close>

lemma propagate_interval_total:
  assumes shape: "tree_shape s" and small: "card (dom (rs_map s)) \<le> u64_max" and B: "B \<in> dom (rs_map s)" "roomy s f B"
    and ok: "sizes_ok s sizes"
  shows "\<exists>g sizes'. propagate_interval bias B (with_intervals s f, sizes) = Some (Inr (with_intervals s g, sizes')) \<and>
    sizes_ok s sizes' \<and> laid_out s g B \<and> (\<forall>x. x \<notin> subtree s B \<or> x = B \<longrightarrow> g x = f x) \<and>
    (\<forall>x\<in>subtree s B. hm_get sizes' x = Some (subtree_size s x))"
proof -
  have "subtree_size (with_intervals s f) = subtree_size s"
    by (simp add: fun_eq_iff subtree_size_def subtree_def)
  then obtain sizes' where sizes: "count_subtrees (with_intervals s f) B sizes = Some (Inr sizes')" "sizes_ok s sizes'"
      "hm_get sizes' B = Some (subtree_size s B)"
    using count_subtrees_total [of "with_intervals s f" B sizes] assms by auto
  have k: "known sizes' x" if "tanc s B x" for x
    using known_below [OF sizes(2) _ that] sizes(3) by simp
  have "propagate_inv s B f {} [B] f"
    using B(2) front_start by (simp add: propagate_inv_def)
  then obtain g where g: "propagate_loop bias sizes' [B] (with_intervals s f) = Some (Inr (with_intervals s g))" "laid_out s g B"
      "\<forall>x. x \<notin> subtree s B \<or> x = B \<longrightarrow> g x = f x"
    using propagate_loop_total [OF shape B(1) sizes(2) k, of f "{}" "[B]" f bias] by blast
  have "propagate_interval bias B (with_intervals s f, sizes) = Some (Inr (with_intervals s g, sizes'))"
    using g(1) sizes(1) by (simp add: propagate_interval_def reach_ok_def)
  moreover have "hm_get sizes' x = Some (subtree_size s x)" if "x \<in> subtree s B" for x
    using k [of x] sizes(2) that by (auto simp: subtree_def sizes_ok_def)
  ultimately show ?thesis
    using g(2,3) sizes(2) by blast
qed

end
