(* ===== verification/Reach_Insert.thy ===== *)
theory Reach_Insert
  imports Reach_Layout
begin

text \<open>
  Adding a block to the reachability index keeps the invariant: the new leaf gets half of the space its parent has left,
  or the subtree of an ancestor with room is laid out again; the order of the intervals follows the shape of the tree, so
  the future covering sets stay ordered; and the new block enters the future covering sets of its mergeset.
\<close>

section \<open>A new leaf\<close>

definition add_leaf :: "reachability_store \<Rightarrow> hash64 \<Rightarrow> hash64 \<Rightarrow> interval \<Rightarrow> u64 \<Rightarrow> reachability_store" where
  "add_leaf s p h iv n = s\<lparr>rs_map := (rs_map s)(p \<mapsto> rc_children_update (\<lambda>cs. cs @ [h]) (the (rs_map s p)),
     h \<mapsto> \<lparr>rc_children = [], rc_parent = p, rc_interval = iv, rc_height = n, rc_future_covering_set = []\<rparr>)\<rparr>"

lemma leaf_dom [simp]: "p \<in> dom (rs_map s) \<Longrightarrow> dom (rs_map (add_leaf s p h iv n)) = insert h (dom (rs_map s))"
  by (auto simp: add_leaf_def)

lemma leaf_root [simp]: "rs_reindex_root (add_leaf s p h iv n) = rs_reindex_root s"
  by (simp add: add_leaf_def)

lemma leaf_children:
  assumes "p \<in> dom (rs_map s)" "h \<notin> dom (rs_map s)"
  shows "children_of (add_leaf s p h iv n) x = (if x = p then children_of s p @ [h] else children_of s x)"
  using assms by (auto simp: add_leaf_def children_of_def)

lemma leaf_tree:
  assumes "p \<in> dom (rs_map s)" "h \<notin> dom (rs_map s)"
  shows "tree_of (add_leaf s p h iv n) = insert (p, h) (tree_of s)"
  using leaf_children [OF assms] by (auto simp: tree_of_iff set_eq_iff split: if_splits)

lemma leaf_ivl:
  assumes "p \<in> dom (rs_map s)" "h \<notin> dom (rs_map s)" "x \<in> insert h (dom (rs_map s))"
  shows "ivl (add_leaf s p h iv n) x = (if x = h then iv else ivl s x)"
  using assms by (auto simp: add_leaf_def ivl_def)

lemma leaf_tanc:
  assumes shape: "tree_shape s" and p: "p \<in> dom (rs_map s)" and h: "h \<notin> dom (rs_map s)"
  shows "tanc (add_leaf s p h iv n) a b \<longleftrightarrow> (if b = h then a = h \<or> tanc s a p else tanc s a b)"
proof -
  have none: "children_of s h = []" "h \<notin> set (children_of s x)" for x
    using h shape_child(1) [OF shape, of h x] by (auto simp: children_of_def split: option.splits)
  have up: "tanc (add_leaf s p h iv n) a b" if "tanc s a b" for a b
    using that rtrancl_mono [OF subset_insertI] unfolding tanc_def leaf_tree [OF p h] by blast
  have down: "if b = h then a = h \<or> tanc s a p else tanc s a b" if "tanc (add_leaf s p h iv n) a b"
    using that [unfolded tanc_def]
  proof (induction rule: rtrancl_induct)
    case (step y z)
    have e: "(y, z) = (p, h) \<or> z \<in> set (children_of s y)"
      using step.hyps(2) by (auto simp: leaf_tree [OF p h] tree_of_iff)
    have "y \<noteq> h"
      using e p h none(1) by auto
    then show ?case
      using step.IH e none(2) tanc_trans [OF _ tanc_child] by auto
  qed auto
  have "tanc (add_leaf s p h iv n) p h"
    unfolding tanc_def leaf_tree [OF p h] by blast
  then show ?thesis
    using up [of a b] up [of a p] down tanc_trans [of "add_leaf s p h iv n" a p h] by (cases "b = h") auto
qed

lemma leaf_shape:
  assumes shape: "tree_shape s" and p: "p \<in> dom (rs_map s)" and h: "h \<notin> dom (rs_map s)" "h \<noteq> NONE"
    and n: "n \<le> card (dom (rs_map s))"
  shows "tree_shape (add_leaf s p h iv n)"
proof -
  let ?t = "add_leaf s p h iv n"
  have heights: "rc_height d < card (dom (rs_map ?t))" if "rs_map ?t b = Some d" for b d
  proof -
    have "rc_height d \<le> card (dom (rs_map s))"
      using that shape p n unfolding tree_shape_def add_leaf_def by (auto split: if_splits intro: less_imp_le)
    then show ?thesis
      using p h(1) shape_finite [OF shape] by simp
  qed
  have par: "rc_parent (the (rs_map ?t c)) = x" if "c \<in> set (children_of ?t x)" for c x
  proof (cases "c = h")
    case True
    have "h \<notin> set (children_of s x)"
      using shape_child(1) [OF shape, of h] h(1) by blast
    then have "x = p"
      using that True leaf_children [OF p h(1)] by (simp split: if_splits)
    then show ?thesis
      using True by (simp add: add_leaf_def)
  next
    case False
    then have "c \<in> set (children_of s x)"
      using that leaf_children [OF p h(1)] by (auto split: if_splits)
    then show ?thesis
      using shape_child [OF shape] p False by (force simp: add_leaf_def)
  qed
  have "acyclic (insert (p, h) (tree_of s))"
  proof -
    have "(h, p) \<notin> (tree_of s)\<^sup>*"
      using tanc_last [of s h p] tanc_first [of s h p] p h(1) by (auto simp: tanc_def [symmetric] children_of_def split: option.splits)
    then show ?thesis
      using shape by (simp add: tree_shape_def)
  qed
  moreover have "distinct (children_of ?t x)" "set (children_of ?t x) \<subseteq> insert h (dom (rs_map s))" for x
  proof -
    have "set (children_of s x) \<subseteq> dom (rs_map s)" "distinct (children_of s x)"
      using shape by (simp_all add: tree_shape_def)
    then show "distinct (children_of ?t x)" "set (children_of ?t x) \<subseteq> insert h (dom (rs_map s))"
      using h(1) by (auto simp: leaf_children [OF p h(1)])
  qed
  moreover have "tanc ?t ORIGIN b" if "b \<in> insert h (dom (rs_map s))" for b
    using leaf_tanc [OF shape p h(1)] shape p that by (auto simp: tree_shape_def)
  ultimately show ?thesis
    using shape p h(2) heights par unfolding tree_shape_def leaf_tree [OF p h(1)] leaf_dom [OF p] by auto
qed

lemma leaf_subtree:
  assumes "tree_shape s" "p \<in> dom (rs_map s)" "h \<notin> dom (rs_map s)"
  shows "subtree (add_leaf s p h iv n) x = (if x = h then {h} else if tanc s x p then insert h (subtree s x) else subtree s x)"
proof -
  have "tanc s h b \<longleftrightarrow> b = h" for b
    using tanc_first [of s h b] assms(3) by (auto simp: children_of_def split: option.splits)
  moreover have "\<not> tanc s x h" if "x \<noteq> h" for x
    using tanc_last [of s x h] that shape_child(1) [OF assms(1)] assms(3) by blast
  ultimately show ?thesis
    using assms by (auto simp: subtree_def leaf_tanc)
qed

lemma leaf_subtree_size:
  assumes "tree_shape s" "p \<in> dom (rs_map s)" "h \<notin> dom (rs_map s)" "x \<in> dom (rs_map s)"
  shows "subtree_size (add_leaf s p h iv n) x = subtree_size s x + (if tanc s x p then 1 else 0)"
proof -
  have "x \<noteq> h" "h \<notin> subtree s x" "finite (subtree s x)"
    using subtree_dom [OF assms(1,4)] subtree_finite [OF assms(1,4)] assms(3,4) by blast+
  then show ?thesis
    by (simp add: subtree_size_def leaf_subtree [OF assms(1-3)])
qed

section \<open>Laying out the new leaf\<close>

lemma roomy_size: "roomy s f x \<Longrightarrow> tree_shape s \<Longrightarrow> x \<in> dom (rs_map s) \<Longrightarrow> iv_start (f x) \<le> iv_end (f x)"
  using subtree_size_pos [of s x] by (auto simp: roomy_def)

text \<open>A labelling that fits everywhere outside a subtree, and lays out the subtree, lays out the tree.\<close>

lemma laid_out_join:
  assumes shape: "tree_shape s" and c: "laid_out s g c" and same: "\<forall>x. x \<notin> subtree s c \<or> x = c \<longrightarrow> g x = f x"
    and out: "\<And>x. x \<in> dom (rs_map s) \<Longrightarrow> \<not> tanc s c x \<Longrightarrow> fits f x (children_of s x)"
  shows "laid_out s g ORIGIN"
  unfolding laid_out_def
proof (intro allI impI)
  fix x assume "tanc s ORIGIN x"
  then have x: "x \<in> dom (rs_map s)"
    using shape_dom [OF shape] shape by (simp add: tree_shape_def)
  show "fits g x (children_of s x)"
  proof (cases "tanc s c x")
    case False
    have "g y = f y" if "y \<in> insert x (set (children_of s x))" for y
    proof (cases "tanc s c y")
      case True
      then have "y \<in> set (children_of s x)"
        using that False by blast
      then have "y = c"
        using True False shape_child(2) [OF shape] tanc_last [of s c y] by metis
      then show ?thesis
        using same by blast
    qed (use same in \<open>auto simp: subtree_def\<close>)
    then show ?thesis
      by (intro fits_cong [OF out [OF x False]]) simp
  qed (use c in \<open>simp add: laid_out_def\<close>)
qed

lemma get_height_dom [simp]: "rs_map s b = Some d \<Longrightarrow> get_height s b = Some (Inr (rc_height d))"
  by (simp add: get_height_def get_data_def reach_ok_def)

lemma append_insert_leaf:
  assumes "rs_map s p = Some d" "h \<notin> dom (rs_map s)"
  shows "append_child s p h = Some (Inr (s\<lparr>rs_map := (rs_map s)(p \<mapsto> rc_children_update (\<lambda>cs. cs @ [h]) d)\<rparr>))"
    and "store_insert (s\<lparr>rs_map := (rs_map s)(p \<mapsto> rc_children_update (\<lambda>cs. cs @ [h]) d)\<rparr>) h p iv n =
      Some (Inr (add_leaf s p h iv n))"
  using assms by (auto simp: append_child_def update_data_def get_data_def store_insert_def add_leaf_def reach_ok_def)

text \<open>The space after the last child.\<close>

lemma remaining_after:
  assumes tree: "reach_tree s" and fin: "finite (dom (rs_map s))" and p: "p \<in> dom (rs_map s)"
  shows "\<exists>iv. interval_remaining_after s p = Some (Inr iv) \<and> iv_end iv + 1 = iv_end (ivl s p) \<and> iv_start iv \<le> iv_end iv + 1 \<and>
    iv_start (ivl s p) \<le> iv_start iv \<and> (\<forall>c\<in>set (children_of s p). iv_end (ivl s c) < iv_start iv)"
proof -
  note t = tree_fits [OF tree fin]
  have np: "0 < iv_start (ivl s p)" "iv_start (ivl s p) \<le> iv_end (ivl s p)" "iv_end (ivl s p) < u64_max"
    using tree_nonempty [OF tree p] by auto
  have fit: "fits (ivl s) p (children_of s p)"
    using t(1,2) p by (simp add: laid_out_def tree_shape_def)
  have cap: "interval_children_capacity s p = Some (Inr (interval_new (iv_start (ivl s p)) (iv_end (ivl s p) - 1)))"
    using interval_children_capacity_with [of p s "ivl s"] p np unfolding with_own_intervals by simp
  show ?thesis
  proof (cases "children_of s p" rule: rev_cases)
    case Nil
    then show ?thesis
      using cap p np by (simp add: interval_remaining_after_def reach_ok_def interval_new_def)
  next
    case (snoc cs c)
    have c: "c \<in> dom (rs_map s)" "iv_end (ivl s c) < iv_end (ivl s p)" "iv_start (ivl s p) \<le> iv_end (ivl s c)"
      using shape_child(1) [OF t(1), of c p] fit snoc by (auto simp: fits_def)
    have "iv_end (ivl s c') < iv_end (ivl s c) + 1" if "c' \<in> set (children_of s p)" for c'
      using fit that snoc unfolding fits_def by (fastforce simp: sorted_wrt_append)
    then show ?thesis
      using cap p np c snoc by (auto simp: interval_remaining_after_def reach_ok_def interval_new_def checked_add_def)
  qed
qed

text \<open>Half of a non-empty interval, rounded in single precision.\<close>

lemma f32_ulp_small: "f32_ulp n = 1 \<or> f32_ulp n * 2 ^ 23 \<le> n"
proof (induction n rule: f32_ulp.induct)
  case (1 n)
  show ?case
  proof (cases "n < 2 ^ 24")
    case False
    then have e: "f32_ulp n = 2 * f32_ulp (n div 2)"
      by (subst f32_ulp.simps) simp
    from "1.IH" [OF False] show ?thesis
    proof
      assume "f32_ulp (n div 2) = 1"
      then show ?thesis
        using e False by simp
    next
      assume "f32_ulp (n div 2) * 2 ^ 23 \<le> n div 2"
      then show ?thesis
        using e by simp
    qed
  qed (subst f32_ulp.simps, simp)
qed

lemma as_f32_bounds:
  assumes "0 < n"
  shows "0 < as_f32 n" "as_f32 n < 2 * n"
proof -
  define u where "u = f32_ulp n"
  have u: "0 < u" "u = 1 \<or> u * 2 ^ 23 \<le> n"
  proof -
    show "0 < u"
      unfolding u_def by (induction n rule: f32_ulp.induct) (subst f32_ulp.simps, simp)
    show "u = 1 \<or> u * 2 ^ 23 \<le> n"
      using f32_ulp_small by (simp add: u_def)
  qed
  have q: "0 < n div u" "n div u * u \<le> n"
    using u assms by (auto simp: div_greater_zero_iff)
  have eq: "as_f32 n = (if u < 2 * (n mod u) \<or> (2 * (n mod u) = u \<and> odd (n div u)) then n div u + 1 else n div u) * u"
    by (simp add: as_f32_def u_def Let_def)
  show "0 < as_f32 n"
    using q u(1) by (simp add: eq)
  show "as_f32 n < 2 * n"
  proof (cases "u = 1")
    case True
    then show ?thesis
      using assms by (simp add: eq)
  next
    case False
    then have "u < n"
      using u by auto
    moreover have "as_f32 n \<le> n div u * u + u"
      by (simp add: eq)
    ultimately show ?thesis
      using q(2) by linarith
  qed
qed

lemma split_half_spec:
  assumes "iv_start i \<le> iv_end i" "0 < iv_start i" "iv_end i < u64_max"
  shows "\<exists>l r. split_half i = Some (l, r) \<and> iv_start l = iv_start i \<and> iv_start l \<le> iv_end l \<and> iv_end l \<le> iv_end i"
proof -
  let ?n = "iv_end i + 1 - iv_start i"
  have n: "interval_size i = Some ?n" "0 < ?n"
    using assms by (auto simp: interval_size_def checked_add_def checked_sub_def)
  define l where "l = (as_f32 ?n + 1) div 2"
  have l: "0 < l" "l \<le> ?n"
    using as_f32_bounds [OF n(2)] by (auto simp: l_def)
  have "split_half i = Some (interval_new (iv_start i) (iv_start i + l - 1), interval_new (iv_start i + l) (iv_end i))"
    unfolding split_half_def n(1) using l assms
    by (simp add: Let_def checked_add_def checked_sub_def del: One_nat_def flip: l_def)
  then show ?thesis
    using l assms by (auto simp: interval_new_def)
qed

section \<open>Reindexing at or below the root\<close>

text \<open>A store whose leaf \<open>h\<close> has an empty interval and that is laid out everywhere else.\<close>

definition leaf_pending :: "reachability_store \<Rightarrow> hash64 \<Rightarrow> (hash64 \<Rightarrow> interval) \<Rightarrow> bool" where
  "leaf_pending t h f \<longleftrightarrow> tree_shape t \<and> card (dom (rs_map t)) \<le> u64_max \<and> h \<in> dom (rs_map t) \<and> children_of t h = [] \<and>
     root_fits f \<and> iv_start (f h) = iv_end (f h) + 1 \<and>
     (\<forall>x\<in>dom (rs_map t). 0 < iv_start (f x) \<and> iv_end (f x) < u64_max \<and> (x \<noteq> h \<longrightarrow> iv_start (f x) \<le> iv_end (f x))) \<and>
     (\<forall>x. h \<notin> set (children_of t x) \<longrightarrow> fits f x (children_of t x)) \<and>
     (\<forall>x y. tanc t x y \<longrightarrow> y \<noteq> h \<longrightarrow> iv_start (f x) \<le> iv_start (f y) \<and> iv_end (f y) \<le> iv_end (f x))"

lemma pending_shape: "leaf_pending t h f \<Longrightarrow> tree_shape t" "leaf_pending t h f \<Longrightarrow> card (dom (rs_map t)) \<le> u64_max"
    "leaf_pending t h f \<Longrightarrow> h \<in> dom (rs_map t)" "leaf_pending t h f \<Longrightarrow> children_of t h = []" "leaf_pending t h f \<Longrightarrow> root_fits f"
    "leaf_pending t h f \<Longrightarrow> iv_start (f h) = iv_end (f h) + 1"
  by (simp_all add: leaf_pending_def)

lemma pending_bounds:
  "leaf_pending t h f \<Longrightarrow> x \<in> dom (rs_map t) \<Longrightarrow> 0 < iv_start (f x) \<and> iv_end (f x) < u64_max \<and> iv_start (f x) \<le> iv_end (f x) + 1"
  unfolding leaf_pending_def by (cases "x = h") auto

lemma pending_fits: "leaf_pending t h f \<Longrightarrow> h \<notin> set (children_of t x) \<Longrightarrow> fits f x (children_of t x)"
  and pending_nested: "leaf_pending t h f \<Longrightarrow> tanc t x y \<Longrightarrow> y \<noteq> h \<Longrightarrow> iv_start (f x) \<le> iv_start (f y) \<and> iv_end (f y) \<le> iv_end (f x)"
  unfolding leaf_pending_def by blast+

lemma pending_roomy:
  assumes "leaf_pending t h f" "x \<in> dom (rs_map t)"
  shows "roomy t f x \<longleftrightarrow> subtree_size t x \<le> iv_end (f x) + 1 - iv_start (f x)"
    and "interval_size (f x) = Some (iv_end (f x) + 1 - iv_start (f x))"
  using pending_bounds [OF assms] by (auto simp: roomy_def interval_size_def checked_add_def checked_sub_def)

lemma pending_not_roomy:
  assumes "leaf_pending t h f"
  shows "\<not> roomy t f h"
proof -
  have "0 < subtree_size t h"
    using subtree_size_pos pending_shape(1,3) [OF assms] by blast
  then show ?thesis
    using pending_shape(6) [OF assms] by (simp add: roomy_def)
qed

text \<open>Laying out the subtree of an ancestor with room completes the store.\<close>

lemma pending_propagate:
  assumes pend: "leaf_pending t h f" and c: "c \<in> dom (rs_map t)" "tanc t c h" "roomy t f c" and ok: "sizes_ok t sizes"
  shows "\<exists>g sizes'. propagate_interval bias c (with_intervals t f, sizes) = Some (Inr (with_intervals t g, sizes')) \<and>
    laid_out t g ORIGIN \<and> g ORIGIN = f ORIGIN"
proof -
  note shape = pending_shape(1) [OF pend]
  obtain g sizes' where g: "propagate_interval bias c (with_intervals t f, sizes) = Some (Inr (with_intervals t g, sizes'))"
      "laid_out t g c" "\<forall>x. x \<notin> subtree t c \<or> x = c \<longrightarrow> g x = f x"
    using propagate_interval_total [OF shape pending_shape(2) [OF pend] c(1,3) ok] by blast
  have "c \<noteq> h"
    using pending_not_roomy [OF pend] c(3) by blast
  have "fits f x (children_of t x)" if "\<not> tanc t c x" for x
  proof (rule pending_fits [OF pend])
    show "h \<notin> set (children_of t x)"
      using that c(2) \<open>c \<noteq> h\<close> shape_child(2) [OF shape] tanc_last [of t c h] by metis
  qed
  then have "laid_out t g ORIGIN"
    using laid_out_join [OF shape g(2,3)] by blast
  moreover have "g ORIGIN = f ORIGIN"
  proof (cases "tanc t c ORIGIN")
    case True
    then have "c = ORIGIN"
      using shape_antisym [OF shape] shape c(1) by (simp add: tree_shape_def)
    then show ?thesis
      using g(3) by blast
  qed (use g(3) in \<open>simp add: subtree_def\<close>)
  ultimately show ?thesis
    using g(1) by blast
qed

lemma reindex_loop_below:
  assumes pend: "leaf_pending t h f" and R: "R \<in> dom (rs_map t)" "roomy t f R"
  shows "tanc t R c \<Longrightarrow> tanc t c h \<Longrightarrow> sizes_ok t sizes \<Longrightarrow>
    \<exists>g sizes'. reindex_loop bias slack R c (with_intervals t f, sizes) = Some (Inr (with_intervals t g, sizes')) \<and>
      laid_out t g ORIGIN \<and> g ORIGIN = f ORIGIN"
  unfolding tanc_def [of t R c]
proof (induction arbitrary: sizes rule: rtrancl_induct)
  have count: "\<exists>sizes'. count_subtrees (with_intervals t f) c sizes = Some (Inr sizes') \<and> sizes_ok t sizes' \<and>
      hm_get sizes' c = Some (subtree_size t c)" if "c \<in> dom (rs_map t)" "sizes_ok t sizes" for c sizes
  proof -
    have "subtree_size (with_intervals t f) = subtree_size t"
      by (simp add: fun_eq_iff subtree_size_def subtree_def)
    then show ?thesis
      using count_subtrees_total [of "with_intervals t f" c sizes] pending_shape(1,2) [OF pend] that by simp
  qed
  have roomy_step: "\<exists>g sizes'. reindex_loop bias slack R c (with_intervals t f, sizes) = Some (Inr (with_intervals t g, sizes')) \<and>
      laid_out t g ORIGIN \<and> g ORIGIN = f ORIGIN" if c: "c \<in> dom (rs_map t)" "tanc t c h" "roomy t f c" and ok: "sizes_ok t sizes" for c sizes
  proof -
    obtain sizes' where s': "count_subtrees (with_intervals t f) c sizes = Some (Inr sizes')" "sizes_ok t sizes'"
        "hm_get sizes' c = Some (subtree_size t c)"
      using count [OF c(1) ok] by blast
    have "reindex_loop bias slack R c (with_intervals t f, sizes) = propagate_interval bias c (with_intervals t f, sizes')"
      using s' c pending_roomy [OF pend c(1)] by (subst reindex_loop.simps) simp
    then show ?thesis
      using pending_propagate [OF pend c s'(2)] by simp
  qed
  {
    case base
    then show ?case
      using roomy_step R by blast
  next
    case (step y z)
    have z: "z \<in> set (children_of t y)"
      using step.hyps(2) tree_of_iff by blast
    note shape = pending_shape(1) [OF pend]
    have y: "y \<in> dom (rs_map t)" "y \<noteq> h" "tanc t R y"
      using children_dom [OF z] z pending_shape(4) [OF pend] step.hyps(1) by (auto simp: tanc_def)
    have zd: "z \<in> dom (rs_map t)" "rc_parent (the (rs_map t z)) = y"
      using shape_child [OF shape z] by auto
    show ?case
    proof (cases "roomy t f z")
      case False
      obtain sizes' where s': "count_subtrees (with_intervals t f) z sizes = Some (Inr sizes')" "sizes_ok t sizes'"
          "hm_get sizes' z = Some (subtree_size t z)"
        using count [OF zd(1) step.prems(2)] by blast
      have "z \<noteq> R"
        using shape_child_neq [OF shape z] y(3) by blast
      moreover have "y \<noteq> NONE"
        using y(1) shape unfolding tree_shape_def by blast
      moreover have "\<not> strictly_contains (f y) (f R)"
        using pending_nested [OF pend y(3,2)] by (simp add: strictly_contains_def)
      ultimately have "reindex_loop bias slack R z (with_intervals t f, sizes) = reindex_loop bias slack R y (with_intervals t f, sizes')"
        using s' zd y(1) R(1) False pending_roomy [OF pend zd(1)]
        by (subst reindex_loop.simps) (simp add: is_strict_chain_ancestor_of_def reach_ok_def)
      moreover have "tanc t y h"
        using tanc_trans [OF tanc_child [OF z] step.prems(1)] .
      ultimately show ?thesis
        using step.IH [OF _ s'(2)] by simp
    qed (use roomy_step zd(1) step.prems in blast)
  }
qed

section \<open>Adding a tree block\<close>

lemma leaf_ends:
  assumes tree: "reach_tree s" and fin: "finite (dom (rs_map s))" and p: "p \<in> dom (rs_map s)" and h: "h \<notin> dom (rs_map s)"
    and x: "x \<in> insert h (dom (rs_map s))" "x \<noteq> p"
  shows "fits (ivl (add_leaf s p h iv n)) x (children_of (add_leaf s p h iv n) x)"
proof -
  note t = tree_fits [OF tree fin]
  have cs: "children_of (add_leaf s p h iv n) x = children_of s x"
    using x leaf_children [OF p h] by simp
  show ?thesis
  proof (cases "x = h")
    case True
    then show ?thesis
      using cs h by (auto simp: children_of_def fits_def split: option.splits)
  next
    case False
    then have "fits (ivl s) x (children_of s x)"
      using t(1,2) x by (simp add: laid_out_def tree_shape_def)
    then show ?thesis
      unfolding cs
    proof (rule fits_cong)
      fix y assume "y \<in> insert x (set (children_of s x))"
      then have "y \<in> dom (rs_map s)"
        using x False shape_child(1) [OF t(1)] by blast
      then show "ivl s y = ivl (add_leaf s p h iv n) y"
        using leaf_ivl [OF p h] h by auto
    qed
  qed
qed

text \<open>A leaf with a part of the space after its siblings.\<close>

lemma leaf_allocated:
  assumes tree: "reach_tree s" and fin: "finite (dom (rs_map s))" and p: "p \<in> dom (rs_map s)" and h: "h \<notin> dom (rs_map s)" "h \<noteq> NONE"
    and n: "n \<le> card (dom (rs_map s))"
    and iv: "iv_start (ivl s p) \<le> iv_start iv" "iv_start iv \<le> iv_end iv" "iv_end iv < iv_end (ivl s p)"
      "\<forall>c\<in>set (children_of s p). iv_end (ivl s c) < iv_start iv"
  shows "reach_tree (add_leaf s p h iv n)"
proof -
  let ?t = "add_leaf s p h iv n"
  note t = tree_fits [OF tree fin]
  have fit: "fits (ivl s) p (children_of s p)"
    using t(1,2) p by (simp add: laid_out_def tree_shape_def)
  have same: "ivl ?t y = ivl s y" if "y \<in> dom (rs_map s)" for y
    using that leaf_ivl [OF p h(1)] h(1) by auto
  have kids: "y \<in> dom (rs_map s)" if "y \<in> set (children_of s p)" for y
    using shape_child(1) [OF t(1) that] .
  have new: "ivl ?t h = iv"
    using leaf_ivl [OF p h(1)] by simp
  have "sorted_wrt (\<lambda>x y. iv_end (ivl ?t x) < iv_start (ivl ?t y)) (children_of s p)"
    by (rule sorted_wrt_mono_rel [where P = "\<lambda>x y. iv_end (ivl s x) < iv_start (ivl s y)"]) (use fit kids same in \<open>auto simp: fits_def\<close>)
  then have "fits (ivl ?t) p (children_of s p @ [h])"
    using fit iv kids same p new unfolding fits_def by (auto simp: sorted_wrt_append)
  then have "laid_out ?t (ivl ?t) ORIGIN"
    unfolding laid_out_def
  proof (intro allI impI)
    fix x assume "tanc ?t ORIGIN x"
    then have x: "x \<in> insert h (dom (rs_map s))"
      using shape_dom [OF leaf_shape [OF t(1) p h n]] leaf_dom [OF p] t(1) by (metis insertI2 tree_shape_def)
    show "fits (ivl ?t) x (children_of ?t x)"
    proof (cases "x = p")
      case True
      then show ?thesis
        using \<open>fits (ivl ?t) p (children_of s p @ [h])\<close> leaf_children [OF p h(1)] by simp
    qed (use leaf_ends [OF tree fin p h(1) x] in blast)
  qed
  moreover have "root_fits (ivl ?t)"
    using t(1,3) same [of ORIGIN] by (simp add: root_fits_def tree_shape_def)
  ultimately have "reach_tree (with_intervals ?t (ivl ?t))"
    by (rule reach_tree_laid_out [OF leaf_shape [OF t(1) p h n]])
  then show ?thesis
    by (simp add: with_own_intervals)
qed

text \<open>A leaf with an empty interval.\<close>

lemma leaf_pendingI:
  assumes tree: "reach_tree s" and fin: "finite (dom (rs_map s))" and p: "p \<in> dom (rs_map s)" and h: "h \<notin> dom (rs_map s)" "h \<noteq> NONE"
    and n: "n \<le> card (dom (rs_map s))" and small: "card (dom (rs_map s)) < u64_max"
    and iv: "iv_start iv = iv_end iv + 1" "iv_end iv < iv_end (ivl s p)"
  shows "leaf_pending (add_leaf s p h iv n) h (ivl (add_leaf s p h iv n))"
proof -
  let ?t = "add_leaf s p h iv n"
  note t = tree_fits [OF tree fin] and shape = leaf_shape [OF tree_fits(1) [OF tree fin] p h n]
  have same: "ivl ?t y = ivl s y" if "y \<in> dom (rs_map s)" for y
    using that leaf_ivl [OF p h(1)] h(1) by auto
  have new: "ivl ?t h = iv"
    using leaf_ivl [OF p h(1)] by simp
  have no: "h \<in> set (children_of ?t p)" "children_of ?t h = []"
    using leaf_children [OF p h(1)] p h(1) by (auto simp: children_of_def split: option.splits)
  have "iv_end iv < u64_max"
    using iv(2) tree_nonempty [OF tree p] by simp
  then have bounds: "\<forall>x\<in>dom (rs_map ?t). 0 < iv_start (ivl ?t x) \<and> iv_end (ivl ?t x) < u64_max \<and> (x \<noteq> h \<longrightarrow> iv_start (ivl ?t x) \<le> iv_end (ivl ?t x))"
    using tree_nonempty [OF tree] same new iv(1) unfolding leaf_dom [OF p] by auto
  have "fits (ivl ?t) x (children_of ?t x)" if "h \<notin> set (children_of ?t x)" for x
  proof (cases "x \<in> insert h (dom (rs_map s))")
    case True
    then show ?thesis
      using leaf_ends [OF tree fin p h(1)] that no(1) by blast
  next
    case False
    then show ?thesis
      using leaf_children [OF p h(1)] p by (auto simp: children_of_def fits_def split: option.splits)
  qed
  moreover have "iv_start (ivl ?t x) \<le> iv_start (ivl ?t y) \<and> iv_end (ivl ?t y) \<le> iv_end (ivl ?t x)" if "tanc ?t x y" "y \<noteq> h" for x y
  proof (cases "x = y")
    case False
    have "tanc s x y"
      using that leaf_tanc [OF t(1) p h(1)] by simp
    then show ?thesis
      using tanc_contains [OF tree] tanc_dom [OF tree _ False] same by (auto simp: interval_contains_def)
  qed simp
  moreover have "root_fits (ivl ?t)"
    using t(1,3) same [of ORIGIN] by (simp add: root_fits_def tree_shape_def)
  moreover have "card (dom (rs_map ?t)) \<le> u64_max"
    using p h(1) fin small by simp
  ultimately show ?thesis
    using shape p new no(2) iv(1) bounds unfolding leaf_pending_def by auto
qed

text \<open>The reindex root has the block below it and room for one more.\<close>

definition root_room :: "reachability_store \<Rightarrow> hash64 \<Rightarrow> bool" where
  "root_room s p \<longleftrightarrow> (\<exists>R\<in>dom (rs_map s). rs_reindex_root s = Some R \<and> tanc s R p \<and>
     iv_start (ivl s R) + subtree_size s R \<le> iv_end (ivl s R))"

definition leaf_room :: "reachability_store \<Rightarrow> hash64 \<Rightarrow> bool" where
  "leaf_room s p \<longleftrightarrow> (\<exists>iv. interval_remaining_after s p = Some (Inr iv) \<and> iv_start iv \<le> iv_end iv)"

lemma add_tree_block_total:
  assumes tree: "reach_tree s" and fin: "finite (dom (rs_map s))" and small: "card (dom (rs_map s)) < u64_max"
    and p: "p \<in> dom (rs_map s)" and h: "h \<notin> dom (rs_map s)" "h \<noteq> NONE" and room: "leaf_room s p \<or> root_room s p"
  shows "\<exists>iv n g. add_tree_block bias slack h p s = Some (Inr (with_intervals (add_leaf s p h iv n) g)) \<and>
    reach_tree (with_intervals (add_leaf s p h iv n) g) \<and> g ORIGIN = ivl s ORIGIN"
proof -
  obtain d where d: "rs_map s p = Some d"
    using p by blast
  obtain iv where iv: "interval_remaining_after s p = Some (Inr iv)" "iv_end iv + 1 = iv_end (ivl s p)" "iv_start iv \<le> iv_end iv + 1"
      "iv_start (ivl s p) \<le> iv_start iv" "\<forall>c\<in>set (children_of s p). iv_end (ivl s c) < iv_start iv"
    using remaining_after [OF tree fin p] by blast
  have pos: "0 < iv_start iv" "iv_end iv < u64_max"
    using tree_nonempty [OF tree p] iv(2,4) by auto
  have size: "interval_size iv = Some (iv_end iv + 1 - iv_start iv)"
    using pos iv(3) by (simp add: interval_size_def checked_add_def checked_sub_def)
  let ?n = "rc_height d + 1"
  have n: "?n \<le> card (dom (rs_map s))"
    using tree d unfolding reach_tree_def by (metis Suc_eq_plus1 Suc_leI)
  have hp: "get_height (s\<lparr>rs_map := (rs_map s)(p \<mapsto> rc_children_update (\<lambda>cs. cs @ [h]) d)\<rparr>) p = Some (Inr (rc_height d))"
    by (simp add: get_height_def get_data_def reach_ok_def)
  have add: "checked_add u64_max (rc_height d) 1 = Some ?n"
    using n small by (simp add: checked_add_def)
  note leaf = append_insert_leaf [OF d h(1)]
  have origin: "ivl (add_leaf s p h iv' m) ORIGIN = ivl s ORIGIN" for iv' m
    using leaf_ivl [OF p h(1)] tree h(1) by (auto simp: reach_tree_def)
  show ?thesis
  proof (cases "iv_start iv \<le> iv_end iv")
    case True
    obtain l r where l: "split_half iv = Some (l, r)" "iv_start l = iv_start iv" "iv_start l \<le> iv_end l" "iv_end l \<le> iv_end iv"
      using split_half_spec [OF True pos] by blast
    have "add_tree_block bias slack h p s = Some (Inr (add_leaf s p h l ?n))"
      unfolding add_tree_block_def using True by (simp add: iv(1) leaf(1) hp size l(1) add leaf(2) del: One_nat_def)
    moreover have "reach_tree (add_leaf s p h l ?n)"
      by (rule leaf_allocated [OF tree fin p h n]) (use iv l in auto)
    ultimately show ?thesis
      using origin with_own_intervals by metis
  next
    case False
    let ?t = "add_leaf s p h iv ?n"
    have "iv_start iv = iv_end iv + 1"
      using False iv(3) by simp
    then have pend: "leaf_pending ?t h (ivl ?t)"
      using leaf_pendingI [OF tree fin p h n small] iv(2) by simp
    have "\<not> leaf_room s p"
      using False iv(1) by (simp add: leaf_room_def)
    then obtain R where R: "R \<in> dom (rs_map s)" "rs_reindex_root s = Some R" "tanc s R p" "iv_start (ivl s R) + subtree_size s R \<le> iv_end (ivl s R)"
      using room unfolding root_room_def by blast
    note shape = tree_fits(1) [OF tree fin]
    have Rt: "R \<in> dom (rs_map ?t)" "tanc ?t R h"
      using R leaf_tanc [OF shape p h(1)] p by auto
    have "roomy ?t (ivl ?t) R"
      using R tree_nonempty [OF tree R(1)] leaf_ivl [OF p h(1), of R] leaf_subtree_size [OF shape p h(1) R(1)] h(1)
      by (auto simp: roomy_def)
    moreover have "sizes_ok ?t []"
      by (simp add: sizes_ok_def)
    ultimately obtain g sizes' where g: "reindex_loop bias slack R h (with_intervals ?t (ivl ?t), []) = Some (Inr (with_intervals ?t g, sizes'))"
        "laid_out ?t g ORIGIN" "g ORIGIN = ivl ?t ORIGIN"
      using reindex_loop_below [OF pend Rt(1) _ Rt(2) tanc_refl] by blast
    have "add_tree_block bias slack h p s = Some (Inr (with_intervals ?t g))"
      unfolding add_tree_block_def using False g(1) R(2)
      by (simp add: iv(1) leaf(1) hp size add leaf(2) get_reindex_root_def reindex_intervals_def reach_ok_def with_own_intervals del: One_nat_def)
    moreover have "reach_tree (with_intervals ?t g)"
      using reach_tree_laid_out [OF pending_shape(1) [OF pend] g(2)] pending_shape(5) [OF pend] g(3) by (simp add: root_fits_def)
    ultimately show ?thesis
      using g(3) origin by metis
  qed
qed

end
