(* ===== verification/Reach_Represents.thy ===== *)
theory Reach_Represents
  imports Reach_Insert
begin

text \<open>
  \<open>add_block\<close> keeps the index faithful: from an index that represents the relations of a DAG it makes one that represents
  the relations with the new block. The order of the intervals is the order of the tree, so that the future covering
  sets stay ordered through a reindexing.
\<close>

section \<open>The order of the tree\<close>

text \<open>Two unrelated blocks are below different children of a block.\<close>

lemma diverge:
  assumes "tanc s a x" "tanc s a y" "\<not> tanc s x y" "\<not> tanc s y x"
  shows "\<exists>p cx cy. cx \<in> set (children_of s p) \<and> cy \<in> set (children_of s p) \<and> cx \<noteq> cy \<and> tanc s cx x \<and> tanc s cy y"
  using assms(1,2) unfolding tanc_def [of s a x]
proof (induction rule: converse_rtrancl_induct)
  case base
  then show ?case
    using assms(3) by blast
next
  case (step a c)
  have c: "c \<in> set (children_of s a)" "tanc s c x"
    using step.hyps tree_of_iff by (auto simp: tanc_def)
  show ?case
  proof (cases "tanc s c y")
    case False
    have "a \<noteq> y"
      using assms(4) tanc_trans [OF tanc_child [OF c(1)] c(2)] by blast
    then obtain cy where "cy \<in> set (children_of s a)" "tanc s cy y"
      using step.prems tanc_first [of s a y] by blast
    then show ?thesis
      using c False by blast
  qed (use step.IH in blast)
qed

lemma order_kept:
  assumes old: "reach_tree s" "finite (dom (rs_map s))" and new: "reach_tree t" "finite (dom (rs_map t))"
    and kids: "\<And>p. \<exists>ys. children_of t p = children_of s p @ ys" and up: "\<And>x y. tanc s x y \<Longrightarrow> tanc t x y"
    and xy: "x \<in> dom (rs_map s)" "y \<in> dom (rs_map s)" "iv_end (ivl s x) < iv_start (ivl s y)"
  shows "iv_end (ivl t x) < iv_start (ivl t y)"
proof -
  note o = tree_fits [OF old] and n = tree_fits [OF new]
  have "apart s x y"
    using xy(3) by (simp add: apart_def)
  then have unrelated: "\<not> tanc s x y" "\<not> tanc s y x"
    using tanc_not_apart [OF old(1)] xy(1,2) apart_sym by blast+
  have "tanc s ORIGIN x" "tanc s ORIGIN y"
    using o(1) xy by (simp_all add: tree_shape_def)
  then obtain p cx cy where p: "cx \<in> set (children_of s p)" "cy \<in> set (children_of s p)" "cx \<noteq> cy" "tanc s cx x" "tanc s cy y"
    using diverge [OF _ _ unrelated] by blast
  then obtain i j where ij: "i < length (children_of s p)" "children_of s p ! i = cx" "j < length (children_of s p)" "children_of s p ! j = cy" "i \<noteq> j"
    by (metis in_set_conv_nth)
  have fo: "fits (ivl s) p (children_of s p)"
    using o(1,2) children_dom [OF p(1)] by (simp add: laid_out_def tree_shape_def)
  have within: "iv_start (ivl s cx) \<le> iv_start (ivl s x)" "iv_end (ivl s y) \<le> iv_end (ivl s cy)" "iv_end (ivl s x) \<le> iv_end (ivl s cx)"
      "iv_start (ivl s x) \<le> iv_end (ivl s x)" "iv_start (ivl s y) \<le> iv_end (ivl s y)"
    using tanc_contains [OF old(1)] p(4,5) tree_nonempty [OF old(1)] xy(1,2) by (auto simp: interval_contains_def)
  have "\<not> j < i"
  proof
    assume "j < i"
    then have "iv_end (ivl s cy) < iv_start (ivl s cx)"
      using fo sorted_wrt_nth_less [of _ "children_of s p" j i] ij by (auto simp: fits_def)
    then show False
      using within xy(3) by linarith
  qed
  obtain ys where ys: "children_of t p = children_of s p @ ys"
    using kids by blast
  have p': "p \<in> dom (rs_map t)"
    using children_dom [of cx t p] ys p(1) by simp
  then have "fits (ivl t) p (children_of t p)"
    using n(1,2) by (simp add: laid_out_def tree_shape_def)
  then have "sorted_wrt (\<lambda>x y. iv_end (ivl t x) < iv_start (ivl t y)) (children_of s p)"
    unfolding fits_def ys by (simp add: sorted_wrt_append)
  then have "iv_end (ivl t cx) < iv_start (ivl t cy)"
    using sorted_wrt_nth_less [of _ "children_of s p" i j] \<open>\<not> j < i\<close> ij by auto
  then show ?thesis
    using tanc_contains [OF new(1) up [OF p(4)]] tanc_contains [OF new(1) up [OF p(5)]] by (auto simp: interval_contains_def)
qed

section \<open>Future covering sets\<close>

definition fcs_of :: "reachability_store \<Rightarrow> hash64 \<Rightarrow> hash64 list" where
  "fcs_of s b = (case rs_map s b of Some d \<Rightarrow> rc_future_covering_set d | None \<Rightarrow> [])"

definition with_fcs :: "reachability_store \<Rightarrow> (hash64 \<Rightarrow> hash64 list) \<Rightarrow> reachability_store" where
  "with_fcs s F = s\<lparr>rs_map := (\<lambda>b. map_option (rc_future_covering_set_update (\<lambda>_. F b)) (rs_map s b))\<rparr>"

lemma all_fcs: "(\<forall>x d. rs_map s x = Some d \<longrightarrow> Q x (rc_future_covering_set d)) \<longleftrightarrow> (\<forall>x\<in>dom (rs_map s). Q x (fcs_of s x))"
  unfolding fcs_of_def by (auto split: option.split)

lemma represents_iff:
  "represents s P \<longleftrightarrow> reach_tree s \<and> dom (rs_map s) = dom P \<and>
     (\<forall>x\<in>dom P. set (fcs_of s x) \<subseteq> dom P \<and> interval_ordered s (fcs_of s x) \<and>
        (\<forall>y\<in>dom P. anc P x y \<longleftrightarrow> tanc s x y \<or> (\<exists>f\<in>set (fcs_of s x). tanc s f y)))"
proof (cases "dom (rs_map s) = dom P")
  case True
  show ?thesis
    unfolding represents_def all_fcs [of s "\<lambda>x fcs. set fcs \<subseteq> dom P \<and> interval_ordered s fcs \<and>
      (\<forall>y\<in>dom P. anc P x y \<longleftrightarrow> tanc s x y \<or> (\<exists>f\<in>set fcs. tanc s f y))"] True by (rule refl)
qed (simp add: represents_def)

lemma with_own_fcs: "with_fcs s (fcs_of s) = s"
proof -
  have "map_option (rc_future_covering_set_update (\<lambda>_. fcs_of s b)) (rs_map s b) = rs_map s b" for b
    by (cases "rs_map s b") (simp_all add: fcs_of_def)
  then show ?thesis
    by (simp add: with_fcs_def)
qed

lemma with_fcs_simps [simp]:
  "dom (rs_map (with_fcs s F)) = dom (rs_map s)" "children_of (with_fcs s F) = children_of s"
  "tree_of (with_fcs s F) = tree_of s" "tanc (with_fcs s F) = tanc s"
  "rc_parent (the (rs_map (with_fcs s F) b)) = rc_parent (the (rs_map s b))"
  "ivl (with_fcs s F) = ivl s" "rs_reindex_root (with_fcs s F) = rs_reindex_root s"
proof -
  show *: "dom (rs_map (with_fcs s F)) = dom (rs_map s)"
    by (auto simp: with_fcs_def)
  show **: "children_of (with_fcs s F) = children_of s"
    by (auto simp: with_fcs_def children_of_def fun_eq_iff split: option.splits)
  show tree: "tree_of (with_fcs s F) = tree_of s"
    by (auto simp: tree_of_iff **)
  show "tanc (with_fcs s F) = tanc s"
    by (simp add: tanc_def fun_eq_iff tree)
  show "rc_parent (the (rs_map (with_fcs s F) b)) = rc_parent (the (rs_map s b))"
    by (cases "rs_map s b") (simp_all add: with_fcs_def)
  have "ivl (with_fcs s F) b = ivl s b" for b
    by (cases "rs_map s b") (simp_all add: with_fcs_def ivl_def)
  then show "ivl (with_fcs s F) = ivl s"
    by (simp add: fun_eq_iff)
qed (simp add: with_fcs_def)

lemma fcs_of_with [simp]: "b \<in> dom (rs_map s) \<Longrightarrow> fcs_of (with_fcs s F) b = F b"
  by (auto simp: fcs_of_def with_fcs_def)

lemma with_fcs_twice [simp]: "with_fcs (with_fcs s F) G = with_fcs s G"
  by (simp add: with_fcs_def option.map_comp comp_def)

lemma rows_with_fcs:
  "(\<forall>p d. rs_map (with_fcs s F) p = Some d \<longrightarrow> Q p (rc_height d) (rc_children d)) \<longleftrightarrow>
    (\<forall>p d. rs_map s p = Some d \<longrightarrow> Q p (rc_height d) (rc_children d))"
proof -
  have "(\<forall>d. rs_map (with_fcs s F) p = Some d \<longrightarrow> Q p (rc_height d) (rc_children d)) \<longleftrightarrow>
      (\<forall>d. rs_map s p = Some d \<longrightarrow> Q p (rc_height d) (rc_children d))" for p
    by (cases "rs_map s p") (simp_all add: with_fcs_def)
  then show ?thesis
    by blast
qed

lemma tree_with_fcs [simp]: "reach_tree (with_fcs s F) \<longleftrightarrow> reach_tree s"
proof -
  have ord: "interval_ordered (with_fcs s F) = interval_ordered s"
    by (simp add: fun_eq_iff interval_ordered_def)
  show ?thesis
    unfolding reach_tree_def with_fcs_simps ord
      rows_with_fcs [of s F "\<lambda>p n cs. n < card (dom (rs_map s)) \<and> set cs \<subseteq> dom (rs_map s) \<and> interval_ordered s cs \<and>
        (\<forall>c\<in>set cs. strictly_contains (ivl s p) (ivl s c) \<and> rc_parent (the (rs_map s c)) = p)"] by (rule refl)
qed

lemma get_fcs_dom [simp]: "b \<in> dom (rs_map s) \<Longrightarrow> get_future_covering_set s b = Some (Inr (fcs_of s b))"
  by (auto simp: get_future_covering_set_def get_data_def fcs_of_def reach_ok_def)

lemma fcs_with_intervals [simp]: "fcs_of (with_intervals s f) = fcs_of s"
  by (auto simp: fcs_of_def with_intervals_def fun_eq_iff split: option.splits)

lemma fcs_add_leaf:
  "p \<in> dom (rs_map s) \<Longrightarrow> h \<notin> dom (rs_map s) \<Longrightarrow> fcs_of (add_leaf s p h iv n) x = (if x = h then [] else fcs_of s x)"
  by (auto simp: fcs_of_def add_leaf_def)

lemma insert_item_with:
  assumes "m \<in> dom (rs_map s)" "i \<le> length (F m)"
  shows "insert_future_covering_item (with_fcs s F) m h i = Some (Inr (with_fcs s (F(m := vec_insert i h (F m)))))"
proof -
  obtain d where d: "rs_map s m = Some d"
    using assms(1) by blast
  have "update_data (with_fcs s F) m (rc_future_covering_set_update (vec_insert i h)) =
      Some (Inr (with_fcs s (F(m := vec_insert i h (F m)))))"
    using d by (auto simp: update_data_def get_data_def reach_ok_def with_fcs_def fun_eq_iff)
  then show ?thesis
    using assms by (simp add: insert_future_covering_item_def)
qed

text \<open>The position that the search returns keeps the order.\<close>

lemma insert_covering:
  assumes tree: "reach_tree s" and m: "m \<in> dom (rs_map s)" and xs: "set (F m) \<subseteq> dom (rs_map s)" "interval_ordered s (F m)"
    and h: "h \<in> dom (rs_map s)" "\<forall>x\<in>set (F m). \<not> tanc s x h" "\<forall>x\<in>set (F m). \<not> tanc s h x"
  shows "\<exists>ys. insert_to_future_covering_set h (with_fcs s F) m = Some (Inr (with_fcs s (F(m := ys)))) \<and>
    set ys = insert h (set (F m)) \<and> interval_ordered s ys"
proof -
  let ?xs = "F m"
  have "interval_ordered (with_fcs s F) ?xs"
    using xs(2) by (simp add: interval_ordered_def)
  then obtain i where i: "i \<le> length ?xs" "binary_search_descendant (with_fcs s F) ?xs h = Some (Inr (NotFound i))"
      "\<forall>j<i. iv_start (ivl s (?xs ! j)) < iv_end (ivl s h)" "\<forall>j. i \<le> j \<longrightarrow> j < length ?xs \<longrightarrow> iv_end (ivl s h) < iv_start (ivl s (?xs ! j))"
    using binary_search_descendant_correct [of "with_fcs s F" ?xs h] tree xs(1) h by (auto dest: nth_mem)
  let ?ys = "vec_insert i h ?xs"
  have "insert_to_future_covering_set h (with_fcs s F) m = Some (Inr (with_fcs s (F(m := ?ys))))"
    using i(1,2) m insert_item_with [of m s i F h] by (simp add: insert_to_future_covering_set_def)
  moreover have "set ?ys = insert h (set ?xs)"
    using set_append [of "take i ?xs" "drop i ?xs"] by (simp add: vec_insert_def)
  moreover have "interval_ordered s ?ys"
  proof -
    have before: "iv_end (ivl s x) < iv_start (ivl s h)" if x: "x \<in> set (take i ?xs)" for x
    proof -
      obtain j where j: "j < i" "j < length ?xs" "x = ?xs ! j"
        using x by (auto simp: in_set_conv_nth)
      then have xm: "x \<in> set ?xs"
        by simp
      then have "apart s x h"
        using tree_trichotomy [OF tree _ h(1), of x] xs(1) h(2,3) by blast
      moreover have "\<not> iv_end (ivl s h) < iv_start (ivl s x)"
        using i(3) j by auto
      ultimately show ?thesis
        by (auto simp: apart_def)
    qed
    have after: "iv_end (ivl s h) < iv_start (ivl s x)" if "x \<in> set (drop i ?xs)" for x
      using that i(4) by (force simp: in_set_conv_nth)
    have "sorted_wrt (\<lambda>x y. iv_end (ivl s x) < iv_start (ivl s y)) (take i ?xs @ drop i ?xs)"
      using xs(2) by (simp add: interval_ordered_def)
    then show ?thesis
      using before after unfolding interval_ordered_def vec_insert_def sorted_wrt_append by auto
  qed
  ultimately show ?thesis
    by blast
qed

lemma add_dag_block_total:
  assumes tree: "reach_tree s" and h: "h \<in> dom (rs_map s)" and ms: "distinct ms" "set ms \<subseteq> dom (rs_map s)"
    and xs: "\<And>m. m \<in> set ms \<Longrightarrow> set (F m) \<subseteq> dom (rs_map s) \<and> interval_ordered s (F m) \<and>
      (\<forall>x\<in>set (F m). \<not> tanc s x h \<and> \<not> tanc s h x)"
  shows "\<exists>G. add_dag_block h (with_fcs s F) ms = Some (Inr (with_fcs s G)) \<and> (\<forall>x. x \<notin> set ms \<longrightarrow> G x = F x) \<and>
    (\<forall>m\<in>set ms. set (G m) = insert h (set (F m)) \<and> interval_ordered s (G m))"
  using ms xs
proof (induction ms arbitrary: F)
  case (Cons m ms)
  have "m \<in> dom (rs_map s)" "set (F m) \<subseteq> dom (rs_map s)" "interval_ordered s (F m)" "\<forall>x\<in>set (F m). \<not> tanc s x h" "\<forall>x\<in>set (F m). \<not> tanc s h x"
    using Cons.prems(2) Cons.prems(3) [of m] by auto
  then obtain ys where ys: "insert_to_future_covering_set h (with_fcs s F) m = Some (Inr (with_fcs s (F(m := ys))))"
      "set ys = insert h (set (F m))" "interval_ordered s ys"
    using insert_covering [OF tree, of m F h] h by blast
  obtain G where G: "add_dag_block h (with_fcs s (F(m := ys))) ms = Some (Inr (with_fcs s G))" "\<forall>x. x \<notin> set ms \<longrightarrow> G x = (F(m := ys)) x"
      "\<forall>m'\<in>set ms. set (G m') = insert h (set ((F(m := ys)) m')) \<and> interval_ordered s (G m')"
  proof -
    have "\<exists>G. add_dag_block h (with_fcs s (F(m := ys))) ms = Some (Inr (with_fcs s G)) \<and> (\<forall>x. x \<notin> set ms \<longrightarrow> G x = (F(m := ys)) x) \<and>
        (\<forall>m'\<in>set ms. set (G m') = insert h (set ((F(m := ys)) m')) \<and> interval_ordered s (G m'))"
      by (rule Cons.IH) (use Cons.prems in auto)
    then show ?thesis
      using that by blast
  qed
  have "add_dag_block h (with_fcs s F) (m # ms) = Some (Inr (with_fcs s G))"
    by (simp add: ys(1) G(1))
  then show ?case
    using G(2,3) ys(2,3) Cons.prems(1) by (intro exI [of _ G]) auto
qed (auto simp: reach_ok_def)

section \<open>Adding a block\<close>

lemma represents_fcs_of:
  assumes "represents s P" "x \<in> dom P"
  shows "set (fcs_of s x) \<subseteq> dom P" "interval_ordered s (fcs_of s x)"
    and "y \<in> dom P \<Longrightarrow> anc P x y \<longleftrightarrow> tanc s x y \<or> (\<exists>f\<in>set (fcs_of s x). tanc s f y)"
  using assms unfolding represents_iff by blast+

text \<open>The tree with the new leaf, under any well-formed labelling, keeps the order of the covering sets.\<close>

lemma leaf_keeps_order:
  assumes rep: "represents s P" "finite (dom P)" and p: "p \<in> dom P" and h: "h \<notin> dom P" "h \<noteq> NONE"
    and t: "t = with_intervals (add_leaf s p h iv n) g" "reach_tree t" and x: "x \<in> dom P"
  shows "interval_ordered t (fcs_of s x)"
proof -
  note tree = represents_tree [OF rep(1)]
  have sp: "p \<in> dom (rs_map s)" "h \<notin> dom (rs_map s)" "finite (dom (rs_map s))"
    using p h rep(2) tree(2) by auto
  note shape = tree_fits(1) [OF tree(1) sp(3)]
  have kids: "\<exists>ys. children_of t p' = children_of s p' @ ys" for p'
    by (simp add: t(1) leaf_children [OF sp(1,2)])
  have up: "tanc t a b" if "tanc s a b" for a b
  proof (cases "b = h")
    case True
    have "a = h"
      using that True shape_child(1) [OF shape] sp(2) tanc_last [of s a h] by blast
    then show ?thesis
      using True by simp
  qed (use that leaf_tanc [OF shape sp(1,2)] t(1) in simp)
  have fin: "finite (dom (rs_map t))"
    using sp by (simp add: t(1))
  have kept: "iv_end (ivl t a) < iv_start (ivl t b)" if "a \<in> dom P" "b \<in> dom P" "iv_end (ivl s a) < iv_start (ivl s b)" for a b
    using order_kept [OF tree(1) sp(3) t(2) fin kids up] that tree(2) by blast
  have sub: "set (fcs_of s x) \<subseteq> dom P" and ord: "sorted_wrt (\<lambda>a b. iv_end (ivl s a) < iv_start (ivl s b)) (fcs_of s x)"
    using represents_fcs_of(1,2) [OF rep(1) x] by (simp_all add: interval_ordered_def)
  show ?thesis
    unfolding interval_ordered_def by (rule sorted_wrt_mono_rel [OF _ ord]) (use kept sub in blast)
qed

lemma add_block_represents:
  assumes rep: "represents s P" "dag_wf P" "card (dom P) < u64_max"
    and h: "h \<notin> dom P" "h \<noteq> NONE" and ps: "set ps \<subseteq> dom P" "sp \<in> set ps"
    and ms: "distinct ms" "set ms = {x. (\<exists>q\<in>set ps. anc P x q) \<and> \<not> anc P x sp}"
    and room: "leaf_room s sp \<or> root_room s sp"
  shows "\<exists>s'. add_block bias h sp ms s = Some (Inr s') \<and> represents s' (P(h \<mapsto> ps)) \<and>
    rs_reindex_root s' = rs_reindex_root s \<and> ivl s' ORIGIN = ivl s ORIGIN"
proof -
  note tree = represents_tree [OF rep(1)]
  have fin: "finite (dom (rs_map s))" "finite (dom P)"
    using dag_finite [OF rep(2)] tree(2) by simp_all
  have sp: "sp \<in> dom P" "sp \<in> dom (rs_map s)" and hs: "h \<notin> dom (rs_map s)"
    using ps h tree(2) by auto
  note shape = tree_fits(1) [OF tree(1) fin(1)]
  obtain iv n g where g: "add_tree_block bias DEFAULT_REINDEX_SLACK h sp s = Some (Inr (with_intervals (add_leaf s sp h iv n) g))"
      "reach_tree (with_intervals (add_leaf s sp h iv n) g)" "g ORIGIN = ivl s ORIGIN"
    using add_tree_block_total [OF tree(1) fin(1) _ sp(2) hs h(2) room, of bias DEFAULT_REINDEX_SLACK] rep(3) tree(2) by force
  define t where "t = with_intervals (add_leaf s sp h iv n) g"
  have dom_t: "dom (rs_map t) = insert h (dom P)"
    using sp(2) tree(2) by (simp add: t_def)
  have tt: "tanc t a b \<longleftrightarrow> (if b = h then a = h \<or> tanc s a sp else tanc s a b)" for a b
    using leaf_tanc [OF shape sp(2) hs] by (simp add: t_def)
  have leaf: "tanc s h b \<longleftrightarrow> b = h" for b
    using tanc_first [of s h b] hs by (auto simp: children_of_def split: option.splits)
  define F where "F = fcs_of t"
  have F: "F x = (if x = h then [] else fcs_of s x)" for x
    using fcs_add_leaf [OF sp(2) hs] by (simp add: F_def t_def)
  have ord: "interval_ordered t (F x)" if "x \<in> dom P" for x
    using leaf_keeps_order [OF rep(1) fin(2) sp(1) h t_def g(2) [folded t_def] that] that h(1) by (auto simp: F)
  have msP: "set ms \<subseteq> dom P"
    using ms(2) anc_dom [OF rep(2)] ps(1) by blast
  have apart_m: "set (F m) \<subseteq> dom (rs_map t) \<and> interval_ordered t (F m) \<and> (\<forall>x\<in>set (F m). \<not> tanc t x h \<and> \<not> tanc t h x)" if m: "m \<in> set ms" for m
  proof -
    have mP: "m \<in> dom P" "\<not> anc P m sp" "m \<noteq> h"
      using m msP ms(2) h(1) by auto
    note r = represents_fcs_of [OF rep(1) mP(1)]
    have "\<not> tanc s x sp" if "x \<in> set (fcs_of s m)" for x
      using r(3) [OF sp(1)] mP(2) that by blast
    moreover have "x \<noteq> h" if "x \<in> set (fcs_of s m)" for x
      using r(1) that h(1) by blast
    ultimately show ?thesis
      using ord [OF mP(1)] r(1) mP(3) leaf by (auto simp: F tt dom_t)
  qed
  obtain G where G: "add_dag_block h (with_fcs t F) ms = Some (Inr (with_fcs t G))" "\<forall>x. x \<notin> set ms \<longrightarrow> G x = F x"
      "\<forall>m\<in>set ms. set (G m) = insert h (set (F m)) \<and> interval_ordered t (G m)"
    using add_dag_block_total [of t h ms F] g(2) [folded t_def] ms(1) msP apart_m dom_t by blast
  let ?P = "P(h \<mapsto> ps)"
  have hps: "h \<notin> set ps"
    using ps(1) h(1) by blast
  note anc' = anc_insert_new [OF h(1) hps rep(2) ps(1)]
  have Gset: "set (G x) = (if x = h then {} else set (fcs_of s x) \<union> (if x \<in> set ms then {h} else {}))" for x
  proof -
    have "h \<notin> set ms"
      using msP h(1) by blast
    then show ?thesis
      using G(2,3) F by (cases "x \<in> set ms") auto
  qed
  have answers: "anc ?P x y \<longleftrightarrow> tanc t x y \<or> (\<exists>f\<in>set (G x). tanc t f y)" if x: "x \<in> insert h (dom P)" and y: "y \<in> insert h (dom P)" for x y
  proof (cases "x = h")
    case True
    have "\<not> anc P h b" if "b \<in> dom P" for b
      using anc_dom [OF rep(2) _ that] h(1) by blast
    then show ?thesis
      using True y Gset ps(1) leaf by (auto simp: anc' tt)
  next
    case False
    then have xP: "x \<in> dom P"
      using x by simp
    note r = represents_fcs_of [OF rep(1) xP]
    show ?thesis
    proof (cases "y = h")
      case True
      have "h \<noteq> f" if "f \<in> set (fcs_of s x)" for f
        using r(1) that h(1) by blast
      then have "(\<exists>f\<in>set (G x). tanc t f y) \<longleftrightarrow> x \<in> set ms \<or> (\<exists>f\<in>set (fcs_of s x). tanc s f sp)"
        using True False by (auto simp: Gset tt)
      moreover have "anc ?P x y \<longleftrightarrow> x \<in> set ms \<or> anc P x sp"
        using True False ms(2) ps(2) by (auto simp: anc')
      ultimately show ?thesis
        using r(3) [OF sp(1)] True False by (auto simp: tt)
    next
      case neq: False
      then have "y \<in> dom P"
        using y by simp
      then show ?thesis
        using r(3) False neq leaf by (auto simp: Gset tt anc')
    qed
  qed
  have "represents (with_fcs t G) ?P"
    unfolding represents_iff
  proof (intro conjI ballI)
    show "reach_tree (with_fcs t G)" "dom (rs_map (with_fcs t G)) = dom ?P"
      using g(2) dom_t by (simp_all add: t_def)
    fix x assume "x \<in> dom ?P"
    then have x: "x \<in> insert h (dom P)"
      by simp
    have fx: "fcs_of (with_fcs t G) x = G x"
      using x dom_t by simp
    show "set (fcs_of (with_fcs t G) x) \<subseteq> dom ?P"
      using x represents_fcs_of(1) [OF rep(1), of x] unfolding fx Gset by auto
    have "interval_ordered t (G x)"
    proof (cases "x \<in> set ms")
      case False
      then have "G x = F x"
        using G(2) by blast
      then show ?thesis
        using ord [of x] x F [of h] by (cases "x = h") (auto simp: interval_ordered_def)
    qed (use G(3) in blast)
    then show "interval_ordered (with_fcs t G) (fcs_of (with_fcs t G) x)"
      unfolding fx by (simp add: interval_ordered_def)
    fix y assume "y \<in> dom ?P"
    then show "anc ?P x y \<longleftrightarrow> tanc (with_fcs t G) x y \<or> (\<exists>f\<in>set (fcs_of (with_fcs t G) x). tanc (with_fcs t G) f y)"
      using answers [OF x, of y] unfolding fx by simp
  qed
  moreover have "add_block bias h sp ms s = Some (Inr (with_fcs t G))"
    using g(1) G(1) with_own_fcs [of t] by (simp add: add_block_def F_def t_def)
  moreover have "ORIGIN \<in> dom (rs_map (add_leaf s sp h iv n))"
    using tree(1) sp(2) by (simp add: reach_tree_def)
  then have "ivl (with_fcs t G) ORIGIN = ivl s ORIGIN"
    using g(3) by (simp add: t_def)
  ultimately show ?thesis
    by (simp add: t_def)
qed

end
