(* ===== verification/Dag_Properties.thy ===== *)
theory Dag_Properties
  imports Ghostdag_Growth Reach_Represents
begin

text \<open>
  What the DAG layer guarantees: the reachability index answers ancestry and keeps doing so when blocks are added, the
  subtree layout of a reindexing ends, and GHOSTDAG returns, selects the heaviest parent, colours greedily and keeps
  every blue set a \<open>k\<close>-cluster. A small DAG of a genesis block and one block above it shows that the hypotheses can hold.
\<close>

section \<open>A small index and its DAG\<close>

definition sample_genesis :: hash64 where
  "sample_genesis = Hash64 (replicate HASH64_SIZE 1)"

definition sample_block :: hash64 where
  "sample_block = Hash64 (replicate HASH64_SIZE 2)"

definition sample_relations :: relations where
  "sample_relations = [ORIGIN \<mapsto> [], sample_genesis \<mapsto> [ORIGIN]]"

definition sample_index :: reachability_store where
  "sample_index = \<lparr>rs_map = [ORIGIN \<mapsto> \<lparr>rc_children = [sample_genesis], rc_parent = NONE, rc_interval = maximal_interval,
       rc_height = 0, rc_future_covering_set = []\<rparr>,
     sample_genesis \<mapsto> \<lparr>rc_children = [], rc_parent = ORIGIN, rc_interval = interval_new 1 (2 ^ 63),
       rc_height = 1, rc_future_covering_set = []\<rparr>], rs_reindex_root = Some ORIGIN\<rparr>"

lemma sample_hashes [simp]:
  "sample_genesis \<noteq> ORIGIN" "ORIGIN \<noteq> sample_genesis" "sample_genesis \<noteq> NONE" "NONE \<noteq> sample_genesis"
  "sample_block \<noteq> ORIGIN" "ORIGIN \<noteq> sample_block" "sample_block \<noteq> NONE" "sample_block \<noteq> sample_genesis" "sample_genesis \<noteq> sample_block"
  by (simp_all add: sample_genesis_def sample_block_def ORIGIN_def NONE_def HASH64_SIZE_def replicate_eq_replicate)

lemma sample_dom: "dom (rs_map sample_index) = {ORIGIN, sample_genesis}" "dom sample_relations = {ORIGIN, sample_genesis}"
  by (auto simp: sample_index_def sample_relations_def)

lemma sample_tree: "tree_of sample_index = {(ORIGIN, sample_genesis)}"
  by (auto simp: tree_of_def sample_index_def split: if_splits)

lemma sample_tanc: "tanc sample_index a b \<longleftrightarrow> a = b \<or> (a = ORIGIN \<and> b = sample_genesis)"
  by (simp add: tanc_def sample_tree rtrancl_insert) auto

lemma sample_anc: "anc sample_relations a b \<longleftrightarrow> a = b \<or> (a = ORIGIN \<and> b = sample_genesis)"
proof -
  have "parent_of sample_relations = {(ORIGIN, sample_genesis)}"
    by (auto simp: parent_of_def sample_relations_def split: if_splits)
  then show ?thesis
    by (simp add: anc_def rtrancl_insert) auto
qed

lemma sample_ivl: "ivl sample_index ORIGIN = maximal_interval" "ivl sample_index sample_genesis = interval_new 1 (2 ^ 63)"
  by (simp_all add: ivl_def sample_index_def)

lemma sample_represents: "represents sample_index sample_relations"
proof -
  have "reach_tree sample_index"
    unfolding reach_tree_def sample_dom sample_tanc
    by (auto simp: sample_ivl maximal_interval_def interval_new_def u64_max_def interval_ordered_def strictly_contains_def)
      (auto simp: sample_index_def sample_ivl [unfolded sample_index_def] ivl_def maximal_interval_def interval_new_def u64_max_def
        split: if_splits)
  then show ?thesis
    unfolding represents_def sample_dom sample_tanc sample_anc
    by (auto simp: sample_index_def interval_ordered_def split: if_splits)
qed

definition sample_header :: dag_header where
  "sample_header = \<lparr>dh_pow_algo_id = 3, dh_bits = 0x207fffff, dh_daa_score = 0, dh_palw_ticket_nullifier = NONE\<rparr>"

definition sample_dag_manager :: ghostdag_manager where
  "sample_dag_manager = \<lparr>gh_genesis_hash = sample_genesis, gh_k = 18,
     gh_ghostdag_store = [ORIGIN \<mapsto> origin_ghostdag_data, sample_genesis \<mapsto> genesis_ghostdag_data],
     gh_relations_store = sample_relations, gh_headers_store = [sample_genesis \<mapsto> sample_header],
     gh_reachability_service = sample_index, gh_level_work = 0, gh_palw_activation_daa_score = u64_max,
     gh_palw_compute_work_scale = 0, gh_palw_nullifier_store = None\<rparr>"

lemma sample_work: "calc_work (dh_bits sample_header) = 2"
  by (simp add: sample_header_def calc_work_def from_compact_target_bits_def Let_def)

lemma sample_fields [simp]:
  "gh_genesis_hash sample_dag_manager = sample_genesis" "gh_k sample_dag_manager = 18"
  "gh_relations_store sample_dag_manager = sample_relations" "gh_headers_store sample_dag_manager = [sample_genesis \<mapsto> sample_header]"
  "gh_reachability_service sample_dag_manager = sample_index" "gh_level_work sample_dag_manager = 0"
  "gh_ghostdag_store sample_dag_manager = [ORIGIN \<mapsto> origin_ghostdag_data, sample_genesis \<mapsto> genesis_ghostdag_data]"
  "gh_palw_activation_daa_score sample_dag_manager = u64_max" "gh_palw_nullifier_store sample_dag_manager = None"
  by (simp_all add: sample_dag_manager_def)

lemma sample_reachable: "dag_reachable sample_dag_manager"
  by (rule dag_reachable.genesis) (use sample_represents in \<open>simp add: genesis_state_def u16_max_def sample_relations_def\<close>)

lemma sample_inert: "inert_network sample_dag_manager"
  using sample_work by (auto simp: inert_network_def sample_dom u64_max_def sample_header_def split: if_splits)

lemma sample_parents: "parents_ok sample_dag_manager [sample_genesis]" "windows_ok sample_dag_manager"
  by (auto simp: parents_ok_def windows_ok_def sample_dom)

lemma sample_grows: "work_grows sample_dag_manager"
  using inert_invariant [OF sample_reachable sample_inert] by blast

lemma sample_dag: "dag_wf sample_relations"
  using stores_facts(1) [of sample_dag_manager] inert_invariant [OF sample_reachable sample_inert] by simp

section \<open>The index\<close>

text \<open>With the reindex root at the origin there is room for every block.\<close>

lemma origin_root_room:
  assumes tree: "reach_tree s" and fin: "finite (dom (rs_map s))" and root: "rs_reindex_root s = Some ORIGIN"
    and iv: "ivl s ORIGIN = maximal_interval" and size: "card (dom (rs_map s)) + 2 \<le> u64_max" and p: "p \<in> dom (rs_map s)"
  shows "root_room s p"
proof -
  note shape = tree_fits(1) [OF tree fin]
  have o: "ORIGIN \<in> dom (rs_map s)" "tanc s ORIGIN p"
    using tree p by (simp_all add: reach_tree_def)
  have "subtree_size s ORIGIN \<le> card (dom (rs_map s))"
    using subtree_size_le [OF shape o(1)] .
  then show ?thesis
    using o root iv size by (auto simp: root_room_def maximal_interval_def interval_new_def)
qed

text \<open>C23. The reachability query answers ancestry. On an index that represents the relations of a DAG, asking whether a
  block is an ancestor of another returns, without an error or an abort, whether a path of parents leads from the second to the first.\<close>

theorem reachability_query_is_ancestry:
  assumes "represents s P" "a \<in> dom P" "b \<in> dom P"
  shows "dag_ancestor s a b = Some (anc P a b)"
  using assms by (rule dag_ancestor_service)

theorem reachability_query_is_ancestry_witness:
  "represents sample_index sample_relations \<and> dag_ancestor sample_index ORIGIN sample_genesis = Some True \<and>
    dag_ancestor sample_index sample_genesis ORIGIN = Some False"
  using reachability_query_is_ancestry [OF sample_represents, of ORIGIN sample_genesis]
    reachability_query_is_ancestry [OF sample_represents, of sample_genesis ORIGIN] sample_represents
  by (simp add: sample_dom sample_anc)

text \<open>C13. Adding a block keeps the index right. From an index that represents the relations, a new block with its selected
  parent and its mergeset is added without an error or an abort, and the result represents the relations with the
  new block, whether the leaf fits after its siblings or intervals are laid out again. It suffices that the selected
  parent has space left, or is below the reindex root and the root has room for one more block.\<close>

theorem add_block_keeps_the_index:
  assumes "represents s P" "dag_wf P" "card (dom P) < u64_max" "h \<notin> dom P" "h \<noteq> NONE" "set ps \<subseteq> dom P" "sp \<in> set ps"
    "distinct ms" "set ms = mergeset_of P sp ps" "leaf_room s sp \<or> root_room s sp"
  shows "\<exists>s'. add_block bias h sp ms s = Some (Inr s') \<and> represents s' (P(h \<mapsto> ps)) \<and>
    rs_reindex_root s' = rs_reindex_root s \<and> ivl s' ORIGIN = ivl s ORIGIN"
  using add_block_represents assms unfolding mergeset_of_def by blast

lemma sample_room: "root_room sample_index sample_genesis"
  by (rule origin_root_room) (use represents_tree(1) [OF sample_represents] in
    \<open>simp_all add: sample_dom sample_ivl u64_max_def, simp add: sample_index_def\<close>)

theorem add_block_keeps_the_index_witness:
  "\<exists>s'. add_block (\<lambda>_ _ _. 0) sample_block sample_genesis [] sample_index = Some (Inr s') \<and>
    represents s' (sample_relations(sample_block \<mapsto> [sample_genesis])) \<and>
    rs_reindex_root s' = rs_reindex_root sample_index \<and> ivl s' ORIGIN = maximal_interval"
  using add_block_keeps_the_index [OF sample_represents sample_dag, of sample_block "[sample_genesis]" sample_genesis "[]"
      "\<lambda>_ _ _. 0"] sample_room
  by (simp add: sample_dom sample_ivl u64_max_def mergeset_of_def)

text \<open>C24. Laying out a subtree ends and is right. For a block whose interval has room for its subtree, the counting of subtree
  sizes and the propagation of intervals return; the sizes found are the numbers of blocks of the subtrees; afterwards
  the children of every block of the subtree have non-empty intervals, in order, disjoint and strictly inside that of
  the block; and nothing but intervals of strict descendants has changed, however the biases are rounded.\<close>

theorem subtree_layout_ends:
  assumes "tree_shape s" "card (dom (rs_map s)) \<le> u64_max" "b \<in> dom (rs_map s)" "0 < iv_start (ivl s b)" "iv_end (ivl s b) < u64_max"
    "iv_start (ivl s b) + subtree_size s b \<le> iv_end (ivl s b) + 1"
  shows "\<exists>g sizes. propagate_interval bias b (s, []) = Some (Inr (with_intervals s g, sizes)) \<and>
    (\<forall>x\<in>subtree s b. hm_get sizes x = Some (card (subtree s x))) \<and> laid_out s g b \<and>
    (\<forall>x. x \<notin> subtree s b \<or> x = b \<longrightarrow> g x = ivl s x)"
proof -
  have "sizes_ok s []"
    by (simp add: sizes_ok_def)
  then obtain g sizes where g: "propagate_interval bias b (with_intervals s (ivl s), []) = Some (Inr (with_intervals s g, sizes))"
      "\<forall>x\<in>subtree s b. hm_get sizes x = Some (subtree_size s x)" "laid_out s g b" "\<forall>x. x \<notin> subtree s b \<or> x = b \<longrightarrow> g x = ivl s x"
    using propagate_interval_total [OF assms(1-3), of "ivl s" "[]" bias] assms(4-6) by (auto simp: roomy_def)
  then show ?thesis
    unfolding with_own_intervals subtree_size_def by blast
qed

theorem subtree_layout_ends_witness:
  "\<exists>g sizes. propagate_interval (\<lambda>_ _ _. 0) ORIGIN (sample_index, []) = Some (Inr (with_intervals sample_index g, sizes)) \<and>
    laid_out sample_index g ORIGIN \<and> g ORIGIN = maximal_interval"
proof -
  have tree: "reach_tree sample_index" "finite (dom (rs_map sample_index))"
    using represents_tree(1) [OF sample_represents] by (simp_all add: sample_dom)
  have "subtree sample_index ORIGIN = {ORIGIN, sample_genesis}"
    by (auto simp: subtree_def sample_tanc)
  then have "subtree_size sample_index ORIGIN = 2"
    by (simp add: subtree_size_def)
  then show ?thesis
    using subtree_layout_ends [OF tree_fits(1) [OF tree], of ORIGIN "\<lambda>_ _ _. 0"]
    by (auto simp: sample_dom sample_ivl maximal_interval_def interval_new_def u64_max_def)
qed

section \<open>GHOSTDAG\<close>

text \<open>C25. The search for the mergeset ends and finds it. With an index that represents the relations, parents that are known
  and a selected parent none of the others is an ancestor of, the breadth-first search returns, and what it returns is, without
  repetition, the set of blocks in the past of the new block that are not in the past of the selected parent.\<close>

theorem mergeset_search_ends:
  assumes "dag_wf (gh_relations_store gm)" "represents (gh_reachability_service gm) (gh_relations_store gm)"
    "sp \<in> dom (gh_relations_store gm)" "set parents \<subseteq> dom (gh_relations_store gm)"
    "\<And>p. p \<in> set parents \<Longrightarrow> p \<noteq> sp \<Longrightarrow> \<not> anc (gh_relations_store gm) p sp"
  shows "\<exists>ms. unordered_mergeset_without_selected_parent gm sp parents = Some ms \<and> distinct ms \<and>
    set ms = {x. (\<exists>p\<in>set parents. anc (gh_relations_store gm) x p) \<and> \<not> anc (gh_relations_store gm) x sp}"
  using mergeset_search_correct [OF assms(1,2) refl assms(3,4)] assms(5) unfolding mergeset_of_def by blast

theorem mergeset_search_ends_witness:
  "\<exists>ms. unordered_mergeset_without_selected_parent sample_dag_manager ORIGIN [sample_genesis] = Some ms \<and> set ms = {sample_genesis}"
proof -
  have "{x. anc sample_relations x sample_genesis \<and> \<not> anc sample_relations x ORIGIN} = {sample_genesis}"
    by (auto simp: sample_anc)
  then show ?thesis
    using mergeset_search_ends [of sample_dag_manager ORIGIN "[sample_genesis]"] sample_dag sample_represents
    by (auto simp: sample_dom sample_anc)
qed

text \<open>C12. The protocol returns and colours greedily. In every reachable state whose blue work grows along the parents, and for
  every antichain of known parents, \<open>ghostdag\<close> returns: the selected parent is the heaviest parent, ties broken by hash, and the blue set
  of the new block is the one that the specification makes from that of the selected parent by taking the
  mergeset in order and adding each block that leaves the set a \<open>k\<close>-cluster and whose ticket has not been used.\<close>

theorem ghostdag_returns_the_greedy_colouring:
  assumes "dag_reachable gm" "work_grows gm" "card (dom (gh_relations_store gm)) \<le> u64_max" "parents_ok gm ps" "windows_ok gm"
  shows "\<exists>d dsp L act seen. ghostdag gm ps = Some d \<and> gd_selected_parent d \<in> set ps \<and>
    gh_ghostdag_store gm (gd_selected_parent d) = Some dsp \<and>
    (\<forall>p\<in>set ps. \<forall>dp. gh_ghostdag_store gm p = Some dp \<longrightarrow> (gd_blue_work dp, p) \<le> (gd_blue_work dsp, gd_selected_parent d)) \<and>
    ordered_mergeset_without_selected_parent gm (gd_selected_parent d) ps = Some L \<and> distinct L \<and>
    set L = mergeset_of (gh_relations_store gm) (gd_selected_parent d) ps \<and>
    any_palw_active gm ps = Some act \<and> seed_nullifiers gm act (gd_selected_parent d) = Some seen \<and>
    blues (gh_ghostdag_store gm) d = greedy_blues (gh_relations_store gm) (gh_k gm) (block_ticket gm act) L (fst ` set seen)
      (insert (gd_selected_parent d) (blues (gh_ghostdag_store gm) dsp))"
proof -
  note ok = reachable_stores_ok [OF assms(1-3)]
  show ?thesis
  proof (rule ghostdag_correct [OF ok assms(2,4,5,3)])
    fix d sp dsp L act seen
    assume c: "ghostdag gm ps = Some d" "data_ok gm ps d" "gd_selected_parent d = sp" "gh_ghostdag_store gm sp = Some dsp"
      "\<And>p dp. p \<in> set ps \<Longrightarrow> gh_ghostdag_store gm p = Some dp \<Longrightarrow> (gd_blue_work dp, p) \<le> (gd_blue_work dsp, sp)"
      "ordered_mergeset_without_selected_parent gm sp ps = Some L" "set L = mergeset_of (gh_relations_store gm) sp ps" "distinct L"
      "any_palw_active gm ps = Some act" "seed_nullifiers gm act sp = Some seen"
      "blues (gh_ghostdag_store gm) d = greedy_blues (gh_relations_store gm) (gh_k gm) (block_ticket gm act) L (fst ` set seen)
         (insert sp (blues (gh_ghostdag_store gm) dsp))"
    have "sp \<in> set ps"
      using c(2,3) by (simp add: data_ok_def view_ok_def Let_def)
    then show ?thesis
      using c by blast
  qed
qed

theorem ghostdag_returns_the_greedy_colouring_witness:
  "\<exists>d. ghostdag sample_dag_manager [sample_genesis] = Some d \<and> gd_selected_parent d = sample_genesis"
  using ghostdag_returns_the_greedy_colouring [OF sample_reachable sample_grows _ sample_parents]
  by (auto simp: sample_dom u64_max_def)

text \<open>Adding a header: the step from one reachable state to the next.\<close>

lemma header_step:
  assumes "dag_reachable gm" "work_grows gm" "card (dom (gh_relations_store gm)) < u64_max" "parents_ok gm ps" "windows_ok gm"
    "h \<notin> dom (gh_relations_store gm)" "h \<noteq> NONE"
    "\<forall>p\<in>set ps. leaf_room (gh_reachability_service gm) p \<or> root_room (gh_reachability_service gm) p"
  shows "\<exists>d rs. ghostdag gm ps = Some d \<and>
    add_block bias h (gd_selected_parent d) (unordered_mergeset_of d) (gh_reachability_service gm) = Some (Inr rs) \<and>
    dag_reachable (insert_block gm h ps d hdr rs ws) \<and>
    (\<forall>a\<in>dom (gh_relations_store gm). dag_ancestor rs a h = Some (\<exists>p\<in>set ps. anc (gh_relations_store gm) a p))"
proof -
  let ?P = "gh_relations_store gm"
  have size: "card (dom ?P) \<le> u64_max"
    using assms(3) by simp
  note ok = reachable_stores_ok [OF assms(1,2) size]
  obtain d where d: "ghostdag gm ps = Some d" "data_ok gm ps d"
    using ghostdag_correct [OF ok assms(2,4,5) size] by metis
  have sp: "gd_selected_parent d \<in> set ps" "set (unordered_mergeset_of d) = mergeset_of ?P (gd_selected_parent d) ps"
    using d(2) by (simp_all add: data_ok_def view_ok_def Let_def)
  have dist: "distinct (unordered_mergeset_of d)"
    using d(2) by (auto simp: data_ok_def unordered_mergeset_of_def dest: in_set_dropD)
  have ps: "set ps \<subseteq> dom ?P"
    using assms(4) by (simp add: parents_ok_def)
  obtain rs where rs: "add_block bias h (gd_selected_parent d) (unordered_mergeset_of d) (gh_reachability_service gm) = Some (Inr rs)"
      "represents rs (?P(h \<mapsto> ps))"
    using add_block_represents [OF stores_facts(2,1) [OF ok] assms(3,6,7) ps sp(1) dist] sp(2) assms(8) sp(1)
    unfolding mergeset_of_def by blast
  have "dag_ancestor rs a h = Some (\<exists>p\<in>set ps. anc ?P a p)" if a: "a \<in> dom ?P" for a
  proof -
    have "h \<notin> set ps" "a \<noteq> h"
      using ps assms(6) a by blast+
    then show ?thesis
      using dag_ancestor_service [OF rs(2), of a h] a anc_insert_new [OF assms(6) _ stores_facts(1) [OF ok] ps] by simp
  qed
  then show ?thesis
    using d(1) rs dag_reachable.block [OF assms(1,6,7,4,5) d(1) rs(2)] by blast
qed

lemma sample_extended:
  "\<exists>d rs. dag_reachable (insert_block sample_dag_manager sample_block [sample_genesis] d sample_header rs None) \<and>
    inert_network (insert_block sample_dag_manager sample_block [sample_genesis] d sample_header rs None)"
proof -
  have "\<exists>d rs. dag_reachable (insert_block sample_dag_manager sample_block [sample_genesis] d sample_header rs None)"
    using header_step [OF sample_reachable sample_grows _ sample_parents, of sample_block "\<lambda>_ _ _. 0" sample_header None]
      sample_room by (auto simp: sample_dom u64_max_def)
  moreover have "inert_network (insert_block sample_dag_manager sample_block [sample_genesis] d sample_header rs None)" for d rs
    using sample_work unfolding inert_network_def insert_block_simps dom_fun_upd
    by (auto simp: sample_dom u64_max_def sample_header_def card_insert_if split: if_splits)
  ultimately show ?thesis
    by blast
qed

text \<open>C11. Blue sets are \<open>k\<close>-clusters with exact bookkeeping. In every reachable state of a network without the compute lane, for every stored
  block other than the roots: each block of its blue set has at most \<open>k\<close> blocks of the blue set in its anticone; the size that the walk along
  the selected chain reads for it is that number, and the walk returns; and the blue score is the size of the blue set.\<close>

theorem blue_sets_are_k_clusters:
  assumes "dag_reachable gm" "inert_network gm" "gh_ghostdag_store gm b = Some d" "b \<noteq> ORIGIN" "b \<noteq> gh_genesis_hash gm"
  defines "P \<equiv> gh_relations_store gm" and "B \<equiv> blues (gh_ghostdag_store gm) d"
  shows "(\<forall>x\<in>B. card {y \<in> B. anticone P x y} \<le> gh_k gm \<and> blue_anticone_size gm x d = Some (card {y \<in> B. anticone P x y})) \<and>
    gd_selected_parent d \<in> B \<and> gd_blue_score d = card B"
proof -
  have ok: "stores_ok gm"
    using inert_invariant [OF assms(1,2)] by blast
  obtain ps where ps: "P b = Some ps"
    using assms(3) reachable_doms [OF assms(1)] by (auto simp: P_def)
  have data: "data_ok gm ps d"
    using ok ps assms(3,4,5) unfolding stores_ok_def Let_def P_def by blast
  then have view: "view_ok gm ps d"
    by (simp add: data_ok_def)
  have "gd_selected_parent d \<in> set (gd_mergeset_blues d)"
    using view unfolding view_ok_def Let_def by (metis hd_in_set)
  then have "gd_selected_parent d \<in> B"
    unfolding B_def by (subst blues_unfold) simp
  then show ?thesis
    using data view unfolding data_ok_def view_ok_def Let_def k_cluster_def anticone_in_def P_def B_def by blast
qed

theorem blue_sets_are_k_clusters_witness:
  "\<exists>gm d. dag_reachable gm \<and> gh_ghostdag_store gm sample_block = Some d \<and> gd_selected_parent d \<in> blues (gh_ghostdag_store gm) d \<and>
    gd_blue_score d = card (blues (gh_ghostdag_store gm) d)"
proof -
  obtain d rs where gm: "dag_reachable (insert_block sample_dag_manager sample_block [sample_genesis] d sample_header rs None)"
      "inert_network (insert_block sample_dag_manager sample_block [sample_genesis] d sample_header rs None)"
    using sample_extended by blast
  show ?thesis
    using blue_sets_are_k_clusters [OF gm, of sample_block d] gm(1) by auto
qed

text \<open>C26. Blue work is the work of the blue set. In every reachable state of a network without the compute lane, the blue work of a stored
  block is the sum of the work of the blocks of its blue set, with no wrap-around; and it is greater than the blue work of each of its parents,
  so that ordering by blue work is a topological order.\<close>

theorem blue_work_is_the_work_of_the_blue_set:
  assumes "dag_reachable gm" "inert_network gm" "gh_ghostdag_store gm b = Some d"
  shows "gd_blue_work d = (\<Sum>x\<in>blues (gh_ghostdag_store gm) d. max (calc_work (dh_bits (the (gh_headers_store gm x)))) (gh_level_work gm)) \<and>
    (b \<noteq> ORIGIN \<longrightarrow> b \<noteq> gh_genesis_hash gm \<longrightarrow>
      (\<forall>ps p dp. gh_relations_store gm b = Some ps \<longrightarrow> p \<in> set ps \<longrightarrow> gh_ghostdag_store gm p = Some dp \<longrightarrow> gd_blue_work dp < gd_blue_work d))"
proof -
  have sums: "sums_work gm d" and grows: "work_grows gm"
    using inert_invariant [OF assms(1,2)] assms(3) by blast+
  show ?thesis
  proof
    show "gd_blue_work d = (\<Sum>x\<in>blues (gh_ghostdag_store gm) d. max (calc_work (dh_bits (the (gh_headers_store gm x)))) (gh_level_work gm))"
      using sums by (simp add: sums_work_def block_work_def)
  qed (use grows assms(3) in \<open>unfold work_grows_def, blast\<close>)
qed

text \<open>The growth of blue work along the parents is what the compute lane can break: a blue block of the lane adds nothing when
  the compute scale is zero, so that a block whose mergeset has only such blues ties with its selected parent.\<close>

lemma weightless_replica_adds_nothing:
  assumes "\<forall>b\<in>set bs. \<exists>h. gh_headers_store gm b = Some h \<and> dh_pow_algo_id h = POW_ALGO_ID_PALW_REPLICA"
    and "gh_palw_compute_work_scale gm = 0" "w < 2 ^ 576"
  shows "added_work gm True bs (v, w) = Some (v, w)"
  using assms(1)
proof (induction bs)
  case (Cons b bs)
  then obtain h where "gh_headers_store gm b = Some h" "dh_pow_algo_id h = POW_ALGO_ID_PALW_REPLICA"
    by auto
  then show ?case
    using Cons assms(2,3) by (simp add: normalize_palw_work_def sat_mul_def work_add_def)
qed simp

theorem blue_work_is_the_work_of_the_blue_set_witness:
  "\<exists>gm d. dag_reachable gm \<and> gh_ghostdag_store gm sample_block = Some d \<and> gd_blue_work genesis_ghostdag_data < gd_blue_work d"
proof -
  obtain d rs where gm: "dag_reachable (insert_block sample_dag_manager sample_block [sample_genesis] d sample_header rs None)"
      "inert_network (insert_block sample_dag_manager sample_block [sample_genesis] d sample_header rs None)"
    using sample_extended by blast
  have "gd_blue_work genesis_ghostdag_data < gd_blue_work d"
    using blue_work_is_the_work_of_the_blue_set [OF gm, of sample_block d] by simp
  then show ?thesis
    using gm(1) by (intro exI [of _ "insert_block sample_dag_manager sample_block [sample_genesis] d sample_header rs None"] exI [of _ d]) simp
qed

section \<open>Adding a header\<close>



end
