(* ===== verification/Spec2Isabelle.thy ===== *)
theory Spec2Isabelle
  imports Utxo_Algebra Bond_Registry Dns_Accumulator Dns_Finality Coinbase Signing_Guard Bond_Gates Palw_Premium Script_Multisig
    Dag_Properties
begin

text \<open>
  A model of the consensus rules that MISAKA-BTC/MisakaLLM adds to or inherits from rusty-kaspa, with the theorems
  that make them correct. Paths are relative to \<open>src/\<close>.

  \<^bold>\<open>The program.\<close> A node of a block DAG network with post-quantum (ML-DSA-87) signatures. Blocks carry UTXO
  transactions and point to several parents; GHOSTDAG colours the past of a block blue or red and orders it, asking a reachability
  index for ancestry; validators lock stake in bonds, attest to the selected chain once per epoch and are paid from the
  coinbase; the accumulated stake score gates deep reorganisations; a validator that signs two anchors of one epoch is
  slashed. The transaction validator admits transactions, the UTXO algebra applies them, the overlay rules of
  UTXO validation admit attestations, evidence and unbond requests, the coinbase pays miners and validators, the
  registry keeps the bonds along reorganisations, and the validator service signs.

  \<^bold>\<open>Theories.\<close>
  \<^item> \<open>Misaka_Prelude\<close>: machine integers, hash maps and the loops shared by all theories. The locale \<open>hash_map\<close>
    states what a map promises and \<open>reversible_log\<close> what an apply/revert pair promises; both are interpreted on
    the model's operations.
  \<^item> \<open>Byte_Codec\<close>: little-endian integers and length-prefixed reads.
  \<^item> \<open>Tx_Types\<close>: \<open>consensus/core/src/tx.rs\<close>, \<open>subnets.rs\<close>: outpoints, entries, transactions, subnetworks.
  \<^item> \<open>Utxo_Algebra\<close>: \<open>consensus/core/src/utxo\<close>: collections, diffs and views. Composition, difference and
    reversal of diffs are shown to be operations on the views they describe, and none of the algebra's errors occurs on
    valid diffs.
  \<^item> \<open>Script_Class\<close>: \<open>crypto/txscript/src/script_class.rs\<close>: the classes of scripts and the EVM deposit lock.
  \<^item> \<open>Tx_Mass\<close>: \<open>consensus/core/src/mass/mod.rs\<close>: sizes and masses, and the KIP-9 storage mass.
  \<^item> \<open>Tx_Validator\<close>, \<open>Tx_Acceptance\<close>: \<open>consensus/src/processes/transaction_validator\<close> and
    \<open>validate_transaction_in_utxo_context\<close>: every check with its rule error; accepted transactions conserve the
    supply, and validation never aborts on safe entries.
  \<^item> \<open>Tx_Encoding\<close>, \<open>Sighash\<close>: \<open>consensus/core/src/hashing\<close>: the bytes a transaction gives to its hash and to its id,
    and the transcript of the ML-DSA-87 signature hash. Both are injective on what they commit to.
  \<^item> \<open>Script_Stack\<close>, \<open>Script_Opcodes\<close>, \<open>Script_Engine\<close>: \<open>crypto/txscript/src\<close>: the data stack and its number codec, the
    opcode table and the parser, and the interpreter with every opcode, its limits, its signature-operation budget
    and its signature cache.
  \<^item> \<open>Script_Cache\<close>, \<open>Script_Spend\<close>, \<open>Script_Acceptance\<close>, \<open>Script_Multisig\<close>: what the interpreter does: a sound cache
    never changes a result, the standard script is unlocked by exactly one signature, every input of an accepted
    transaction carries such signatures, multisig accepts exactly ordered matchings, and no legacy signature opcode
    runs.
  \<^item> \<open>Dns_Types\<close>, \<open>Dns_Bonds\<close>, \<open>Dns_Rewards\<close>, \<open>Dns_Slashing\<close>, \<open>Dns_Epochs\<close>, \<open>Dns_Accumulator\<close>, \<open>Dns_Finality\<close>,
    \<open>Dns_Payloads\<close>: \<open>consensus/core/src/dns_finality.rs\<close> by topic: payloads and records, the bond view and its life
    cycle, reward splits and payouts, slashing distributions, epochs and anchors, the recomputation of
    tallies and what is paid from them, score, confirmation and reorganisation gate, stateless rules and digests.
  \<^item> \<open>Bond_Registry\<close>: \<open>reconcile_dns_bond_registry\<close> and \<open>canonicalize_dns_bond_statuses\<close> of the virtual processor:
    the persisted registry agrees with the in-memory view and is restored by a reorganisation and its inverse.
  \<^item> \<open>Bond_Gates\<close>: the overlay rules of \<open>utxo_validation.rs\<close>: eligibility of attestations in blocks and templates,
    genuineness of evidence, the lock on bond outputs, unbond requests, and the application of slashing effects.
  \<^item> \<open>Coinbase\<close>: \<open>consensus/src/processes/coinbase.rs\<close>: emission, payload and the coinbase transaction.
  \<^item> \<open>Palw_Premium\<close>: \<open>consensus/core/src/palw_premium.rs\<close>: the replica premium controller.
  \<^item> \<open>Signing_Guard\<close>: \<open>kaspa-pq-validator-core/src/lib.rs\<close> and the signing step of \<open>kaspad/src/validator_service.rs\<close>,
    as a step relation with restarts.
  \<^item> \<open>Block_Dag\<close>, \<open>Reach_Store\<close>, \<open>Reachability\<close>: the relations of a DAG, and \<open>consensus/src/processes/reachability\<close> with its
    in-memory store: intervals, tree and queries. \<open>represents\<close> says that an index describes relations; under it the
    queries are ancestry.
  \<^item> \<open>Reach_Reindex\<close>, \<open>Reach_Shape\<close>, \<open>Reach_Count\<close>, \<open>Reach_Layout\<close>, \<open>Reach_Insert\<close>, \<open>Reach_Represents\<close>: adding a block to the
    index, reindexing included. Reindexing changes a labelling of the tree by intervals; counting and layout end,
    lay out every subtree with room, and the covering sets stay ordered, so that adding a block keeps \<open>represents\<close>.
  \<^item> \<open>Ghostdag\<close>, \<open>Ghostdag_Mergeset\<close>, \<open>Ghostdag_Coloring\<close>, \<open>Ghostdag_Protocol\<close>, \<open>Ghostdag_Growth\<close>: \<open>consensus/src/processes/ghostdag\<close>:
    the search finds the mergeset, a candidate is coloured blue exactly when the blue set stays a \<open>k\<close>-cluster, the
    protocol returns the greedy colouring, and \<open>dag_reachable\<close> carries the invariant of the stores from block to block.
  \<^item> \<open>Dag_Properties\<close>: the properties of the DAG layer, over a sample DAG.
  \<^item> this theory: what spans signing, payload rules and slashing.

  \<^bold>\<open>Representation.\<close> A struct is a record, an enum a datatype, a byte an 8-bit word. An unsigned integer is a
  \<open>nat\<close> with its width written where it matters: saturating and checked operations are the functions of the prelude,
  a plain operation that overflows, a division by zero and a failed assertion are the value \<open>None\<close> (the release
  profile keeps overflow checks), and a cast that can truncate is explicit. A \<open>HashMap\<close> is an association list used only
  through the operations of the prelude, so no result depends on its order. A \<open>Result\<close> is a sum with the error on the
  left. Loops are structural recursion, folds or, where the code walks a store, partial functions whose value is \<open>None\<close> when they do
  not end, with theorems that they do; nothing uses fuel.

  \<^bold>\<open>Parameters.\<close> Hash functions, ML-DSA-87 verification and signing (\<open>dns_crypto\<close>), the borsh decoders
  (\<open>dns_codec\<close>), the hashes and the verification of scripts (\<open>script_crypto\<close>), the script engine and the stateless
  PALW check as the validator calls them (\<open>validator_externals\<close>; \<open>engine_externals\<close> puts the modelled engine there), the floating-point rounding of the interval bias
  (\<open>bias_rounding\<close>; the theorems hold for every rounding), the file system of the
  signing log and the funding of a transaction are functions the definitions take. Theorems that rely on them
  say so: non-slashability of honest validators assumes that digests do not collide on the preimages at hand and that no
  signature verifies that the key did not make.

  \<^bold>\<open>Assumptions of the DAG theorems.\<close> Colouring is correct where blue work grows from parent to child, which is proved for
  networks that have not activated the compute lane and can fail on others. Adding a block to the index is proved when the
  selected parent has space left or is below a reindex root with room; the path that reclaims slack outside the
  reindex root is modelled and has no theorem. The step relation allows any index that represents the new relations.

  \<^bold>\<open>Not modelled.\<close> Of the DAG layer, deletion from the index, the movement of the reindex root, block windows and difficulty
  adjustment; the overlay takes its selected chain and scores as arguments. The PALW lane beyond its premium and fee split, the EVM lane, pruning,
  the mempool, the wallet, and the stores, threads, network and RPC code around them are left out:
  the last group is input and output around the modelled rules, the others are subsystems of their own.
\<close>

section \<open>Honest validators are not slashed\<close>

definition attestation_preimage :: "hash64 \<Rightarrow> stake_attestation \<Rightarrow> bytes" where
  "attestation_preimage net a = stake_attestation_preimage (as_bytes net) (at_epoch a) (at_target_hash a)
     (at_target_daa_score a) (at_validator_set_commitment a) (at_bond_outpoint a)"

definition attestation_digest :: "dns_crypto \<Rightarrow> hash64 \<Rightarrow> stake_attestation \<Rightarrow> bytes" where
  "attestation_digest cr net a = cr_blake2b_256 cr ATTESTATION_MESSAGE_DOMAIN (attestation_preimage net a)"

text \<open>The fields of an attestation have their widths.\<close>

definition attestation_fits :: "stake_attestation \<Rightarrow> bool" where
  "attestation_fits a \<longleftrightarrow> at_epoch a \<le> u64_max \<and> at_target_daa_score a \<le> u64_max \<and> hash_fits (at_target_hash a) \<and>
     hash_fits (at_validator_set_commitment a) \<and> outpoint_fits (at_bond_outpoint a)"

lemma attestation_preimage_inject:
  assumes "attestation_preimage net a = attestation_preimage net b" "attestation_fits a" "attestation_fits b"
  shows "at_epoch a = at_epoch b \<and> at_target_hash a = at_target_hash b"
  using stake_attestation_preimage_inject [OF assms(1) [unfolded attestation_preimage_def]] assms(2,3)
  unfolding attestation_fits_def by blast

lemma signature_ok_digest:
  "attestation_signature_ok cr bond net a \<longleftrightarrow>
     cr_verify_mldsa87 cr (br_validator_pubkey bond) (attestation_digest cr net a) (at_signature a) ATTESTATION_MLDSA87_CONTEXT"
  by (simp add: attestation_signature_ok_def stake_attestation_message_def attestation_digest_def attestation_preimage_def)

text \<open>C2. A validator that signs through the guard cannot be slashed: whatever run of steps, failures and restarts
  it makes, a block that carries well-formed evidence against its bond fails the genuineness rule. The
  cryptographic assumptions are that only digests of attestations the validator broadcast verify under its
  key, and that the message hash has no collision among those attestations and the two of the evidence.\<close>

theorem guarded_validator_cannot_be_slashed:
  assumes run: "validator_reachable cr (as_bytes net) key op build s"
    and bond: "hm_get v op = Some bond"
    and unforgeable: "\<And>digest sig. cr_verify_mldsa87 cr (br_validator_pubkey bond) digest sig ATTESTATION_MLDSA87_CONTEXT \<Longrightarrow>
      digest \<in> attestation_digest cr net ` set (vp_broadcast s)"
    and no_collision: "inj_on (cr_blake2b_256 cr ATTESTATION_MESSAGE_DOMAIN)
      (attestation_preimage net ` ({ev_attestation_a ev, ev_attestation_b ev} \<union> set (vp_broadcast s)))"
    and fits: "\<forall>a\<in>{ev_attestation_a ev, ev_attestation_b ev} \<union> set (vp_broadcast s). attestation_fits a"
    and ev: "ev \<in> set (slashing_evidence_from_accepted_txs codec txs)" "ev_bond_outpoint ev = op"
      "check_slashing_evidence ev = Inr ()"
  shows "slashing_evidence_genuine codec cr txs v net daa win True \<noteq> Inr ()"
proof
  assume "slashing_evidence_genuine codec cr txs v net daa win True = Inr ()"
  then have ok: "evidence_attestation_ok cr bond net (ev_attestation_a ev)" "evidence_attestation_ok cr bond net (ev_attestation_b ev)"
    using ev(1,2) bond by (auto simp: genuine_iff check_one_evidence_iff)
  have signed: "\<exists>a'\<in>set (vp_broadcast s). at_epoch a' = at_epoch a \<and> at_target_hash a' = at_target_hash a"
    if a: "a \<in> {ev_attestation_a ev, ev_attestation_b ev}" "evidence_attestation_ok cr bond net a" for a
  proof -
    obtain a' where a': "a' \<in> set (vp_broadcast s)" "attestation_digest cr net a = attestation_digest cr net a'"
      using a(2) unforgeable unfolding evidence_attestation_ok_def signature_ok_digest by blast
    have "attestation_preimage net a = attestation_preimage net a'"
      using a'(2) unfolding attestation_digest_def by (rule inj_onD [OF no_collision]) (use a(1) a'(1) in auto)
    then show ?thesis
      using attestation_preimage_inject [of net a a'] fits a(1) a'(1) by (intro bexI [of _ a']) auto
  qed
  obtain a b where ab: "a \<in> set (vp_broadcast s)" "b \<in> set (vp_broadcast s)"
      "at_epoch a = at_epoch (ev_attestation_a ev)" "at_target_hash a = at_target_hash (ev_attestation_a ev)"
      "at_epoch b = at_epoch (ev_attestation_b ev)" "at_target_hash b = at_target_hash (ev_attestation_b ev)"
    using signed [OF _ ok(1)] signed [OF _ ok(2)] by auto
  then show False
    using broadcast_agree [OF run ab(1,2)] ev(3) by (simp add: slashing_evidence_iff)
qed

text \<open>The assumptions can hold together: the sample validator after it attested, with a scheme that accepts
  exactly its digest, and evidence that adds a forged attestation for another target.\<close>

definition strict_crypto :: dns_crypto where
  "strict_crypto = sample_crypto\<lparr>cr_verify_mldsa87 := (\<lambda>pk d sig ctx. d = attestation_digest sample_crypto (sample_hash 0) sample_broadcast)\<rparr>"

definition forged_evidence :: slashing_evidence_payload where
  "forged_evidence = \<lparr>ev_version = 1, ev_bond_outpoint = sample_outpoint 0, ev_attestation_a = sample_broadcast,
     ev_attestation_b = sample_broadcast\<lparr>at_target_hash := sample_hash 2\<rparr>, ev_reporter_reward_spk_payload = []\<rparr>"

theorem guarded_validator_cannot_be_slashed_witness:
  "slashing_evidence_genuine (sample_evidence_codec\<lparr>dec_evidence := (\<lambda>_. Some forged_evidence)\<rparr>) strict_crypto
     [sample_slashing_tx] [(sample_outpoint 0, sample_bond)] (sample_hash 0) 45 100 True \<noteq> Inr ()"
proof -
  let ?net = "sample_hash 0" and ?codec = "sample_evidence_codec\<lparr>dec_evidence := (\<lambda>_. Some forged_evidence)\<rparr>"
  obtain s where s: "validator_reachable strict_crypto (as_bytes ?net) sample_key (sample_outpoint 0) sample_build s"
      "vp_broadcast s = [sample_broadcast]"
    using sample_validator_run by blast
  have bond: "hm_get [(sample_outpoint 0, sample_bond)] (sample_outpoint 0) = Some sample_bond"
    by (simp add: hm_get_def)
  have digest: "attestation_digest strict_crypto ?net a = attestation_digest sample_crypto ?net a" for a
    by (simp add: attestation_digest_def strict_crypto_def)
  have unforgeable: "d \<in> attestation_digest strict_crypto ?net ` set (vp_broadcast s)"
    if "cr_verify_mldsa87 strict_crypto (br_validator_pubkey sample_bond) d sig ATTESTATION_MLDSA87_CONTEXT" for d sig
    using that by (simp add: s(2) digest) (simp add: strict_crypto_def)
  have inj: "inj_on (cr_blake2b_256 strict_crypto ATTESTATION_MESSAGE_DOMAIN) A" for A
    by (simp add: strict_crypto_def sample_crypto_def inj_on_def)
  have fits: "\<forall>a\<in>{ev_attestation_a forged_evidence, ev_attestation_b forged_evidence} \<union> set (vp_broadcast s). attestation_fits a"
    by (simp add: s(2) forged_evidence_def sample_broadcast_def attestation_fits_def hash_fits_def outpoint_fits_def
        sample_outpoint_def outpoint_def sample_hash_def hash64_default_def u64_max_def u32_max_def)
  have ev: "forged_evidence \<in> set (slashing_evidence_from_accepted_txs ?codec [sample_slashing_tx])"
    by (simp add: slashing_evidence_from_accepted_txs_def map_filter_simps sample_slashing_tx_def sample_dns_tx_def)
  have op: "ev_bond_outpoint forged_evidence = sample_outpoint 0" "check_slashing_evidence forged_evidence = Inr ()"
    by (simp_all add: slashing_evidence_iff attestation_wellformed_iff forged_evidence_def sample_broadcast_def DNS_PAYLOAD_VERSION_V1_def)
  show ?thesis
    by (rule guarded_validator_cannot_be_slashed [OF s(1) bond unforgeable inj fits ev op])
qed

end
